(* ===== verification/Prelude.thy ===== *)
theory Prelude
  imports Main "HOL-Library.Word" "HOL-Library.Multiset"
begin

text \<open>
  Shared vocabulary of the development: the machine types the Rust sources use, the
  saturating operations of the standard library on them, durations, and the generic
  lemmas on lists, options and finite maps that the component theories rely on.

  A \<open>std::time::Duration\<close> is a number of nanoseconds; the overflow of its
  64-bit seconds is stated where a component can come near it. A \<open>u64\<close> of
  milliseconds or a counter is a \<open>nat\<close>, with the saturation the source writes
  (\<open>saturating_add\<close>, \<open>saturating_sub\<close>) written out; a \<open>u32\<close> whose wrap-around
  matters is a \<open>32 word\<close>.
\<close>

named_theorems duration_simps \<open>unfolding of durations and timer constants\<close>
named_theorems step_inv \<open>preservation of an invariant by one operation\<close>
named_theorems op_defs \<open>definitions of the operations of a component\<close>

type_synonym u32 = "32 word"
type_synonym duration = nat
type_synonym instant = nat
type_synonym bytes = string

text \<open>\<open>Duration::from_millis\<close>.\<close>

definition ms :: "nat \<Rightarrow> duration" where
  "ms v = v * 1000000"

lemma ms_mono [simp]: "ms a \<le> ms b \<longleftrightarrow> a \<le> b"
  by (simp add: ms_def)

lemma ms_less [simp]: "ms a < ms b \<longleftrightarrow> a < b"
  by (simp add: ms_def)

lemma ms_eq [simp]: "ms a = ms b \<longleftrightarrow> a = b"
  by (simp add: ms_def)

lemma ms_0 [simp]: "ms 0 = 0"
  by (simp add: ms_def)

lemma ms_pos [simp]: "0 < ms a \<longleftrightarrow> 0 < a"
  by (simp add: ms_def)

lemma ms_mult: "ms a * k = ms (a * k)"
  by (simp add: ms_def)

lemma ms_add: "ms a + ms b = ms (a + b)"
  by (simp add: ms_def)

lemma ms_min: "min (ms a) (ms b) = ms (min a b)"
  by (simp add: min_def)

subsection \<open>Saturating arithmetic of the standard library\<close>

definition u64_max :: nat where
  "u64_max = 2 ^ 64 - 1"

definition saturating_add64 :: "nat \<Rightarrow> nat \<Rightarrow> nat" where
  "saturating_add64 a b = min (a + b) u64_max"

definition saturating_sub32 :: "u32 \<Rightarrow> u32 \<Rightarrow> u32" where
  "saturating_sub32 a b = (if a < b then 0 else a - b)"

definition saturating_pow32 :: "u32 \<Rightarrow> u32 \<Rightarrow> u32" where
  "saturating_pow32 b e = of_nat (min (unat b ^ unat e) (2 ^ 32 - 1))"

lemma unat_saturating_sub32: "unat (saturating_sub32 a b) = unat a - unat b"
  by (simp add: saturating_sub32_def word_less_nat_alt unat_sub_if' not_less)

lemma unat_saturating_pow32: "unat (saturating_pow32 b e) = min (unat b ^ unat e) (2 ^ 32 - 1)"
proof -
  have "min (unat b ^ unat e) (2 ^ 32 - 1) < (2::nat) ^ 32" by simp
  then show ?thesis by (simp add: saturating_pow32_def unat_of_nat take_bit_nat_eq_self)
qed

lemma unat_min32: "unat (min (a::u32) b) = min (unat a) (unat b)"
  by (simp add: min_def word_le_nat_alt)

lemma unat_Suc32: "unat (a + 1 :: u32) = (if a = - 1 then 0 else Suc (unat a))"
proof (cases "a = - 1")
  case True
  then show ?thesis by simp
next
  case False
  then have "1 + a \<noteq> 0" by (simp add: add_eq_0_iff)
  then have "unat (1 + a) = Suc (unat a)" by (rule unatSuc)
  with False show ?thesis by (simp add: add.commute)
qed

subsection \<open>Signed 64-bit arithmetic\<close>

text \<open>A plain \<open>+\<close> on \<open>i64\<close> as the release build computes it, and \<open>saturating_mul\<close>.\<close>

definition i64_add :: "int \<Rightarrow> int \<Rightarrow> int" where
  "i64_add a b = (a + b + 2 ^ 63) mod 2 ^ 64 - 2 ^ 63"

definition i64_saturating_mul :: "int \<Rightarrow> int \<Rightarrow> int" where
  "i64_saturating_mul a b = max (- (2 ^ 63)) (min (a * b) (2 ^ 63 - 1))"

lemma i64_add_eq: "- (2 ^ 63) \<le> a + b \<Longrightarrow> a + b < 2 ^ 63 \<Longrightarrow> i64_add a b = a + b"
  by (simp add: i64_add_def)

subsection \<open>Sums over finite maps\<close>

definition map_sum :: "('v \<Rightarrow> 'a::comm_monoid_add) \<Rightarrow> ('k \<rightharpoonup> 'v) \<Rightarrow> 'a" where
  "map_sum f m = (\<Sum>k\<in>dom m. f (the (m k)))"

lemma map_sum_empty [simp]: "map_sum f Map.empty = 0"
  by (simp add: map_sum_def)

lemma map_sum_upd_fresh:
  assumes "finite (dom m)" and "m k = None"
  shows "map_sum f (m(k \<mapsto> v)) = map_sum f m + f v"
proof -
  from assms(2) have k: "k \<notin> dom m" by (simp add: domIff)
  have "(\<Sum>x\<in>dom m. f (the ((m(k \<mapsto> v)) x))) = (\<Sum>x\<in>dom m. f (the (m x)))"
    by (rule sum.cong) (use k in auto)
  with assms(1) k show ?thesis
    by (simp add: map_sum_def add.commute)
qed

lemma map_sum_remove:
  assumes "finite (dom m)" and "m k = Some v"
  shows "map_sum f m = map_sum f (m(k := None)) + f v"
proof -
  have "(m(k := None))(k \<mapsto> v) = m" using assms(2) by auto
  with map_sum_upd_fresh [of "m(k := None)" k f v] assms(1) show ?thesis by simp
qed

lemma map_sum_upd_same:
  assumes "finite (dom m)" and "m k = Some v" and "f v' = f v"
  shows "map_sum f (m(k \<mapsto> v')) = map_sum f m"
proof -
  from assms(2,3) have "f (the ((m(k \<mapsto> v')) x)) = f (the (m x))" for x by simp
  moreover have "dom (m(k \<mapsto> v')) = dom m" using assms(2) by auto
  ultimately show ?thesis by (simp add: map_sum_def)
qed

lemma map_sum_member_le:
  fixes f :: "'v \<Rightarrow> nat"
  assumes "finite (dom m)" and "m k = Some v"
  shows "f v \<le> map_sum f m"
  using map_sum_remove [OF assms, of f] by simp

lemma map_sum_mono:
  fixes f g :: "'v \<Rightarrow> nat"
  assumes "\<And>k v. m k = Some v \<Longrightarrow> f v \<le> g v"
  shows "map_sum f m \<le> map_sum g m"
  unfolding map_sum_def by (rule sum_mono) (use assms in auto)

subsection \<open>Ordered maps\<close>

text \<open>A \<open>BTreeMap\<close> is its list of entries in ascending key order.\<close>

fun bt_insert :: "'k::linorder \<Rightarrow> 'v \<Rightarrow> ('k \<times> 'v) list \<Rightarrow> ('k \<times> 'v) list" where
  "bt_insert k v [] = [(k, v)]"
| "bt_insert k v ((k', v') # xs) =
     (if k < k' then (k, v) # (k', v') # xs
      else if k = k' then (k, v) # xs
      else (k', v') # bt_insert k v xs)"

definition bt_remove :: "'k \<Rightarrow> ('k \<times> 'v) list \<Rightarrow> ('k \<times> 'v) list" where
  "bt_remove k xs = filter (\<lambda>p. fst p \<noteq> k) xs"

definition bt_wf :: "('k::linorder \<times> 'v) list \<Rightarrow> bool" where
  "bt_wf xs = sorted_wrt (<) (map fst xs)"

lemma bt_insert_keys: "fst ` set (bt_insert k v xs) = insert k (fst ` set xs)"
  by (induction k v xs rule: bt_insert.induct) auto

lemma bt_wf_insert [simp]: "bt_wf xs \<Longrightarrow> bt_wf (bt_insert k v xs)"
proof (induction k v xs rule: bt_insert.induct)
  case (2 k v k' v' xs)
  have "\<forall>x\<in>set (map fst (bt_insert k v xs)). x = k \<or> x \<in> fst ` set xs"
    using bt_insert_keys [of k v xs] by auto
  with 2 show ?case unfolding bt_wf_def by fastforce
qed (simp add: bt_wf_def)

lemma bt_wf_remove [simp]: "bt_wf xs \<Longrightarrow> bt_wf (bt_remove k xs)"
  by (induction xs) (auto simp: bt_wf_def bt_remove_def)

lemma set_bt_remove [simp]: "set (bt_remove k xs) = {p \<in> set xs. fst p \<noteq> k}"
  by (auto simp: bt_remove_def)

lemma set_bt_insert: "bt_wf xs \<Longrightarrow> set (bt_insert k v xs) = insert (k, v) {p \<in> set xs. fst p \<noteq> k}"
  by (induction k v xs rule: bt_insert.induct) (auto simp: bt_wf_def)

lemma bt_wf_distinct: "bt_wf xs \<Longrightarrow> distinct (map fst xs)"
  by (simp add: bt_wf_def strict_sorted_iff)

lemma bt_wf_unique: "bt_wf xs \<Longrightarrow> (k, v) \<in> set xs \<Longrightarrow> (k, v') \<in> set xs \<Longrightarrow> v = v'"
  by (meson bt_wf_distinct eq_key_imp_eq_value)

end
