(* ===== verification/Retransmit.thy ===== *)
theory Retransmit
  imports Prelude
begin

text \<open>
  The crate \<open>sip-retransmit\<close>: the timer constants of RFC 3261 section 17
  (\<open>timers.rs\<close>), the retransmission classes, the schedule that says what a message
  waits before each rung and when it gives up, and the ladder, the cursor that walks a
  schedule (\<open>lib.rs\<close>). Both the transaction ladders (Timer A/E/G, the CANCEL
  sub-ladder) and the dialog-level ones ride these definitions.

  A rung is a \<open>u32\<close>; \<open>Ladder::advance\<close> adds one to it, which wraps at the last
  value as a release build does. The \<open>authored\<close> schedules (\<open>Exact\<close>, \<open>Once\<close>) are
  modelled too: the lemmas that need an RFC class say so.
\<close>

subsection \<open>Timer constants, in milliseconds\<close>

definition T1 :: nat where [duration_simps]: "T1 = 500"
definition T2 :: nat where [duration_simps]: "T2 = 4000"
definition T4 :: nat where [duration_simps]: "T4 = 5000"
definition TIMER_B :: nat where [duration_simps]: "TIMER_B = 64 * T1"
definition TRYING_BOUND :: nat where [duration_simps]: "TRYING_BOUND = 200"
definition TIMER_F :: nat where [duration_simps]: "TIMER_F = 64 * T1"
definition INVITE_INITIAL_TIMEOUT :: nat where
  [duration_simps]: "INVITE_INITIAL_TIMEOUT = 158000"
definition TIMER_H :: nat where [duration_simps]: "TIMER_H = 64 * T1"
definition TIMER_J :: nat where [duration_simps]: "TIMER_J = 64 * T1"
definition TIMER_I :: nat where [duration_simps]: "TIMER_I = T4"
definition TIMER_I_RELIABLE :: nat where [duration_simps]: "TIMER_I_RELIABLE = 0"
definition TIMER_D :: nat where [duration_simps]: "TIMER_D = 64 * T1"
definition TIMER_L :: nat where [duration_simps]: "TIMER_L = 64 * T1"
definition TIMER_M :: nat where [duration_simps]: "TIMER_M = 64 * T1"
definition TXN_SWEEP_INTERVAL :: nat where [duration_simps]: "TXN_SWEEP_INTERVAL = 10000"
definition TXN_MAX_AGE :: nat where [duration_simps]: "TXN_MAX_AGE = 35000"

definition MAX_DOUBLINGS :: u32 where "MAX_DOUBLINGS = 20"

subsection \<open>Classes, schedules and ladders\<close>

datatype retransmit_class =
    InviteClient
  | NonInviteClient
  | NonInviteProceeding
  | CancelClient
  | InviteServerFinal
  | Final2xx
  | ReliableProvisional

fun as_str :: "retransmit_class \<Rightarrow> string" where
  "as_str InviteClient = ''invite-client''"
| "as_str NonInviteClient = ''non-invite-client''"
| "as_str NonInviteProceeding = ''non-invite-proceeding''"
| "as_str CancelClient = ''cancel-client''"
| "as_str InviteServerFinal = ''invite-server-final''"
| "as_str Final2xx = ''final-2xx''"
| "as_str ReliableProvisional = ''reliable-provisional''"

fun class_cap :: "retransmit_class \<Rightarrow> duration option" where
  "class_cap InviteClient = None"
| "class_cap ReliableProvisional = None"
| "class_cap NonInviteClient = Some (ms T2)"
| "class_cap NonInviteProceeding = Some (ms T2)"
| "class_cap CancelClient = Some (ms T2)"
| "class_cap InviteServerFinal = Some (ms T2)"
| "class_cap Final2xx = Some (ms T2)"

fun class_give_up :: "retransmit_class \<Rightarrow> duration" where
  "class_give_up InviteClient = ms TIMER_B"
| "class_give_up NonInviteClient = ms TIMER_F"
| "class_give_up NonInviteProceeding = ms TIMER_F"
| "class_give_up CancelClient = ms (64 * T1)"
| "class_give_up Final2xx = ms (64 * T1)"
| "class_give_up ReliableProvisional = ms (64 * T1)"
| "class_give_up InviteServerFinal = ms TIMER_H"

definition class_interval :: "retransmit_class \<Rightarrow> u32 \<Rightarrow> duration" where
  "class_interval c n =
     (if c = NonInviteProceeding then ms T2
      else
        let doubled = ms T1 * unat (saturating_pow32 2 (min (saturating_sub32 n 1) MAX_DOUBLINGS))
        in case class_cap c of Some cap \<Rightarrow> min doubled cap | None \<Rightarrow> doubled)"

datatype pacing = Rfc retransmit_class | Exact "duration list" | Once

record schedule =
  pacing :: pacing
  give_up :: duration

definition schedule_rfc :: "retransmit_class \<Rightarrow> schedule" where
  "schedule_rfc c = \<lparr>pacing = Rfc c, give_up = class_give_up c\<rparr>"

definition with_give_up :: "schedule \<Rightarrow> duration \<Rightarrow> schedule" where
  "with_give_up s g = s\<lparr>give_up := g\<rparr>"

definition tightened_to :: "schedule \<Rightarrow> duration \<Rightarrow> schedule" where
  "tightened_to s deadline = s\<lparr>give_up := min (give_up s) deadline\<rparr>"

definition schedule_class :: "schedule \<Rightarrow> retransmit_class option" where
  "schedule_class s = (case pacing s of Rfc c \<Rightarrow> Some c | _ \<Rightarrow> None)"

text \<open>The gap before rung \<open>n\<close> of an authored list: \<open>gaps.get(n - 1)\<close>, else the last.\<close>

definition gap_at :: "duration list \<Rightarrow> nat \<Rightarrow> duration option" where
  "gap_at gaps i =
     (if i < length gaps then Some (gaps ! i)
      else if gaps = [] then None else Some (last gaps))"

definition interval :: "schedule \<Rightarrow> u32 \<Rightarrow> duration option" where
  "interval s n =
     (if n = 0 then None
      else case pacing s of
        Rfc c \<Rightarrow> Some (class_interval c n)
      | Exact gaps \<Rightarrow> gap_at gaps (unat n - 1)
      | Once \<Rightarrow> None)"

definition elapsed_at :: "schedule \<Rightarrow> u32 \<Rightarrow> duration" where
  "elapsed_at s n =
     sum_list (List.map_filter (\<lambda>k. interval s (of_nat k)) [1..<Suc (unat n)])"

definition schedule_exact :: "duration list \<Rightarrow> duration option \<Rightarrow> schedule" where
  "schedule_exact intervals g =
     \<lparr>pacing = Exact intervals,
      give_up = (case g of Some b \<Rightarrow> b | None \<Rightarrow> sum_list intervals)\<rparr>"

definition schedule_once :: schedule where
  "schedule_once = \<lparr>pacing = Once, give_up = 0\<rparr>"

record ladder =
  schedule :: schedule
  rung :: u32
  elapsed :: duration

definition armed :: "schedule \<Rightarrow> (ladder \<times> duration) option" where
  "armed s = (case interval s 1 of
      None \<Rightarrow> None
    | Some first \<Rightarrow> Some (\<lparr>schedule = s, rung = 1, elapsed = first\<rparr>, first))"

definition armed_rfc :: "retransmit_class \<Rightarrow> ladder \<times> duration" where
  "armed_rfc c =
     (let first = class_interval c 1
      in (\<lparr>schedule = schedule_rfc c, rung = 1, elapsed = first\<rparr>, first))"

definition at_rung :: "schedule \<Rightarrow> u32 \<Rightarrow> ladder" where
  "at_rung s r = \<lparr>schedule = s, rung = r, elapsed = elapsed_at s r\<rparr>"

definition advance :: "ladder \<Rightarrow> ladder \<times> duration option" where
  "advance l = (case interval (schedule l) (rung l + 1) of
      None \<Rightarrow> (l, None)
    | Some nxt \<Rightarrow>
        let landing = elapsed l + nxt
        in if landing \<ge> give_up (schedule l) then (l, None)
           else (l\<lparr>rung := rung l + 1, elapsed := landing\<rparr>, Some nxt))"

definition retarget :: "ladder \<Rightarrow> retransmit_class \<Rightarrow> ladder" where
  "retarget l c = l\<lparr>schedule := with_give_up (schedule_rfc c) (give_up (schedule l))\<rparr>"

definition ladder_class :: "ladder \<Rightarrow> retransmit_class option" where
  "ladder_class l = schedule_class (schedule l)"


subsection \<open>Walking a ladder\<close>

text \<open>
  The owner's loop over a ladder: each fire re-sends the message and asks the ladder for
  the next wait, until it says \<open>None\<close>. \<open>run_ladder\<close> is that loop with fuel, for any
  ladder-like step: the waits it was given, where it stands, and whether it gave up.
\<close>

fun run_ladder :: "('l \<Rightarrow> 'l \<times> duration option) \<Rightarrow> nat \<Rightarrow> 'l \<Rightarrow> duration list \<times> 'l \<times> bool" where
  "run_ladder step 0 l = ([], l, False)"
| "run_ladder step (Suc fuel) l =
     (case step l of
        (l', None) \<Rightarrow> ([], l', True)
      | (l', Some d) \<Rightarrow> (case run_ladder step fuel l' of (ds, r) \<Rightarrow> (d # ds, r)))"

lemma run_ladder_numeral [simp]:
  "run_ladder step (numeral k) l =
     (case step l of
        (l', None) \<Rightarrow> ([], l', True)
      | (l', Some d) \<Rightarrow> (case run_ladder step (pred_numeral k) l' of (ds, r) \<Rightarrow> (d # ds, r)))"
  by (simp add: numeral_eq_Suc)

text \<open>
  What a component driving re-sends relies on: every granted wait is at least a quantum,
  is added to the time spent, and lands before the bound, which never moves; a refused
  step changes nothing.
\<close>

locale retransmission =
  fixes step :: "'l \<Rightarrow> 'l \<times> duration option"
    and spent :: "'l \<Rightarrow> duration"
    and bound :: "'l \<Rightarrow> duration"
    and quantum :: duration
    and paced :: "'l \<Rightarrow> bool"
  assumes quantum_pos: "0 < quantum"
    and step_some: "paced l \<Longrightarrow> step l = (l', Some d) \<Longrightarrow>
      paced l' \<and> quantum \<le> d \<and> spent l' = spent l + d \<and> spent l' < bound l \<and> bound l' = bound l"
    and step_none: "step l = (l', None) \<Longrightarrow> l' = l"
begin

lemma run_ends:
  "paced l \<Longrightarrow> bound l - spent l < fuel * quantum \<Longrightarrow> snd (snd (run_ladder step fuel l))"
proof (induction fuel arbitrary: l)
  case 0
  then show ?case by simp
next
  case (Suc fuel)
  show ?case
  proof (cases "snd (step l)")
    case None
    then show ?thesis by (cases "step l") simp
  next
    case (Some d)
    then obtain l' where st: "step l = (l', Some d)" by (cases "step l") auto
    from step_some [OF Suc.prems(1) st]
    have l': "paced l'" "quantum \<le> d" "spent l' = spent l + d" "spent l' < bound l" "bound l' = bound l"
      by auto
    with Suc.prems(2) have "bound l' - spent l' < fuel * quantum" by simp
    with l'(1) have "snd (snd (run_ladder step fuel l'))" by (rule Suc.IH)
    with st show ?thesis by (cases "run_ladder step fuel l'") simp
  qed
qed

lemma run_within:
  "paced l \<Longrightarrow> spent l < bound l \<Longrightarrow> run_ladder step fuel l = (ds, l', ended) \<Longrightarrow>
    spent l' = spent l + sum_list ds \<and> spent l' < bound l \<and> bound l' = bound l \<and>
    length ds * quantum \<le> sum_list ds"
proof (induction fuel arbitrary: l ds)
  case 0
  then show ?case by simp
next
  case (Suc fuel)
  show ?case
  proof (cases "snd (step l)")
    case None
    then obtain l'' where "step l = (l'', None)" by (cases "step l") auto
    with Suc.prems step_none [OF this] show ?thesis by simp
  next
    case (Some d)
    then obtain m where st: "step l = (m, Some d)" by (cases "step l") auto
    from step_some [OF Suc.prems(1) st]
    have m: "paced m" "quantum \<le> d" "spent m = spent l + d" "spent m < bound m" "bound m = bound l"
      by auto
    from st Suc.prems(3) obtain es where es: "run_ladder step fuel m = (es, l', ended)" "ds = d # es"
      by (auto split: prod.splits)
    from Suc.IH [OF m(1) m(4) es(1)] m es(2) show ?thesis by auto
  qed
qed

end

subsection \<open>Intervals\<close>

lemma unat_MAX_DOUBLINGS [simp]: "unat MAX_DOUBLINGS = 20"
  by (simp add: MAX_DOUBLINGS_def)

lemma power2_le_2_20: "k \<le> 20 \<Longrightarrow> (2::nat) ^ k \<le> 2 ^ 20"
  by (rule power_increasing) simp_all

text \<open>The doubling of the source, on natural numbers: the shift never saturates.\<close>

lemma doubled_eq:
  "ms T1 * unat (saturating_pow32 2 (min (saturating_sub32 n 1) MAX_DOUBLINGS))
     = ms (T1 * 2 ^ min (unat n - 1) 20)"
proof -
  have "(2::nat) ^ min (unat n - 1) 20 \<le> 2 ^ 20" by (rule power2_le_2_20) simp
  then have "(2::nat) ^ min (unat n - 1) 20 \<le> 2 ^ 32 - 1" by simp
  then show ?thesis
    by (simp add: unat_saturating_pow32 unat_min32 unat_saturating_sub32 ms_mult min_absorb1)
qed

lemma class_interval_eq:
  "class_interval c n =
     (if c = NonInviteProceeding then ms T2
      else case class_cap c of
        Some cap \<Rightarrow> min (ms (T1 * 2 ^ min (unat n - 1) 20)) cap
      | None \<Rightarrow> ms (T1 * 2 ^ min (unat n - 1) 20))"
  by (simp only: class_interval_def doubled_eq Let_def)

lemma T1_le_doubled: "ms T1 \<le> ms (T1 * 2 ^ k)"
  by (simp add: T1_def)

lemma class_interval_ge_T1: "ms T1 \<le> class_interval c n"
  using T1_le_doubled [of "min (unat n - 1) 20"]
  by (cases c) (simp_all add: class_interval_eq T2_def T1_def)

lemma class_interval_le: "class_interval c n \<le> ms (T1 * 2 ^ 20)"
proof -
  have "(2::nat) ^ min (unat n - 1) 20 \<le> 2 ^ 20" by (rule power2_le_2_20) simp
  then have "ms (T1 * 2 ^ min (unat n - 1) 20) \<le> ms (T1 * 2 ^ 20)"
    by (simp add: T1_def)
  then show ?thesis
    by (cases c) (simp_all add: class_interval_eq T1_def T2_def min_le_iff_disj)
qed

lemma interval_rfc: "pacing s = Rfc c \<Longrightarrow> n \<noteq> 0 \<Longrightarrow> interval s n = Some (class_interval c n)"
  by (simp add: interval_def)

lemma interval_0 [simp]: "interval s 0 = None"
  by (simp add: interval_def)

lemma interval_rfc_ge:
  "pacing s = Rfc c \<Longrightarrow> interval s n = Some d \<Longrightarrow> ms T1 \<le> d"
  using class_interval_ge_T1 [of c n] by (auto simp: interval_def split: if_splits)

subsection \<open>The elapsed time at a rung\<close>

lemma elapsed_at_0 [simp]: "elapsed_at s 0 = 0"
  by (simp add: elapsed_at_def List.map_filter_def)

lemma map_filter_append1:
  "List.map_filter f (xs @ [x]) = List.map_filter f xs @ (case f x of None \<Rightarrow> [] | Some y \<Rightarrow> [y])"
  by (simp add: List.map_filter_def split: option.splits)

lemma elapsed_at_Suc:
  assumes "n \<noteq> - 1"
  shows "elapsed_at s (n + 1) = elapsed_at s n + (case interval s (n + 1) of None \<Rightarrow> 0 | Some d \<Rightarrow> d)"
proof -
  from assms have u: "unat (n + 1) = Suc (unat n)" by (simp add: unat_Suc32)
  have "(of_nat (Suc (unat n)) :: u32) = of_nat (unat n) + 1" by (simp only: of_nat_Suc add.commute)
  then have "(of_nat (Suc (unat n)) :: u32) = n + 1" by simp
  moreover have "[1..<Suc (unat (n + 1))] = [1..<Suc (unat n)] @ [Suc (unat n)]" by (simp add: u)
  ultimately show ?thesis
    by (simp add: elapsed_at_def map_filter_append1 split: option.splits del: upt_Suc of_nat_Suc)
qed

lemma elapsed_at_ge_interval:
  "interval s n = Some d \<Longrightarrow> d \<le> elapsed_at s n"
proof -
  assume d: "interval s n = Some d"
  then have n: "n \<noteq> 0" by (auto simp: interval_def split: if_splits)
  then have "n - 1 \<noteq> - 1" by simp
  from elapsed_at_Suc [OF this, of s] d show ?thesis by simp
qed

subsection \<open>Advancing\<close>

lemma advance_Some:
  "advance l = (l', Some d) \<longleftrightarrow>
     interval (schedule l) (rung l + 1) = Some d \<and> elapsed l + d < give_up (schedule l) \<and>
     l' = l\<lparr>rung := rung l + 1, elapsed := elapsed l + d\<rparr>"
  by (auto simp: advance_def Let_def split: option.splits if_splits)

lemma advance_None: "advance l = (l', None) \<Longrightarrow> l' = l"
  by (auto simp: advance_def Let_def split: option.splits if_splits)

definition rfc_paced :: "ladder \<Rightarrow> bool" where
  "rfc_paced l \<longleftrightarrow> schedule_class (schedule l) \<noteq> None"

interpretation rfc_ladder: retransmission advance elapsed "\<lambda>l. give_up (schedule l)" "ms T1" rfc_paced
proof (unfold_locales, goal_cases)
  case 1
  show ?case by (simp add: T1_def)
next
  case (2 l l' d)
  then show ?case
    by (auto simp: advance_Some rfc_paced_def schedule_class_def dest: interval_rfc_ge
        split: pacing.splits)
next
  case (3 l l')
  then show ?case by (rule advance_None)
qed


subsection \<open>Reachable ladders\<close>

text \<open>The ladders a schedule hands out: armed, then advanced.\<close>

inductive ladder_reach :: "schedule \<Rightarrow> ladder \<Rightarrow> bool" for s where
  reach_armed: "armed s = Some (l, d) \<Longrightarrow> ladder_reach s l"
| reach_advance: "ladder_reach s l \<Longrightarrow> advance l = (l', Some d) \<Longrightarrow> ladder_reach s l'"

text \<open>The same with the change of pace a provisional brings (\<open>retarget\<close>).\<close>

inductive repaced_reach :: "schedule \<Rightarrow> ladder \<Rightarrow> bool" for s where
  repaced_armed: "armed s = Some (l, d) \<Longrightarrow> repaced_reach s l"
| repaced_advance: "repaced_reach s l \<Longrightarrow> advance l = (l', Some d) \<Longrightarrow> repaced_reach s l'"
| repaced_retarget: "repaced_reach s l \<Longrightarrow> repaced_reach s (retarget l c)"

lemma advance_rung: "advance l = (l', Some d) \<Longrightarrow> rung l \<noteq> - 1"
  by (auto simp: advance_Some)

lemma armed_at_rung: "armed s = Some (l, d) \<Longrightarrow> l = at_rung s 1"
  using elapsed_at_Suc [of 0 s] by (auto simp: armed_def at_rung_def split: option.splits)

lemma advance_at_rung: "advance (at_rung s r) = (l', Some d) \<Longrightarrow> l' = at_rung s (r + 1)"
  using advance_rung [of "at_rung s r" l' d] elapsed_at_Suc [of r s]
  by (auto simp: advance_Some at_rung_def)

lemma unat_1_32 [simp]: "unat (1::u32) = 1"
  by simp

lemma rfc_reference_aux:
  assumes "class_cap c = Some cap"
  shows "min (ms (T1 * 2 ^ min k 20)) cap = min (ms (T1 * 2 ^ k)) cap"
proof (cases "k \<le> 20")
  case True
  then show ?thesis by (simp add: min_def)
next
  case False
  then have "(2::nat) ^ 20 \<le> 2 ^ k" by (intro power_increasing) simp_all
  moreover from assms have "cap = ms T2" by (cases c) simp_all
  ultimately show ?thesis using False by (simp add: min_def T1_def T2_def)
qed

text \<open>
  The pace RFC 3261 writes down, with no clamp on the exponent and no machine width: T1
  doubling from rung to rung, capped where the class has a cap; T2 throughout once
  proceeding.
\<close>

definition rfc_reference :: "retransmit_class \<Rightarrow> nat \<Rightarrow> duration" where
  "rfc_reference c n =
     (if c = NonInviteProceeding then ms T2
      else let d = ms (T1 * 2 ^ (n - 1))
           in case class_cap c of Some cap \<Rightarrow> min d cap | None \<Rightarrow> d)"

text \<open>The waits of each class in milliseconds, from the first send to the give-up.\<close>

fun rfc_waits :: "retransmit_class \<Rightarrow> nat list" where
  "rfc_waits InviteClient = [500, 1000, 2000, 4000, 8000, 16000]"
| "rfc_waits ReliableProvisional = [500, 1000, 2000, 4000, 8000, 16000]"
| "rfc_waits NonInviteProceeding = [4000, 4000, 4000, 4000, 4000, 4000, 4000]"
| "rfc_waits _ = [500, 1000, 2000, 4000, 4000, 4000, 4000, 4000, 4000, 4000]"

lemmas ladder_eval = armed_rfc_def armed_def advance_def interval_def class_interval_eq
  schedule_rfc_def schedule_class_def retarget_def with_give_up_def rfc_paced_def
  Let_def ms_add ms_min duration_simps

subsection \<open>Properties\<close>

text \<open>
  C37: a ladder walked from its first send stands exactly where \<open>Ladder::at_rung\<close>
  rebuilds it: the pair (schedule, rung) a replica carries is enough to resume the walk on
  another node with the same time spent.
\<close>

theorem ladder_rebuild:
  assumes "ladder_reach s l"
  shows "at_rung s (rung l) = l"
  using assms
proof (induction rule: ladder_reach.induct)
  case (reach_armed l d)
  then show ?case by (auto dest: armed_at_rung simp: at_rung_def)
next
  case (reach_advance l l' d)
  then have "l' = at_rung s (rung l + 1)" by (metis advance_at_rung)
  then show ?case by (simp add: at_rung_def)
qed

theorem ladder_rebuild_witness:
  "ladder_reach (schedule_rfc InviteClient)
     \<lparr>schedule = schedule_rfc InviteClient, rung = 2, elapsed = ms 1500\<rparr> \<and>
   at_rung (schedule_rfc InviteClient) 2
     = \<lparr>schedule = schedule_rfc InviteClient, rung = 2, elapsed = ms 1500\<rparr>"
proof -
  let ?s = "schedule_rfc InviteClient"
  have "ladder_reach ?s \<lparr>schedule = ?s, rung = 1, elapsed = ms 500\<rparr>"
    by (rule reach_armed [where d = "ms 500"]) (simp add: ladder_eval)
  then have r: "ladder_reach ?s \<lparr>schedule = ?s, rung = 2, elapsed = ms 1500\<rparr>"
    by (rule reach_advance [where d = "ms 1000"]) (simp add: ladder_eval)
  with ladder_rebuild [OF r] show ?thesis by simp
qed

text \<open>
  C40: every RFC-paced ladder gives up. Whatever rung it stands on and whatever its bound,
  the loop that re-sends until the ladder refuses takes at most one step more than the
  bound holds T1s.
\<close>

theorem rfc_ladder_gives_up:
  assumes "rfc_paced l"
  shows "snd (snd (run_ladder advance (Suc (give_up (schedule l) div ms T1)) l))"
proof (rule rfc_ladder.run_ends [OF assms])
  have "give_up (schedule l) < Suc (give_up (schedule l) div ms T1) * ms T1"
    using dividend_less_div_times [of "ms T1" "give_up (schedule l)"] by (simp add: T1_def)
  then show "give_up (schedule l) - elapsed l < Suc (give_up (schedule l) div ms T1) * ms T1"
    by simp
qed

theorem rfc_ladder_gives_up_witness:
  "rfc_paced (fst (armed_rfc CancelClient)) \<and>
   snd (snd (run_ladder advance 65 (fst (armed_rfc CancelClient))))"
proof -
  have p: "rfc_paced (fst (armed_rfc CancelClient))" by (simp add: ladder_eval)
  have "Suc (give_up (schedule (fst (armed_rfc CancelClient))) div ms T1) = 65"
    by (simp add: ladder_eval) (simp add: ms_def)
  with rfc_ladder_gives_up [OF p] p show ?thesis by simp
qed

text \<open>
  The complete re-send pattern of each class. From \<open>armed_rfc\<close> the waits granted
  are exactly those of RFC 3261 (Timers A, E, G) and RFC 3262, and after the last one the
  ladder refuses.
\<close>

theorem rfc_waits_exact:
  "case armed_rfc c of (l, first) \<Rightarrow>
     (case run_ladder advance 64 l of (ds, _, ended) \<Rightarrow> first # ds = map ms (rfc_waits c) \<and> ended)"
  by (cases c) (simp_all add: ladder_eval)

text \<open>
  the exponent clamp is unobservable. On every rung a ladder of the class can stand on
  (its elapsed time is below the class's give-up) the interval is the unclamped doubling of
  RFC 3261.
\<close>

theorem clamp_unobservable:
  assumes "n \<noteq> 0" and "elapsed_at (schedule_rfc c) n < class_give_up c"
  shows "interval (schedule_rfc c) n = Some (rfc_reference c (unat n))"
proof -
  have i: "interval (schedule_rfc c) n = Some (class_interval c n)"
    by (rule interval_rfc) (simp_all add: schedule_rfc_def assms(1))
  show ?thesis
  proof (cases "class_cap c")
    case None
    have "class_interval c n < ms 32000"
      using elapsed_at_ge_interval [OF i] assms(2) None
      by (cases c) (simp_all add: TIMER_B_def T1_def)
    with None have "(2::nat) ^ min (unat n - 1) 20 < 2 ^ 6"
      by (cases c) (simp_all add: class_interval_eq T1_def)
    then have "min (unat n - 1) 20 < 6" by (rule power_less_imp_less_exp [rotated]) simp
    with i None show ?thesis
      by (cases c) (simp_all add: class_interval_eq rfc_reference_def min_def split: if_splits)
  next
    case (Some cap)
    with i rfc_reference_aux [OF Some, of "unat n - 1"] show ?thesis
      by (simp add: class_interval_eq rfc_reference_def Let_def)
  qed
qed

theorem clamp_unobservable_witness:
  "elapsed_at (schedule_rfc InviteClient) 6 < class_give_up InviteClient \<and>
   interval (schedule_rfc InviteClient) 6 = Some (rfc_reference InviteClient 6)"
proof -
  have e: "elapsed_at (schedule_rfc InviteClient) 6 < class_give_up InviteClient"
    by (simp add: elapsed_at_def List.map_filter_def ladder_eval upt_rec)
  from clamp_unobservable [of 6, OF _ e] e show ?thesis by simp
qed

text \<open>
  A provisional changes the pace of a re-sending request, never its deadline. Over any
  interleaving of \<open>advance\<close> and \<open>retarget\<close> the bound stays the one it was armed with, and
  every re-send after the first lands before it.
\<close>

theorem repaced_keeps_deadline:
  assumes "repaced_reach s l"
  shows "give_up (schedule l) = give_up s \<and> (rung l = 1 \<or> elapsed l < give_up s)"
  using assms
  by (induction rule: repaced_reach.induct)
    (auto simp: armed_def advance_Some retarget_def with_give_up_def split: option.splits)

theorem repaced_keeps_deadline_witness:
  "repaced_reach (schedule_rfc NonInviteClient)
     \<lparr>schedule = schedule_rfc NonInviteProceeding, rung = 2, elapsed = ms 4500\<rparr> \<and>
   give_up (schedule_rfc NonInviteProceeding) = give_up (schedule_rfc NonInviteClient) \<and>
   ms 4500 < give_up (schedule_rfc NonInviteClient)"
proof -
  let ?s = "schedule_rfc NonInviteClient" and ?p = "schedule_rfc NonInviteProceeding"
  have "repaced_reach ?s \<lparr>schedule = ?s, rung = 1, elapsed = ms 500\<rparr>"
    by (rule repaced_armed [where d = "ms 500"]) (simp add: ladder_eval)
  then have "repaced_reach ?s (retarget \<lparr>schedule = ?s, rung = 1, elapsed = ms 500\<rparr> NonInviteProceeding)"
    by (rule repaced_retarget)
  then have r: "repaced_reach ?s \<lparr>schedule = ?p, rung = 2, elapsed = ms 4500\<rparr>"
    by (rule repaced_advance [where d = "ms 4000"]) (simp add: ladder_eval)
  from repaced_keeps_deadline [OF r] r show ?thesis by simp
qed

lemma sum_list_map_filter_le:
  assumes "\<And>x y. f x = Some y \<Longrightarrow> y \<le> (b::nat)"
  shows "sum_list (List.map_filter f xs) \<le> length xs * b"
  using assms
proof (induction xs)
  case (Cons x xs)
  then show ?case
    by (cases "f x") (auto simp: List.map_filter_def intro: add_mono le_trans)
qed (simp add: List.map_filter_def)

text \<open>
  no rung overflows a \<open>Duration\<close>. For every class and every value the 32-bit rung
  counter can hold, the elapsed time stays below the 2 to the 64 seconds a \<open>Duration\<close> holds.
\<close>

theorem elapsed_at_no_overflow:
  "elapsed_at (schedule_rfc c) n < 2 ^ 64 * 1000000000"
proof -
  have "elapsed_at (schedule_rfc c) n \<le> length [1..<Suc (unat n)] * ms (T1 * 2 ^ 20)"
    unfolding elapsed_at_def
    by (rule sum_list_map_filter_le)
      (auto simp only: interval_def schedule_rfc_def schedule.simps pacing.simps option.inject
        class_interval_le split: if_splits)
  also have "\<dots> \<le> 2 ^ 32 * ms (T1 * 2 ^ 20)"
    using unsigned_less [of n, where ?'a = nat] by (intro mult_right_mono) simp_all
  also have "\<dots> < 2 ^ 64 * 1000000000" by (simp add: ms_def T1_def)
  finally show ?thesis .
qed

end
