(* ===== verification/Call_Store.thy ===== *)
theory Call_Store
  imports Prelude "HOL-Library.List_Lexorder" "HOL-Library.Char_ord" "HOL-Library.Product_Lexorder"
begin

text \<open>
  The call-keyed limiter store of \<open>src/crates/call-limiter/src/store.rs\<close>: per call key the
  set of limiter entries it holds under a lease, per limiter id the live count, the fences
  and change markers that order late requests, and the three deadline heaps the sweep works
  from.

  The record \<open>inner\<close> is the source's \<open>Inner\<close>; every function of the module is one
  definition. A \<open>HashMap\<close> is a map, a \<open>BinaryHeap\<close> of \<open>Reverse\<close> pairs is the sorted
  list of its elements (peek is the head, push is \<open>insort\<close>), the clock reading \<open>now_ms\<close> is
  an argument. Instants are \<open>i64\<close> milliseconds and \<open>now_ms + lease_ms\<close> is the wrapping sum;
  the counters are unbounded.

  The abstract store \<open>astore\<close> below has one map from a key to what is known of it and no
  heaps, no counts and no pending deadlines: \<open>abs_store\<close> relates the two, and every operation
  of the store is shown to implement its abstract counterpart.
\<close>

section \<open>The data\<close>

record admit_entry =
  ae_id :: string
  ae_limit :: int

record heldset =
  hs_change :: nat
  hs_entries :: "admit_entry list"

definition heldset_default :: heldset where
  "heldset_default = \<lparr>hs_change = 0, hs_entries = []\<rparr>"

definition DEFAULT_LEASE_SEC :: int where
  "DEFAULT_LEASE_SEC = 120"

definition MAX_LEASE_SEC :: int where
  "MAX_LEASE_SEC = 86400"

record limiter_config =
  lease_sec :: int

datatype refresh_result = Extended | Reregistered | RefreshReleased | RefreshDropped

datatype fence = FenceReleased | FenceDropped nat

datatype admit_result =
    Admitted
  | Rejected string heldset
  | Superseded heldset
  | Released

record refreshed =
  refresh_outcome :: refresh_result
  refresh_held :: "heldset option"

record call_set =
  cs_entries :: "admit_entry list"
  cs_change :: nat
  lease_expires_at_ms :: int
  pending_deadline_ms :: int

type_synonym deadline_heap = "(int \<times> string) list"

record inner =
  calls :: "string \<rightharpoonup> call_set"
  counts :: "string \<rightharpoonup> int"
  fences :: "string \<rightharpoonup> fence \<times> int"
  set_deadlines :: deadline_heap
  markers :: "string \<rightharpoonup> nat \<times> int"
  marker_deadlines :: deadline_heap
  fence_deadlines :: deadline_heap
  lease_expired_calls :: nat
  lease_expired_holds :: nat
  reregistered_calls :: nat
  admit_reregistered_calls :: nat
  releases_total :: nat
  admits_refused_released :: nat

definition store_new :: inner where
  "store_new =
     \<lparr>calls = Map.empty, counts = Map.empty, fences = Map.empty, set_deadlines = [],
      markers = Map.empty, marker_deadlines = [], fence_deadlines = [],
      lease_expired_calls = 0, lease_expired_holds = 0, reregistered_calls = 0,
      admit_reregistered_calls = 0, releases_total = 0, admits_refused_released = 0\<rparr>"

definition lease_ms :: "limiter_config \<Rightarrow> int" where
  "lease_ms cfg = i64_saturating_mul (lease_sec cfg) 1000"

section \<open>The module's functions\<close>

text \<open>The loops over a list's ids: \<open>*entry(id).or_insert(0) += 1\<close> and its inverse.\<close>

definition count_up :: "admit_entry \<Rightarrow> (string \<rightharpoonup> int) \<Rightarrow> (string \<rightharpoonup> int)" where
  "count_up e m = m(ae_id e \<mapsto> (case m (ae_id e) of None \<Rightarrow> 0 | Some n \<Rightarrow> n) + 1)"

definition count_down :: "admit_entry \<Rightarrow> (string \<rightharpoonup> int) \<Rightarrow> (string \<rightharpoonup> int)" where
  "count_down e m = (case m (ae_id e) of
      None \<Rightarrow> m
    | Some n \<Rightarrow> if n - 1 \<le> 0 then m(ae_id e := None) else m(ae_id e \<mapsto> n - 1))"

definition count_of :: "(string \<rightharpoonup> int) \<Rightarrow> string \<Rightarrow> int" where
  "count_of m lid = (case m lid of None \<Rightarrow> 0 | Some n \<Rightarrow> n)"

definition known_change :: "inner \<Rightarrow> string \<Rightarrow> nat option" where
  "known_change i key = (case calls i key of
      Some s \<Rightarrow> Some (cs_change s)
    | None \<Rightarrow> (case fences i key of
        Some (FenceDropped change, _) \<Rightarrow> Some change
      | _ \<Rightarrow> map_option fst (markers i key)))"

definition held_set :: "inner \<Rightarrow> string \<Rightarrow> heldset" where
  "held_set i key =
     \<lparr>hs_change = (case known_change i key of None \<Rightarrow> 0 | Some c \<Rightarrow> c),
      hs_entries = (case calls i key of None \<Rightarrow> [] | Some s \<Rightarrow> cs_entries s)\<rparr>"

definition fence_key :: "string \<Rightarrow> fence \<Rightarrow> int \<Rightarrow> inner \<Rightarrow> inner" where
  "fence_key key why lapses_at i =
     i\<lparr>fences := (fences i)(key \<mapsto> (why, lapses_at)),
       fence_deadlines := insort (lapses_at, key) (fence_deadlines i)\<rparr>"

definition insert_set :: "string \<Rightarrow> admit_entry list \<Rightarrow> nat \<Rightarrow> int \<Rightarrow> inner \<Rightarrow> inner" where
  "insert_set key es change lease_expires i =
     i\<lparr>counts := fold count_up es (counts i),
       calls := (calls i)(key \<mapsto>
         \<lparr>cs_entries = es, cs_change = change, lease_expires_at_ms = lease_expires,
          pending_deadline_ms = lease_expires\<rparr>),
       set_deadlines := insort (lease_expires, key) (set_deadlines i)\<rparr>"

definition drop_set :: "string \<Rightarrow> inner \<Rightarrow> inner \<times> nat" where
  "drop_set key i = (case calls i key of
      None \<Rightarrow> (i, 0)
    | Some s \<Rightarrow>
        (i\<lparr>calls := (calls i)(key := None), counts := fold count_down (cs_entries s) (counts i)\<rparr>,
         length (cs_entries s)))"

definition reregisters :: "inner \<Rightarrow> string \<Rightarrow> admit_entry list \<Rightarrow> bool" where
  "reregisters i key es \<longleftrightarrow> es \<noteq> [] \<and> calls i key = None \<and> fences i key = None"

definition reregister :: "string \<Rightarrow> nat \<Rightarrow> admit_entry list \<Rightarrow> int \<Rightarrow> inner \<Rightarrow> inner" where
  "reregister key change es lease_expires i =
     (let change' = (case markers i key of None \<Rightarrow> change | Some (known, _) \<Rightarrow> max known change)
      in insert_set key es change' lease_expires (i\<lparr>markers := (markers i)(key := None)\<rparr>))"

definition record_change :: "string \<Rightarrow> nat \<Rightarrow> int \<Rightarrow> inner \<Rightarrow> inner" where
  "record_change key change lapses_at i = (case calls i key of
      Some s \<Rightarrow> i\<lparr>calls := (calls i)(key \<mapsto> s\<lparr>cs_change := change\<rparr>)\<rparr>
    | None \<Rightarrow> (case fences i key of
        Some (FenceDropped _, lapses) \<Rightarrow>
          i\<lparr>fences := (fences i)(key \<mapsto> (FenceDropped change, lapses))\<rparr>
      | _ \<Rightarrow>
          i\<lparr>markers := (markers i)(key \<mapsto> (change, lapses_at)),
            marker_deadlines := insort (lapses_at, key) (marker_deadlines i)\<rparr>))"

definition refresh_call :: "string \<Rightarrow> nat \<Rightarrow> admit_entry list \<Rightarrow> int \<Rightarrow> inner \<Rightarrow> inner \<times> refreshed" where
  "refresh_call key change es lease_expires i =
     (let answered = (\<lambda>i result. \<lparr>refresh_outcome = result, refresh_held = Some (held_set i key)\<rparr>)
      in case calls i key of
        Some s \<Rightarrow>
          (let i = i\<lparr>calls := (calls i)(key \<mapsto> s\<lparr>lease_expires_at_ms := lease_expires\<rparr>)\<rparr>
           in (i, answered i Extended))
      | None \<Rightarrow>
          if reregisters i key es then
            (let i = reregister key change es lease_expires i;
                 i = i\<lparr>reregistered_calls := reregistered_calls i + 1\<rparr>
             in (i, answered i Reregistered))
          else (case fences i key of
              Some (FenceDropped _, _) \<Rightarrow> (i, answered i RefreshDropped)
            | _ \<Rightarrow> (i, \<lparr>refresh_outcome = RefreshReleased, refresh_held = None\<rparr>)))"

text \<open>The sweep's three loops. The first re-queues a set whose lease moved past its deadline.\<close>

definition due :: "int \<Rightarrow> deadline_heap \<Rightarrow> nat" where
  "due now h = length (filter (\<lambda>(d, _). d \<le> now) h)"

lemma due_Nil [simp]: "due now [] = 0"
  by (simp add: due_def)

lemma due_Cons [simp]: "due now (x # h) = (if fst x \<le> now then Suc (due now h) else due now h)"
  by (auto simp: due_def)

lemma due_insort [simp]: "due now (insort x h) = (if fst x \<le> now then Suc (due now h) else due now h)"
  by (induction h) auto

lemma drop_set_heaps [simp]:
  "set_deadlines (fst (drop_set key i)) = set_deadlines i"
  "fence_deadlines (fst (drop_set key i)) = fence_deadlines i"
  "marker_deadlines (fst (drop_set key i)) = marker_deadlines i"
  "fences (fst (drop_set key i)) = fences i"
  "markers (fst (drop_set key i)) = markers i"
  by (simp_all add: drop_set_def split: option.splits)

function sweep_sets :: "int \<Rightarrow> inner \<Rightarrow> inner" where
  "sweep_sets now i = (case set_deadlines i of
      [] \<Rightarrow> i
    | (deadline, key) # rest \<Rightarrow>
        if deadline > now then i
        else
          (let i = i\<lparr>set_deadlines := rest\<rparr>
           in case calls i key of
             None \<Rightarrow> sweep_sets now i
           | Some s \<Rightarrow>
               if pending_deadline_ms s \<noteq> deadline then sweep_sets now i
               else if lease_expires_at_ms s > now then
                 sweep_sets now
                   (i\<lparr>calls := (calls i)(key \<mapsto> s\<lparr>pending_deadline_ms := lease_expires_at_ms s\<rparr>),
                      set_deadlines := insort (lease_expires_at_ms s, key) (set_deadlines i)\<rparr>)
               else
                 (case drop_set key i of (i, holds) \<Rightarrow>
                    sweep_sets now
                      (i\<lparr>lease_expired_calls := lease_expired_calls i + 1,
                         lease_expired_holds := lease_expired_holds i + holds\<rparr>))))"
  by pat_completeness auto
termination
proof (relation "measure (\<lambda>(now, i). due now (set_deadlines i))", goal_cases)
  case (5 now i x21 x22 deadline key x x2 i' holds)
  then have "i' = fst (drop_set key x)" by (metis fst_conv)
  with 5 show ?case by auto
qed auto

fun sweep_fences :: "int \<Rightarrow> deadline_heap \<Rightarrow> inner \<Rightarrow> inner" where
  "sweep_fences now [] i = i\<lparr>fence_deadlines := []\<rparr>"
| "sweep_fences now ((deadline, key) # rest) i =
     (if deadline > now then i\<lparr>fence_deadlines := (deadline, key) # rest\<rparr>
      else sweep_fences now rest
        (case fences i key of
           Some (_, at) \<Rightarrow> if at = deadline then i\<lparr>fences := (fences i)(key := None)\<rparr> else i
         | None \<Rightarrow> i))"

fun sweep_markers :: "int \<Rightarrow> deadline_heap \<Rightarrow> inner \<Rightarrow> inner" where
  "sweep_markers now [] i = i\<lparr>marker_deadlines := []\<rparr>"
| "sweep_markers now ((deadline, key) # rest) i =
     (if deadline > now then i\<lparr>marker_deadlines := (deadline, key) # rest\<rparr>
      else sweep_markers now rest
        (case markers i key of
           Some (_, at) \<Rightarrow> if at = deadline then i\<lparr>markers := (markers i)(key := None)\<rparr> else i
         | None \<Rightarrow> i))"

definition sweep :: "int \<Rightarrow> inner \<Rightarrow> inner" where
  "sweep now i =
     (let i = sweep_sets now i;
          i = sweep_fences now (fence_deadlines i) i
      in sweep_markers now (marker_deadlines i) i)"

declare sweep_sets.simps [simp del]

section \<open>The store's methods\<close>

definition release_fenced :: "inner \<Rightarrow> string \<Rightarrow> bool" where
  "release_fenced i key = (case fences i key of Some (why, _) \<Rightarrow> why = FenceReleased | None \<Rightarrow> False)"

text \<open>The cap check of one entry: the whole list's effect on its id, net of the call's own set.\<close>

definition over_cap :: "inner \<Rightarrow> (string \<rightharpoonup> int) \<Rightarrow> (string \<rightharpoonup> int) \<Rightarrow> admit_entry \<Rightarrow> bool" where
  "over_cap i own_old own_new e =
     (let old = count_of own_old (ae_id e);
          new = count_of own_new (ae_id e)
      in new > old \<and> count_of (counts i) (ae_id e) - old + new > ae_limit e)"

definition admit_carrying ::
  "limiter_config \<Rightarrow> int \<Rightarrow> string \<Rightarrow> nat \<Rightarrow> heldset \<Rightarrow> admit_entry list \<Rightarrow> bool \<Rightarrow> inner
     \<Rightarrow> inner \<times> admit_result" where
  "admit_carrying cfg now key change held es release_on_refusal i =
     (let i = sweep now i in
      if release_fenced i key then
        (i\<lparr>admits_refused_released := admits_refused_released i + 1\<rparr>, Released)
      else if (case known_change i key of Some known \<Rightarrow> change \<le> known | None \<Rightarrow> False) then
        (i, Superseded (held_set i key))
      else
        let i = (if reregisters i key (hs_entries held) then
                   (let i = reregister key (hs_change held) (hs_entries held) (i64_add now (lease_ms cfg)) i
                    in i\<lparr>admit_reregistered_calls := admit_reregistered_calls i + 1\<rparr>)
                 else i);
            own_old = (case calls i key of
                Some s \<Rightarrow> fold count_up (cs_entries s) Map.empty
              | None \<Rightarrow> Map.empty);
            own_new = fold count_up es Map.empty
        in case find (over_cap i own_old own_new) es of
          Some e \<Rightarrow>
            (let i = (if release_on_refusal then
                        (let i = fst (drop_set key i);
                             i = i\<lparr>markers := (markers i)(key := None)\<rparr>
                         in fence_key key (FenceDropped change) (i64_add now (lease_ms cfg)) i)
                      else record_change key change (i64_add now (lease_ms cfg)) i)
             in (i, Rejected (ae_id e) (held_set i key)))
        | None \<Rightarrow>
            (let i = fst (drop_set key i);
                 i = i\<lparr>fences := (fences i)(key := None)\<rparr>;
                 i = i\<lparr>markers := (markers i)(key := None)\<rparr>;
                 lease_expires = i64_add now (lease_ms cfg);
                 i = (if es = [] then fence_key key (FenceDropped change) lease_expires i
                      else insert_set key es change lease_expires i)
             in (i, Admitted)))"

definition admit ::
  "limiter_config \<Rightarrow> int \<Rightarrow> string \<Rightarrow> nat \<Rightarrow> admit_entry list \<Rightarrow> bool \<Rightarrow> inner \<Rightarrow> inner \<times> admit_result" where
  "admit cfg now key change es release_on_refusal i =
     admit_carrying cfg now key change heldset_default es release_on_refusal i"

definition release_key :: "int \<Rightarrow> string \<Rightarrow> inner \<Rightarrow> inner" where
  "release_key fenced_until key i =
     (let i = i\<lparr>releases_total := releases_total i + 1\<rparr>
      in if release_fenced i key then i
         else (let i = fst (drop_set key i);
                   i = i\<lparr>markers := (markers i)(key := None)\<rparr>
               in fence_key key FenceReleased fenced_until i))"

definition release :: "limiter_config \<Rightarrow> int \<Rightarrow> string list \<Rightarrow> inner \<Rightarrow> inner" where
  "release cfg now keys i = fold (release_key (i64_add now (lease_ms cfg))) keys (sweep now i)"

fun refresh_each :: "int \<Rightarrow> (string \<times> nat \<times> admit_entry list) list \<Rightarrow> inner \<Rightarrow> inner \<times> refreshed list" where
  "refresh_each lease_expires [] i = (i, [])"
| "refresh_each lease_expires ((key, change, es) # cs) i =
     (case refresh_call key change es lease_expires i of
        (i, r) \<Rightarrow> (case refresh_each lease_expires cs i of (i, rs) \<Rightarrow> (i, r # rs)))"

definition refresh_all ::
  "limiter_config \<Rightarrow> int \<Rightarrow> (string \<times> nat \<times> admit_entry list) list \<Rightarrow> inner \<Rightarrow> inner \<times> refreshed list" where
  "refresh_all cfg now cs i = refresh_each (i64_add now (lease_ms cfg)) cs (sweep now i)"

definition refresh ::
  "limiter_config \<Rightarrow> int \<Rightarrow> string \<Rightarrow> nat \<Rightarrow> admit_entry list \<Rightarrow> inner \<Rightarrow> inner \<times> refreshed" where
  "refresh cfg now key change es i =
     (case refresh_all cfg now [(key, change, es)] i of (i, rs) \<Rightarrow> (i, last rs))"

definition store_held_set :: "int \<Rightarrow> string \<Rightarrow> inner \<Rightarrow> inner \<times> heldset option" where
  "store_held_set now key i =
     (let i = sweep now i
      in if release_fenced i key then (i, None) else (i, Some (held_set i key)))"

definition sweep_now :: "int \<Rightarrow> inner \<Rightarrow> inner \<times> nat" where
  "sweep_now now i =
     (let before = lease_expired_calls i;
          i = sweep now i
      in (i, lease_expired_calls i - before))"

definition store_held :: "int \<Rightarrow> string \<Rightarrow> inner \<Rightarrow> inner \<times> int" where
  "store_held now lid i = (let i = sweep now i in (i, count_of (counts i) lid))"

definition store_calls :: "int \<Rightarrow> inner \<Rightarrow> inner \<times> nat" where
  "store_calls now i = (let i = sweep now i in (i, card (dom (calls i))))"

record store_stats =
  st_calls :: nat
  st_current_total :: int
  st_admission_max :: int
  st_fences :: nat
  st_change_markers :: nat
  st_lease_expired_calls :: nat
  st_lease_expired_holds :: nat
  st_reregistered_calls :: nat
  st_admit_reregistered_calls :: nat
  st_releases_total :: nat
  st_admits_refused_released :: nat

definition stats :: "int \<Rightarrow> inner \<Rightarrow> inner \<times> store_stats" where
  "stats now i =
     (let i = sweep now i
      in (i, \<lparr>st_calls = card (dom (calls i)),
              st_current_total = map_sum (\<lambda>n. n) (counts i),
              st_admission_max = (if counts i = Map.empty then 0 else Max (ran (counts i))),
              st_fences = card (dom (fences i)),
              st_change_markers = card (dom (markers i)),
              st_lease_expired_calls = lease_expired_calls i,
              st_lease_expired_holds = lease_expired_holds i,
              st_reregistered_calls = reregistered_calls i,
              st_admit_reregistered_calls = admit_reregistered_calls i,
              st_releases_total = releases_total i,
              st_admits_refused_released = admits_refused_released i\<rparr>))"

section \<open>The abstract store\<close>

text \<open>
  What the store promises, with no bookkeeping: a key is unknown, or it holds entries under
  a change number until a lease ends, or it is fenced, or only its last change number is
  remembered. Time passing (\<open>alive\<close>) forgets what lapsed; the live count of an id is the
  number of its occurrences in the sets held.
\<close>

datatype hold =
    Holds "admit_entry list" nat int
  | Fenced fence int
  | Marked nat int

type_synonym astore = "string \<rightharpoonup> hold"

fun expires :: "hold \<Rightarrow> int" where
  "expires (Holds _ _ t) = t"
| "expires (Fenced _ t) = t"
| "expires (Marked _ t) = t"

definition alive :: "int \<Rightarrow> astore \<Rightarrow> astore" where
  "alive now A = (\<lambda>k. case A k of Some h \<Rightarrow> if expires h > now then Some h else None | None \<Rightarrow> None)"

definition occ :: "admit_entry list \<Rightarrow> string \<Rightarrow> nat" where
  "occ es lid = length (filter (\<lambda>e. ae_id e = lid) es)"

fun entries_of :: "hold option \<Rightarrow> admit_entry list" where
  "entries_of (Some (Holds es _ _)) = es"
| "entries_of _ = []"

definition live :: "astore \<Rightarrow> string \<Rightarrow> nat" where
  "live A lid = map_sum (\<lambda>h. occ (entries_of (Some h)) lid) A"

fun number_of :: "hold option \<Rightarrow> nat option" where
  "number_of (Some (Holds _ c _)) = Some c"
| "number_of (Some (Fenced (FenceDropped c) _)) = Some c"
| "number_of (Some (Marked c _)) = Some c"
| "number_of _ = None"

definition states :: "astore \<Rightarrow> string \<Rightarrow> heldset" where
  "states A key =
     \<lparr>hs_change = (case number_of (A key) of None \<Rightarrow> 0 | Some c \<Rightarrow> c), hs_entries = entries_of (A key)\<rparr>"

text \<open>A set the store lost is taken from the caller, under the newest number known.\<close>

fun restored :: "nat \<Rightarrow> admit_entry list \<Rightarrow> int \<Rightarrow> hold option \<Rightarrow> hold option" where
  "restored c es t None = (if es = [] then None else Some (Holds es c t))"
| "restored c es t (Some (Marked k u)) =
     (if es = [] then Some (Marked k u) else Some (Holds es (max k c) t))"
| "restored c es t (Some h) = Some h"

fun renumbered :: "nat \<Rightarrow> int \<Rightarrow> hold option \<Rightarrow> hold" where
  "renumbered c t (Some (Holds es _ u)) = Holds es c u"
| "renumbered c t (Some (Fenced (FenceDropped _) u)) = Fenced (FenceDropped c) u"
| "renumbered c t _ = Marked c t"

definition refusing :: "astore \<Rightarrow> string \<Rightarrow> admit_entry list \<Rightarrow> admit_entry \<Rightarrow> bool" where
  "refusing A key es e =
     (let lid = ae_id e; old = occ (entries_of (A key)) lid; new = occ es lid
      in old < new \<and> int (live A lid - old + new) > ae_limit e)"

definition a_admit ::
  "int \<Rightarrow> int \<Rightarrow> string \<Rightarrow> nat \<Rightarrow> heldset \<Rightarrow> admit_entry list \<Rightarrow> bool \<Rightarrow> astore \<Rightarrow> astore \<times> admit_result" where
  "a_admit until now key c held es release_on_refusal A =
     (let A = alive now A in
      if \<exists>t. A key = Some (Fenced FenceReleased t) then (A, Released)
      else if \<exists>k. number_of (A key) = Some k \<and> c \<le> k then (A, Superseded (states A key))
      else
        let A = A(key := restored (hs_change held) (hs_entries held) until (A key))
        in case find (refusing A key es) es of
          Some e \<Rightarrow>
            (let A = A(key \<mapsto> if release_on_refusal then Fenced (FenceDropped c) until
                             else renumbered c until (A key))
             in (A, Rejected (ae_id e) (states A key)))
        | None \<Rightarrow>
            (A(key \<mapsto> if es = [] then Fenced (FenceDropped c) until else Holds es c until), Admitted))"

definition a_release :: "int \<Rightarrow> int \<Rightarrow> string list \<Rightarrow> astore \<Rightarrow> astore" where
  "a_release until now keys A =
     (let A = alive now A
      in (\<lambda>k. if k \<in> set keys \<and> (\<nexists>t. A k = Some (Fenced FenceReleased t))
              then Some (Fenced FenceReleased until) else A k))"

definition a_refresh ::
  "int \<Rightarrow> string \<Rightarrow> nat \<Rightarrow> admit_entry list \<Rightarrow> astore \<Rightarrow> astore \<times> refreshed" where
  "a_refresh until key c es A =
     (case A key of
        Some (Holds hes hc _) \<Rightarrow>
          (let A = A(key \<mapsto> Holds hes hc until)
           in (A, \<lparr>refresh_outcome = Extended, refresh_held = Some (states A key)\<rparr>))
      | Some (Fenced (FenceDropped _) _) \<Rightarrow>
          (A, \<lparr>refresh_outcome = RefreshDropped, refresh_held = Some (states A key)\<rparr>)
      | Some (Fenced FenceReleased _) \<Rightarrow> (A, \<lparr>refresh_outcome = RefreshReleased, refresh_held = None\<rparr>)
      | h \<Rightarrow>
          if es = [] then (A, \<lparr>refresh_outcome = RefreshReleased, refresh_held = None\<rparr>)
          else
            (let A = A(key := restored c es until h)
             in (A, \<lparr>refresh_outcome = Reregistered, refresh_held = Some (states A key)\<rparr>)))"

text \<open>The abstraction: what the three maps say of a key.\<close>

fun hold_of :: "call_set option \<Rightarrow> (fence \<times> int) option \<Rightarrow> (nat \<times> int) option \<Rightarrow> hold option" where
  "hold_of (Some s) _ _ = Some (Holds (cs_entries s) (cs_change s) (lease_expires_at_ms s))"
| "hold_of None (Some (why, t)) _ = Some (Fenced why t)"
| "hold_of None None (Some (c, t)) = Some (Marked c t)"
| "hold_of None None None = None"

definition abs_store :: "inner \<Rightarrow> astore" where
  "abs_store i = (\<lambda>key. hold_of (calls i key) (fences i key) (markers i key))"

section \<open>Counting\<close>

text \<open>The count map that holds exactly the positive values of \<open>f\<close>.\<close>

definition canon :: "(string \<Rightarrow> nat) \<Rightarrow> (string \<rightharpoonup> int)" where
  "canon f = (\<lambda>lid. if f lid = 0 then None else Some (int (f lid)))"

lemma count_of_canon [simp]: "count_of (canon f) lid = int (f lid)"
  by (simp add: count_of_def canon_def)

lemma occ_Nil [simp]: "occ [] lid = 0"
  by (simp add: occ_def)

lemma occ_Cons [simp]: "occ (e # es) lid = (if ae_id e = lid then Suc (occ es lid) else occ es lid)"
  by (simp add: occ_def)

lemma canon_0 [simp]: "canon (\<lambda>_. 0) = Map.empty"
  by (simp add: canon_def)

lemma count_up_canon: "count_up e (canon f) = canon (\<lambda>lid. f lid + occ [e] lid)"
  by (auto simp: count_up_def canon_def fun_eq_iff)

lemma fold_count_up: "fold count_up es (canon f) = canon (\<lambda>lid. f lid + occ es lid)"
proof (induction es arbitrary: f)
  case (Cons e es)
  then show ?case by (simp add: count_up_canon) (rule arg_cong [where f = canon], auto)
qed simp

lemma fold_count_up_empty: "fold count_up es Map.empty = canon (occ es)"
  using fold_count_up [of es "\<lambda>_. 0"] by simp

lemma count_down_canon: "0 < f (ae_id e) \<Longrightarrow> count_down e (canon f) = canon (\<lambda>lid. f lid - occ [e] lid)"
  by (auto simp: count_down_def canon_def fun_eq_iff)

lemma fold_count_down:
  "(\<And>lid. occ es lid \<le> f lid) \<Longrightarrow> fold count_down es (canon f) = canon (\<lambda>lid. f lid - occ es lid)"
proof (induction es arbitrary: f)
  case (Cons e es)
  from Cons.prems [of "ae_id e"] have "0 < f (ae_id e)" by simp
  moreover have "occ es lid \<le> f lid - occ [e] lid" for lid using Cons.prems [of lid] by auto
  ultimately show ?case
    by (simp add: count_down_canon Cons.IH) (rule arg_cong [where f = canon], auto)
qed simp

section \<open>The invariant\<close>

definition held_count :: "(string \<rightharpoonup> call_set) \<Rightarrow> string \<Rightarrow> nat" where
  "held_count m lid = map_sum (\<lambda>s. occ (cs_entries s) lid) m"

text \<open>
  Of the sets: every set has its pending deadline in the heap, at or before its lease, which
  is at most \<open>u\<close> (the latest lease the clock has yielded); no set is empty; the counts are the
  occurrences in the sets, an id nobody holds having no entry.
\<close>

definition sets_inv :: "int \<Rightarrow> inner \<Rightarrow> bool" where
  "sets_inv u i \<longleftrightarrow>
     finite (dom (calls i)) \<and> sorted (set_deadlines i) \<and>
     (\<forall>k s. calls i k = Some s \<longrightarrow>
        (pending_deadline_ms s, k) \<in> set (set_deadlines i) \<and>
        pending_deadline_ms s \<le> lease_expires_at_ms s \<and> lease_expires_at_ms s \<le> u \<and> cs_entries s \<noteq> []) \<and>
     counts i = canon (held_count (calls i))"

text \<open>Of the fences and the markers: each has its lapse instant in its heap.\<close>

definition heap_covers :: "(string \<rightharpoonup> 'a \<times> int) \<Rightarrow> deadline_heap \<Rightarrow> bool" where
  "heap_covers m h \<longleftrightarrow> sorted h \<and> (\<forall>k x t. m k = Some (x, t) \<longrightarrow> (t, k) \<in> set h)"

text \<open>A key is in one of the three maps at most.\<close>

definition exclusive :: "inner \<Rightarrow> bool" where
  "exclusive i \<longleftrightarrow>
     (\<forall>k. (calls i k \<noteq> None \<longrightarrow> fences i k = None \<and> markers i k = None) \<and>
          (fences i k \<noteq> None \<longrightarrow> markers i k = None))"

definition store_inv :: "int \<Rightarrow> inner \<Rightarrow> bool" where
  "store_inv u i \<longleftrightarrow>
     sets_inv u i \<and> heap_covers (fences i) (fence_deadlines i) \<and>
     heap_covers (markers i) (marker_deadlines i) \<and> exclusive i"

lemma held_count_upd:
  "finite (dom m) \<Longrightarrow> m k = None \<Longrightarrow> held_count (m(k \<mapsto> s)) = (\<lambda>lid. held_count m lid + occ (cs_entries s) lid)"
  by (simp add: held_count_def map_sum_upd_fresh fun_eq_iff)

lemma held_count_remove:
  "finite (dom m) \<Longrightarrow> m k = Some s \<Longrightarrow> held_count (m(k := None)) = (\<lambda>lid. held_count m lid - occ (cs_entries s) lid)"
  by (simp add: held_count_def map_sum_remove [of m k s] fun_eq_iff)

lemma held_count_same:
  "finite (dom m) \<Longrightarrow> m k = Some s \<Longrightarrow> cs_entries s' = cs_entries s \<Longrightarrow> held_count (m(k \<mapsto> s')) = held_count m"
  by (simp add: held_count_def map_sum_upd_same fun_eq_iff)

lemma occ_le_held_count:
  "finite (dom m) \<Longrightarrow> m k = Some s \<Longrightarrow> occ (cs_entries s) lid \<le> held_count m lid"
  unfolding held_count_def by (rule map_sum_member_le [where f = "\<lambda>s. occ (cs_entries s) lid"])

subsection \<open>The primitives keep the sets' invariant\<close>

lemma drop_set_counts:
  assumes "sets_inv u i" and "calls i k = Some s"
  shows "fold count_down (cs_entries s) (counts i) = canon (held_count ((calls i)(k := None)))"
  using assms fold_count_down [of "cs_entries s" "held_count (calls i)"]
  by (auto simp: sets_inv_def held_count_remove intro: occ_le_held_count)

lemma drop_set_sets_inv: "sets_inv u i \<Longrightarrow> sets_inv u (fst (drop_set k i))"
  using drop_set_counts [of u i k]
  by (auto simp: drop_set_def sets_inv_def split: option.splits)

lemma insert_set_sets_inv:
  assumes "sets_inv u i" and "calls i k = None" and "es \<noteq> []" and "u \<le> t"
  shows "sets_inv t (insert_set k es c t i)"
  using assms
  by (auto simp: insert_set_def sets_inv_def fold_count_up held_count_upd set_insort_key sorted_insort
      intro: order_trans)

lemma sets_inv_mono: "sets_inv u i \<Longrightarrow> u \<le> v \<Longrightarrow> sets_inv v i"
  by (fastforce simp: sets_inv_def)

lemma sets_inv_upd:
  assumes "sets_inv u i" and "calls i k = Some s"
    and "cs_entries s' = cs_entries s" and "pending_deadline_ms s' = pending_deadline_ms s"
    and "pending_deadline_ms s \<le> lease_expires_at_ms s'" and "lease_expires_at_ms s' \<le> v" and "u \<le> v"
  shows "sets_inv v (i\<lparr>calls := (calls i)(k \<mapsto> s')\<rparr>)"
proof -
  from assms(1) have "finite (dom (calls i))" by (simp add: sets_inv_def)
  from held_count_same [OF this assms(2,3)] assms show ?thesis
    by (fastforce simp: sets_inv_def)
qed

lemma sets_inv_frame:
  "calls j = calls i \<Longrightarrow> counts j = counts i \<Longrightarrow> set_deadlines j = set_deadlines i \<Longrightarrow> sets_inv u j = sets_inv u i"
  by (simp add: sets_inv_def)

lemma heap_covers_upd:
  "heap_covers m h \<Longrightarrow> heap_covers (m(k \<mapsto> (x, t))) (insort (t, k) h)"
  by (auto simp: heap_covers_def set_insort_key sorted_insort)

lemma heap_covers_keep:
  "heap_covers m h \<Longrightarrow> m k = Some (y, t) \<Longrightarrow> heap_covers (m(k \<mapsto> (x, t))) h"
  by (auto simp: heap_covers_def)

lemma heap_covers_del: "heap_covers m h \<Longrightarrow> heap_covers (m(k := None)) h"
  by (auto simp: heap_covers_def)

subsection \<open>The sweep\<close>

definition sets_view :: "(string \<rightharpoonup> call_set) \<Rightarrow> (string \<rightharpoonup> admit_entry list \<times> nat \<times> int)" where
  "sets_view m = (\<lambda>k. map_option (\<lambda>s. (cs_entries s, cs_change s, lease_expires_at_ms s)) (m k))"

definition lapsed :: "int \<Rightarrow> (string \<rightharpoonup> call_set) \<Rightarrow> string set" where
  "lapsed now m = {k. \<exists>s. m k = Some s \<and> lease_expires_at_ms s \<le> now}"

definition lapsed_holds :: "int \<Rightarrow> (string \<rightharpoonup> call_set) \<Rightarrow> nat" where
  "lapsed_holds now m = (\<Sum>k\<in>lapsed now m. length (cs_entries (the (m k))))"

text \<open>What the loop over the set deadlines does, from state \<open>i\<close> to state \<open>j\<close>.\<close>

definition swept :: "int \<Rightarrow> inner \<Rightarrow> inner \<Rightarrow> bool" where
  "swept now i j \<longleftrightarrow>
     sets_view (calls j) = sets_view (calls i |` (- lapsed now (calls i))) \<and>
     lease_expired_calls j = lease_expired_calls i + card (lapsed now (calls i)) \<and>
     lease_expired_holds j = lease_expired_holds i + lapsed_holds now (calls i) \<and>
     fences j = fences i \<and> fence_deadlines j = fence_deadlines i \<and>
     markers j = markers i \<and> marker_deadlines j = marker_deadlines i \<and>
     (\<forall>x\<in>set (set_deadlines j). now < fst x)"

lemma lapsed_finite: "finite (dom m) \<Longrightarrow> finite (lapsed now m)"
  by (rule finite_subset [of _ "dom m"]) (auto simp: lapsed_def)

lemma lapsed_upd_same:
  "m k = Some s \<Longrightarrow> lease_expires_at_ms s' = lease_expires_at_ms s \<Longrightarrow> lapsed now (m(k \<mapsto> s')) = lapsed now m"
  by (auto simp: lapsed_def)

lemma lapsed_remove:
  "m k = Some s \<Longrightarrow> lease_expires_at_ms s \<le> now \<Longrightarrow> lapsed now m = insert k (lapsed now (m(k := None)))"
  by (auto simp: lapsed_def)

lemma lapsed_holds_remove:
  assumes "finite (dom m)" and "m k = Some s" and "lease_expires_at_ms s \<le> now"
  shows "lapsed_holds now m = length (cs_entries s) + lapsed_holds now (m(k := None))"
proof -
  have "k \<notin> lapsed now (m(k := None))" by (simp add: lapsed_def)
  moreover have "finite (lapsed now (m(k := None)))" using assms(1) by (simp add: lapsed_finite)
  moreover have "(\<Sum>x\<in>lapsed now (m(k := None)). length (cs_entries (the (m x))))
      = (\<Sum>x\<in>lapsed now (m(k := None)). length (cs_entries (the ((m(k := None)) x))))"
    by (rule sum.cong) (auto simp: lapsed_def)
  ultimately show ?thesis
    using assms by (simp add: lapsed_holds_def lapsed_remove [of m k s now, OF assms(2,3)])
qed

lemma lapsed_holds_same:
  assumes "m k = Some s" "lease_expires_at_ms s' = lease_expires_at_ms s" "cs_entries s' = cs_entries s"
  shows "lapsed_holds now (m(k \<mapsto> s')) = lapsed_holds now m"
  unfolding lapsed_holds_def lapsed_upd_same [of m k s s', OF assms(1,2)]
  by (rule sum.cong) (use assms in auto)

lemma sweep_nothing_due:
  assumes "sets_inv u i" and "\<forall>x\<in>set (set_deadlines i). now < fst x"
  shows "swept now i i"
proof -
  have "lapsed now (calls i) = {}" using assms by (fastforce simp: lapsed_def sets_inv_def)
  moreover have "calls i |` UNIV = calls i" by (simp add: restrict_map_def)
  ultimately show ?thesis using assms(2) by (simp add: swept_def lapsed_holds_def)
qed

lemma sweep_stale_inv:
  assumes "sets_inv u i" and "set_deadlines i = (d, k) # rest"
    and "\<And>s. calls i k = Some s \<Longrightarrow> pending_deadline_ms s \<noteq> d"
  shows "sets_inv u (i\<lparr>set_deadlines := rest\<rparr>)"
  using assms by (fastforce simp: sets_inv_def)

lemma sweep_requeue_inv:
  assumes "sets_inv u i" and "set_deadlines i = (d, k) # rest" and "calls i k = Some s"
  shows "sets_inv u
    (i\<lparr>calls := (calls i)(k \<mapsto> s\<lparr>pending_deadline_ms := lease_expires_at_ms s\<rparr>),
       set_deadlines := insort (lease_expires_at_ms s, k) rest\<rparr>)"
proof -
  from assms(1) have "finite (dom (calls i))" by (simp add: sets_inv_def)
  from held_count_same [OF this assms(3)] assms show ?thesis
    by (fastforce simp: sets_inv_def set_insort_key sorted_insort)
qed

lemma sweep_drop_inv:
  assumes "sets_inv u i" and "set_deadlines i = (d, k) # rest" and "calls i k = Some s"
  shows "sets_inv u
    (i\<lparr>set_deadlines := rest, calls := (calls i)(k := None),
       counts := fold count_down (cs_entries s) (counts i)\<rparr>)"
  using assms drop_set_counts [OF assms(1,3)] by (fastforce simp: sets_inv_def)

lemma swept_requeue:
  assumes "calls i k = Some s"
  shows "swept now (i\<lparr>calls := (calls i)(k \<mapsto> s\<lparr>pending_deadline_ms := p\<rparr>), set_deadlines := h\<rparr>) j
    = swept now i j"
proof -
  let ?m = "(calls i)(k \<mapsto> s\<lparr>pending_deadline_ms := p\<rparr>)"
  have l: "lapsed now ?m = lapsed now (calls i)" by (rule lapsed_upd_same [of "calls i" k s, OF assms]) simp
  have h: "lapsed_holds now ?m = lapsed_holds now (calls i)"
    by (rule lapsed_holds_same [of "calls i" k s, OF assms]) simp_all
  have "sets_view (?m |` (- lapsed now (calls i))) = sets_view (calls i |` (- lapsed now (calls i)))"
    using assms by (auto simp: sets_view_def restrict_map_def fun_eq_iff)
  with l h show ?thesis by (simp add: swept_def)
qed

lemma swept_drop:
  assumes "finite (dom (calls i))" and "calls i k = Some s" and "lease_expires_at_ms s \<le> now"
    and "calls i' = (calls i)(k := None)"
    and "lease_expired_calls i' = lease_expired_calls i + 1"
    and "lease_expired_holds i' = lease_expired_holds i + length (cs_entries s)"
    and "fences i' = fences i \<and> fence_deadlines i' = fence_deadlines i \<and>
      markers i' = markers i \<and> marker_deadlines i' = marker_deadlines i"
    and "swept now i' j"
  shows "swept now i j"
proof -
  let ?m = "(calls i)(k := None)"
  have l: "lapsed now (calls i) = insert k (lapsed now ?m)" by (rule lapsed_remove) fact+
  have "k \<notin> lapsed now ?m" by (simp add: lapsed_def)
  with l assms(1) have "card (lapsed now (calls i)) = Suc (card (lapsed now ?m))"
    by (simp add: lapsed_finite)
  moreover have "calls i |` (- lapsed now (calls i)) = ?m |` (- lapsed now ?m)"
    using l by (auto simp: restrict_map_def fun_eq_iff)
  ultimately show ?thesis
    using assms(4-8) lapsed_holds_remove [of "calls i" k s now, OF assms(1-3)] by (simp add: swept_def)
qed

lemma sweep_sets_spec:
  "sets_inv u i \<Longrightarrow> sets_inv u (sweep_sets now i) \<and> swept now i (sweep_sets now i)"
proof (induction "due now (set_deadlines i)" arbitrary: i rule: less_induct)
  case less
  note inv = less.prems
  show ?case
  proof (cases "set_deadlines i")
    case Nil
    then have "sweep_sets now i = i" by (subst sweep_sets.simps) simp
    with inv Nil sweep_nothing_due [OF inv] show ?thesis by simp
  next
    case (Cons x rest)
    then obtain d k where h: "set_deadlines i = (d, k) # rest" by (cases x) auto
    show ?thesis
    proof (cases "now < d")
      case True
      with h have "sweep_sets now i = i" by (subst sweep_sets.simps) simp
      moreover have "\<forall>x\<in>set (set_deadlines i). now < fst x"
        using inv h True by (fastforce simp: sets_inv_def less_eq_prod_def)
      ultimately show ?thesis using inv sweep_nothing_due [OF inv] by simp
    next
      case False
      consider (stale) "\<And>s. calls i k = Some s \<Longrightarrow> pending_deadline_ms s \<noteq> d"
        | (requeue) s where "calls i k = Some s" "pending_deadline_ms s = d" "now < lease_expires_at_ms s"
        | (drop) s where "calls i k = Some s" "pending_deadline_ms s = d" "lease_expires_at_ms s \<le> now"
        by force
      then show ?thesis
      proof cases
        case stale
        let ?j = "i\<lparr>set_deadlines := rest\<rparr>"
        have "sweep_sets now i = sweep_sets now ?j"
          using h False stale by (subst sweep_sets.simps) (auto simp: Let_def split: option.splits)
        moreover have "swept now ?j = swept now i" by (simp add: swept_def fun_eq_iff)
        ultimately show ?thesis
          using less.hyps [of ?j] sweep_stale_inv [OF inv h stale] h False by simp
      next
        case (requeue s)
        let ?j = "i\<lparr>calls := (calls i)(k \<mapsto> s\<lparr>pending_deadline_ms := lease_expires_at_ms s\<rparr>),
                   set_deadlines := insort (lease_expires_at_ms s, k) rest\<rparr>"
        have "sweep_sets now i = sweep_sets now ?j"
          using h False requeue by (subst sweep_sets.simps) simp
        then show ?thesis
          using less.hyps [of ?j] sweep_requeue_inv [OF inv h requeue(1)] h False requeue
          by (simp add: swept_requeue)
      next
        case (drop s)
        let ?j = "i\<lparr>set_deadlines := rest, calls := (calls i)(k := None),
                   counts := fold count_down (cs_entries s) (counts i),
                   lease_expired_calls := lease_expired_calls i + 1,
                   lease_expired_holds := lease_expired_holds i + length (cs_entries s)\<rparr>"
        have e: "sweep_sets now i = sweep_sets now ?j"
          using h False drop by (subst sweep_sets.simps) (simp add: drop_set_def)
        have j: "sets_inv u ?j"
          using sweep_drop_inv [OF inv h drop(1)] by (simp add: sets_inv_def)
        have "sets_inv u (sweep_sets now ?j) \<and> swept now ?j (sweep_sets now ?j)"
          by (rule less.hyps) (use j h False in simp_all)
        moreover have "finite (dom (calls i))" using inv by (simp add: sets_inv_def)
        ultimately show ?thesis
          using swept_drop [of i k s now ?j "sweep_sets now ?j"] drop e by simp
      qed
    qed
  qed
qed

lemma drop_set_frame [simp]:
  "reregistered_calls (fst (drop_set key i)) = reregistered_calls i"
  "admit_reregistered_calls (fst (drop_set key i)) = admit_reregistered_calls i"
  "releases_total (fst (drop_set key i)) = releases_total i"
  "admits_refused_released (fst (drop_set key i)) = admits_refused_released i"
  "lease_expired_calls (fst (drop_set key i)) = lease_expired_calls i"
  "lease_expired_holds (fst (drop_set key i)) = lease_expired_holds i"
  by (simp_all add: drop_set_def split: option.splits)

text \<open>
  The loops over the fences and the markers are one algorithm on a map of lapse instants and
  its heap; \<open>sweep_lapsed\<close> is that algorithm, and the two loops are its instances.
\<close>

fun sweep_lapsed :: "int \<Rightarrow> deadline_heap \<Rightarrow> (string \<rightharpoonup> 'a \<times> int) \<Rightarrow> (string \<rightharpoonup> 'a \<times> int) \<times> deadline_heap" where
  "sweep_lapsed now [] m = (m, [])"
| "sweep_lapsed now ((d, k) # h) m =
     (if d > now then (m, (d, k) # h)
      else sweep_lapsed now h
        (case m k of Some (_, t) \<Rightarrow> if t = d then m(k := None) else m | None \<Rightarrow> m))"

lemma sweep_fences_eq:
  "sweep_fences now h i =
     i\<lparr>fences := fst (sweep_lapsed now h (fences i)), fence_deadlines := snd (sweep_lapsed now h (fences i))\<rparr>"
  by (induction now h i rule: sweep_fences.induct) (auto split: option.splits)

lemma sweep_markers_eq:
  "sweep_markers now h i =
     i\<lparr>markers := fst (sweep_lapsed now h (markers i)), marker_deadlines := snd (sweep_lapsed now h (markers i))\<rparr>"
  by (induction now h i rule: sweep_markers.induct) (auto split: option.splits)

definition unlapsed :: "int \<Rightarrow> (string \<rightharpoonup> 'a \<times> int) \<Rightarrow> (string \<rightharpoonup> 'a \<times> int)" where
  "unlapsed now m = (\<lambda>k. case m k of Some (x, t) \<Rightarrow> if t > now then Some (x, t) else None | None \<Rightarrow> None)"

lemma sweep_lapsed_spec:
  assumes "heap_covers m h"
  shows "fst (sweep_lapsed now h m) = unlapsed now m \<and>
    heap_covers (unlapsed now m) (snd (sweep_lapsed now h m)) \<and>
    (\<forall>x\<in>set (snd (sweep_lapsed now h m)). now < fst x)"
  using assms
proof (induction now h m rule: sweep_lapsed.induct)
  case (1 now m)
  then have "m = Map.empty" by (auto simp: heap_covers_def fun_eq_iff) (metis not_Some_eq surj_pair)
  then show ?case by (simp add: unlapsed_def heap_covers_def)
next
  case (2 now d k h m)
  show ?case
  proof (cases "now < d")
    case True
    have "now < t" if "m j = Some (x, t)" for j x t
      using that 2(2) True by (fastforce simp: heap_covers_def less_eq_prod_def)
    then have "unlapsed now m = m" by (auto simp: unlapsed_def fun_eq_iff split: option.splits)
    moreover have "\<forall>x\<in>set ((d, k) # h). now < fst x"
      using 2(2) True by (fastforce simp: heap_covers_def less_eq_prod_def)
    ultimately show ?thesis using True 2(2) by simp
  next
    case False
    let ?m = "case m k of Some (_, t) \<Rightarrow> if t = d then m(k := None) else m | None \<Rightarrow> m"
    have "heap_covers ?m h"
      using 2(2) by (auto simp: heap_covers_def split: option.splits if_splits) fastforce+
    moreover have "unlapsed now ?m = unlapsed now m"
      using False by (auto simp: unlapsed_def fun_eq_iff split: option.splits)
    ultimately show ?thesis using 2(1) False by simp
  qed
qed

lemma sweep_spec:
  assumes "store_inv u i"
  shows "sets_inv u (sweep now i)"
    and "sets_view (calls (sweep now i)) = sets_view (calls i |` (- lapsed now (calls i)))"
    and "fences (sweep now i) = unlapsed now (fences i)"
    and "markers (sweep now i) = unlapsed now (markers i)"
    and "heap_covers (fences (sweep now i)) (fence_deadlines (sweep now i))"
    and "heap_covers (markers (sweep now i)) (marker_deadlines (sweep now i))"
    and "lease_expired_calls (sweep now i) = lease_expired_calls i + card (lapsed now (calls i))"
    and "lease_expired_holds (sweep now i) = lease_expired_holds i + lapsed_holds now (calls i)"
    and "\<forall>x\<in>set (set_deadlines (sweep now i)) \<union> set (fence_deadlines (sweep now i)) \<union>
      set (marker_deadlines (sweep now i)). now < fst x"
proof -
  let ?j = "sweep_sets now i"
  from assms have "sets_inv u i" by (simp add: store_inv_def)
  from sweep_sets_spec [OF this, of now] have j: "sets_inv u ?j" "swept now i ?j" by auto
  note f = sweep_lapsed_spec [of "fences ?j" "fence_deadlines ?j" now]
  note m = sweep_lapsed_spec [of "markers ?j" "marker_deadlines ?j" now]
  have s: "sweep now i = ?j
     \<lparr>fences := fst (sweep_lapsed now (fence_deadlines ?j) (fences ?j)),
      fence_deadlines := snd (sweep_lapsed now (fence_deadlines ?j) (fences ?j)),
      markers := fst (sweep_lapsed now (marker_deadlines ?j) (markers ?j)),
      marker_deadlines := snd (sweep_lapsed now (marker_deadlines ?j) (markers ?j))\<rparr>"
    by (simp add: sweep_def Let_def sweep_fences_eq sweep_markers_eq)
  show "sets_inv u (sweep now i)" using j(1) by (simp add: s sets_inv_def)
  show "sets_view (calls (sweep now i)) = sets_view (calls i |` (- lapsed now (calls i)))"
    and "lease_expired_calls (sweep now i) = lease_expired_calls i + card (lapsed now (calls i))"
    and "lease_expired_holds (sweep now i) = lease_expired_holds i + lapsed_holds now (calls i)"
    using j(2) by (simp_all add: s swept_def)
  show "fences (sweep now i) = unlapsed now (fences i)"
    and "heap_covers (fences (sweep now i)) (fence_deadlines (sweep now i))"
    and "markers (sweep now i) = unlapsed now (markers i)"
    and "heap_covers (markers (sweep now i)) (marker_deadlines (sweep now i))"
    using f m j(2) assms by (simp_all add: s swept_def store_inv_def)
  show "\<forall>x\<in>set (set_deadlines (sweep now i)) \<union> set (fence_deadlines (sweep now i)) \<union>
      set (marker_deadlines (sweep now i)). now < fst x"
    using f m j(2) assms by (auto simp: s swept_def store_inv_def)
qed

text \<open>A sweep at an instant before every deadline does nothing.\<close>

lemma sweep_lapsed_id: "\<forall>x\<in>set h. now < fst x \<Longrightarrow> sweep_lapsed now h m = (m, h)"
  by (cases h) auto

lemma sweep_id:
  assumes "\<forall>x\<in>set (set_deadlines i) \<union> set (fence_deadlines i) \<union> set (marker_deadlines i). now < fst x"
  shows "sweep now i = i"
proof -
  have "sweep_sets now i = i"
    using assms by (subst sweep_sets.simps) (auto split: list.splits)
  with assms show ?thesis
    by (simp add: sweep_def Let_def sweep_fences_eq sweep_markers_eq sweep_lapsed_id)
qed

lemma abs_store_view:
  "abs_store i k = (case sets_view (calls i) k of
      Some (es, c, t) \<Rightarrow> Some (Holds es c t)
    | None \<Rightarrow> (case fences i k of
        Some (why, t) \<Rightarrow> Some (Fenced why t)
      | None \<Rightarrow> map_option (\<lambda>(c, t). Marked c t) (markers i k)))"
  by (cases "calls i k"; cases "fences i k"; cases "markers i k") (auto simp: abs_store_def sets_view_def)

lemma sweep_exclusive:
  assumes "store_inv u i"
  shows "exclusive (sweep now i)"
proof -
  have c: "calls (sweep now i) k \<noteq> None \<Longrightarrow> calls i k \<noteq> None" for k
    using fun_cong [OF sweep_spec(2) [OF assms, of now], of k]
    by (cases "calls i k") (auto simp: sets_view_def restrict_map_def split: if_splits)
  from assms have "exclusive i" by (simp add: store_inv_def)
  with c show ?thesis
    unfolding exclusive_def sweep_spec(3,4) [OF assms]
    by (auto simp: unlapsed_def split: option.splits)
qed

lemma sweep_inv [step_inv]: "store_inv u i \<Longrightarrow> store_inv u (sweep now i)"
  using sweep_spec(1,5,6) [of u i now] sweep_exclusive [of u i now] by (simp add: store_inv_def)

lemma sweep_abs: "store_inv u i \<Longrightarrow> abs_store (sweep now i) = alive now (abs_store i)"
proof
  fix k
  assume inv: "store_inv u i"
  then have "exclusive i" by (simp add: store_inv_def)
  then show "abs_store (sweep now i) k = alive now (abs_store i) k"
    unfolding abs_store_view sweep_spec(2-4) [OF inv] alive_def
    by (cases "calls i k"; cases "fences i k"; cases "markers i k")
      (auto simp: sets_view_def restrict_map_def lapsed_def unlapsed_def exclusive_def split: option.splits)
qed

end
