(* ===== verification/Call_Store_Refine.thy ===== *)
theory Call_Store_Refine
  imports Call_Store
begin

text \<open>
  The limiter store of \<open>Call_Store\<close> implements its abstract store: each function of
  \<open>store.rs\<close> commutes with \<open>abs_store\<close>, answers what the abstract operation answers, and
  keeps the invariant. The properties of the store follow from the abstract operations.
\<close>

section \<open>The operations implement the abstract store\<close>

lemma hold_of_None: "hold_of c f m = None \<longleftrightarrow> c = None \<and> f = None \<and> m = None"
  by (cases c; cases f; cases m) auto

lemma store_inv_sets [dest]: "store_inv u i \<Longrightarrow> sets_inv u i"
  by (simp add: store_inv_def)

lemma store_inv_exclusive: "store_inv u i \<Longrightarrow> exclusive i"
  by (simp add: store_inv_def)

lemma abs_store_cong:
  "calls j = calls i \<Longrightarrow> fences j = fences i \<Longrightarrow> markers j = markers i \<Longrightarrow> abs_store j = abs_store i"
  by (simp add: abs_store_def)

lemma known_change_abs: "exclusive i \<Longrightarrow> known_change i k = number_of (abs_store i k)"
  by (cases "calls i k"; cases "fences i k"; cases "markers i k")
    (auto simp: known_change_def abs_store_def exclusive_def split: fence.splits)

lemma entries_of_abs: "entries_of (abs_store i k) = (case calls i k of None \<Rightarrow> [] | Some s \<Rightarrow> cs_entries s)"
  by (cases "calls i k"; cases "fences i k"; cases "markers i k") (auto simp: abs_store_def)

lemma held_set_abs: "exclusive i \<Longrightarrow> held_set i k = states (abs_store i) k"
  by (simp add: held_set_def states_def known_change_abs entries_of_abs)

lemma release_fenced_abs:
  "exclusive i \<Longrightarrow> release_fenced i k \<longleftrightarrow> (\<exists>t. abs_store i k = Some (Fenced FenceReleased t))"
  by (cases "calls i k"; cases "fences i k"; cases "markers i k")
    (auto simp: release_fenced_def abs_store_def exclusive_def)

lemma finite_heap_covers: "heap_covers m h \<Longrightarrow> finite (dom m)"
  by (rule finite_subset [of _ "snd ` set h"]) (force simp: heap_covers_def)+

lemma dom_calls_abs: "dom (calls i) \<subseteq> dom (abs_store i)"
  by (auto simp: abs_store_def)

lemma live_abs:
  assumes "store_inv u i"
  shows "live (abs_store i) = held_count (calls i)"
proof
  fix lid
  have fin: "finite (dom (abs_store i))"
  proof (rule finite_subset)
    show "dom (abs_store i) \<subseteq> dom (calls i) \<union> dom (fences i) \<union> dom (markers i)"
      unfolding subset_iff Un_iff domIff abs_store_def hold_of_None by metis
    show "finite (dom (calls i) \<union> dom (fences i) \<union> dom (markers i))"
      using assms by (auto simp: store_inv_def sets_inv_def dest: finite_heap_covers)
  qed
  have "(\<Sum>k\<in>dom (abs_store i). occ (entries_of (abs_store i k)) lid)
      = (\<Sum>k\<in>dom (calls i). occ (entries_of (abs_store i k)) lid)"
    by (rule sum.mono_neutral_right [OF fin dom_calls_abs]) (simp add: entries_of_abs domIff)
  moreover have "live (abs_store i) lid = (\<Sum>k\<in>dom (abs_store i). occ (entries_of (abs_store i k)) lid)"
    unfolding live_def map_sum_def by (rule sum.cong) auto
  moreover have "held_count (calls i) lid = (\<Sum>k\<in>dom (calls i). occ (entries_of (abs_store i k)) lid)"
    unfolding held_count_def map_sum_def by (rule sum.cong) (auto simp: entries_of_abs)
  ultimately show "live (abs_store i) lid = held_count (calls i) lid" by simp
qed

lemma counts_abs: "store_inv u i \<Longrightarrow> counts i = canon (live (abs_store i))"
  using live_abs [of u i] by (simp add: store_inv_def sets_inv_def)

text \<open>The cap check, on the maps and on the abstract store.\<close>

lemma over_cap_abs:
  assumes "store_inv u i"
  shows "over_cap i (case calls i k of Some s \<Rightarrow> fold count_up (cs_entries s) Map.empty | None \<Rightarrow> Map.empty)
      (fold count_up es Map.empty) e
    \<longleftrightarrow> refusing (abs_store i) k es e"
proof -
  have "(case calls i k of Some s \<Rightarrow> fold count_up (cs_entries s) Map.empty | None \<Rightarrow> Map.empty)
      = canon (occ (entries_of (abs_store i k)))"
    by (auto simp: entries_of_abs fold_count_up_empty canon_def split: option.splits)
  moreover have "occ (entries_of (abs_store i k)) lid \<le> live (abs_store i) lid" for lid
    using assms occ_le_held_count [of "calls i" k _ lid]
    by (auto simp: live_abs [OF assms] entries_of_abs store_inv_def sets_inv_def split: option.splits)
  ultimately show ?thesis
    by (simp add: over_cap_def refusing_def Let_def fold_count_up_empty counts_abs [OF assms] of_nat_diff)
qed

subsection \<open>The primitives on the abstract store\<close>

lemma drop_set_calls: "calls (fst (drop_set k i)) = (calls i)(k := None)"
  by (auto simp: drop_set_def split: option.splits)

lemma abs_record_change:
  assumes "exclusive i" and "\<not> release_fenced i k"
  shows "abs_store (record_change k c t i) = (abs_store i)(k \<mapsto> renumbered c t (abs_store i k))"
proof
  fix x
  show "abs_store (record_change k c t i) x = ((abs_store i)(k \<mapsto> renumbered c t (abs_store i k))) x"
    using assms
    by (cases "x = k"; cases "calls i k"; cases "fences i k"; cases "markers i k")
      (auto simp: record_change_def abs_store_def exclusive_def release_fenced_def split: fence.splits)
qed

lemma record_change_inv:
  assumes "store_inv u i" and "\<not> release_fenced i k"
  shows "store_inv u (record_change k c t i)"
proof (cases "calls i k")
  case (Some s)
  have "sets_inv u (i\<lparr>calls := (calls i)(k \<mapsto> s\<lparr>cs_change := c\<rparr>)\<rparr>)"
    by (rule sets_inv_upd [where u = u]) (use assms Some in \<open>auto simp: store_inv_def sets_inv_def\<close>)
  with Some assms show ?thesis
    by (auto simp: record_change_def store_inv_def exclusive_def)
next
  case None
  with assms show ?thesis
    by (cases "fences i k")
      (auto simp: record_change_def store_inv_def exclusive_def release_fenced_def heap_covers_upd
        heap_covers_keep sets_inv_def split: fence.splits if_splits)
qed

text \<open>Drop what the key holds, forget its marker, fence it: the drop of an admit and a release.\<close>

definition drop_and_fence :: "string \<Rightarrow> fence \<Rightarrow> int \<Rightarrow> inner \<Rightarrow> inner" where
  "drop_and_fence k why t i =
     (let i = fst (drop_set k i); i = i\<lparr>markers := (markers i)(k := None)\<rparr> in fence_key k why t i)"

lemma drop_and_fence_abs: "abs_store (drop_and_fence k why t i) = (abs_store i)(k \<mapsto> Fenced why t)"
  by (auto simp: drop_and_fence_def fence_key_def abs_store_def fun_eq_iff drop_set_calls)

lemma drop_and_fence_inv: "store_inv u i \<Longrightarrow> store_inv u (drop_and_fence k why t i)"
  using drop_set_sets_inv [of u i k]
  by (auto simp: drop_and_fence_def fence_key_def store_inv_def exclusive_def heap_covers_upd
      heap_covers_del drop_set_calls sets_inv_def)

text \<open>Replace what is known of the key by a set.\<close>

definition replace_set :: "string \<Rightarrow> admit_entry list \<Rightarrow> nat \<Rightarrow> int \<Rightarrow> inner \<Rightarrow> inner" where
  "replace_set k es c t i =
     (let i = fst (drop_set k i); i = i\<lparr>fences := (fences i)(k := None)\<rparr>;
          i = i\<lparr>markers := (markers i)(k := None)\<rparr>
      in insert_set k es c t i)"

lemma replace_set_abs: "abs_store (replace_set k es c t i) = (abs_store i)(k \<mapsto> Holds es c t)"
  by (auto simp: replace_set_def insert_set_def abs_store_def fun_eq_iff drop_set_calls Let_def)

lemma replace_set_inv:
  assumes "store_inv u i" and "es \<noteq> []" and "u \<le> t"
  shows "store_inv t (replace_set k es c t i)"
proof -
  let ?i = "(fst (drop_set k i))\<lparr>fences := (fences i)(k := None), markers := (markers i)(k := None)\<rparr>"
  have "sets_inv u ?i = sets_inv u (fst (drop_set k i))" by (rule sets_inv_frame) simp_all
  with drop_set_sets_inv [of u i k] assms(1) have "sets_inv u ?i" by (simp add: store_inv_def)
  then have "sets_inv t (insert_set k es c t ?i)"
    by (rule insert_set_sets_inv) (use assms in \<open>simp_all add: drop_set_calls\<close>)
  moreover have "replace_set k es c t i = insert_set k es c t ?i" by (simp add: replace_set_def Let_def)
  ultimately show ?thesis using assms(1)
    by (simp add: store_inv_def) (simp add: insert_set_def exclusive_def heap_covers_del drop_set_calls)
qed

text \<open>Re-registration.\<close>

lemma reregister_replace:
  assumes "exclusive i" and "reregisters i k es"
  shows "reregister k c es t i =
    replace_set k es (case markers i k of None \<Rightarrow> c | Some (known, _) \<Rightarrow> max known c) t i"
proof -
  have "(fences i)(k := None) = fences i" using assms(2) by (auto simp: reregisters_def)
  with assms(2) show ?thesis
    by (auto simp: reregister_def replace_set_def drop_set_def reregisters_def Let_def)
qed

lemma reregisters_abs:
  "exclusive i \<Longrightarrow> reregisters i k es \<longleftrightarrow>
     es \<noteq> [] \<and> (abs_store i k = None \<or> (\<exists>c t. abs_store i k = Some (Marked c t)))"
  by (cases "calls i k"; cases "fences i k"; cases "markers i k")
    (auto simp: reregisters_def abs_store_def exclusive_def)

lemma reregister_abs:
  assumes "exclusive i" and "reregisters i k es"
  shows "abs_store (reregister k c es t i) = (abs_store i)(k := restored c es t (abs_store i k))"
  unfolding reregister_replace [OF assms] replace_set_abs using assms(2)
  by (cases "markers i k") (auto simp: reregisters_def abs_store_def)

lemma reregister_inv:
  assumes "store_inv u i" and "reregisters i k es" and "u \<le> t"
  shows "store_inv t (reregister k c es t i)"
  using assms replace_set_inv [OF assms(1)] reregister_replace [OF store_inv_exclusive [OF assms(1)]]
  by (simp add: reregisters_def)

lemma store_inv_mono: "store_inv u i \<Longrightarrow> u \<le> v \<Longrightarrow> store_inv v i"
  unfolding store_inv_def using sets_inv_mono [of u i v] by blast

lemma store_inv_cong:
  "calls j = calls i \<Longrightarrow> counts j = counts i \<Longrightarrow> set_deadlines j = set_deadlines i \<Longrightarrow>
   fences j = fences i \<Longrightarrow> fence_deadlines j = fence_deadlines i \<Longrightarrow>
   markers j = markers i \<Longrightarrow> marker_deadlines j = marker_deadlines i \<Longrightarrow> store_inv u j = store_inv u i"
  by (simp add: store_inv_def sets_inv_def exclusive_def)

text \<open>The counters are outside the abstraction and the invariant.\<close>

lemma counters_abs [simp]:
  "abs_store (i\<lparr>admits_refused_released := n\<rparr>) = abs_store i"
  "abs_store (i\<lparr>admit_reregistered_calls := n\<rparr>) = abs_store i"
  "abs_store (i\<lparr>reregistered_calls := n\<rparr>) = abs_store i"
  "abs_store (i\<lparr>releases_total := n\<rparr>) = abs_store i"
  by (rule abs_store_cong; simp)+

lemma counters_inv [simp]:
  "store_inv u (i\<lparr>admits_refused_released := n\<rparr>) = store_inv u i"
  "store_inv u (i\<lparr>admit_reregistered_calls := n\<rparr>) = store_inv u i"
  "store_inv u (i\<lparr>reregistered_calls := n\<rparr>) = store_inv u i"
  "store_inv u (i\<lparr>releases_total := n\<rparr>) = store_inv u i"
  by (rule store_inv_cong; simp)+

lemma reregistered_held_set [simp]: "held_set (i\<lparr>reregistered_calls := n\<rparr>) k = held_set i k"
  by (cases "calls i k"; cases "fences i k") (auto simp: held_set_def known_change_def split: fence.splits)

lemma releases_release_fenced [simp]: "release_fenced (i\<lparr>releases_total := n\<rparr>) k = release_fenced i k"
  by (simp add: release_fenced_def)

subsection \<open>Admit\<close>

text \<open>The two halves of an admit that passed the fence and the number: restore, then settle.\<close>

definition admit_restore :: "int \<Rightarrow> string \<Rightarrow> heldset \<Rightarrow> inner \<Rightarrow> inner" where
  "admit_restore t k held i =
     (if reregisters i k (hs_entries held) then
        (let i = reregister k (hs_change held) (hs_entries held) t i
         in i\<lparr>admit_reregistered_calls := admit_reregistered_calls i + 1\<rparr>)
      else i)"

definition admit_settle ::
  "int \<Rightarrow> string \<Rightarrow> nat \<Rightarrow> admit_entry list \<Rightarrow> bool \<Rightarrow> inner \<Rightarrow> inner \<times> admit_result" where
  "admit_settle t k c es rel i =
     (case find (over_cap i (case calls i k of Some s \<Rightarrow> fold count_up (cs_entries s) Map.empty | None \<Rightarrow> Map.empty)
                 (fold count_up es Map.empty)) es of
        Some e \<Rightarrow>
          (let i = (if rel then drop_and_fence k (FenceDropped c) t i else record_change k c t i)
           in (i, Rejected (ae_id e) (held_set i k)))
      | None \<Rightarrow>
          (if es = [] then drop_and_fence k (FenceDropped c) t i else replace_set k es c t i, Admitted))"

lemma drop_unfence_fence:
  "fence_key k why t ((fst (drop_set k i))\<lparr>fences := (fences i)(k := None), markers := (markers i)(k := None)\<rparr>)
     = drop_and_fence k why t i"
  by (simp add: drop_and_fence_def fence_key_def Let_def)

lemma admit_carrying_eq:
  "admit_carrying cfg now k c held es rel i =
     (let i = sweep now i; t = i64_add now (lease_ms cfg) in
      if release_fenced i k then
        (i\<lparr>admits_refused_released := admits_refused_released i + 1\<rparr>, Released)
      else if (case known_change i k of Some known \<Rightarrow> c \<le> known | None \<Rightarrow> False) then
        (i, Superseded (held_set i k))
      else admit_settle t k c es rel (admit_restore t k held i))"
  unfolding admit_carrying_def admit_settle_def admit_restore_def drop_and_fence_def replace_set_def
    fence_key_def Let_def
  by (simp split: option.split)

lemma restored_keep:
  "\<not> (es \<noteq> [] \<and> (h = None \<or> (\<exists>c t. h = Some (Marked c t)))) \<Longrightarrow> restored c' es t' h = h"
  by (cases "(c', es, t', h)" rule: restored.cases) auto

lemma admit_restore_abs:
  assumes "store_inv u i" and "u \<le> t"
  shows "abs_store (admit_restore t k held i) =
      (abs_store i)(k := restored (hs_change held) (hs_entries held) t (abs_store i k))"
    and "store_inv t (admit_restore t k held i)"
proof -
  have x: "exclusive i" using assms(1) by (rule store_inv_exclusive)
  show "store_inv t (admit_restore t k held i)"
    using reregister_inv [OF assms(1) _ assms(2)] store_inv_mono [OF assms]
    by (simp add: admit_restore_def Let_def)
  show "abs_store (admit_restore t k held i) =
      (abs_store i)(k := restored (hs_change held) (hs_entries held) t (abs_store i k))"
  proof (cases "reregisters i k (hs_entries held)")
    case True
    with reregister_abs [OF x True] show ?thesis by (simp add: admit_restore_def Let_def)
  next
    case False
    then have "restored (hs_change held) (hs_entries held) t (abs_store i k) = abs_store i k"
      using restored_keep x by (simp add: reregisters_abs)
    with False show ?thesis by (simp add: admit_restore_def)
  qed
qed

lemma admit_settle_abs:
  assumes "store_inv t i" and "\<not> release_fenced i k"
  shows "(case admit_settle t k c es rel i of (j, r) \<Rightarrow> (abs_store j, r)) =
      (case find (refusing (abs_store i) k es) es of
          Some e \<Rightarrow>
            (let A = (abs_store i)(k \<mapsto> if rel then Fenced (FenceDropped c) t
                             else renumbered c t (abs_store i k))
             in (A, Rejected (ae_id e) (states A k)))
        | None \<Rightarrow>
            ((abs_store i)(k \<mapsto> if es = [] then Fenced (FenceDropped c) t else Holds es c t), Admitted))"
    and "store_inv t (fst (admit_settle t k c es rel i))"
proof -
  have x: "exclusive i" using assms(1) by (rule store_inv_exclusive)
  have f: "find (over_cap i (case calls i k of Some s \<Rightarrow> fold count_up (cs_entries s) Map.empty | None \<Rightarrow> Map.empty)
      (fold count_up es Map.empty)) es = find (refusing (abs_store i) k es) es"
    using over_cap_abs [OF assms(1)] by (simp add: fun_eq_iff cong: find_cong)
  have h: "held_set (drop_and_fence k (FenceDropped c) t i) k = states (abs_store (drop_and_fence k (FenceDropped c) t i)) k"
    by (rule held_set_abs, rule store_inv_exclusive [OF drop_and_fence_inv [OF assms(1)]])
  have r: "held_set (record_change k c t i) k = states (abs_store (record_change k c t i)) k"
    by (rule held_set_abs, rule store_inv_exclusive [OF record_change_inv [OF assms]])
  show "(case admit_settle t k c es rel i of (j, r) \<Rightarrow> (abs_store j, r)) =
      (case find (refusing (abs_store i) k es) es of
          Some e \<Rightarrow>
            (let A = (abs_store i)(k \<mapsto> if rel then Fenced (FenceDropped c) t
                             else renumbered c t (abs_store i k))
             in (A, Rejected (ae_id e) (states A k)))
        | None \<Rightarrow>
            ((abs_store i)(k \<mapsto> if es = [] then Fenced (FenceDropped c) t else Holds es c t), Admitted))"
    unfolding admit_settle_def f
    by (cases "find (refusing (abs_store i) k es) es")
      (simp_all add: Let_def h r drop_and_fence_abs replace_set_abs abs_record_change [OF x assms(2)])
  show "store_inv t (fst (admit_settle t k c es rel i))"
    unfolding admit_settle_def f
    by (cases "find (refusing (abs_store i) k es) es")
      (simp_all add: Let_def drop_and_fence_inv replace_set_inv [OF assms(1)] record_change_inv assms)
qed

lemma admit_restore_not_fenced:
  assumes "store_inv u i" and "\<not> release_fenced i k"
  shows "\<not> release_fenced (admit_restore t k held i) k"
proof -
  have "fences (admit_restore t k held i) k = fences i k"
    by (simp add: admit_restore_def reregister_def insert_set_def Let_def)
  with assms show ?thesis by (simp add: release_fenced_def)
qed

lemma admit_refines_lemma:
  assumes "store_inv u i" and "u \<le> i64_add now (lease_ms cfg)"
  shows "(case admit_carrying cfg now k c held es rel i of (j, r) \<Rightarrow> (abs_store j, r))
      = a_admit (i64_add now (lease_ms cfg)) now k c held es rel (abs_store i)"
    and "store_inv (i64_add now (lease_ms cfg)) (fst (admit_carrying cfg now k c held es rel i))"
proof -
  let ?t = "i64_add now (lease_ms cfg)" and ?i = "sweep now i"
  let ?j = "admit_restore ?t k held ?i"
  have inv: "store_inv u ?i" by (rule sweep_inv [OF assms(1)])
  have x: "exclusive ?i" by (rule store_inv_exclusive [OF inv])
  have a: "abs_store ?i = alive now (abs_store i)" by (rule sweep_abs [OF assms(1)])
  have jinv: "store_inv ?t ?j" by (rule admit_restore_abs [OF inv assms(2)])
  have jabs: "abs_store ?j = (abs_store ?i)(k := restored (hs_change held) (hs_entries held) ?t (abs_store ?i k))"
    by (rule admit_restore_abs [OF inv assms(2)])
  show "(case admit_carrying cfg now k c held es rel i of (j, r) \<Rightarrow> (abs_store j, r))
      = a_admit ?t now k c held es rel (abs_store i)"
  proof (cases "release_fenced ?i k \<or> (case known_change ?i k of Some known \<Rightarrow> c \<le> known | None \<Rightarrow> False)")
    case True
    then show ?thesis
      unfolding admit_carrying_eq a_admit_def Let_def a [symmetric]
      by (auto simp: release_fenced_abs [OF x] known_change_abs [OF x] held_set_abs [OF x]
          split: option.splits)
  next
    case False
    then have nf: "\<not> release_fenced ?j k" using admit_restore_not_fenced [OF inv] by blast
    from False show ?thesis
      unfolding admit_carrying_eq a_admit_def Let_def a [symmetric]
      by (auto simp: release_fenced_abs [OF x] known_change_abs [OF x] admit_settle_abs [OF jinv nf] jabs Let_def
          split: option.splits)
  qed
  show "store_inv ?t (fst (admit_carrying cfg now k c held es rel i))"
    using admit_restore_not_fenced [OF inv] admit_settle_abs(2) [OF jinv] store_inv_mono [OF inv assms(2)]
    by (simp add: admit_carrying_eq Let_def)
qed

subsection \<open>Release\<close>

lemma release_key_abs:
  assumes "store_inv u i"
  shows "abs_store (release_key t k i) =
      (if \<exists>x. abs_store i k = Some (Fenced FenceReleased x) then abs_store i
       else (abs_store i)(k \<mapsto> Fenced FenceReleased t))"
    and "store_inv u (release_key t k i)"
proof -
  have x: "exclusive i" by (rule store_inv_exclusive [OF assms])
  have e: "release_key t k i =
      (let i = i\<lparr>releases_total := releases_total i + 1\<rparr>
       in if release_fenced i k then i else drop_and_fence k FenceReleased t i)"
    by (simp add: release_key_def drop_and_fence_def Let_def)
  show "store_inv u (release_key t k i)" unfolding e using assms by (simp add: drop_and_fence_inv Let_def)
  show "abs_store (release_key t k i) =
      (if \<exists>x. abs_store i k = Some (Fenced FenceReleased x) then abs_store i
       else (abs_store i)(k \<mapsto> Fenced FenceReleased t))"
    unfolding e by (simp add: release_fenced_abs [OF x] drop_and_fence_abs Let_def)
qed

lemma release_keys_abs:
  assumes "store_inv u i"
  shows "abs_store (fold (release_key t) ks i) =
      (\<lambda>k. if k \<in> set ks \<and> (\<nexists>x. abs_store i k = Some (Fenced FenceReleased x))
           then Some (Fenced FenceReleased t) else abs_store i k) \<and>
     store_inv u (fold (release_key t) ks i)"
  using assms
proof (induction ks arbitrary: i)
  case (Cons k ks)
  from Cons.IH [OF release_key_abs(2) [OF Cons.prems], of t k] show ?case
    by (auto simp: release_key_abs(1) [OF Cons.prems] fun_eq_iff)
qed simp

lemma release_refines_lemma:
  assumes "store_inv u i"
  shows "abs_store (release cfg now ks i) = a_release (i64_add now (lease_ms cfg)) now ks (abs_store i)"
    and "store_inv u (release cfg now ks i)"
  using release_keys_abs [OF sweep_inv [OF assms], of "i64_add now (lease_ms cfg)" ks now]
  unfolding release_def a_release_def Let_def sweep_abs [OF assms] by blast+

subsection \<open>Refresh\<close>

lemma extend_lease_inv:
  assumes "store_inv u i" and "calls i k = Some s" and "u \<le> t"
  shows "store_inv t (i\<lparr>calls := (calls i)(k \<mapsto> s\<lparr>lease_expires_at_ms := t\<rparr>)\<rparr>)"
proof -
  have b: "pending_deadline_ms s \<le> t" using assms by (fastforce simp: store_inv_def sets_inv_def)
  have "sets_inv t (i\<lparr>calls := (calls i)(k \<mapsto> s\<lparr>lease_expires_at_ms := t\<rparr>)\<rparr>)"
    by (rule sets_inv_upd [where u = u]) (use assms b in \<open>simp_all add: store_inv_def\<close>)
  with assms show ?thesis by (auto simp: store_inv_def exclusive_def)
qed

lemma refresh_call_abs:
  assumes "store_inv u i" and "u \<le> t"
  shows "(case refresh_call k c es t i of (j, r) \<Rightarrow> (abs_store j, r)) = a_refresh t k c es (abs_store i)"
    and "store_inv t (fst (refresh_call k c es t i))"
proof -
  have x: "exclusive i" by (rule store_inv_exclusive [OF assms(1)])
  show "store_inv t (fst (refresh_call k c es t i))"
  proof (cases "calls i k")
    case (Some s)
    then show ?thesis using extend_lease_inv [OF assms(1) Some assms(2)] by (simp add: refresh_call_def Let_def)
  next
    case None
    with reregister_inv [OF assms(1) _ assms(2)] store_inv_mono [OF assms] show ?thesis
      by (simp add: refresh_call_def Let_def split: option.splits fence.splits prod.splits)
  qed
  show "(case refresh_call k c es t i of (j, r) \<Rightarrow> (abs_store j, r)) = a_refresh t k c es (abs_store i)"
  proof (cases "calls i k")
    case (Some s)
    let ?j = "i\<lparr>calls := (calls i)(k \<mapsto> s\<lparr>lease_expires_at_ms := t\<rparr>)\<rparr>"
    have "exclusive ?j" by (rule store_inv_exclusive [OF extend_lease_inv [OF assms(1) Some assms(2)]])
    moreover have "abs_store ?j = (abs_store i)(k \<mapsto> Holds (cs_entries s) (cs_change s) t)"
      by (auto simp: abs_store_def)
    moreover have "abs_store i k = Some (Holds (cs_entries s) (cs_change s) (lease_expires_at_ms s))"
      using Some by (simp add: abs_store_def)
    ultimately show ?thesis
      using Some by (simp add: refresh_call_def a_refresh_def Let_def held_set_abs)
  next
    case None
    show ?thesis
    proof (cases "reregisters i k es")
      case True
      have "exclusive (reregister k c es t i)"
        by (rule store_inv_exclusive [OF reregister_inv [OF assms(1) True assms(2)]])
      with True None x show ?thesis
        by (auto simp: refresh_call_def a_refresh_def Let_def held_set_abs reregister_abs reregisters_abs)
    next
      case False
      with None x show ?thesis
        by (cases "fences i k"; cases "markers i k")
          (auto simp: refresh_call_def a_refresh_def Let_def reregisters_def held_set_abs abs_store_def
            exclusive_def split: fence.splits)
    qed
  qed
qed

fun a_refresh_each :: "int \<Rightarrow> (string \<times> nat \<times> admit_entry list) list \<Rightarrow> astore \<Rightarrow> astore \<times> refreshed list" where
  "a_refresh_each t [] A = (A, [])"
| "a_refresh_each t ((k, c, es) # cs) A =
     (case a_refresh t k c es A of (A, r) \<Rightarrow> (case a_refresh_each t cs A of (A, rs) \<Rightarrow> (A, r # rs)))"

lemma refresh_each_abs:
  assumes "store_inv t i"
  shows "(case refresh_each t cs i of (j, r) \<Rightarrow> (abs_store j, r)) = a_refresh_each t cs (abs_store i) \<and>
    store_inv t (fst (refresh_each t cs i))"
  using assms
proof (induction t cs i rule: refresh_each.induct)
  case (2 t k c es cs i)
  obtain j r where j: "refresh_call k c es t i = (j, r)" by (cases "refresh_call k c es t i")
  with refresh_call_abs [OF 2(2) order_refl, of k c es] have a: "a_refresh t k c es (abs_store i) = (abs_store j, r)" "store_inv t j"
    by simp_all
  with 2(1) [OF j [symmetric]] j show ?case by (auto split: prod.splits)
qed simp

lemma refresh_all_refines_lemma:
  assumes "store_inv u i" and "u \<le> i64_add now (lease_ms cfg)"
  shows "(case refresh_all cfg now cs i of (j, r) \<Rightarrow> (abs_store j, r))
      = a_refresh_each (i64_add now (lease_ms cfg)) cs (alive now (abs_store i))"
    and "store_inv (i64_add now (lease_ms cfg)) (fst (refresh_all cfg now cs i))"
  using refresh_each_abs [OF store_inv_mono [OF sweep_inv [OF assms(1)] assms(2)], of cs now]
  by (simp_all add: refresh_all_def sweep_abs [OF assms(1)])

end
