(* ===== verification/Call_Store_Props.thy ===== *)
theory Call_Store_Props
  imports Call_Store_Refine
begin

text \<open>
  The limiter store under a sequence of requests. \<open>store_step\<close> answers one request at a
  clock reading, \<open>store_run\<close> a timed sequence of them. The locale \<open>admission_ledger\<close> is the
  contract a client of the store relies on: each step is the abstract step, at the lease the
  configuration states. What follows from the contract over any run (a release fence holds
  for its lease, a late admit never overwrites a newer one) is proved in the locale, which
  the model's own store interprets.
\<close>

section \<open>Requests and runs\<close>

datatype store_req =
    AdmitReq string nat heldset "admit_entry list" bool
  | ReleaseReq "string list"
  | RefreshReq "(string \<times> nat \<times> admit_entry list) list"
  | HeldSetReq string
  | HeldReq string
  | CallsReq
  | SweepReq

datatype store_ans =
    AdmitAns admit_result
  | ReleaseAns
  | RefreshAns "refreshed list"
  | HeldSetAns "heldset option"
  | HeldAns int
  | CallsAns nat
  | SweepAns nat

fun store_step :: "limiter_config \<Rightarrow> int \<Rightarrow> store_req \<Rightarrow> inner \<Rightarrow> inner \<times> store_ans" where
  "store_step cfg now (AdmitReq k c held es rel) i = apsnd AdmitAns (admit_carrying cfg now k c held es rel i)"
| "store_step cfg now (ReleaseReq ks) i = (release cfg now ks i, ReleaseAns)"
| "store_step cfg now (RefreshReq cs) i = apsnd RefreshAns (refresh_all cfg now cs i)"
| "store_step cfg now (HeldSetReq k) i = apsnd HeldSetAns (store_held_set now k i)"
| "store_step cfg now (HeldReq lid) i = apsnd HeldAns (store_held now lid i)"
| "store_step cfg now CallsReq i = apsnd CallsAns (store_calls now i)"
| "store_step cfg now SweepReq i = apsnd SweepAns (sweep_now now i)"

definition holders :: "astore \<Rightarrow> string set" where
  "holders A = {k. \<exists>es c t. A k = Some (Holds es c t)}"

fun a_step :: "int \<Rightarrow> int \<Rightarrow> store_req \<Rightarrow> astore \<Rightarrow> astore \<times> store_ans" where
  "a_step until now (AdmitReq k c held es rel) A = apsnd AdmitAns (a_admit until now k c held es rel A)"
| "a_step until now (ReleaseReq ks) A = (a_release until now ks A, ReleaseAns)"
| "a_step until now (RefreshReq cs) A = apsnd RefreshAns (a_refresh_each until cs (alive now A))"
| "a_step until now (HeldSetReq k) A =
     (let A = alive now A
      in (A, HeldSetAns (if \<exists>t. A k = Some (Fenced FenceReleased t) then None else Some (states A k))))"
| "a_step until now (HeldReq lid) A = (let A = alive now A in (A, HeldAns (int (live A lid))))"
| "a_step until now CallsReq A = (let A = alive now A in (A, CallsAns (card (holders A))))"
| "a_step until now SweepReq A =
     (alive now A, SweepAns (card {k. \<exists>es c t. A k = Some (Holds es c t) \<and> t \<le> now}))"

text \<open>
  The clock readings the store is run under: the boot check admits a lease in
  \<open>1..=MAX_LEASE_SEC\<close> seconds (\<open>call-limiter-runner/src/env.rs\<close>), and the Unix time in
  milliseconds plus a lease is far from the 64-bit bound.
\<close>

definition config_ok :: "limiter_config \<Rightarrow> bool" where
  "config_ok cfg \<longleftrightarrow> 1 \<le> lease_sec cfg \<and> lease_sec cfg \<le> MAX_LEASE_SEC"

definition clock_ok :: "limiter_config \<Rightarrow> int \<Rightarrow> bool" where
  "clock_ok cfg now \<longleftrightarrow> 0 \<le> now \<and> now + lease_ms cfg < 2 ^ 63"

lemma lease_ms_eq: "config_ok cfg \<Longrightarrow> lease_ms cfg = lease_sec cfg * 1000"
  by (simp add: config_ok_def lease_ms_def i64_saturating_mul_def MAX_LEASE_SEC_def)

lemma lease_ms_pos: "config_ok cfg \<Longrightarrow> 0 < lease_ms cfg"
  by (simp add: lease_ms_eq) (simp add: config_ok_def)

lemma until_eq: "config_ok cfg \<Longrightarrow> clock_ok cfg now \<Longrightarrow> i64_add now (lease_ms cfg) = now + lease_ms cfg"
  using lease_ms_pos [of cfg] by (intro i64_add_eq) (auto simp: clock_ok_def)

fun store_run :: "(int \<Rightarrow> store_req \<Rightarrow> 's \<Rightarrow> 's \<times> store_ans) \<Rightarrow> (int \<times> store_req) list \<Rightarrow> 's \<Rightarrow> 's" where
  "store_run step [] s = s"
| "store_run step ((now, req) # rs) s = store_run step rs (fst (step now req s))"

text \<open>A sequence of clock readings from \<open>t\<close> on, none before the last, all before \<open>e\<close>.\<close>

fun timed :: "(int \<Rightarrow> bool) \<Rightarrow> int \<Rightarrow> int \<Rightarrow> (int \<times> store_req) list \<Rightarrow> bool" where
  "timed clock t e [] \<longleftrightarrow> True"
| "timed clock t e ((now, _) # rs) \<longleftrightarrow> t \<le> now \<and> clock now \<and> now < e \<and> timed clock now e rs"

fun last_reading :: "int \<Rightarrow> (int \<times> store_req) list \<Rightarrow> int" where
  "last_reading t [] = t"
| "last_reading t ((now, _) # rs) = last_reading now rs"

section \<open>The abstract steps\<close>

definition abs_bound :: "int \<Rightarrow> astore \<Rightarrow> bool" where
  "abs_bound u A \<longleftrightarrow> (\<forall>k h. A k = Some h \<longrightarrow> expires h \<le> u)"

lemma alive_Some: "alive now A k = Some h \<longleftrightarrow> A k = Some h \<and> now < expires h"
  by (auto simp: alive_def split: option.splits if_splits)

lemma abs_bound_alive: "abs_bound u A \<Longrightarrow> abs_bound u (alive now A)"
  by (auto simp: abs_bound_def alive_Some)

lemma abs_bound_upd: "abs_bound u A \<Longrightarrow> expires h \<le> u \<Longrightarrow> abs_bound u (A(k \<mapsto> h))"
  by (auto simp: abs_bound_def)

lemma abs_bound_mono: "abs_bound u A \<Longrightarrow> u \<le> v \<Longrightarrow> abs_bound v A"
  by (fastforce simp: abs_bound_def)

lemma expires_restored:
  "(\<And>x. h = Some x \<Longrightarrow> expires x \<le> u) \<Longrightarrow> restored c es u h = Some h' \<Longrightarrow> expires h' \<le> u"
  by (cases "(c, es, u, h)" rule: restored.cases) (auto split: if_splits)

lemma expires_renumbered: "(\<And>x. h = Some x \<Longrightarrow> expires x \<le> u) \<Longrightarrow> expires (renumbered c u h) \<le> u"
  by (cases "(c, u, h)" rule: renumbered.cases) auto

lemma abs_bound_restored:
  "abs_bound u A \<Longrightarrow> abs_bound u (A(k := restored c es u (A k)))"
  unfolding abs_bound_def using expires_restored [of "A k" u c es] by auto

lemma a_admit_bound: "abs_bound u A \<Longrightarrow> abs_bound u (fst (a_admit u now k c held es rel A))"
proof -
  assume "abs_bound u A"
  then have b: "abs_bound u (alive now A)" by (rule abs_bound_alive)
  let ?A = "(alive now A)(k := restored (hs_change held) (hs_entries held) u (alive now A k))"
  have r: "abs_bound u ?A" by (rule abs_bound_restored [OF b])
  then have "expires (renumbered c u (?A k)) \<le> u"
    unfolding abs_bound_def by (intro expires_renumbered) blast
  with b r show ?thesis
    by (auto simp: a_admit_def Let_def intro!: abs_bound_upd split: option.splits)
qed

lemma a_refresh_bound: "abs_bound u A \<Longrightarrow> abs_bound u (fst (a_refresh u k c es A))"
  using abs_bound_restored [of u A k c es]
  by (auto simp: a_refresh_def Let_def intro!: abs_bound_upd split: option.splits hold.splits fence.splits)

lemma a_refresh_each_bound: "abs_bound u A \<Longrightarrow> abs_bound u (fst (a_refresh_each u cs A))"
proof (induction u cs A rule: a_refresh_each.induct)
  case (2 t k c es cs A)
  then show ?case using a_refresh_bound [of t A k c es] by (auto split: prod.splits)
qed simp

lemma a_release_bound: "abs_bound u A \<Longrightarrow> abs_bound u (a_release u now ks A)"
  using abs_bound_alive [of u A now] by (simp add: a_release_def abs_bound_def Let_def)

lemma a_step_bound: "abs_bound u A \<Longrightarrow> abs_bound u (fst (a_step u now req A))"
  by (cases req) (simp_all add: a_admit_bound a_release_bound a_refresh_each_bound abs_bound_alive Let_def)

section \<open>The store steps as the abstract store does\<close>

lemma abs_Holds:
  "abs_store i k = Some (Holds es c t) \<longleftrightarrow>
     (\<exists>s. calls i k = Some s \<and> cs_entries s = es \<and> cs_change s = c \<and> lease_expires_at_ms s = t)"
  by (cases "calls i k"; cases "fences i k"; cases "markers i k") (auto simp: abs_store_def)

lemma holders_abs: "holders (abs_store i) = dom (calls i)"
  by (auto simp: holders_def abs_Holds)

lemma lapsed_abs: "{k. \<exists>es c t. abs_store i k = Some (Holds es c t) \<and> t \<le> now} = lapsed now (calls i)"
  by (auto simp: lapsed_def abs_Holds)

lemma store_step_refines_lemma:
  assumes "store_inv u i" and "u \<le> i64_add now (lease_ms cfg)"
  shows "apfst abs_store (store_step cfg now req i) = a_step (i64_add now (lease_ms cfg)) now req (abs_store i) \<and>
    store_inv (i64_add now (lease_ms cfg)) (fst (store_step cfg now req i))"
proof -
  have inv: "store_inv u (sweep now i)" by (rule sweep_inv [OF assms(1)])
  have inv': "store_inv (i64_add now (lease_ms cfg)) (sweep now i)" by (rule store_inv_mono [OF inv assms(2)])
  note x = store_inv_exclusive [OF inv]
  note a = sweep_abs [OF assms(1), of now]
  show ?thesis
  proof (cases req)
    case (AdmitReq k c held es rel)
    with admit_refines_lemma(1) [OF assms, of k c held es rel, symmetric]
      admit_refines_lemma(2) [OF assms, of k c held es rel] show ?thesis
      by (cases "admit_carrying cfg now k c held es rel i") simp
  next
    case (ReleaseReq ks)
    with release_refines_lemma [OF assms(1), of cfg now ks] store_inv_mono [OF _ assms(2)] show ?thesis by simp
  next
    case (RefreshReq cs)
    with refresh_all_refines_lemma(1) [OF assms, of cs, symmetric]
      refresh_all_refines_lemma(2) [OF assms, of cs] show ?thesis
      by (cases "refresh_all cfg now cs i") simp
  next
    case (HeldSetReq k)
    with inv' show ?thesis
      by (simp add: store_held_set_def Let_def flip: a)
        (simp add: release_fenced_abs [OF x] held_set_abs [OF x])
  next
    case (HeldReq lid)
    with inv' show ?thesis by (simp add: store_held_def Let_def counts_abs [OF inv] flip: a)
  next
    case CallsReq
    with inv' show ?thesis by (simp add: store_calls_def Let_def holders_abs flip: a)
  next
    case SweepReq
    with inv' sweep_spec(7) [OF assms(1), of now] show ?thesis
      by (simp add: sweep_now_def Let_def lapsed_abs a)
  qed
qed

definition store_good :: "limiter_config \<Rightarrow> int \<Rightarrow> inner \<Rightarrow> bool" where
  "store_good cfg t i \<longleftrightarrow> store_inv (t + lease_ms cfg) i \<and> abs_bound (t + lease_ms cfg) (abs_store i)"

lemma store_new_inv: "store_inv u store_new"
proof -
  have "held_count Map.empty = (\<lambda>_. 0)" by (simp add: held_count_def fun_eq_iff)
  then show ?thesis
    by (simp add: store_inv_def sets_inv_def heap_covers_def exclusive_def store_new_def)
qed

lemma store_new_good: "store_good cfg t store_new"
  by (simp add: store_good_def store_new_inv abs_bound_def abs_store_def) (simp add: store_new_def)

section \<open>The contract, and what follows from it over any run\<close>

locale admission_ledger =
  fixes step :: "int \<Rightarrow> store_req \<Rightarrow> 's \<Rightarrow> 's \<times> store_ans"
    and view :: "'s \<Rightarrow> astore"
    and good :: "int \<Rightarrow> 's \<Rightarrow> bool"
    and clock :: "int \<Rightarrow> bool"
    and lease :: int
  assumes step_view: "good t s \<Longrightarrow> t \<le> now \<Longrightarrow> clock now \<Longrightarrow>
      apfst view (step now req s) = a_step (now + lease) now req (view s)"
    and step_good: "good t s \<Longrightarrow> t \<le> now \<Longrightarrow> clock now \<Longrightarrow> good now (fst (step now req s))"
    and good_bound: "good t s \<Longrightarrow> abs_bound (t + lease) (view s)"

text \<open>
  What is known of a key, from a change number \<open>n\<close> and up to an instant \<open>e\<close>: it lasts at
  least until \<open>e\<close>, and is under a number not below \<open>n\<close> or the key is fenced by a release.
\<close>

fun guards :: "nat \<Rightarrow> int \<Rightarrow> hold option \<Rightarrow> bool" where
  "guards n e None \<longleftrightarrow> False"
| "guards n e (Some h) \<longleftrightarrow>
     e \<le> expires h \<and> (case number_of (Some h) of Some m \<Rightarrow> n \<le> m | None \<Rightarrow> \<exists>t. h = Fenced FenceReleased t)"

lemma guards_alive: "guards n e (A k) \<Longrightarrow> now < e \<Longrightarrow> alive now A k = A k"
  by (cases "A k") (auto simp: alive_def)

lemma number_of_restored:
  "number_of h = Some m \<Longrightarrow> \<exists>m'. number_of (restored c es t h) = Some m' \<and> m \<le> m'"
  by (cases "(c, es, t, h)" rule: restored.cases) auto

lemma number_of_renumbered: "number_of (Some (renumbered c t h)) = Some c"
  by (cases "(c, t, h)" rule: renumbered.cases) auto

lemma expires_renumbered_ge:
  "h = Some x \<Longrightarrow> e \<le> expires x \<Longrightarrow> e \<le> u \<Longrightarrow> e \<le> expires (renumbered c u h)"
  by (cases "(c, u, h)" rule: renumbered.cases) auto

lemma expires_restored_ge:
  "h = Some x \<Longrightarrow> e \<le> expires x \<Longrightarrow> e \<le> u \<Longrightarrow> \<exists>y. restored c es u h = Some y \<and> e \<le> expires y"
  by (cases "(c, es, u, h)" rule: restored.cases) auto

lemma guards_restored:
  assumes "guards n e h" and "e \<le> u"
  shows "guards n e (restored c es u h)"
  using assms by (cases "(c, es, u, h)" rule: restored.cases) (auto split: if_splits)

lemma guards_renumbered:
  assumes "guards n e h" and "e \<le> u" and "n \<le> c"
  shows "guards n e (Some (renumbered c u h))"
proof -
  from assms(1) obtain x where "h = Some x" "e \<le> expires x" by (cases h) auto
  from expires_renumbered_ge [OF this assms(2)] assms(3) show ?thesis
    by (simp add: number_of_renumbered)
qed

lemma a_admit_guards:
  assumes "guards n e (A j)" and "now < e" and "e \<le> u"
  shows "guards n e (fst (a_admit u now k c held es rel A) j)"
proof -
  have live: "alive now A j = A j" using guards_alive assms by blast
  show ?thesis
  proof (cases "j = k")
    case False
    then show ?thesis using live assms
      by (auto simp: a_admit_def Let_def split: option.splits)
  next
    case True
    let ?h = "restored (hs_change held) (hs_entries held) u (alive now A j)"
    have g: "guards n e ?h" by (rule guards_restored) (use assms live in simp_all)
    consider (fenced) "\<exists>t. alive now A k = Some (Fenced FenceReleased t)"
      | (late) "\<exists>m. number_of (alive now A k) = Some m \<and> c \<le> m"
      | (fresh) "\<nexists>t. alive now A k = Some (Fenced FenceReleased t)"
          "\<nexists>m. number_of (alive now A k) = Some m \<and> c \<le> m" by blast
    then show ?thesis
    proof cases
      case fresh
      have "n \<le> c" using assms(1) fresh live True by (cases "A j") (auto split: option.splits)
      with guards_renumbered [OF g assms(3) this] fresh assms(3) True show ?thesis
        by (auto simp: a_admit_def Let_def split: option.splits)
    qed (use assms live True in \<open>auto simp: a_admit_def Let_def\<close>)
  qed
qed

lemma a_refresh_guards:
  assumes "guards n e (A j)" and "e \<le> u"
  shows "guards n e (fst (a_refresh u k c es A) j)"
  using assms guards_restored [OF assms, of c es]
  by (cases "j = k"; cases "A j")
    (auto simp: a_refresh_def Let_def split: option.splits hold.splits fence.splits)

lemma a_refresh_each_guards:
  "guards n e (A j) \<Longrightarrow> e \<le> u \<Longrightarrow> guards n e (fst (a_refresh_each u cs A) j)"
proof (induction u cs A rule: a_refresh_each.induct)
  case (2 t k c es cs A)
  then show ?case using a_refresh_guards [of n e A j t k c es] by (auto split: prod.splits)
qed simp

lemma a_step_guards:
  assumes "guards n e (A j)" and "now < e" and "e \<le> u"
  shows "guards n e (fst (a_step u now req A) j)"
proof -
  have "alive now A j = A j" using guards_alive assms by blast
  with assms a_admit_guards [of n e A j now u] a_refresh_each_guards [of n e "alive now A" j u] show ?thesis
    by (cases req) (auto simp: a_release_def Let_def)
qed

lemma a_step_fenced:
  assumes "A k = Some (Fenced FenceReleased e)" and "now < e"
  shows "fst (a_step u now req A) k = Some (Fenced FenceReleased e)"
proof -
  have live: "alive now A k = A k" using assms by (simp add: alive_def)
  have each: "fst (a_refresh_each u cs B) k = Some (Fenced FenceReleased e)"
    if "B k = Some (Fenced FenceReleased e)" for cs B
    using that
  proof (induction u cs B rule: a_refresh_each.induct)
    case (2 t j c es cs B)
    have "fst (a_refresh t j c es B) k = Some (Fenced FenceReleased e)"
      using 2(2) by (auto simp: a_refresh_def Let_def split: option.splits hold.splits fence.splits)
    with 2(1) show ?case by (auto split: prod.splits)
  qed simp
  show ?thesis
    using assms live each by (cases req) (auto simp: a_admit_def a_release_def Let_def split: option.splits)
qed

context admission_ledger
begin

lemma run_good: "good t s \<Longrightarrow> timed clock t e rs \<Longrightarrow> good (last_reading t rs) (store_run step rs s)"
proof (induction rs arbitrary: t s)
  case (Cons r rs)
  then show ?case by (cases r) (auto intro: step_good)
qed simp

lemma step_view_fst:
  "good t s \<Longrightarrow> t \<le> now \<Longrightarrow> clock now \<Longrightarrow> view (fst (step now req s)) = fst (a_step (now + lease) now req (view s))"
  using step_view [of t s now req] by (cases "step now req s") (metis apfst_conv fst_conv)

lemma step_view_snd:
  "good t s \<Longrightarrow> t \<le> now \<Longrightarrow> clock now \<Longrightarrow> snd (step now req s) = snd (a_step (now + lease) now req (view s))"
  using step_view [of t s now req] by (cases "step now req s") (metis apfst_conv snd_conv)

lemma guards_within: "good t s \<Longrightarrow> guards n e (view s k) \<Longrightarrow> e \<le> t + lease"
  using good_bound [of t s] by (cases "view s k") (fastforce simp: abs_bound_def)+

lemma run_guards:
  "good t s \<Longrightarrow> timed clock t e rs \<Longrightarrow> guards n e (view s k) \<Longrightarrow> guards n e (view (store_run step rs s) k)"
proof (induction rs arbitrary: t s)
  case (Cons r rs)
  obtain now req where r: "r = (now, req)" by (cases r)
  with Cons.prems have p: "t \<le> now" "clock now" "now < e" "timed clock now e rs" by auto
  have "e \<le> now + lease" using guards_within [OF Cons.prems(1,3)] p(1) by simp
  then have "guards n e (view (fst (step now req s)) k)"
    unfolding step_view_fst [OF Cons.prems(1) p(1,2)] by (rule a_step_guards [of n e "view s" k, OF Cons.prems(3) p(3)])
  with Cons.IH [OF step_good [OF Cons.prems(1) p(1,2)] p(4)] r show ?case by simp
qed simp

lemma run_fenced:
  "good t s \<Longrightarrow> timed clock t e rs \<Longrightarrow> view s k = Some (Fenced FenceReleased e) \<Longrightarrow>
    view (store_run step rs s) k = Some (Fenced FenceReleased e)"
proof (induction rs arbitrary: t s)
  case (Cons r rs)
  obtain now req where r: "r = (now, req)" by (cases r)
  with Cons.prems have p: "t \<le> now" "clock now" "now < e" "timed clock now e rs" by auto
  have "view (fst (step now req s)) k = Some (Fenced FenceReleased e)"
    unfolding step_view_fst [OF Cons.prems(1) p(1,2)] by (rule a_step_fenced [of "view s" k, OF Cons.prems(3) p(3)])
  with Cons.IH [OF step_good [OF Cons.prems(1) p(1,2)] p(4)] r show ?case by simp
qed simp

lemma late_admit:
  assumes "good t s" "t \<le> now" "clock now" "guards n e (view s k)" "now < e" "c \<le> n"
  shows "view (fst (step now (AdmitReq k c held es rel) s)) = alive now (view s)"
    and "snd (step now (AdmitReq k c held es rel) s)
      \<in> {AdmitAns Released, AdmitAns (Superseded (states (alive now (view s)) k))}"
proof -
  have "alive now (view s) k = view s k" using guards_alive assms by blast
  then have "(\<exists>t. alive now (view s) k = Some (Fenced FenceReleased t)) \<or>
      (\<exists>m. number_of (alive now (view s) k) = Some m \<and> c \<le> m)"
    using assms(4,6) by (cases "view s k") (auto split: option.splits)
  then show "view (fst (step now (AdmitReq k c held es rel) s)) = alive now (view s)"
    and "snd (step now (AdmitReq k c held es rel) s)
      \<in> {AdmitAns Released, AdmitAns (Superseded (states (alive now (view s)) k))}"
    unfolding step_view_fst [OF assms(1-3)] step_view_snd [OF assms(1-3)]
    by (auto simp: a_admit_def Let_def)
qed

lemma fenced_answers:
  assumes "good t s" "t \<le> now" "clock now" "view s k = Some (Fenced FenceReleased e)" "now < e"
  shows "snd (step now (AdmitReq k c held es rel) s) = AdmitAns Released"
    and "snd (step now (RefreshReq [(k, c, es)]) s)
      = RefreshAns [\<lparr>refresh_outcome = RefreshReleased, refresh_held = None\<rparr>]"
proof -
  have "alive now (view s) k = Some (Fenced FenceReleased e)" using assms by (simp add: alive_def)
  then show "snd (step now (AdmitReq k c held es rel) s) = AdmitAns Released"
    and "snd (step now (RefreshReq [(k, c, es)]) s)
      = RefreshAns [\<lparr>refresh_outcome = RefreshReleased, refresh_held = None\<rparr>]"
    unfolding step_view_snd [OF assms(1-3)] by (simp_all add: a_admit_def a_refresh_def Let_def)
qed

end

abbreviation store_clock :: "limiter_config \<Rightarrow> int \<Rightarrow> bool" where
  "store_clock cfg now \<equiv> config_ok cfg \<and> clock_ok cfg now"

lemma store_good_until:
  "store_good cfg t i \<Longrightarrow> t \<le> now \<Longrightarrow> store_clock cfg now \<Longrightarrow> store_inv (i64_add now (lease_ms cfg)) i"
  unfolding store_good_def using store_inv_mono [of "t + lease_ms cfg" i "now + lease_ms cfg"]
  by (simp add: until_eq)

interpretation call_store:
  admission_ledger "store_step cfg" abs_store "store_good cfg" "store_clock cfg" "lease_ms cfg" for cfg
proof (unfold_locales, goal_cases)
  case (1 t s now req)
  with store_step_refines_lemma [OF store_good_until order_refl, of cfg t s now req] until_eq [of cfg now]
  show ?case by simp
next
  case (2 t s now req)
  let ?u = "now + lease_ms cfg"
  note r = store_step_refines_lemma [OF store_good_until [OF 2] order_refl, of req]
  have "abs_bound ?u (abs_store s)" using 2 abs_bound_mono [of "t + lease_ms cfg"] by (auto simp: store_good_def)
  then have "abs_bound ?u (fst (a_step ?u now req (abs_store s)))" by (rule a_step_bound)
  moreover have "abs_store (fst (store_step cfg now req s)) = fst (a_step ?u now req (abs_store s))"
    using r 2 until_eq [of cfg now] by (cases "store_step cfg now req s") (metis apfst_conv fst_conv)
  ultimately show ?case using r 2 until_eq [of cfg now] by (simp add: store_good_def)
next
  case (3 t s)
  then show ?case by (simp add: store_good_def)
qed

inductive store_reach :: "limiter_config \<Rightarrow> int \<Rightarrow> inner \<Rightarrow> bool" for cfg where
  reach_boot: "config_ok cfg \<Longrightarrow> store_reach cfg t store_new"
| reach_req: "store_reach cfg t i \<Longrightarrow> t \<le> now \<Longrightarrow> clock_ok cfg now \<Longrightarrow>
    store_reach cfg now (fst (store_step cfg now req i))"

lemma store_reach_good: "store_reach cfg t i \<Longrightarrow> config_ok cfg \<and> store_good cfg t i"
  by (induction rule: store_reach.induct) (auto simp: store_new_good intro: call_store.step_good)

lemma store_reach_inv: "store_reach cfg t i \<Longrightarrow> store_inv (t + lease_ms cfg) i"
  using store_reach_good [of cfg t i] by (simp add: store_good_def)

section \<open>Lemmas for the properties\<close>

lemma finite_abs:
  assumes "store_inv u i"
  shows "finite (dom (abs_store i))"
proof (rule finite_subset)
  show "dom (abs_store i) \<subseteq> dom (calls i) \<union> dom (fences i) \<union> dom (markers i)"
    unfolding subset_iff Un_iff domIff abs_store_def hold_of_None by metis
  show "finite (dom (calls i) \<union> dom (fences i) \<union> dom (markers i))"
    using assms by (auto simp: store_inv_def sets_inv_def dest: finite_heap_covers)
qed

lemma live_upd:
  assumes "finite (dom A)"
  shows "live (A(k \<mapsto> h)) lid = live A lid - occ (entries_of (A k)) lid + occ (entries_of (Some h)) lid"
proof (cases "A k")
  case None
  then show ?thesis by (simp add: live_def map_sum_upd_fresh [OF assms])
next
  case (Some g)
  have "live A lid = live (A(k := None)) lid + occ (entries_of (Some g)) lid"
    unfolding live_def using map_sum_remove [OF assms, of k g] Some by simp
  moreover have "live ((A(k := None))(k \<mapsto> h)) lid = live (A(k := None)) lid + occ (entries_of (Some h)) lid"
    unfolding live_def by (rule map_sum_upd_fresh) (use assms in simp_all)
  ultimately show ?thesis using Some by simp
qed

lemma live_same_entries:
  assumes "finite (dom A)" and "entries_of (Some h) = entries_of (A k)"
  shows "live (A(k \<mapsto> h)) = live A"
proof
  fix lid
  have "occ (entries_of (A k)) lid \<le> live A lid"
    using map_sum_member_le [OF assms(1), of k _ "\<lambda>h. occ (entries_of (Some h)) lid"]
    by (cases "A k") (simp_all add: live_def)
  with live_upd [OF assms(1), of k h lid] assms(2) show "live (A(k \<mapsto> h)) lid = live A lid" by simp
qed

lemma entries_of_renumbered: "entries_of (Some (renumbered c t h)) = entries_of h"
  by (cases "(c, t, h)" rule: renumbered.cases) auto

lemma finite_dom_alive: "finite (dom A) \<Longrightarrow> finite (dom (alive now A))"
  by (rule finite_subset [of _ "dom A"]) (auto simp: alive_Some)

text \<open>The set a call holds when an admit is checked: what the store holds, or what was carried.\<close>

definition held_before :: "limiter_config \<Rightarrow> int \<Rightarrow> string \<Rightarrow> heldset \<Rightarrow> inner \<Rightarrow> astore" where
  "held_before cfg now k held i =
     (let A = alive now (abs_store i)
      in A(k := restored (hs_change held) (hs_entries held) (now + lease_ms cfg) (A k)))"

lemma a_admit_passed:
  assumes "a_admit u now k c held es rel A = (B, r)" and "r = Admitted \<or> (\<exists>lid h. r = Rejected lid h)"
  shows "let A = alive now A; A = A(k := restored (hs_change held) (hs_entries held) u (A k))
    in (r = Admitted \<longrightarrow> (\<forall>e\<in>set es. \<not> refusing A k es e) \<and>
          B = A(k \<mapsto> if es = [] then Fenced (FenceDropped c) u else Holds es c u)) \<and>
       (r \<noteq> Admitted \<longrightarrow> B = A(k \<mapsto> if rel then Fenced (FenceDropped c) u else renumbered c u (A k)) \<and>
          (\<exists>e\<in>set es. refusing A k es e \<and> r = Rejected (ae_id e) (states B k)))"
  using assms
  by (auto simp: a_admit_def Let_def find_None_iff find_Some_iff set_conv_nth split: if_splits option.splits)

lemma admit_step_abs:
  assumes "store_reach cfg t i" "t \<le> now" "clock_ok cfg now"
    and "admit_carrying cfg now k c held es rel i = (j, r)"
  shows "a_admit (now + lease_ms cfg) now k c held es rel (abs_store i) = (abs_store j, r)"
    and "store_inv (now + lease_ms cfg) j"
proof -
  from store_reach_good [OF assms(1)] have g: "config_ok cfg" "store_good cfg t i" by auto
  then have u: "i64_add now (lease_ms cfg) = now + lease_ms cfg" using assms(3) until_eq by blast
  have inv: "store_inv (i64_add now (lease_ms cfg)) i" using store_good_until g assms(2,3) by blast
  from admit_refines_lemma [OF inv order_refl, of k c held es rel] assms(4) u
  show "a_admit (now + lease_ms cfg) now k c held es rel (abs_store i) = (abs_store j, r)"
    and "store_inv (now + lease_ms cfg) j" by simp_all
qed

lemma refresh_call_future:
  assumes "\<forall>x\<in>set (set_deadlines i) \<union> set (fence_deadlines i) \<union> set (marker_deadlines i). now < fst x"
    and "now < t"
  shows "\<forall>x\<in>set (set_deadlines (fst (refresh_call k c es t i))) \<union>
      set (fence_deadlines (fst (refresh_call k c es t i))) \<union>
      set (marker_deadlines (fst (refresh_call k c es t i))). now < fst x"
  using assms
  by (cases "calls i k"; cases "fences i k")
    (auto simp: refresh_call_def Let_def reregister_def insert_set_def set_insort_key split: fence.splits)

section \<open>Properties\<close>

text \<open>A small deployment for the witnesses: a two-minute lease and one trunk capped at two.\<close>

definition demo_cfg :: limiter_config where
  "demo_cfg = \<lparr>lease_sec = DEFAULT_LEASE_SEC\<rparr>"

definition demo_entry :: admit_entry where
  "demo_entry = \<lparr>ae_id = ''trunk'', ae_limit = 2\<rparr>"

definition demo_store :: inner where
  "demo_store = fst (admit_carrying demo_cfg 1000 ''call-a'' 1 heldset_default [demo_entry] False store_new)"

lemma demo_cfg_ok: "config_ok demo_cfg" "lease_ms demo_cfg = 120000"
  by code_simp+

lemma demo_clock_ok: "0 \<le> t \<Longrightarrow> t \<le> 1000000 \<Longrightarrow> clock_ok demo_cfg t"
  by (simp add: clock_ok_def demo_cfg_ok)

lemma demo_reach: "store_reach demo_cfg 1000 demo_store"
  using reach_req [OF reach_boot [OF demo_cfg_ok(1)], of 0 1000
      "AdmitReq ''call-a'' 1 heldset_default [demo_entry] False"]
  by (simp add: demo_clock_ok demo_store_def)

text \<open>
  C2: the store implements its contract. At every reachable state and every request, the
  maps, heaps, pending deadlines and counts of \<open>store.rs\<close> behave, answer included, as one map
  from a key to what is known of it, in which lapsed knowledge is simply gone.
\<close>

theorem store_refines:
  assumes "store_reach cfg t i" and "t \<le> now" and "clock_ok cfg now"
  shows "apfst abs_store (store_step cfg now req i) = a_step (now + lease_ms cfg) now req (abs_store i)"
  using call_store.step_view [of cfg t i now req] store_reach_good [OF assms(1)] assms(2,3) by blast

theorem store_refines_witness:
  "store_reach demo_cfg 1000 demo_store \<and>
   apfst abs_store (store_step demo_cfg 2000 (HeldReq ''trunk'') demo_store)
     = a_step 122000 2000 (HeldReq ''trunk'') (abs_store demo_store)"
  using store_refines [OF demo_reach, of 2000 "HeldReq ''trunk''"] demo_reach demo_clock_ok [of 2000]
  by (simp add: demo_cfg_ok)

text \<open>
  C19: the live counts are exact. In every reachable state the count of an id is the number of
  its occurrences over all the sets held, and an id nobody holds has no entry.
\<close>

theorem store_counts_exact:
  assumes "store_reach cfg t i"
  shows "count_of (counts i) lid = (\<Sum>k\<in>dom (calls i). int (occ (cs_entries (the (calls i k))) lid)) \<and>
    (counts i lid = None \<longleftrightarrow> (\<forall>s\<in>ran (calls i). occ (cs_entries s) lid = 0))"
proof -
  have inv: "store_inv (t + lease_ms cfg) i" by (rule store_reach_inv [OF assms])
  then have fin: "finite (dom (calls i))" and c: "counts i = canon (held_count (calls i))"
    by (simp_all add: store_inv_def sets_inv_def)
  have "held_count (calls i) lid = 0 \<longleftrightarrow> (\<forall>s\<in>ran (calls i). occ (cs_entries s) lid = 0)"
    unfolding held_count_def map_sum_def sum_eq_0_iff [OF fin] by (auto simp: ran_def dom_def)
  then have "counts i lid = None \<longleftrightarrow> (\<forall>s\<in>ran (calls i). occ (cs_entries s) lid = 0)"
    by (simp add: c canon_def)
  moreover have "count_of (counts i) lid = (\<Sum>k\<in>dom (calls i). int (occ (cs_entries (the (calls i k))) lid))"
    by (simp add: c held_count_def map_sum_def)
  ultimately show ?thesis by blast
qed

theorem store_counts_exact_witness:
  "store_reach demo_cfg 1000 demo_store \<and> count_of (counts demo_store) ''trunk'' = 1 \<and>
   (\<Sum>k\<in>dom (calls demo_store). int (occ (cs_entries (the (calls demo_store k))) ''trunk'')) = 1"
proof -
  have "count_of (counts demo_store) ''trunk'' = 1" by code_simp
  with store_counts_exact [OF demo_reach, of "''trunk''"] demo_reach show ?thesis by simp
qed

text \<open>
  C20: an admitted set respects its caps. When an admit is answered \<open>Admitted\<close>, then for every
  entry of the list the id's live count over all calls is within the cap the entry states,
  unless the call adds no slot of that id to what it already held.
\<close>

theorem admit_cap_safe:
  assumes "store_reach cfg t i" and "t \<le> now" and "clock_ok cfg now"
    and "admit_carrying cfg now k c held es rel i = (j, Admitted)" and "e \<in> set es"
  shows "count_of (counts j) (ae_id e) \<le> ae_limit e \<or>
    occ es (ae_id e) \<le> occ (entries_of (held_before cfg now k held i k)) (ae_id e)"
proof -
  let ?A = "held_before cfg now k held i" and ?lid = "ae_id e"
  note a = admit_step_abs [OF assms(1-4)]
  have "\<not> refusing ?A k es e" "abs_store j = ?A(k \<mapsto> Holds es c (now + lease_ms cfg))"
    using a_admit_passed [OF a(1)] assms(5) by (auto simp: held_before_def Let_def)
  moreover have "finite (dom ?A)"
    using finite_abs [OF store_reach_inv [OF assms(1)]]
    by (simp add: held_before_def Let_def finite_dom_alive)
  ultimately show ?thesis
    using live_upd [of ?A k "Holds es c (now + lease_ms cfg)" ?lid]
    by (auto simp: counts_abs [OF a(2)] refusing_def Let_def)
qed

theorem admit_cap_safe_witness:
  "snd (admit_carrying demo_cfg 2000 ''call-b'' 1 heldset_default [demo_entry] False demo_store) = Admitted \<and>
   count_of (counts (fst (admit_carrying demo_cfg 2000 ''call-b'' 1 heldset_default [demo_entry] False demo_store)))
     ''trunk'' \<le> 2"
proof -
  let ?r = "admit_carrying demo_cfg 2000 ''call-b'' 1 heldset_default [demo_entry] False demo_store"
  have r: "snd ?r = Admitted" by code_simp
  have "occ (entries_of (held_before demo_cfg 2000 ''call-b'' heldset_default demo_store ''call-b'')) ''trunk'' = 0"
    by code_simp
  moreover have "occ [demo_entry] ''trunk'' = 1" by code_simp
  moreover have "ae_id demo_entry = ''trunk''" "ae_limit demo_entry = 2" by code_simp+
  ultimately show ?thesis
    using r admit_cap_safe [OF demo_reach, of 2000 "''call-b''" 1 heldset_default "[demo_entry]" False "fst ?r" demo_entry]
      demo_clock_ok [of 2000] by (simp add: prod_eq_iff)
qed

text \<open>
  a refusal moves nothing. An admit refused on a cap, without \<open>release_on_refusal\<close>, leaves
  the entries held for every key, and every live count, as they were before the check.
\<close>

theorem admit_all_or_none:
  assumes "store_reach cfg t i" and "t \<le> now" and "clock_ok cfg now"
    and "admit_carrying cfg now k c held es False i = (j, Rejected lid h)"
  shows "entries_of (abs_store j x) = entries_of (held_before cfg now k held i x) \<and>
    counts j = canon (live (held_before cfg now k held i)) \<and> h = held_set j k"
proof -
  let ?A = "held_before cfg now k held i" and ?u = "now + lease_ms cfg"
  note a = admit_step_abs [OF assms(1-4)]
  have j: "abs_store j = ?A(k \<mapsto> renumbered c ?u (?A k))" "h = states (abs_store j) k"
    using a_admit_passed [OF a(1)] by (auto simp: held_before_def Let_def)
  have "finite (dom ?A)"
    using finite_abs [OF store_reach_inv [OF assms(1)]]
    by (simp add: held_before_def Let_def finite_dom_alive)
  then have "live (abs_store j) = live ?A"
    unfolding j(1) by (rule live_same_entries) (rule entries_of_renumbered)
  then show ?thesis
    using j(2) held_set_abs [OF store_inv_exclusive [OF a(2)]]
    by (simp add: counts_abs [OF a(2)] j(1) entries_of_renumbered)
qed

theorem admit_all_or_none_witness:
  "snd (admit_carrying demo_cfg 2000 ''call-b'' 7 heldset_default [demo_entry, demo_entry] False demo_store)
     = Rejected ''trunk'' \<lparr>hs_change = 7, hs_entries = []\<rparr> \<and>
   counts (fst (admit_carrying demo_cfg 2000 ''call-b'' 7 heldset_default [demo_entry, demo_entry] False demo_store))
     = canon (live (held_before demo_cfg 2000 ''call-b'' heldset_default demo_store))"
proof -
  let ?r = "admit_carrying demo_cfg 2000 ''call-b'' 7 heldset_default [demo_entry, demo_entry] False demo_store"
  have "snd ?r = Rejected ''trunk'' \<lparr>hs_change = 7, hs_entries = []\<rparr>" by code_simp
  then show ?thesis
    using admit_all_or_none [OF demo_reach, of 2000 "''call-b''" 7 heldset_default "[demo_entry, demo_entry]" "fst ?r"
        "''trunk''" "\<lparr>hs_change = 7, hs_entries = []\<rparr>"] demo_clock_ok [of 2000] by (simp add: prod_eq_iff)
qed

lemma release_reach:
  assumes "store_reach cfg t i" and "t \<le> now" and "clock_ok cfg now"
  shows "store_good cfg now (release cfg now ks i)"
    and "abs_store (release cfg now ks i) = a_release (now + lease_ms cfg) now ks (abs_store i)"
proof -
  from store_reach_good [OF assms(1)] have g: "store_clock cfg now" "store_good cfg t i"
    using assms(3) by auto
  show "store_good cfg now (release cfg now ks i)"
    using call_store.step_good [OF g(2) assms(2) g(1), of "ReleaseReq ks"] by simp
  show "abs_store (release cfg now ks i) = a_release (now + lease_ms cfg) now ks (abs_store i)"
    using call_store.step_view_fst [OF g(2) assms(2) g(1), of "ReleaseReq ks"] by simp
qed

text \<open>
  C17: a release is final for one lease. After a release names a key that was not already
  released, then whatever requests follow, in any number and order, up to the end of the
  lease: the store holds no set for the key, an admit of it is answered \<open>Released\<close>, and a
  refresh of it re-creates nothing.
\<close>

theorem release_fence_holds:
  assumes "store_reach cfg t i" and "t \<le> now" and "clock_ok cfg now" and "k \<in> set ks"
    and "\<not> release_fenced (sweep now i) k"
    and "timed (store_clock cfg) now (now + lease_ms cfg) rs"
    and "last_reading now rs \<le> later" and "clock_ok cfg later" and "later < now + lease_ms cfg"
  shows "calls (store_run (store_step cfg) rs (release cfg now ks i)) k = None \<and>
    snd (admit_carrying cfg later k c held es rel (store_run (store_step cfg) rs (release cfg now ks i))) = Released \<and>
    refresh_outcome (snd (refresh cfg later k c es (store_run (store_step cfg) rs (release cfg now ks i))))
      = RefreshReleased"
proof -
  let ?e = "now + lease_ms cfg" and ?s = "release cfg now ks i"
  let ?j = "store_run (store_step cfg) rs ?s"
  note r = release_reach [OF assms(1-3), of ks]
  have inv: "store_inv (t + lease_ms cfg) i" by (rule store_reach_inv [OF assms(1)])
  have "\<nexists>x. alive now (abs_store i) k = Some (Fenced FenceReleased x)"
    using assms(5) release_fenced_abs [OF sweep_exclusive [OF inv]] sweep_abs [OF inv] by metis
  then have "abs_store ?s k = Some (Fenced FenceReleased ?e)"
    using assms(4) by (simp add: r(2) a_release_def Let_def)
  with call_store.run_fenced [OF r(1) assms(6)]
  have f: "abs_store ?j k = Some (Fenced FenceReleased ?e)" by blast
  have g: "store_good cfg (last_reading now rs) ?j" by (rule call_store.run_good [OF r(1) assms(6)])
  have cl: "store_clock cfg later" using assms(8) store_reach_good [OF assms(1)] by blast
  note ans = call_store.fenced_answers [OF g assms(7) cl f assms(9)]
  have "calls ?j k = None" using f by (cases "calls ?j k") (auto simp: abs_store_def)
  moreover have "snd (admit_carrying cfg later k c held es rel ?j) = Released" using ans(1) by simp
  moreover have "snd (refresh_all cfg later [(k, c, es)] ?j) = [\<lparr>refresh_outcome = RefreshReleased, refresh_held = None\<rparr>]"
    using ans(2) by simp
  ultimately show ?thesis by (simp add: refresh_def case_prod_beta)
qed

theorem release_fence_holds_witness:
  "\<not> release_fenced (sweep 2000 demo_store) ''call-a'' \<and>
   timed (store_clock demo_cfg) 2000 122000 [(3000, RefreshReq [(''call-a'', 1, [demo_entry])])] \<and>
   snd (admit_carrying demo_cfg 4000 ''call-a'' 9 heldset_default [demo_entry] False
     (store_run (store_step demo_cfg) [(3000, RefreshReq [(''call-a'', 1, [demo_entry])])]
       (release demo_cfg 2000 [''call-a''] demo_store))) = Released"
proof -
  have nf: "\<not> release_fenced (sweep 2000 demo_store) ''call-a''" by code_simp
  have tm: "timed (store_clock demo_cfg) 2000 122000 [(3000, RefreshReq [(''call-a'', 1, [demo_entry])])]"
    using demo_cfg_ok demo_clock_ok by simp
  from release_fence_holds [OF demo_reach, of 2000 "''call-a''" "[''call-a'']"
      "[(3000, RefreshReq [(''call-a'', 1, [demo_entry])])]" 4000 9 heldset_default "[demo_entry]" False]
    nf tm demo_clock_ok demo_cfg_ok show ?thesis by simp
qed

text \<open>
  C18: a late admit never overwrites a newer one. Once the store knows the number \<open>n\<close> for a
  key, until that knowledge lapses, and whatever requests come between, an admit carrying a
  number not above \<open>n\<close> moves nothing: it is answered with the set held, or \<open>Released\<close>.
\<close>

theorem late_admit_never_overwrites:
  assumes "store_reach cfg t i" and "abs_store i k = Some h" and "number_of (Some h) = Some n"
    and "timed (store_clock cfg) t (expires h) rs"
    and "last_reading t rs \<le> now" and "clock_ok cfg now" and "now < expires h" and "c \<le> n"
  shows "(let j = store_run (store_step cfg) rs i;
              (j', r) = admit_carrying cfg now k c held es rel j
          in abs_store j' = abs_store (sweep now j) \<and>
             (r = Released \<or> r = Superseded (held_set (sweep now j) k)))"
proof -
  let ?j = "store_run (store_step cfg) rs i"
  let ?r = "admit_carrying cfg now k c held es rel ?j"
  from store_reach_good [OF assms(1)] have g: "config_ok cfg" "store_good cfg t i" by auto
  have "guards n (expires h) (abs_store i k)" using assms(2,3) by simp
  from call_store.run_guards [OF g(2) assms(4) this]
  have gu: "guards n (expires h) (abs_store ?j k)" .
  have gj: "store_good cfg (last_reading t rs) ?j" by (rule call_store.run_good [OF g(2) assms(4)])
  have cl: "store_clock cfg now" using assms(6) g(1) by blast
  have inv: "store_inv (last_reading t rs + lease_ms cfg) ?j" using gj by (simp add: store_good_def)
  note l = call_store.late_admit [OF gj assms(5) cl gu assms(7,8), of held es rel]
  have "held_set (sweep now ?j) k = states (alive now (abs_store ?j)) k"
    using held_set_abs [OF sweep_exclusive [OF inv]] sweep_abs [OF inv] by simp
  with l sweep_abs [OF inv] show ?thesis by (cases ?r) (auto simp: Let_def)
qed

theorem late_admit_never_overwrites_witness:
  "abs_store demo_store ''call-a'' = Some (Holds [demo_entry] 1 121000) \<and>
   snd (admit_carrying demo_cfg 3000 ''call-a'' 1 heldset_default [] False
          (store_run (store_step demo_cfg) [(2000, HeldReq ''trunk'')] demo_store))
     \<in> {Released, Superseded (held_set (sweep 3000 (store_run (store_step demo_cfg) [(2000, HeldReq ''trunk'')] demo_store)) ''call-a'')}"
proof -
  have h: "abs_store demo_store ''call-a'' = Some (Holds [demo_entry] 1 121000)" by code_simp
  from late_admit_never_overwrites [OF demo_reach h, of 1 "[(2000, HeldReq ''trunk'')]" 3000 1 heldset_default "[]" False]
    h demo_clock_ok demo_cfg_ok
  show ?thesis by (auto simp: Let_def split: prod.splits)
qed

text \<open>
  the sweep is exact. From a reachable state the janitor drops the sets whose lease has
  lapsed and no other, counts them and the holds they carried, and drops exactly the fences
  and markers whose own lease has lapsed.
\<close>

theorem sweep_exact:
  assumes "store_reach cfg t i"
  shows "dom (calls (sweep now i)) = {k. \<exists>s. calls i k = Some s \<and> now < lease_expires_at_ms s} \<and>
    snd (sweep_now now i) = card {k. \<exists>s. calls i k = Some s \<and> lease_expires_at_ms s \<le> now} \<and>
    lease_expired_holds (sweep now i) = lease_expired_holds i + lapsed_holds now (calls i) \<and>
    dom (fences (sweep now i)) = {k. \<exists>w e. fences i k = Some (w, e) \<and> now < e} \<and>
    dom (markers (sweep now i)) = {k. \<exists>c e. markers i k = Some (c, e) \<and> now < e}"
proof -
  have inv: "store_inv (t + lease_ms cfg) i" by (rule store_reach_inv [OF assms])
  have "dom (calls (sweep now i)) = dom (sets_view (calls (sweep now i)))"
    by (auto simp: sets_view_def dom_def)
  also have "\<dots> = {k. \<exists>s. calls i k = Some s \<and> now < lease_expires_at_ms s}"
    unfolding sweep_spec(2) [OF inv]
    by (auto simp: sets_view_def lapsed_def dom_def restrict_map_def not_le split: if_splits)
  finally show ?thesis
    using sweep_spec(3,4,7,8) [OF inv, of now]
    by (auto simp: sweep_now_def Let_def lapsed_def unlapsed_def dom_def split: option.splits if_splits)
qed

theorem sweep_exact_witness:
  "store_reach demo_cfg 1000 demo_store \<and> ''call-a'' \<in> dom (calls (sweep 121000 demo_store)) = False \<and>
   ''call-a'' \<in> dom (calls (sweep 120999 demo_store))"
proof -
  have "map_option lease_expires_at_ms (calls demo_store ''call-a'') = Some 121000" by code_simp
  then show ?thesis
    using sweep_exact [OF demo_reach, of 121000] sweep_exact [OF demo_reach, of 120999] demo_reach by auto
qed

text \<open>
  a batched refresh is the sequence of its calls' refreshes: the same state and, call by
  call, the same answer as one refresh request per call at the same instant.
\<close>

theorem refresh_all_sequential:
  assumes "store_reach cfg t i" and "clock_ok cfg now"
  shows "refresh_all cfg now ((k, c, es) # cs) i =
    (case refresh cfg now k c es i of (i, r) \<Rightarrow>
       (case refresh_all cfg now cs i of (i, rs) \<Rightarrow> (i, r # rs)))"
proof -
  let ?t = "i64_add now (lease_ms cfg)"
  let ?j = "fst (refresh_call k c es ?t (sweep now i))"
  have inv: "store_inv (t + lease_ms cfg) i" by (rule store_reach_inv [OF assms(1)])
  have "config_ok cfg" using store_reach_good [OF assms(1)] by blast
  with lease_ms_pos until_eq assms(2) have "now < ?t" by simp
  from refresh_call_future [OF sweep_spec(9) [OF inv] this] have "sweep now ?j = ?j"
    by (rule sweep_id)
  then show ?thesis
    by (cases "refresh_call k c es ?t (sweep now i)")
      (simp add: refresh_all_def refresh_def split: prod.splits)
qed

theorem refresh_all_sequential_witness:
  "clock_ok demo_cfg 2000 \<and>
   refresh_all demo_cfg 2000 [(''call-a'', 1, []), (''call-b'', 1, [demo_entry])] demo_store =
    (case refresh demo_cfg 2000 ''call-a'' 1 [] demo_store of (i, r) \<Rightarrow>
       (case refresh_all demo_cfg 2000 [(''call-b'', 1, [demo_entry])] i of (i, rs) \<Rightarrow> (i, r # rs)))"
  using refresh_all_sequential [OF demo_reach, of 2000 "''call-a''" 1 "[]" "[(''call-b'', 1, [demo_entry])]"]
    demo_clock_ok [of 2000] by simp

end
