(* ===== verification/Limiter_Server.thy ===== *)
theory Limiter_Server
  imports Call_Store_Props
begin

text \<open>
  The limiter process around the store: the request counters of
  \<open>src/crates/call-limiter/src/metrics.rs\<close>, the request handler of \<open>server.rs\<close> over the wire
  types of \<open>call-limiter-wire\<close>, and the boot check of the configured lease
  (\<open>call-limiter-runner/src/env.rs\<close>).

  The JSON encoding (\<open>serde_json\<close>) and the Prometheus rendering are parameters, collected in
  the record \<open>codec\<close>. The metric counters are unbounded.
\<close>

section \<open>Wire types\<close>

record admit_request =
  aq_key :: string
  aq_change :: nat
  aq_held :: heldset
  aq_entries :: "admit_entry list"
  aq_release_on_refusal :: bool

datatype admit_answer = AnsAdmitted | AnsRejected | AnsSuperseded | AnsReleased

record admit_response =
  ar_outcome :: admit_answer
  ar_rejected_id :: "string option"
  ar_held :: "heldset option"
  ar_lease_ms :: nat

record refresh_req_call =
  rc_key :: string
  rc_change :: nat
  rc_entries :: "admit_entry list"

datatype refresh_answer = AnsExtended | AnsReregistered | AnsRefReleased | AnsDropped

record refresh_reply =
  rr_outcome :: refresh_answer
  rr_held :: "heldset option"

record refresh_response =
  rs_outcomes :: "refresh_reply list"
  rs_lease_ms :: nat

record health_response =
  hr_calls :: nat
  hr_lease_ms :: nat

section \<open>Metrics\<close>

record limiter_metrics =
  m_admits :: "nat list"
  m_refresh_requests :: nat
  m_refresh_calls :: "nat list"
  m_release_requests :: nat
  m_release_calls :: nat

definition metrics_new :: limiter_metrics where
  "metrics_new = \<lparr>m_admits = [0, 0, 0, 0], m_refresh_requests = 0, m_refresh_calls = [0, 0, 0, 0],
     m_release_requests = 0, m_release_calls = 0\<rparr>"

definition bump :: "nat \<Rightarrow> nat list \<Rightarrow> nat list" where
  "bump slot xs = xs[slot := xs ! slot + 1]"

fun admit_slot :: "admit_result \<Rightarrow> nat" where
  "admit_slot Admitted = 0"
| "admit_slot (Rejected _ _) = 1"
| "admit_slot Released = 2"
| "admit_slot (Superseded _) = 3"

definition on_admit :: "admit_result \<Rightarrow> limiter_metrics \<Rightarrow> limiter_metrics" where
  "on_admit r m = m\<lparr>m_admits := bump (admit_slot r) (m_admits m)\<rparr>"

fun refresh_slot :: "refresh_result \<Rightarrow> nat" where
  "refresh_slot Extended = 0"
| "refresh_slot Reregistered = 1"
| "refresh_slot RefreshReleased = 2"
| "refresh_slot RefreshDropped = 3"

definition on_refresh :: "refresh_result list \<Rightarrow> limiter_metrics \<Rightarrow> limiter_metrics" where
  "on_refresh outcomes m =
     m\<lparr>m_refresh_requests := m_refresh_requests m + 1,
       m_refresh_calls := fold (\<lambda>r. bump (refresh_slot r)) outcomes (m_refresh_calls m)\<rparr>"

definition on_release :: "nat \<Rightarrow> limiter_metrics \<Rightarrow> limiter_metrics" where
  "on_release n m = m\<lparr>m_release_requests := m_release_requests m + 1, m_release_calls := m_release_calls m + n\<rparr>"

section \<open>The handler\<close>

record http_request =
  hq_method :: string
  hq_path :: string
  hq_body :: bytes

record http_response =
  hp_status :: nat
  hp_body :: bytes

record codec =
  dec_admit :: "bytes \<Rightarrow> string + admit_request"
  dec_release :: "bytes \<Rightarrow> string + string list"
  dec_refresh :: "bytes \<Rightarrow> string + refresh_req_call list"
  enc_admit :: "admit_response \<Rightarrow> string + bytes"
  enc_empty :: "string + bytes"
  enc_refresh :: "refresh_response \<Rightarrow> string + bytes"
  enc_health :: "health_response \<Rightarrow> string + bytes"
  render_metrics :: "limiter_metrics \<Rightarrow> store_stats \<Rightarrow> bytes"

record limiter_server =
  ls_store :: inner
  ls_metrics :: limiter_metrics

definition server_lease_ms :: "limiter_config \<Rightarrow> nat" where
  "server_lease_ms cfg = nat (max (lease_ms cfg) 0)"

fun json_ok :: "string + bytes \<Rightarrow> http_response" where
  "json_ok (Inr body) = \<lparr>hp_status = 200, hp_body = body\<rparr>"
| "json_ok (Inl e) = \<lparr>hp_status = 500, hp_body = ''serialize error: '' @ e\<rparr>"

definition bad_request :: "string \<Rightarrow> http_response" where
  "bad_request reason = \<lparr>hp_status = 400, hp_body = reason\<rparr>"

fun admit_answer_of :: "admit_request \<Rightarrow> admit_result \<Rightarrow> admit_answer \<times> string option \<times> heldset option" where
  "admit_answer_of q Admitted =
     (AnsAdmitted, None, Some \<lparr>hs_change = aq_change q, hs_entries = aq_entries q\<rparr>)"
| "admit_answer_of q (Rejected lid held) = (AnsRejected, Some lid, Some held)"
| "admit_answer_of q (Superseded held) = (AnsSuperseded, None, Some held)"
| "admit_answer_of q Released = (AnsReleased, None, None)"

text \<open>The admit route on a parsed body.\<close>

definition serve_admit ::
  "limiter_config \<Rightarrow> int \<Rightarrow> admit_request \<Rightarrow> limiter_server \<Rightarrow> limiter_server \<times> admit_response" where
  "serve_admit cfg now q s =
     (case admit_carrying cfg now (aq_key q) (aq_change q) (aq_held q) (aq_entries q)
             (aq_release_on_refusal q) (ls_store s) of
        (i, outcome) \<Rightarrow>
          (case admit_answer_of q outcome of
             (answer, rejected, held) \<Rightarrow>
               (s\<lparr>ls_store := i, ls_metrics := on_admit outcome (ls_metrics s)\<rparr>,
                \<lparr>ar_outcome = answer, ar_rejected_id = rejected, ar_held = held,
                 ar_lease_ms = server_lease_ms cfg\<rparr>)))"

fun refresh_answer_of :: "refresh_result \<Rightarrow> refresh_answer" where
  "refresh_answer_of Extended = AnsExtended"
| "refresh_answer_of Reregistered = AnsReregistered"
| "refresh_answer_of RefreshReleased = AnsRefReleased"
| "refresh_answer_of RefreshDropped = AnsDropped"

definition serve_refresh ::
  "limiter_config \<Rightarrow> int \<Rightarrow> refresh_req_call list \<Rightarrow> limiter_server \<Rightarrow> limiter_server \<times> refresh_response" where
  "serve_refresh cfg now cs s =
     (case refresh_all cfg now (map (\<lambda>c. (rc_key c, rc_change c, rc_entries c)) cs) (ls_store s) of
        (i, results) \<Rightarrow>
          (s\<lparr>ls_store := i, ls_metrics := on_refresh (map refresh_outcome results) (ls_metrics s)\<rparr>,
           \<lparr>rs_outcomes = map (\<lambda>r. \<lparr>rr_outcome = refresh_answer_of (refresh_outcome r), rr_held = refresh_held r\<rparr>) results,
            rs_lease_ms = server_lease_ms cfg\<rparr>))"

definition serve_release :: "limiter_config \<Rightarrow> int \<Rightarrow> string list \<Rightarrow> limiter_server \<Rightarrow> limiter_server" where
  "serve_release cfg now keys s =
     s\<lparr>ls_store := release cfg now keys (ls_store s), ls_metrics := on_release (length keys) (ls_metrics s)\<rparr>"

definition handle ::
  "codec \<Rightarrow> limiter_config \<Rightarrow> int \<Rightarrow> http_request \<Rightarrow> limiter_server \<Rightarrow> limiter_server \<times> http_response" where
  "handle cd cfg now req s =
     (if hq_method req = ''POST'' \<and> hq_path req = ''/v1/admit'' then
        (case dec_admit cd (hq_body req) of
           Inl e \<Rightarrow> (s, bad_request (''bad admit body: '' @ e))
         | Inr q \<Rightarrow> (case serve_admit cfg now q s of (s, r) \<Rightarrow> (s, json_ok (enc_admit cd r))))
      else if hq_method req = ''POST'' \<and> hq_path req = ''/v1/release'' then
        (case dec_release cd (hq_body req) of
           Inl e \<Rightarrow> (s, bad_request (''bad release body: '' @ e))
         | Inr keys \<Rightarrow> (serve_release cfg now keys s, json_ok (enc_empty cd)))
      else if hq_method req = ''POST'' \<and> hq_path req = ''/v1/refresh'' then
        (case dec_refresh cd (hq_body req) of
           Inl e \<Rightarrow> (s, bad_request (''bad refresh body: '' @ e))
         | Inr cs \<Rightarrow> (case serve_refresh cfg now cs s of (s, r) \<Rightarrow> (s, json_ok (enc_refresh cd r))))
      else if hq_method req = ''GET'' \<and> hq_path req = ''/v1/health'' then
        (case store_calls now (ls_store s) of (i, n) \<Rightarrow>
           (s\<lparr>ls_store := i\<rparr>, json_ok (enc_health cd \<lparr>hr_calls = n, hr_lease_ms = server_lease_ms cfg\<rparr>)))
      else if hq_method req = ''GET'' \<and> hq_path req = ''/metrics'' then
        (case stats now (ls_store s) of (i, st) \<Rightarrow>
           (s\<lparr>ls_store := i\<rparr>, \<lparr>hp_status = 200, hp_body = render_metrics cd (ls_metrics s) st\<rparr>))
      else if hq_method req = ''GET'' \<and> hq_path req = ''/healthz'' then
        (s, \<lparr>hp_status = 200, hp_body = ''ok'' @ [CHR 0x0A]\<rparr>)
      else (s, \<lparr>hp_status = 404, hp_body = ''not found'' @ [CHR 0x0A]\<rparr>))"

section \<open>The configured lease\<close>

text \<open>\<open>i64::from_str\<close>: an optional sign, then at least one ASCII digit, within range.\<close>

definition digit_of :: "char \<Rightarrow> nat option" where
  "digit_of c = (let n = of_char c :: nat in if 48 \<le> n \<and> n \<le> 57 then Some (n - 48) else None)"

fun digits :: "string \<Rightarrow> nat \<Rightarrow> nat option" where
  "digits [] acc = Some acc"
| "digits (c # cs) acc = (case digit_of c of None \<Rightarrow> None | Some d \<Rightarrow> digits cs (10 * acc + d))"

definition unsigned_of :: "string \<Rightarrow> nat option" where
  "unsigned_of cs = (if cs = [] then None else digits cs 0)"

definition parse_i64 :: "string \<Rightarrow> int option" where
  "parse_i64 v =
     (let n = (case v of
          CHR ''-'' # cs \<Rightarrow> map_option (\<lambda>n. - int n) (unsigned_of cs)
        | CHR ''+'' # cs \<Rightarrow> map_option int (unsigned_of cs)
        | cs \<Rightarrow> map_option int (unsigned_of cs))
      in case n of
           None \<Rightarrow> None
         | Some i \<Rightarrow> if - (2 ^ 63) \<le> i \<and> i < 2 ^ 63 then Some i else None)"

datatype env_error = NotInRange string int | NotANumber string string

text \<open>The value of a seconds variable, from what the environment states after trimming.\<close>

definition env_seconds :: "string \<Rightarrow> int \<Rightarrow> string option \<Rightarrow> env_error + int" where
  "env_seconds key dflt stated = (case stated of
      None \<Rightarrow> Inr dflt
    | Some v \<Rightarrow> (case parse_i64 v of
        Some n \<Rightarrow> if 1 \<le> n \<and> n \<le> MAX_LEASE_SEC then Inr n else Inl (NotInRange key n)
      | None \<Rightarrow> Inl (NotANumber key v)))"

section \<open>Properties\<close>

lemma admitted_held_set:
  assumes "store_reach cfg t i" "t \<le> now" "clock_ok cfg now"
    and "admit_carrying cfg now k c held es rel i = (j, Admitted)"
  shows "held_set j k = \<lparr>hs_change = c, hs_entries = es\<rparr>"
proof -
  note a = admit_step_abs [OF assms]
  have "abs_store j k = Some (if es = [] then Fenced (FenceDropped c) (now + lease_ms cfg)
      else Holds es c (now + lease_ms cfg))"
    using a_admit_passed [OF a(1)] by (auto simp: Let_def)
  then show ?thesis
    using held_set_abs [OF store_inv_exclusive [OF a(2)]] by (auto simp: states_def)
qed

lemma admit_answer_held_set:
  assumes "store_reach cfg t i" "t \<le> now" "clock_ok cfg now"
    and "admit_carrying cfg now k c held es rel i = (j, r)"
  shows "(\<forall>h. r = Superseded h \<longrightarrow> h = held_set j k) \<and> (\<forall>lid h. r = Rejected lid h \<longrightarrow> h = held_set j k)"
  using assms(4)
  by (auto simp: admit_carrying_eq admit_settle_def Let_def split: if_splits option.splits)

text \<open>
  C35: every admit answer states the truth. The response of the admit route states the set the
  store holds for the key after the request, for every outcome but \<open>released\<close>, which states
  none; it names a refused id exactly on a cap refusal, and always states the lease.
\<close>

theorem admit_response_truthful:
  assumes "store_reach cfg t (ls_store s)" and "t \<le> now" and "clock_ok cfg now"
    and "serve_admit cfg now q s = (s', r)"
  shows "(ar_held r = (if ar_outcome r = AnsReleased then None else Some (held_set (ls_store s') (aq_key q)))) \<and>
    (ar_rejected_id r \<noteq> None \<longleftrightarrow> ar_outcome r = AnsRejected) \<and>
    int (ar_lease_ms r) = lease_ms cfg"
proof -
  obtain i out where a: "admit_carrying cfg now (aq_key q) (aq_change q) (aq_held q) (aq_entries q)
      (aq_release_on_refusal q) (ls_store s) = (i, out)" by fastforce
  have "0 < lease_ms cfg" using store_reach_good [OF assms(1)] lease_ms_pos by blast
  then have l: "int (server_lease_ms cfg) = lease_ms cfg" by (simp add: server_lease_ms_def)
  show ?thesis
    using assms(4) a l admitted_held_set [OF assms(1-3)] admit_answer_held_set [OF assms(1-3) a]
    by (cases out) (auto simp: serve_admit_def)
qed

definition demo_server :: limiter_server where
  "demo_server = \<lparr>ls_store = demo_store, ls_metrics = metrics_new\<rparr>"

definition demo_admit :: admit_request where
  "demo_admit = \<lparr>aq_key = ''call-b'', aq_change = 1, aq_held = heldset_default,
     aq_entries = [demo_entry], aq_release_on_refusal = False\<rparr>"

theorem admit_response_truthful_witness:
  "ar_outcome (snd (serve_admit demo_cfg 2000 demo_admit demo_server)) = AnsAdmitted \<and>
   ar_held (snd (serve_admit demo_cfg 2000 demo_admit demo_server))
     = Some (held_set (ls_store (fst (serve_admit demo_cfg 2000 demo_admit demo_server))) ''call-b'')"
proof -
  have "snd (admit_carrying demo_cfg 2000 ''call-b'' 1 heldset_default [demo_entry] False demo_store) = Admitted"
    by code_simp
  then have o: "ar_outcome (snd (serve_admit demo_cfg 2000 demo_admit demo_server)) = AnsAdmitted"
    by (simp add: serve_admit_def demo_admit_def demo_server_def case_prod_beta)
  have r: "store_reach demo_cfg 1000 (ls_store demo_server)" using demo_reach by (simp add: demo_server_def)
  from admit_response_truthful [OF r, of 2000 demo_admit] demo_clock_ok [of 2000] o show ?thesis
    by (cases "serve_admit demo_cfg 2000 demo_admit demo_server") (simp add: demo_admit_def)
qed

lemma json_ok_status: "hp_status (json_ok x) = 200 \<or> hp_status (json_ok x) = 500"
  by (cases x) auto

lemma serve_reach:
  assumes "store_reach cfg t (ls_store s)" "t \<le> now" "clock_ok cfg now"
  shows "store_reach cfg now (ls_store (fst (serve_admit cfg now q s)))"
    and "store_reach cfg now (ls_store (serve_release cfg now ks s))"
    and "store_reach cfg now (ls_store (fst (serve_refresh cfg now cs s)))"
    and "store_reach cfg now (sweep now (ls_store s))"
proof -
  note r = reach_req [OF assms]
  show "store_reach cfg now (ls_store (fst (serve_admit cfg now q s)))"
    using r [of "AdmitReq (aq_key q) (aq_change q) (aq_held q) (aq_entries q) (aq_release_on_refusal q)"]
    by (simp add: serve_admit_def case_prod_beta)
  show "store_reach cfg now (ls_store (serve_release cfg now ks s))"
    using r [of "ReleaseReq ks"] by (simp add: serve_release_def)
  show "store_reach cfg now (ls_store (fst (serve_refresh cfg now cs s)))"
    using r [of "RefreshReq (map (\<lambda>c. (rc_key c, rc_change c, rc_entries c)) cs)"]
    by (simp add: serve_refresh_def case_prod_beta)
  show "store_reach cfg now (sweep now (ls_store s))"
    using r [of SweepReq] by (simp add: sweep_now_def Let_def)
qed

text \<open>
  C36: the handler only drives the store through its operations. Whatever the request and
  whatever the JSON library makes of its body, the store stays reachable, its clock not
  beyond the reading; and a request answered 400 or 404 changed nothing at all.
\<close>

theorem handle_safe:
  assumes "store_reach cfg t (ls_store s)" and "t \<le> now" and "clock_ok cfg now"
  shows "(\<exists>t'. t \<le> t' \<and> t' \<le> now \<and> store_reach cfg t' (ls_store (fst (handle cd cfg now req s)))) \<and>
    (hp_status (snd (handle cd cfg now req s)) \<in> {400, 404} \<longrightarrow> fst (handle cd cfg now req s) = s)"
proof -
  have "fst (handle cd cfg now req s) = s \<or>
      store_reach cfg now (ls_store (fst (handle cd cfg now req s))) \<and>
      (hp_status (snd (handle cd cfg now req s)) = 200 \<or> hp_status (snd (handle cd cfg now req s)) = 500)"
    unfolding handle_def using serve_reach [OF assms] json_ok_status
    by (simp add: case_prod_beta store_calls_def stats_def Let_def split: sum.split)
  then show ?thesis using assms(1,2) by fastforce
qed

text \<open>A codec for the witness: every body is refused, every answer is empty.\<close>

definition demo_codec :: codec where
  "demo_codec = \<lparr>dec_admit = (\<lambda>_. Inl ''eof''), dec_release = (\<lambda>_. Inl ''eof''), dec_refresh = (\<lambda>_. Inl ''eof''),
     enc_admit = (\<lambda>_. Inr []), enc_empty = Inr [], enc_refresh = (\<lambda>_. Inr []), enc_health = (\<lambda>_. Inr []),
     render_metrics = (\<lambda>_ _. [])\<rparr>"

theorem handle_safe_witness:
  "store_reach demo_cfg 1000 (ls_store demo_server) \<and>
   fst (handle demo_codec demo_cfg 2000 \<lparr>hq_method = ''POST'', hq_path = ''/v1/admit'', hq_body = ''x''\<rparr> demo_server)
     = demo_server"
proof -
  have r: "store_reach demo_cfg 1000 (ls_store demo_server)" using demo_reach by (simp add: demo_server_def)
  have "hp_status (snd (handle demo_codec demo_cfg 2000
      \<lparr>hq_method = ''POST'', hq_path = ''/v1/admit'', hq_body = ''x''\<rparr> demo_server)) = 400"
    by (simp add: handle_def demo_codec_def bad_request_def)
  with handle_safe [OF r, of 2000 demo_codec] demo_clock_ok [of 2000] r show ?thesis by simp
qed

text \<open>
  the boot check only lets a lease through that the store can run: whatever the
  environment states, an accepted value gives a configuration under which every clock
  reading plus the lease is computed without overflow, and the lease is positive.
\<close>

theorem env_lease_ok:
  assumes "env_seconds ''LIMITER_LEASE_SECONDS'' DEFAULT_LEASE_SEC v = Inr n"
  shows "config_ok \<lparr>lease_sec = n\<rparr> \<and> lease_ms \<lparr>lease_sec = n\<rparr> = n * 1000 \<and>
    (0 \<le> now \<longrightarrow> now < 2 ^ 62 \<longrightarrow> i64_add now (lease_ms \<lparr>lease_sec = n\<rparr>) = now + n * 1000)"
proof -
  have c: "config_ok \<lparr>lease_sec = n\<rparr>"
    using assms by (auto simp: env_seconds_def config_ok_def DEFAULT_LEASE_SEC_def MAX_LEASE_SEC_def
        split: option.splits if_splits)
  then have l: "lease_ms \<lparr>lease_sec = n\<rparr> = n * 1000" by (simp add: lease_ms_eq)
  have "clock_ok \<lparr>lease_sec = n\<rparr> now" if "0 \<le> now" "now < 2 ^ 62"
    using that c l by (auto simp: clock_ok_def config_ok_def MAX_LEASE_SEC_def)
  with until_eq [OF c, of now] c l show ?thesis by simp
qed

theorem env_lease_ok_witness:
  "env_seconds ''LIMITER_LEASE_SECONDS'' DEFAULT_LEASE_SEC (Some ''+300'') = Inr 300 \<and>
   config_ok \<lparr>lease_sec = 300\<rparr>"
proof -
  have e: "env_seconds ''LIMITER_LEASE_SECONDS'' DEFAULT_LEASE_SEC (Some ''+300'') = Inr 300" by code_simp
  from env_lease_ok [OF e] e show ?thesis by simp
qed

end
