(* ===== verification/Sip_Method.thy ===== *)
theory Sip_Method
  imports Prelude
begin

text \<open>
  The SIP method (\<open>src/crates/sip-message/src/method.rs\<close>): the native variants, an extension method kept
  verbatim, and the reading and writing of the wire token. A method token is case-sensitive.
\<close>

datatype meth =
    MInvite | MAck | MBye | MCancel | MOptions | MRegister | MInfo
  | MUpdate | MPrack | MSubscribe | MNotify | MPublish | MMessage | MRefer
  | MOther string

definition NATIVE_TOKENS :: "string list" where
  "NATIVE_TOKENS =
     [''INVITE'', ''ACK'', ''BYE'', ''CANCEL'', ''OPTIONS'', ''REGISTER'', ''INFO'',
      ''UPDATE'', ''PRACK'', ''SUBSCRIBE'', ''NOTIFY'', ''PUBLISH'', ''MESSAGE'', ''REFER'']"

fun meth_str :: "meth \<Rightarrow> string" where
  "meth_str MInvite = ''INVITE''"
| "meth_str MAck = ''ACK''"
| "meth_str MBye = ''BYE''"
| "meth_str MCancel = ''CANCEL''"
| "meth_str MOptions = ''OPTIONS''"
| "meth_str MRegister = ''REGISTER''"
| "meth_str MInfo = ''INFO''"
| "meth_str MUpdate = ''UPDATE''"
| "meth_str MPrack = ''PRACK''"
| "meth_str MSubscribe = ''SUBSCRIBE''"
| "meth_str MNotify = ''NOTIFY''"
| "meth_str MPublish = ''PUBLISH''"
| "meth_str MMessage = ''MESSAGE''"
| "meth_str MRefer = ''REFER''"
| "meth_str (MOther m) = m"

definition from_wire :: "string \<Rightarrow> meth" where
  "from_wire s =
     (if s = ''INVITE'' then MInvite
      else if s = ''ACK'' then MAck
      else if s = ''BYE'' then MBye
      else if s = ''CANCEL'' then MCancel
      else if s = ''OPTIONS'' then MOptions
      else if s = ''REGISTER'' then MRegister
      else if s = ''INFO'' then MInfo
      else if s = ''UPDATE'' then MUpdate
      else if s = ''PRACK'' then MPrack
      else if s = ''SUBSCRIBE'' then MSubscribe
      else if s = ''NOTIFY'' then MNotify
      else if s = ''PUBLISH'' then MPublish
      else if s = ''MESSAGE'' then MMessage
      else if s = ''REFER'' then MRefer
      else MOther s)"

definition is_dialog_creating :: "meth \<Rightarrow> bool" where
  "is_dialog_creating m \<longleftrightarrow> m = MInvite \<or> m = MSubscribe"

lemma from_wire_other: "s \<notin> set NATIVE_TOKENS \<Longrightarrow> from_wire s = MOther s"
  by (simp add: from_wire_def NATIVE_TOKENS_def)

text \<open>Reading a method off the wire and writing it gives the token back, whatever it is; writing a
  method and reading it gives the method back exactly when it is native or an extension method whose
  token is no native one.\<close>

theorem method_round_trip:
  "meth_str (from_wire s) = s \<and>
   (from_wire (meth_str m) = m \<longleftrightarrow> m \<notin> MOther ` set NATIVE_TOKENS)"
proof
  show "meth_str (from_wire s) = s" by (simp add: from_wire_def)
  show "from_wire (meth_str m) = m \<longleftrightarrow> m \<notin> MOther ` set NATIVE_TOKENS"
  proof (cases m)
    case (MOther x)
    show ?thesis
    proof (cases "x \<in> set NATIVE_TOKENS")
      case True
      then have "from_wire x \<noteq> MOther x" by (auto simp: NATIVE_TOKENS_def from_wire_def)
      with True MOther show ?thesis by auto
    qed (auto simp: MOther from_wire_other)
  qed (auto simp: from_wire_def)
qed

end
