(* ===== verification/Deadline.thy ===== *)
theory Deadline
  imports Prelude
begin

text \<open>
  Deadline arithmetic and the timer wheel's insertion ceiling, \<open>src/crates/sip-clock/src/deadline.rs\<close>
  and \<open>delay_queue.rs\<close>. An \<open>Instant\<close> is a number of nanoseconds and \<open>lim\<close> the furthest one the
  platform represents, so \<open>checked_add\<close> is \<open>None\<close> past it.
\<close>

definition MAX_DELAY :: duration where
  "MAX_DELAY = 365 * 24 * 3600 * 1000000000"

definition checked_add :: "instant \<Rightarrow> instant \<Rightarrow> duration \<Rightarrow> instant option" where
  "checked_add lim at d = (if at + d \<le> lim then Some (at + d) else None)"

text \<open>The loop of \<open>deadline::after\<close> over \<open>at\<close>, \<open>left\<close> and \<open>step\<close>.\<close>

function after_loop :: "instant \<Rightarrow> instant \<Rightarrow> duration \<Rightarrow> duration \<Rightarrow> instant" where
  "after_loop lim at left step =
     (if left = 0 \<or> step = 0 then at
      else case checked_add lim at step of
        Some next \<Rightarrow> after_loop lim next (left - step) (min step (left - step))
      | None \<Rightarrow> after_loop lim at left (step div 2))"
  by pat_completeness auto
termination
  by (relation "measure (\<lambda>(lim, at, left, step). left + step)")
    (auto simp: checked_add_def split: if_splits)

declare after_loop.simps [simp del]

definition deadline_after :: "instant \<Rightarrow> instant \<Rightarrow> duration \<Rightarrow> instant" where
  "deadline_after lim from delay = after_loop lim from (min delay MAX_DELAY) (min delay MAX_DELAY)"

text \<open>A step that fits is taken and kept, so the walk takes steps of one before it ends short of
  \<open>at + left\<close>: it always reaches that instant or the platform's last one.\<close>

lemma after_loop_eq:
  assumes "at \<le> lim" "step \<le> left" "step = 0 \<longrightarrow> left = 0 \<or> at = lim"
  shows "after_loop lim at left step = min (at + left) lim"
  using assms
proof (induction lim at left step rule: after_loop.induct)
  case (1 lim at left step)
  show ?case
  proof (cases "left = 0 \<or> step = 0")
    case True
    with 1(3-5) show ?thesis by (subst after_loop.simps) auto
  next
    case False
    show ?thesis
    proof (cases "at + step \<le> lim")
      case True
      then have c: "checked_add lim at step = Some (at + step)" by (simp add: checked_add_def)
      have "min step (left - step) = 0 \<longrightarrow> left - step = 0 \<or> at + step = lim" using False by auto
      with 1(2) [OF False c] 1(4) True False c show ?thesis
        by (subst after_loop.simps) simp
    next
      case nofit: False
      then have c: "checked_add lim at step = None" by (simp add: checked_add_def)
      have "step div 2 = 0 \<longrightarrow> left = 0 \<or> at = lim" using nofit False 1(3) by auto
      with 1(1) [OF False c] 1(3,4) False c show ?thesis
        by (subst after_loop.simps) simp
    qed
  qed
qed

lemma deadline_after_min: "from \<le> lim \<Longrightarrow> deadline_after lim from delay = min (from + min delay MAX_DELAY) lim"
  by (simp add: deadline_after_def after_loop_eq)

text \<open>The deadline walk is exact: it ends, never passes the platform's last instant, and its
  result is the instant \<open>delay\<close> after \<open>from\<close>, capped at one year out, or the last representable
  instant when that comes first.\<close>

theorem deadline_after_exact:
  assumes "from \<le> lim"
  shows "deadline_after lim from delay = min (from + min delay MAX_DELAY) lim"
  using assms by (rule deadline_after_min)

theorem deadline_after_exact_witness:
  "deadline_after 1000 900 130 = 1000 \<and> deadline_after 1000 900 77 = 977"
  using deadline_after_exact [of 900 1000 130] deadline_after_exact [of 900 1000 77]
  by (simp add: MAX_DELAY_def)

end
