(* ===== verification/Invite_Refusals.thy ===== *)
theory Invite_Refusals
  imports Retransmit
begin

text \<open>
  The node's shared refusals of new INVITEs, \<open>src/crates/sip-txn/src/layer/refusals.rs\<close>: the
  memo of the INVITE identities refused in the last 64 T1 and of those a live server
  transaction holds. Every call is one critical section, so a history is a sequence of
  operations; each takes the clock reading of its turn.

  An identity (top-Via branch, Call-ID, From-tag) is known by its keyed hash, a number; the
  hash function itself is a parameter of the callers. The hold counts are unbounded.
\<close>

section \<open>The memo\<close>

datatype verdict = VHeld | VRefused bool

datatype admission = Repeat | Refuse | Admit bool

record memo =
  refused_at :: "nat \<rightharpoonup> instant"
  order :: "(instant \<times> nat) list"
  held_ids :: "nat \<rightharpoonup> nat"
  memo_max :: nat

record invite_refusals =
  memo :: memo
  remembering :: bool

definition REFUSED_MEMO_MAX :: nat where
  "REFUSED_MEMO_MAX = 65536"

text \<open>The loop over the front of the queue, and \<open>Memo::expire\<close>.\<close>

fun expire_front :: "instant \<Rightarrow> nat \<Rightarrow> (instant \<times> nat) list \<Rightarrow> (nat \<rightharpoonup> instant)
    \<Rightarrow> (instant \<times> nat) list \<times> (nat \<rightharpoonup> instant)" where
  "expire_front now mx [] r = ([], r)"
| "expire_front now mx ((at, key) # rest) r =
     (if now - at < ms TIMER_B \<and> length ((at, key) # rest) \<le> mx then ((at, key) # rest, r)
      else expire_front now mx rest (if r key = Some at then r(key := None) else r))"

definition memo_expire :: "instant \<Rightarrow> memo \<Rightarrow> memo" where
  "memo_expire now m =
     (case expire_front now (memo_max m) (order m) (refused_at m) of
        (q, r) \<Rightarrow> m\<lparr>order := q, refused_at := r\<rparr>)"

definition holds_refusal :: "instant \<Rightarrow> nat \<Rightarrow> memo \<Rightarrow> memo \<times> bool" where
  "holds_refusal now key m =
     (let m = memo_expire now m in (m, refused_at m key \<noteq> None))"

definition remember :: "instant \<Rightarrow> nat \<Rightarrow> memo \<Rightarrow> memo \<times> bool" where
  "remember now key m =
     (let first = (refused_at m key = None);
          m = (if first then m\<lparr>refused_at := (refused_at m)(key \<mapsto> now), order := order m @ [(now, key)]\<rparr>
               else m)
      in (memo_expire now m, first))"

definition memo_hold :: "nat \<Rightarrow> memo \<Rightarrow> memo" where
  "memo_hold key m =
     m\<lparr>held_ids := (held_ids m)(key \<mapsto> (case held_ids m key of None \<Rightarrow> 0 | Some n \<Rightarrow> n) + 1)\<rparr>"

section \<open>The shared instance\<close>

definition with_capacity :: "nat \<Rightarrow> invite_refusals" where
  "with_capacity mx =
     \<lparr>memo = \<lparr>refused_at = Map.empty, order = [], held_ids = Map.empty, memo_max = mx\<rparr>, remembering = False\<rparr>"

definition refusals_new :: invite_refusals where
  "refusals_new = with_capacity REFUSED_MEMO_MAX"

definition mirror :: "memo \<Rightarrow> invite_refusals" where
  "mirror m = \<lparr>memo = m, remembering = (refused_at m \<noteq> Map.empty)\<rparr>"

definition refuse :: "instant \<Rightarrow> nat \<Rightarrow> invite_refusals \<Rightarrow> invite_refusals \<times> verdict" where
  "refuse now key s =
     (if held_ids (memo s) key \<noteq> None then (s, VHeld)
      else case remember now key (memo s) of (m, first) \<Rightarrow> (mirror m, VRefused first))"

definition refused :: "instant \<Rightarrow> nat \<Rightarrow> invite_refusals \<Rightarrow> invite_refusals \<times> bool" where
  "refused now key s = (case holds_refusal now key (memo s) of (m, r) \<Rightarrow> (mirror m, r))"

definition admit_invite :: "instant \<Rightarrow> nat \<Rightarrow> bool \<Rightarrow> bool \<Rightarrow> invite_refusals \<Rightarrow> invite_refusals \<times> admission" where
  "admit_invite now key initial refusing s =
     (case holds_refusal now key (memo s) of
        (m, was_refused) \<Rightarrow>
          if was_refused then (mirror m, Repeat)
          else if refusing then (mirror (fst (remember now key m)), Refuse)
          else if initial then (mirror (memo_hold key m), Admit True)
          else (mirror m, Admit False))"

definition hold_identity :: "nat \<Rightarrow> invite_refusals \<Rightarrow> invite_refusals" where
  "hold_identity key s =
     (let m = memo s; m = m\<lparr>refused_at := (refused_at m)(key := None)\<rparr> in mirror (memo_hold key m))"

definition release_identity :: "nat \<Rightarrow> invite_refusals \<Rightarrow> invite_refusals" where
  "release_identity key s = (case held_ids (memo s) key of
      None \<Rightarrow> s
    | Some n \<Rightarrow>
        s\<lparr>memo := (memo s)\<lparr>held_ids := (held_ids (memo s))(key := if n - 1 = 0 then None else Some (n - 1))\<rparr>\<rparr>)"

section \<open>Histories\<close>

datatype refusal_op =
    OpRefuse nat
  | OpRefused nat
  | OpAdmit nat bool bool
  | OpHold nat
  | OpRelease nat

fun refusal_step :: "instant \<Rightarrow> refusal_op \<Rightarrow> invite_refusals \<Rightarrow> invite_refusals" where
  "refusal_step now (OpRefuse k) s = fst (refuse now k s)"
| "refusal_step now (OpRefused k) s = fst (refused now k s)"
| "refusal_step now (OpAdmit k initial refusing) s = fst (admit_invite now k initial refusing s)"
| "refusal_step now (OpHold k) s = hold_identity k s"
| "refusal_step now (OpRelease k) s = release_identity k s"

fun refusal_run :: "(instant \<times> refusal_op) list \<Rightarrow> invite_refusals \<Rightarrow> invite_refusals" where
  "refusal_run [] s = s"
| "refusal_run ((now, op) # ops) s = refusal_run ops (refusal_step now op s)"

text \<open>The operations that may push a refused identity.\<close>

fun pushing :: "refusal_op \<Rightarrow> bool" where
  "pushing (OpRefuse _) = True"
| "pushing (OpAdmit _ _ refusing) = refusing"
| "pushing _ = False"

section \<open>The invariant\<close>

definition memo_inv :: "memo \<Rightarrow> bool" where
  "memo_inv m \<longleftrightarrow>
     (\<forall>k t. refused_at m k = Some t \<longrightarrow> (t, k) \<in> set (order m)) \<and> length (order m) \<le> memo_max m \<and>
     (\<forall>k n. held_ids m k = Some n \<longrightarrow> 0 < n)"

definition refusals_inv :: "invite_refusals \<Rightarrow> bool" where
  "refusals_inv s \<longleftrightarrow> memo_inv (memo s) \<and> (remembering s \<longleftrightarrow> refused_at (memo s) \<noteq> Map.empty)"

lemma expire_front_covers:
  assumes "\<forall>k t. r k = Some t \<longrightarrow> (t, k) \<in> set q"
  shows "(\<forall>k t. snd (expire_front now mx q r) k = Some t \<longrightarrow>
      (t, k) \<in> set (fst (expire_front now mx q r)) \<and> r k = Some t) \<and>
    length (fst (expire_front now mx q r)) \<le> mx"
  using assms
proof (induction q arbitrary: r)
  case (Cons e rest)
  obtain at key where e: "e = (at, key)" by (cases e)
  show ?case
  proof (cases "now - at < ms TIMER_B \<and> length (e # rest) \<le> mx")
    case True
    with Cons.prems show ?thesis by (simp add: e)
  next
    case False
    define r' where "r' = (if r key = Some at then r(key := None) else r)"
    have "\<forall>k t. r' k = Some t \<longrightarrow> (t, k) \<in> set rest"
      using Cons.prems by (auto simp: r'_def e split: if_splits)
    note ih = Cons.IH [OF this]
    have "expire_front now mx (e # rest) r = expire_front now mx rest r'"
      using False by (auto simp: e r'_def)
    moreover have "r' k = Some t \<Longrightarrow> r k = Some t" for k t
      by (simp add: r'_def split: if_splits)
    ultimately show ?thesis using ih by simp
  qed
qed simp

lemma memo_expire_inv:
  assumes "\<forall>k t. refused_at m k = Some t \<longrightarrow> (t, k) \<in> set (order m)"
    and "\<forall>k n. held_ids m k = Some n \<longrightarrow> 0 < n"
  shows "memo_inv (memo_expire now m) \<and> held_ids (memo_expire now m) = held_ids m \<and>
    memo_max (memo_expire now m) = memo_max m"
  using expire_front_covers [OF assms(1), of now "memo_max m"] assms(2)
  by (auto simp: memo_expire_def memo_inv_def split: prod.splits)

lemma memo_max_ops [simp]:
  "memo_max (memo_expire now m) = memo_max m"
  "memo_max (fst (remember now k m)) = memo_max m"
  "memo_max (fst (holds_refusal now k m)) = memo_max m"
  "memo_max (memo_hold k m) = memo_max m"
  by (simp_all add: memo_expire_def remember_def holds_refusal_def memo_hold_def Let_def split: prod.splits)

lemma holds_refusal_inv: "memo_inv m \<Longrightarrow> memo_inv (fst (holds_refusal now k m))"
  using memo_expire_inv [of m now] by (simp add: holds_refusal_def Let_def memo_inv_def)

lemma remember_inv: "memo_inv m \<Longrightarrow> memo_inv (fst (remember now k m))"
proof -
  assume inv: "memo_inv m"
  let ?m = "m\<lparr>refused_at := (refused_at m)(k \<mapsto> now), order := order m @ [(now, k)]\<rparr>"
  have "memo_inv (memo_expire now ?m)"
    using memo_expire_inv [of ?m now] inv by (auto simp: memo_inv_def)
  moreover have "memo_inv (memo_expire now m)"
    using memo_expire_inv [of m now] inv by (simp add: memo_inv_def)
  ultimately show ?thesis by (simp add: remember_def Let_def)
qed

lemma memo_hold_inv: "memo_inv m \<Longrightarrow> memo_inv (memo_hold k m)"
  by (auto simp: memo_inv_def memo_hold_def)

lemma mirror_inv: "memo_inv m \<Longrightarrow> refusals_inv (mirror m)"
  by (simp add: refusals_inv_def mirror_def)

lemma refusal_step_inv: "refusals_inv s \<Longrightarrow> refusals_inv (refusal_step now op s)"
proof -
  assume inv: "refusals_inv s"
  then have m: "memo_inv (memo s)" by (simp add: refusals_inv_def)
  note facts = mirror_inv holds_refusal_inv [OF m] remember_inv memo_hold_inv
  show ?thesis
  proof (cases op)
    case (OpRefuse k)
    then show ?thesis using inv facts m by (auto simp: refuse_def case_prod_beta)
  next
    case (OpRefused k)
    then show ?thesis using facts by (simp add: refused_def case_prod_beta)
  next
    case (OpAdmit k initial refusing)
    then show ?thesis using facts by (simp add: admit_invite_def case_prod_beta)
  next
    case (OpHold k)
    have "memo_inv ((memo s)\<lparr>refused_at := (refused_at (memo s))(k := None)\<rparr>)"
      using m by (auto simp: memo_inv_def)
    with OpHold facts show ?thesis by (simp add: hold_identity_def Let_def)
  next
    case (OpRelease k)
    then show ?thesis
      using inv by (auto simp: release_identity_def refusals_inv_def memo_inv_def split: option.splits)
  qed
qed

lemma refusal_run_inv: "refusals_inv s \<Longrightarrow> refusals_inv (refusal_run ops s)"
  by (induction ops s rule: refusal_run.induct) (auto simp: refusal_step_inv)

lemma with_capacity_inv: "refusals_inv (with_capacity mx)"
  by (simp add: refusals_inv_def memo_inv_def with_capacity_def)

lemma refusal_run_max: "memo_max (memo (refusal_run ops s)) = memo_max (memo s)"
proof (induction ops arbitrary: s)
  case (Cons e ops)
  obtain now op where e: "e = (now, op)" by (cases e)
  have "memo_max (memo (refusal_step now op s)) = memo_max (memo s)"
    by (cases op) (simp_all add: refuse_def refused_def admit_invite_def hold_identity_def
        release_identity_def mirror_def case_prod_beta Let_def split: option.splits)
  with Cons show ?case by (simp add: e)
qed simp

section \<open>A refusal stands for 64 T1\<close>

text \<open>\<open>kept t0 k n m\<close>: the refusal of \<open>k\<close> at \<open>t0\<close> stands and at most \<open>n\<close> refusals were
  remembered after it.\<close>

definition kept :: "instant \<Rightarrow> nat \<Rightarrow> nat \<Rightarrow> memo \<Rightarrow> bool" where
  "kept t0 k n m \<longleftrightarrow> refused_at m k = Some t0 \<and>
     (\<exists>ys zs. order m = ys @ (t0, k) # zs \<and> (t0, k) \<notin> set ys \<and> length zs \<le> n)"

lemma keptI:
  "refused_at m k = Some t0 \<Longrightarrow> order m = ys @ (t0, k) # zs \<Longrightarrow> (t0, k) \<notin> set ys \<Longrightarrow> length zs \<le> n
    \<Longrightarrow> kept t0 k n m"
  unfolding kept_def by blast

lemma expire_front_keeps:
  assumes "r k = Some t0" "(t0, k) \<notin> set ys" "now - t0 < ms TIMER_B" "length zs < mx"
  shows "\<exists>ys'. fst (expire_front now mx (ys @ (t0, k) # zs) r) = ys' @ (t0, k) # zs \<and>
      (t0, k) \<notin> set ys' \<and> snd (expire_front now mx (ys @ (t0, k) # zs) r) k = Some t0"
  using assms
proof (induction ys arbitrary: r)
  case Nil
  then show ?case by (auto intro: exI [of _ "[]"])
next
  case (Cons e ys)
  obtain at key where e: "e = (at, key)" by (cases e)
  have ne: "(at, key) \<noteq> (t0, k)" using Cons.prems(2) e by auto
  show ?case
  proof (cases "now - at < ms TIMER_B \<and> length (e # ys @ (t0, k) # zs) \<le> mx")
    case True
    then show ?thesis using Cons.prems by (auto simp: e intro!: exI [of _ "(at, key) # ys"])
  next
    case False
    define r' where "r' = (if r key = Some at then r(key := None) else r)"
    have "r' k = Some t0" using Cons.prems(1) ne by (auto simp: r'_def)
    moreover have "expire_front now mx ((e # ys) @ (t0, k) # zs) r = expire_front now mx (ys @ (t0, k) # zs) r'"
      using False by (auto simp: e r'_def)
    ultimately show ?thesis using Cons.IH [of r'] Cons.prems by auto
  qed
qed

lemma memo_expire_kept:
  assumes "kept t0 k n m" "now - t0 < ms TIMER_B" "n < memo_max m"
  shows "kept t0 k n (memo_expire now m)"
proof -
  from assms(1) obtain ys zs where *: "refused_at m k = Some t0" "order m = ys @ (t0, k) # zs"
    "(t0, k) \<notin> set ys" "length zs \<le> n" by (auto simp: kept_def)
  from *(4) assms(3) have "length zs < memo_max m" by simp
  from expire_front_keeps [where r = "refused_at m", OF *(1,3) assms(2) this] *(4) show ?thesis
    by (auto simp: kept_def memo_expire_def *(2) case_prod_beta)
qed

lemma remember_kept:
  assumes "kept t0 k n m" "now - t0 < ms TIMER_B" "Suc n < memo_max m"
  shows "kept t0 k (Suc n) (fst (remember now key m))"
proof (cases "refused_at m key = None")
  case True
  let ?m = "m\<lparr>refused_at := (refused_at m)(key \<mapsto> now), order := order m @ [(now, key)]\<rparr>"
  have "kept t0 k (Suc n) ?m"
  proof -
    from assms(1) obtain ys zs where "refused_at m k = Some t0" "order m = ys @ (t0, k) # zs"
      "(t0, k) \<notin> set ys" "length zs \<le> n" by (auto simp: kept_def)
    with True show ?thesis
      by (intro keptI [of _ _ _ ys "zs @ [(now, key)]"]) auto
  qed
  from memo_expire_kept [OF this assms(2)] assms(3) True show ?thesis
    by (simp add: remember_def Let_def)
next
  case False
  have "kept t0 k (Suc n) m" using assms(1) by (auto simp: kept_def intro: le_SucI)
  from memo_expire_kept [OF this assms(2)] assms(3) False show ?thesis
    by (auto simp: remember_def Let_def)
qed

lemma kept_mono: "kept t0 k n m \<Longrightarrow> n \<le> n' \<Longrightarrow> kept t0 k n' m"
  unfolding kept_def by (meson le_trans)

lemma kept_memo_hold [simp]: "kept t0 k n (memo_hold key m) = kept t0 k n m"
  by (simp add: kept_def memo_hold_def)

lemma refusal_step_kept:
  assumes k: "kept t0 k n (memo s)" and t: "now - t0 < ms TIMER_B"
    and mx: "n + of_bool (pushing op) < memo_max (memo s)" and nh: "op \<noteq> OpHold k"
  shows "kept t0 k (n + of_bool (pushing op)) (memo (refusal_step now op s))"
proof (cases op)
  case (OpRefuse key)
  then show ?thesis using remember_kept [OF k t] k mx
    by (auto simp: refuse_def mirror_def case_prod_beta intro: kept_mono)
next
  case (OpRefused key)
  then show ?thesis using memo_expire_kept [OF k t] mx
    by (simp add: refused_def holds_refusal_def mirror_def Let_def)
next
  case (OpAdmit key initial refusing)
  from memo_expire_kept [OF k t] mx have e: "kept t0 k n (memo_expire now (memo s))"
    by simp
  then show ?thesis using OpAdmit remember_kept [OF e t] mx
    by (auto simp: admit_invite_def holds_refusal_def mirror_def Let_def case_prod_beta intro: kept_mono)
next
  case (OpHold key)
  then show ?thesis using k nh
    by (simp add: hold_identity_def mirror_def Let_def) (simp add: kept_def)
next
  case (OpRelease key)
  then show ?thesis using k by (auto simp: release_identity_def kept_def split: option.splits)
qed

lemma refusal_run_kept:
  assumes "kept t0 k n (memo s)" "\<forall>(now, op) \<in> set ops. now - t0 < ms TIMER_B \<and> op \<noteq> OpHold k"
    and "n + length (filter (pushing \<circ> snd) ops) < memo_max (memo s)"
  shows "kept t0 k (n + length (filter (pushing \<circ> snd) ops)) (memo (refusal_run ops s))"
  using assms
proof (induction ops arbitrary: n s)
  case (Cons e ops)
  obtain now op where e: "e = (now, op)" by (cases e)
  let ?n = "n + of_bool (pushing op)"
  have "memo_max (memo (refusal_step now op s)) = memo_max (memo s)"
    using refusal_run_max [of "[(now, op)]" s] by simp
  moreover have "kept t0 k ?n (memo (refusal_step now op s))"
    using Cons.prems e by (intro refusal_step_kept) (auto split: if_splits)
  ultimately show ?case
    using Cons.IH [of ?n "refusal_step now op s"] Cons.prems(2,3) e by (simp split: if_splits)
qed simp

section \<open>Properties\<close>

text \<open>C28: A refused identity stays refused for 64 T1, while fewer than the memo's capacity of
  other identities are refused in between: whatever the node does next short of seeding a
  transaction for that identity, every copy that arrives in the window is answered as a repeat,
  by the receive hook and by the layer alike, and none is admitted.\<close>

theorem refusal_window:
  assumes "refuse t0 k s = (s', VRefused True)"
    and "\<forall>at. (at, k) \<in> set (order (memo s)) \<longrightarrow> at < t0"
    and "\<forall>(now, op) \<in> set ops. now - t0 < ms TIMER_B \<and> op \<noteq> OpHold k"
    and "length (filter (pushing \<circ> snd) ops) < memo_max (memo s)" and "now - t0 < ms TIMER_B"
  shows "snd (refused now k (refusal_run ops s')) = True \<and>
    snd (admit_invite now k initial refusing (refusal_run ops s')) = Repeat \<and>
    snd (refuse now k (refusal_run ops s')) \<noteq> VRefused True"
proof -
  let ?n = "length (filter (pushing \<circ> snd) ops)"
  let ?m = "(memo s)\<lparr>refused_at := (refused_at (memo s))(k \<mapsto> t0), order := order (memo s) @ [(t0, k)]\<rparr>"
  from assms(1) have first: "refused_at (memo s) k = None" "memo s' = memo_expire t0 ?m"
    by (auto simp: refuse_def remember_def mirror_def Let_def split: if_splits)
  have "kept t0 k 0 ?m" using assms(2) by (auto simp: kept_def)
  then have "kept t0 k 0 (memo s')"
    using memo_expire_kept [of t0 k 0 ?m t0] assms(4) by (simp add: first TIMER_B_def T1_def ms_def)
  moreover have "memo_max (memo s') = memo_max (memo s)" by (simp add: first)
  ultimately have run: "kept t0 k ?n (memo (refusal_run ops s'))"
      "?n < memo_max (memo (refusal_run ops s'))"
    using refusal_run_kept [of t0 k 0 s' ops] assms(3,4) by (simp_all add: refusal_run_max)
  from memo_expire_kept [OF run(1) assms(5) run(2)] run(1) show ?thesis
    by (auto simp: refused_def admit_invite_def refuse_def remember_def holds_refusal_def kept_def
        Let_def case_prod_beta)
qed

text \<open>The properties below instantiate the capacity at two.\<close>

theorem refusal_window_witness:
  "snd (refused (ms 31000) 7 (refusal_run [(ms 10, OpRefuse 8), (ms 20, OpAdmit 9 True False)]
     (fst (refuse 0 7 (with_capacity 2))))) = True"
  using refusal_window [of 0 7 "with_capacity 2" "fst (refuse 0 7 (with_capacity 2))"
      "[(ms 10, OpRefuse 8), (ms 20, OpAdmit 9 True False)]" "ms 31000" True False]
  by (simp add: with_capacity_def refuse_def remember_def memo_expire_def mirror_def TIMER_B_def
      T1_def ms_def Let_def)

text \<open>The memo is bounded and its lock-free mirror exact: after any history of a fresh
  instance at most its capacity of identities are remembered as refused, \<open>remembering\<close> (which
  lets the receive path skip the lock) is set exactly when some identity is, and no identity is
  held with a zero count.\<close>

theorem refusals_bounded:
  "let s = refusal_run ops (with_capacity mx); m = memo s
   in finite (dom (refused_at m)) \<and> card (dom (refused_at m)) \<le> mx \<and>
      (remembering s \<longleftrightarrow> refused_at m \<noteq> Map.empty) \<and> (\<forall>k. held_ids m k \<noteq> Some 0)"
proof -
  define s where "s = refusal_run ops (with_capacity mx)"
  have inv: "refusals_inv s" unfolding s_def by (intro refusal_run_inv with_capacity_inv)
  have mx: "memo_max (memo s) = mx" by (simp add: s_def refusal_run_max with_capacity_def)
  have sub: "dom (refused_at (memo s)) \<subseteq> snd ` set (order (memo s))"
    using inv by (force simp: refusals_inv_def memo_inv_def)
  have "card (dom (refused_at (memo s))) \<le> length (order (memo s))"
    using card_mono [OF _ sub] card_image_le [of "set (order (memo s))" snd] card_length [of "order (memo s)"]
    by simp
  with inv mx sub show ?thesis
    by (auto simp: s_def [symmetric] Let_def refusals_inv_def memo_inv_def dest: finite_subset)
qed

text \<open>An identity can be held and refused at once: the layer's own judgement
  (\<open>admit_invite\<close> under a full backlog or a closed gate) remembers the refusal without looking
  at the holds, so a copy of an admitted INVITE that is judged again (one that misses its
  transaction's key) is refused while its transaction lives. The receive hook then passes the
  copies on as held, the layer answers them as repeats.\<close>

theorem held_and_refused:
  assumes "0 < mx"
  shows "let s = refusal_run [(t, OpAdmit k True False), (t', OpAdmit k True True)] (with_capacity mx)
         in held_ids (memo s) k = Some 1 \<and> refused_at (memo s) k = Some t' \<and>
            snd (refuse t' k s) = VHeld \<and> snd (admit_invite t' k True False s) = Repeat"
  using assms
  by (simp add: admit_invite_def holds_refusal_def remember_def memo_expire_def memo_hold_def mirror_def
      refuse_def with_capacity_def TIMER_B_def T1_def ms_def Let_def)

theorem held_and_refused_witness:
  "snd (refuse (ms 1) 7 (refusal_run [(0, OpAdmit 7 True False), (ms 1, OpAdmit 7 True True)] refusals_new))
     = VHeld"
  using held_and_refused [of REFUSED_MEMO_MAX 0 7 "ms 1"]
  by (simp add: REFUSED_MEMO_MAX_def refusals_new_def Let_def)

end
