(* ===== verification/Txn_Model.thy ===== *)
theory Txn_Model
  imports Sip_Method Retransmit Deadline Invite_Refusals
begin

text \<open>
  The data of the transaction layer (\<open>src/crates/sip-txn/src\<close>): messages as the layer reads them,
  transaction identities (\<open>layer/key.rs\<close>), transactions and timers (\<open>layer/txn.rs\<close>), lifetimes
  (\<open>layer/lifetime.rs\<close>), the events handed up (\<open>event.rs\<close>), the seeds (\<open>seed.rs\<close>) and the call
  index (\<open>layer/call_txns.rs\<close>).

  A message is the record of the fields the layer reads of it; a missing header tag is \<open>None\<close> and
  \<open>or_empty\<close> is the source's \<open>unwrap_or_default\<close>. A socket address and a Via sent-by are strings
  in canonical form, so that equality of strings is the source's comparison.
\<close>

section \<open>Messages\<close>

type_synonym addr = string
type_synonym datagram = "bytes \<times> addr"

definition or_empty :: "string option \<Rightarrow> string" where
  "or_empty x = (case x of None \<Rightarrow> [] | Some s \<Rightarrow> s)"

text \<open>The call attribution of a request's top Via (\<open>cr\<close>, \<open>lg\<close>, \<open>ci\<close>), decoded.\<close>

record via_marks =
  vm_call_ref :: "string option"
  vm_leg_id :: "string option"
  vm_incarnation_mark :: "string option"

record sip_request =
  rq_method :: meth
  rq_branch :: "string option"
  rq_sent_by :: string
  rq_marks :: via_marks
  rq_cseq :: nat
  rq_call_id :: string
  rq_from_tag :: "string option"
  rq_to_tag :: "string option"
  rq_uri_call_ref :: "string option"
  rq_headers :: "(string \<times> string) list"
  rq_sdp :: "bytes option"
  rq_image :: bytes

record sip_response =
  rs_status :: nat
  rs_cseq_method :: meth
  rs_cseq :: nat
  rs_branch :: "string option"
  rs_sent_by :: string
  rs_call_id :: string
  rs_from_tag :: "string option"
  rs_to_tag :: "string option"
  rs_sdp :: "bytes option"
  rs_rseq :: bool
  rs_image :: bytes

datatype sip_message = Req sip_request | Resp sip_response

definition extract_via_custom_params :: "sip_request \<Rightarrow> via_marks" where
  "extract_via_custom_params req = rq_marks req"

definition extract_ruri_call_ref :: "sip_request \<Rightarrow> string option" where
  "extract_ruri_call_ref req = rq_uri_call_ref req"

section \<open>Server transaction identity\<close>

record server_txn_key =
  sk_branch :: string
  sk_sent_by :: string
  sk_method :: meth

definition filed_method :: "meth \<Rightarrow> meth" where
  "filed_method m = (if m = MAck then MInvite else m)"

definition server_txn_id :: "string option \<Rightarrow> string \<Rightarrow> meth \<Rightarrow> server_txn_key option" where
  "server_txn_id branch sent_by m = (case branch of
      None \<Rightarrow> None
    | Some b \<Rightarrow>
        if b = [] then None
        else Some \<lparr>sk_branch = b, sk_sent_by = sent_by, sk_method = filed_method m\<rparr>)"

definition of_request :: "sip_request \<Rightarrow> server_txn_key option" where
  "of_request req = server_txn_id (rq_branch req) (rq_sent_by req) (rq_method req)"

definition of_response :: "sip_response \<Rightarrow> server_txn_key option" where
  "of_response resp = server_txn_id (rs_branch resp) (rs_sent_by resp) (rs_cseq_method resp)"

definition cancelled_invite_id :: "string option \<Rightarrow> string \<Rightarrow> server_txn_key option" where
  "cancelled_invite_id branch sent_by = server_txn_id branch sent_by MInvite"

section \<open>Transactions\<close>

datatype txn_kind = KInvite | KNonInvite

datatype txn_timeout_kind = TKResponse | TKTransaction

datatype txn_role = RClient | RServer

datatype txn_state = Trying | Proceeding | Completed | Confirmed | Accepted

definition is_active :: "txn_state \<Rightarrow> bool" where
  "is_active s \<longleftrightarrow> s = Trying \<or> s = Proceeding"

datatype txn_id = Client string | Server server_txn_key

fun role_of :: "txn_id \<Rightarrow> txn_role" where
  "role_of (Client _) = RClient"
| "role_of (Server _) = RServer"

datatype timer =
    ClientRetransmit string
  | ServerRetransmit server_txn_key
  | ClientTimeout string
  | FirstResponse string
  | TryingBound server_txn_key instant
  | Cleanup txn_id
  | AckBound string instant
  | CancelBound server_txn_key instant
  | CancelRetransmit string
  | EventRetry

datatype cancel_wire = WHeld | WSent

record unsent_cancel =
  cancel_ok :: "datagram option"
  terminated :: "datagram option"
  held_as :: "string \<times> string \<times> nat"

record held_cancel =
  hc_buf :: bytes
  hc_dest :: addr
  hc_wire :: cancel_wire
  hc_ladder :: "ladder option"

definition held_cancel_new :: "bytes \<Rightarrow> addr \<Rightarrow> cancel_wire \<Rightarrow> held_cancel" where
  "held_cancel_new buf dest w = \<lparr>hc_buf = buf, hc_dest = dest, hc_wire = w, hc_ladder = None\<rparr>"

definition MAX_DIALOGS :: nat where
  "MAX_DIALOGS = 16"

record invite_dialog =
  d_to_tag :: "string option"
  d_cseq :: nat
  d_byed :: bool
  d_ack :: "datagram option"

datatype hold_why = HTimerD | HTimerH | HTimerL | HTimerJ | HTimerI | HTimerM | HGaveUp

fun hold_duration :: "hold_why \<Rightarrow> duration" where
  "hold_duration HTimerD = ms TIMER_D"
| "hold_duration HTimerH = ms TIMER_H"
| "hold_duration HTimerL = ms TIMER_L"
| "hold_duration HTimerJ = ms TIMER_J"
| "hold_duration HTimerI = ms TIMER_I"
| "hold_duration HTimerM = ms TIMER_M"
| "hold_duration HGaveUp = ms TIMER_B"

datatype lifetime = LActive instant | LHeld hold_why instant

fun deadline_of :: "lifetime \<Rightarrow> instant" where
  "deadline_of (LActive backstop) = backstop"
| "deadline_of (LHeld _ until) = until"

fun gave_up :: "lifetime \<Rightarrow> bool" where
  "gave_up (LHeld why _) = (why = HGaveUp)"
| "gave_up (LActive _) = False"

fun held_for :: "lifetime \<Rightarrow> hold_why \<Rightarrow> instant \<Rightarrow> lifetime" where
  "held_for (LHeld running old) why until =
     LHeld why (if running = why then max until old else until)"
| "held_for (LActive _) why until = LHeld why until"

text \<open>\<open>NewTransaction\<close>, and \<open>Transaction\<close>, which carries the same head.\<close>

record new_transaction =
  t_id :: txn_id
  t_kind :: txn_kind
  t_method :: meth
  t_cseq :: nat
  t_call_id :: string
  t_from_tag :: string
  t_original_request :: "sip_request option"
  t_call_ref :: "string option"
  t_leg_id :: "string option"
  t_incarnation_mark :: "string option"
  t_state :: txn_state
  t_destination :: "addr option"

record transaction = new_transaction +
  t_last_response :: "bytes option"
  t_last_response_status :: "nat option"
  t_created_at :: instant
  t_uas_to_tag :: "string option"
  t_final_to_tag :: "string option"
  t_retransmit_key :: "nat option"
  t_timeout_key :: "nat option"
  t_cleanup_key :: "nat option"
  t_held_cancel :: "held_cancel option"
  t_cancel_retransmit_key :: "nat option"
  t_retransmit_buf :: "bytes option"
  t_seed_resend :: "bytes option"
  t_unsent_ack :: "datagram option"
  t_unsent_cancel :: "unsent_cancel option"
  t_ladder :: "ladder option"
  t_timeout_kind :: txn_timeout_kind
  t_dead_hop_reported :: bool
  t_past_trying :: bool
  t_dialogs :: "invite_dialog list"
  t_reliable_offers :: "string list"
  t_lifetime :: lifetime
  t_orphaned :: bool
  t_held :: bool
  t_seeded :: bool

definition transaction_new :: "instant \<Rightarrow> new_transaction \<Rightarrow> lifetime \<Rightarrow> transaction" where
  "transaction_new created head lt = new_transaction.extend head
     \<lparr>t_last_response = None, t_last_response_status = None, t_created_at = created,
      t_uas_to_tag = None, t_final_to_tag = None, t_retransmit_key = None, t_timeout_key = None,
      t_cleanup_key = None, t_held_cancel = None, t_cancel_retransmit_key = None,
      t_retransmit_buf = None, t_seed_resend = None, t_unsent_ack = None, t_unsent_cancel = None,
      t_ladder = None, t_timeout_kind = TKResponse, t_dead_hop_reported = False,
      t_past_trying = False, t_dialogs = [], t_reliable_offers = [], t_lifetime = lt,
      t_orphaned = False, t_held = False, t_seeded = False\<rparr>"

definition bound_to_tag :: "transaction \<Rightarrow> string option" where
  "bound_to_tag t = (case t_final_to_tag t of Some tag \<Rightarrow> Some tag | None \<Rightarrow> t_uas_to_tag t)"

fun txn_branch :: "txn_id \<Rightarrow> string" where
  "txn_branch (Client b) = b"
| "txn_branch (Server k) = sk_branch k"

text \<open>\<open>Transaction::dialog\<close> with the update its caller makes through the reference it returns:
  \<open>with_dialog tag f\<close> applies \<open>f\<close> to the dialog \<open>tag\<close> names, remembering a new one while fewer than
  \<open>MAX_DIALOGS\<close> are. The second result is that dialog before the update.\<close>

definition empty_dialog :: "string option \<Rightarrow> invite_dialog" where
  "empty_dialog tag = \<lparr>d_to_tag = tag, d_cseq = 0, d_byed = False, d_ack = None\<rparr>"

fun update_first :: "('a \<Rightarrow> bool) \<Rightarrow> ('a \<Rightarrow> 'a) \<Rightarrow> 'a list \<Rightarrow> 'a list" where
  "update_first p f [] = []"
| "update_first p f (x # xs) = (if p x then f x # xs else x # update_first p f xs)"

definition with_dialog :: "string option \<Rightarrow> (invite_dialog \<Rightarrow> invite_dialog) \<Rightarrow> transaction
    \<Rightarrow> transaction \<times> invite_dialog option" where
  "with_dialog tag f t = (case find (\<lambda>d. d_to_tag d = tag) (t_dialogs t) of
      Some d \<Rightarrow> (t\<lparr>t_dialogs := update_first (\<lambda>d. d_to_tag d = tag) f (t_dialogs t)\<rparr>, Some d)
    | None \<Rightarrow>
        if MAX_DIALOGS \<le> length (t_dialogs t) then (t, None)
        else (t\<lparr>t_dialogs := t_dialogs t @ [f (empty_dialog tag)]\<rparr>, Some (empty_dialog tag)))"

section \<open>The call index\<close>

record call_txns =
  ct_client :: "string set"
  ct_server :: "server_txn_key set"
  ct_accepted :: "string set"

definition call_txns_default :: call_txns where
  "call_txns_default = \<lparr>ct_client = {}, ct_server = {}, ct_accepted = {}\<rparr>"

definition on_books :: "call_txns \<Rightarrow> nat" where
  "on_books c = card (ct_client c) + card (ct_server c)"

definition holds_none :: "call_txns \<Rightarrow> bool" where
  "holds_none c \<longleftrightarrow> ct_client c = {} \<and> ct_server c = {} \<and> ct_accepted c = {}"

section \<open>Events\<close>

datatype txn_event =
    EMessage sip_message addr bool bytes
  | ECancelled string string "nat option" bool "(string \<times> string) list" "string option"
  | ETimeout string "string option" "string option" "string option" "string option" nat
      "addr option" txn_timeout_kind
  | EHopAlive string string string "string option"
  | ECallQuiesced string

definition event_response :: "sip_response \<Rightarrow> addr \<Rightarrow> bool \<Rightarrow> txn_event" where
  "event_response resp src matched = EMessage (Resp resp) src matched (rs_image resp)"

datatype event_queue_class =
  QRequestInvite | QRequestOther | QResponse | QCancelled | QTimeout | QCallQuiesced

fun event_class :: "txn_event \<Rightarrow> event_queue_class" where
  "event_class (ECancelled _ _ _ _ _ _) = QCancelled"
| "event_class (ETimeout _ _ _ _ _ _ _ _) = QTimeout"
| "event_class (EHopAlive _ _ _ _) = QTimeout"
| "event_class (ECallQuiesced _) = QCallQuiesced"
| "event_class (EMessage (Resp _) _ _ _) = QResponse"
| "event_class (EMessage (Req r) _ _ _) = (if rq_method r = MInvite then QRequestInvite else QRequestOther)"

text \<open>The transactions a call materialised from its record asks for, and what a re-offered
  datagram drew.\<close>

datatype txn_seed =
    SClientInvite sip_request addr bool "sip_request option" "datagram option"
  | SClientRejected sip_request addr nat
  | SServerInvite sip_request "string option" "sip_response option" "string option"
  | SServerAccepted sip_response "string option"
  | SServerRejected sip_response addr "string option" "nat option"
  | SClientNonInvite sip_request addr nat
  | SServerNonInvite sip_request "string option"
  | SServerNonInviteAnswered sip_response addr nat "string option"

datatype reoffer = Matched | Unmatched

datatype client_txn_handle =
    HInvite string sip_request addr
  | HNonInvite string sip_request addr

datatype invite_class = INormal | IEmergency | IInDialog

end
