(* ===== verification/Txn_Owner.thy ===== *)
theory Txn_Owner
  imports Txn_Model
begin

text \<open>
  The owner of the transaction maps (\<open>src/crates/sip-txn/src/layer/owner.rs\<close>) and the parts every
  handler uses: lifetimes (\<open>lifetime.rs\<close>), the bounded event queue and its deferred backlog
  (\<open>events.rs\<close>), the judgement of new INVITEs (\<open>backlog.rs\<close>, \<open>new_call_gate.rs\<close>) and the To-tag a
  response is bound to (\<open>bind.rs\<close>).

  A method of \<open>Owner\<close> is a function from the owner to the owner and its result. What the layer
  does not own is the environment of the turn, \<open>layer_env\<close>: the clock, the key the timer wheel gives
  its next entry, what each offer to the event channel answers, the identifiers drawn, the message
  builders and the parser. The clock stands still within a turn. Every datagram sent is appended to
  \<open>wire_out\<close>, every event the channel takes to \<open>queue_in\<close>. A \<open>HashSet\<close>'s iteration order is
  the environment's \<open>e_iter_branches\<close> and \<open>e_iter_servers\<close>. Debug assertions and logging are left out.
\<close>

section \<open>The environment of a turn\<close>

datatype send_result = SendOk | SendFull | SendClosed

datatype parse_result = Parsed sip_message | ParseError | ParserPanicked

datatype parse_refusal = PRAnswer sip_response | PRCapped | PRDropped

datatype stamp = Unchanged | Written bytes | Unwritten

record layer_config =
  c_invite_initial_timeout_ms :: nat
  c_invite_first_response_timeout_ms :: nat
  c_trying_bound_ms :: nat
  c_ack_bound_ms :: nat
  c_cancel_bound_ms :: nat
  c_deferred_bound :: "(nat \<times> nat) option"
  c_gate :: bool
  c_on_bound :: bool
  c_keepalive_lane :: bool
  c_stateless_options :: bool

type_synonym wheel = "nat \<rightharpoonup> timer \<times> instant"

record layer_env =
  e_now :: instant
  e_clock_limit :: instant
  e_cfg :: layer_config
  e_fresh_key :: "wheel \<Rightarrow> nat"
  e_try_send :: "nat \<Rightarrow> send_result"
  e_lane_send :: "nat \<Rightarrow> send_result"
  e_gate_refusing :: bool
  e_new_tag :: "nat \<Rightarrow> string"
  e_new_branch :: "nat \<Rightarrow> string"
  e_ident :: "string \<Rightarrow> string \<Rightarrow> string \<Rightarrow> nat"
  e_is_emergency :: "sip_request \<Rightarrow> bool"
  e_refusal :: "sip_request \<Rightarrow> bytes option"
  e_render :: "sip_request \<Rightarrow> bytes"
  e_compose :: "sip_request \<Rightarrow> nat \<Rightarrow> string option \<Rightarrow> duration option \<Rightarrow> bytes option"
  e_fallback_hash :: "string \<Rightarrow> string"
  e_ack_non_2xx :: "sip_request \<Rightarrow> sip_response \<Rightarrow> bytes option"
  e_ack_2xx :: "sip_request \<Rightarrow> sip_response \<Rightarrow> string \<Rightarrow> bytes option \<Rightarrow> sip_request option"
  e_bye_2xx :: "sip_request \<Rightarrow> sip_response \<Rightarrow> nat \<Rightarrow> string \<Rightarrow> sip_request option"
  e_next_hop :: "sip_request \<Rightarrow> addr option"
  e_reject_offer :: "bytes \<Rightarrow> sip_request \<Rightarrow> bytes option"
  e_parse :: "bytes \<Rightarrow> parse_result"
  e_refuse_unparsed :: "bytes \<Rightarrow> addr \<Rightarrow> parse_refusal"
  e_stamp :: "sip_request \<Rightarrow> addr \<Rightarrow> stamp"
  e_stamped_destination :: "sip_request \<Rightarrow> addr \<Rightarrow> addr"
  e_request_target :: "sip_request \<Rightarrow> addr option"
  e_response_target :: "sip_response \<Rightarrow> addr option"
  e_acks_parse_refusal :: "sip_request \<Rightarrow> bool"
  e_retag :: "sip_response \<Rightarrow> string \<Rightarrow> bytes option"
  e_iter_branches :: "string set \<Rightarrow> string list"
  e_iter_servers :: "server_txn_key set \<Rightarrow> server_txn_key list"

text \<open>The messages the layer composes, as their fields: a response echoes its request's Via, From,
  Call-ID and CSeq, and takes a To-tag past 100 (\<open>generators/response.rs\<close>); a retagged response
  differs in its To-tag, a stamped request in its image alone (\<open>received.rs\<close>). The rendered
  images are the environment's.\<close>

definition FALLBACK_TAG_PREFIX :: string where
  "FALLBACK_TAG_PREFIX = ''b2bua-fb-''"

definition is_hex_digit :: "char \<Rightarrow> bool" where
  "is_hex_digit c \<longleftrightarrow> c \<in> set ''0123456789abcdefABCDEF''"

definition fallback_to_tag :: "layer_env \<Rightarrow> string \<Rightarrow> string" where
  "fallback_to_tag E call_id = FALLBACK_TAG_PREFIX @ e_fallback_hash E call_id"

definition is_fallback_to_tag :: "string \<Rightarrow> bool" where
  "is_fallback_to_tag tag \<longleftrightarrow>
     take (length FALLBACK_TAG_PREFIX) tag = FALLBACK_TAG_PREFIX \<and>
     length (drop (length FALLBACK_TAG_PREFIX) tag) = 16 \<and>
     list_all is_hex_digit (drop (length FALLBACK_TAG_PREFIX) tag)"

definition echo_to_tag :: "layer_env \<Rightarrow> sip_request \<Rightarrow> nat \<Rightarrow> string option \<Rightarrow> string option" where
  "echo_to_tag E req status to_tag =
     (if status \<le> 100 then rq_to_tag req
      else case rq_to_tag req of
        Some tag \<Rightarrow> Some tag
      | None \<Rightarrow> Some (case to_tag of Some tag \<Rightarrow> tag | None \<Rightarrow> fallback_to_tag E (rq_call_id req)))"

definition generate_response :: "layer_env \<Rightarrow> sip_request \<Rightarrow> nat \<Rightarrow> string option \<Rightarrow> duration option
    \<Rightarrow> sip_response option" where
  "generate_response E req status to_tag delay =
     map_option (\<lambda>buf.
       \<lparr>rs_status = status, rs_cseq_method = rq_method req, rs_cseq = rq_cseq req, rs_branch = rq_branch req,
        rs_sent_by = rq_sent_by req, rs_call_id = rq_call_id req, rs_from_tag = rq_from_tag req,
        rs_to_tag = echo_to_tag E req status to_tag, rs_sdp = None, rs_rseq = False, rs_image = buf\<rparr>)
     (e_compose E req status to_tag delay)"

definition retag_response :: "layer_env \<Rightarrow> sip_response \<Rightarrow> string \<Rightarrow> sip_response option" where
  "retag_response E resp tag =
     map_option (\<lambda>buf. resp\<lparr>rs_to_tag := Some tag, rs_image := buf\<rparr>) (e_retag E resp tag)"

definition stamp_received :: "layer_env \<Rightarrow> sip_request \<Rightarrow> addr \<Rightarrow> sip_request" where
  "stamp_received E req src = (case e_stamp E req src of
      Written buf \<Rightarrow> req\<lparr>rq_image := buf\<rparr>
    | _ \<Rightarrow> req)"

definition from_now :: "layer_env \<Rightarrow> duration \<Rightarrow> instant" where
  "from_now E d = deadline_after (e_clock_limit E) (e_now E) d"

section \<open>The owner\<close>

datatype counter =
    ActiveTransactions | OrphanedTransactions | TxnOrphanedOnCallEvict
  | CancelsHeld | HeldCancelsFlushed | HeldCancelsDropped | CancelsSuppressedOnFinal
  | SweepReaped | DeferredSwept | KeepaliveLaneDrops | RetransmitBufBytes
  | EventQueueDrops event_queue_class | EventQueueDeferrals event_queue_class
  | RefusedCopies | DeferredRefused invite_class | NewCallGateRefused invite_class
  | FallbackToTagUsed | ToTagCoerced | ToTagFilled | ViaStampsUnwritten
  | Retransmits "retransmit_class option" meth "nat option"
  | UnansweredForgotten | ReleasedUnansweredForgotten | ReleasedUnansweredInvitesAnswered
  | TxnSeeded | TxnSeedSkipped | ServerFinalUnseenBranch
  | ParsePanics | ParseRefusalsAnswered | ParseRefusalsCapped | ParseErrors
  | TimerQueueLen | EventQueueDeferred

record bound_passed =
  bp_call_ref :: "string option"
  bp_call_id :: "string option"
  bp_from_tag :: "string option"

record owner =
  clients :: "string \<rightharpoonup> transaction"
  servers :: "server_txn_key \<rightharpoonup> transaction"
  timers :: wheel
  wire_out :: "datagram list"
  queue_in :: "txn_event list"
  lane_in :: "txn_event list"
  tries :: nat
  lane_tries :: nat
  draws :: nat
  self_release_watch :: "string set"
  txn_index :: "string \<rightharpoonup> call_txns"
  deferred_events :: "txn_event list"
  refusals :: "invite_refusals option"
  event_retry_armed :: bool
  pending_quiesce :: "string list"
  held_cancels :: "string \<times> string \<times> nat \<rightharpoonup> server_txn_key"
  owed_sends :: "datagram list"
  recent_uas_tags :: "string \<times> string \<rightharpoonup> string \<times> instant"
  counters :: "counter \<Rightarrow> nat"
  bounds_told :: "bound_passed list"

definition owner_new :: "invite_refusals option \<Rightarrow> owner" where
  "owner_new r =
     \<lparr>clients = Map.empty, servers = Map.empty, timers = Map.empty, wire_out = [], queue_in = [],
      lane_in = [], tries = 0, lane_tries = 0, draws = 0, self_release_watch = {},
      txn_index = Map.empty, deferred_events = [], refusals = r, event_retry_armed = False,
      pending_quiesce = [], held_cancels = Map.empty, owed_sends = [],
      recent_uas_tags = Map.empty, counters = (\<lambda>_. 0), bounds_told = []\<rparr>"

definition bump :: "counter \<Rightarrow> owner \<Rightarrow> owner" where
  "bump c s = s\<lparr>counters := (counters s)(c := counters s c + 1)\<rparr>"

text \<open>\<open>AtomicUsize::fetch_sub\<close> by one; the gauge is unsigned.\<close>

definition drop_one :: "counter \<Rightarrow> owner \<Rightarrow> owner" where
  "drop_one c s = s\<lparr>counters := (counters s)(c := counters s c - 1)\<rparr>"

definition send_buffer :: "bytes \<Rightarrow> addr \<Rightarrow> owner \<Rightarrow> owner" where
  "send_buffer buf dest s = s\<lparr>wire_out := wire_out s @ [(buf, dest)]\<rparr>"

definition new_tag :: "layer_env \<Rightarrow> owner \<Rightarrow> owner \<times> string" where
  "new_tag E s = (s\<lparr>draws := draws s + 1\<rparr>, e_new_tag E (draws s))"

definition new_branch :: "layer_env \<Rightarrow> owner \<Rightarrow> owner \<times> string" where
  "new_branch E s = (s\<lparr>draws := draws s + 1\<rparr>, e_new_branch E (draws s))"

subsection \<open>The maps\<close>

fun txn :: "owner \<Rightarrow> txn_id \<Rightarrow> transaction option" where
  "txn s (Client b) = clients s b"
| "txn s (Server k) = servers s k"

text \<open>An update through \<open>get_mut\<close>: nothing when the transaction is absent.\<close>

definition upd_client :: "string \<Rightarrow> (transaction \<Rightarrow> transaction) \<Rightarrow> owner \<Rightarrow> owner" where
  "upd_client b f s = (case clients s b of None \<Rightarrow> s | Some t \<Rightarrow> s\<lparr>clients := (clients s)(b \<mapsto> f t)\<rparr>)"

definition upd_server :: "server_txn_key \<Rightarrow> (transaction \<Rightarrow> transaction) \<Rightarrow> owner \<Rightarrow> owner" where
  "upd_server k f s = (case servers s k of None \<Rightarrow> s | Some t \<Rightarrow> s\<lparr>servers := (servers s)(k \<mapsto> f t)\<rparr>)"

fun txn_mut :: "txn_id \<Rightarrow> (transaction \<Rightarrow> transaction) \<Rightarrow> owner \<Rightarrow> owner" where
  "txn_mut (Client b) f s = upd_client b f s"
| "txn_mut (Server k) f s = upd_server k f s"

definition arm :: "layer_env \<Rightarrow> timer \<Rightarrow> duration \<Rightarrow> owner \<Rightarrow> owner \<times> nat" where
  "arm E tm d s =
     (let k = e_fresh_key E (timers s)
      in (s\<lparr>timers := (timers s)(k \<mapsto> (tm, e_now E + min d MAX_DELAY))\<rparr>, k))"

definition insert_at :: "layer_env \<Rightarrow> timer \<Rightarrow> instant \<Rightarrow> owner \<Rightarrow> owner \<times> nat" where
  "insert_at E tm at s = arm E tm (at - e_now E) s"

definition cancel_timer :: "nat option \<Rightarrow> owner \<Rightarrow> owner" where
  "cancel_timer key s = (case key of None \<Rightarrow> s | Some k \<Rightarrow> s\<lparr>timers := (timers s)(k := None)\<rparr>)"

definition has_txns_for :: "string \<Rightarrow> owner \<Rightarrow> bool" where
  "has_txns_for cr s = (case txn_index s cr of None \<Rightarrow> False | Some c \<Rightarrow> 0 < on_books c)"

definition sync_active :: "owner \<Rightarrow> owner" where
  "sync_active s =
     s\<lparr>counters := (counters s)(ActiveTransactions := card (dom (clients s)) + card (dom (servers s)))\<rparr>"

definition track_call_ref :: "string option \<Rightarrow> txn_id \<Rightarrow> owner \<Rightarrow> owner" where
  "track_call_ref call_ref i s = (case call_ref of
      None \<Rightarrow> s
    | Some cr \<Rightarrow>
        let c = (case txn_index s cr of None \<Rightarrow> call_txns_default | Some c \<Rightarrow> c);
            c = (case i of
                   Client b \<Rightarrow> c\<lparr>ct_client := insert b (ct_client c)\<rparr>
                 | Server k \<Rightarrow> c\<lparr>ct_server := insert k (ct_server c)\<rparr>)
        in s\<lparr>txn_index := (txn_index s)(cr \<mapsto> c)\<rparr>)"

definition untrack_call_ref :: "string option \<Rightarrow> txn_id \<Rightarrow> owner \<Rightarrow> owner" where
  "untrack_call_ref call_ref i s = (case call_ref of
      None \<Rightarrow> s
    | Some cr \<Rightarrow> (case txn_index s cr of
        None \<Rightarrow> s
      | Some c \<Rightarrow>
          let c = (case i of
                     Client b \<Rightarrow> c\<lparr>ct_client := ct_client c - {b}, ct_accepted := ct_accepted c - {b}\<rparr>
                   | Server k \<Rightarrow> c\<lparr>ct_server := ct_server c - {k}\<rparr>)
          in s\<lparr>txn_index := (txn_index s)(cr := if holds_none c then None else Some c)\<rparr>))"

definition quiesce_if_last :: "string \<Rightarrow> owner \<Rightarrow> owner" where
  "quiesce_if_last cr s =
     (if cr \<in> self_release_watch s \<and> \<not> has_txns_for cr s
      then s\<lparr>pending_quiesce := pending_quiesce s @ [cr]\<rparr> else s)"

definition detach_from_call :: "txn_id \<Rightarrow> owner \<Rightarrow> owner" where
  "detach_from_call i s = (case Option.bind (txn s i) t_call_ref of
      None \<Rightarrow> s
    | Some cr \<Rightarrow>
        let s = txn_mut i (\<lambda>t. t\<lparr>t_call_ref := None\<rparr>) s;
            s = untrack_call_ref (Some cr) i s
        in quiesce_if_last cr s)"

definition settle_accepted :: "string \<Rightarrow> owner \<Rightarrow> owner" where
  "settle_accepted branch s = (case Option.bind (clients s branch) t_call_ref of
      None \<Rightarrow> s
    | Some cr \<Rightarrow> (case txn_index s cr of
        None \<Rightarrow> s
      | Some c \<Rightarrow>
          if branch \<in> ct_client c
          then let c = c\<lparr>ct_client := ct_client c - {branch}, ct_accepted := insert branch (ct_accepted c)\<rparr>
               in quiesce_if_last cr (s\<lparr>txn_index := (txn_index s)(cr \<mapsto> c)\<rparr>)
          else s))"

definition never_sent :: "held_cancel option \<Rightarrow> bool" where
  "never_sent h = (case h of None \<Rightarrow> False | Some c \<Rightarrow> hc_wire c = WHeld)"

text \<open>The keys of a transaction that leaves the maps, cancelled in the source's order.\<close>

definition cancel_timers_of :: "transaction \<Rightarrow> owner \<Rightarrow> owner" where
  "cancel_timers_of t s =
     cancel_timer (t_cancel_retransmit_key t)
       (cancel_timer (t_cleanup_key t) (cancel_timer (t_timeout_key t) (cancel_timer (t_retransmit_key t) s)))"

definition set_txn :: "transaction \<Rightarrow> owner \<Rightarrow> owner" where
  "set_txn t s =
     (let displaced = txn s (t_id t);
          s = (case t_id t of
                 Client b \<Rightarrow> s\<lparr>clients := (clients s)(b \<mapsto> t)\<rparr>
               | Server k \<Rightarrow> s\<lparr>servers := (servers s)(k \<mapsto> t)\<rparr>);
          s = (case displaced of
                 None \<Rightarrow> s
               | Some old \<Rightarrow>
                   let s = cancel_timers_of old s;
                       s = untrack_call_ref (t_call_ref old) (t_id t) s
                   in if never_sent (t_held_cancel old) then bump HeldCancelsDropped s else s);
          s = track_call_ref (t_call_ref t) (t_id t) s
      in sync_active s)"

definition remember_uas_tag :: "layer_env \<Rightarrow> string \<Rightarrow> string \<Rightarrow> string \<Rightarrow> owner \<Rightarrow> owner" where
  "remember_uas_tag E call_id from_tag tag s =
     s\<lparr>recent_uas_tags := (recent_uas_tags s)((call_id, from_tag) \<mapsto> (tag, e_now E))\<rparr>"

definition opt_list :: "'a option \<Rightarrow> 'a list" where
  "opt_list x = (case x of None \<Rightarrow> [] | Some a \<Rightarrow> [a])"

definition owe_held_cancel :: "unsent_cancel \<Rightarrow> owner \<Rightarrow> owner" where
  "owe_held_cancel u s =
     s\<lparr>held_cancels := (held_cancels s)(held_as u := None),
       owed_sends := owed_sends s @ opt_list (cancel_ok u) @ opt_list (terminated u)\<rparr>"

definition release_hold :: "layer_env \<Rightarrow> string \<Rightarrow> string \<Rightarrow> string \<Rightarrow> owner \<Rightarrow> owner" where
  "release_hold E branch call_id from_tag s = (case refusals s of
      None \<Rightarrow> s
    | Some r \<Rightarrow> s\<lparr>refusals := Some (release_identity (e_ident E branch call_id from_tag) r)\<rparr>)"

definition delete_txn :: "layer_env \<Rightarrow> txn_id \<Rightarrow> owner \<Rightarrow> owner \<times> bool" where
  "delete_txn E i s = (case txn s i of
      None \<Rightarrow> (s, False)
    | Some t \<Rightarrow>
        let s = (case i of
                   Client b \<Rightarrow> s\<lparr>clients := (clients s)(b := None)\<rparr>
                 | Server k \<Rightarrow> s\<lparr>servers := (servers s)(k := None)\<rparr>);
            s = (if role_of (t_id t) = RServer
                 then case bound_to_tag t of
                        None \<Rightarrow> s
                      | Some tag \<Rightarrow> remember_uas_tag E (t_call_id t) (t_from_tag t) tag s
                 else s);
            s = (case t_unsent_cancel t of None \<Rightarrow> s | Some u \<Rightarrow> owe_held_cancel u s);
            s = cancel_timers_of t s;
            s = untrack_call_ref (t_call_ref t) i s;
            s = (if t_held t then release_hold E (txn_branch (t_id t)) (t_call_id t) (t_from_tag t) s else s);
            s = sync_active s;
            s = (if t_orphaned t then drop_one OrphanedTransactions s else s);
            s = (if never_sent (t_held_cancel t) then bump HeldCancelsDropped s else s);
            s = (case t_call_ref t of None \<Rightarrow> s | Some cr \<Rightarrow> quiesce_if_last cr s)
        in (s, True))"

section \<open>Lifetimes\<close>

definition SWEEP_SLACK :: duration where
  "SWEEP_SLACK = ms TXN_SWEEP_INTERVAL"

definition open_budget :: "layer_env \<Rightarrow> txn_kind \<Rightarrow> nat" where
  "open_budget E k = (case k of
      KInvite \<Rightarrow> saturating_add64 (c_invite_initial_timeout_ms (e_cfg E)) TXN_MAX_AGE
    | KNonInvite \<Rightarrow> TXN_MAX_AGE)"

definition open_txn_with :: "layer_env \<Rightarrow> new_transaction \<Rightarrow> (transaction \<Rightarrow> transaction) \<Rightarrow> owner \<Rightarrow> owner" where
  "open_txn_with E head finish s =
     (let lt = LActive (from_now E (ms (open_budget E (t_kind head))));
          t = finish (transaction_new (e_now E) head lt);
          (s, key) = insert_at E (Cleanup (t_id t)) (deadline_of (t_lifetime t)) s
      in set_txn (t\<lparr>t_cleanup_key := Some key\<rparr>) s)"

definition open_txn :: "layer_env \<Rightarrow> new_transaction \<Rightarrow> owner \<Rightarrow> owner" where
  "open_txn E head s = open_txn_with E head (\<lambda>t. t) s"

definition arm_deadline :: "layer_env \<Rightarrow> txn_id \<Rightarrow> owner \<Rightarrow> owner" where
  "arm_deadline E i s = (case txn s i of
      None \<Rightarrow> s
    | Some t \<Rightarrow>
        let old = t_cleanup_key t; at = deadline_of (t_lifetime t);
            s = txn_mut i (\<lambda>t. t\<lparr>t_cleanup_key := None\<rparr>) s;
            s = cancel_timer old s;
            (s, key) = insert_at E (Cleanup i) at s
        in txn_mut i (\<lambda>t. t\<lparr>t_cleanup_key := Some key\<rparr>) s)"

definition hold_txn_for :: "layer_env \<Rightarrow> txn_id \<Rightarrow> hold_why \<Rightarrow> duration \<Rightarrow> owner \<Rightarrow> owner" where
  "hold_txn_for E i why left s = (case txn s i of
      None \<Rightarrow> s
    | Some _ \<Rightarrow>
        let s = txn_mut i (\<lambda>t. t\<lparr>t_lifetime := held_for (t_lifetime t) why (from_now E left)\<rparr>) s
        in arm_deadline E i s)"

definition hold_txn :: "layer_env \<Rightarrow> txn_id \<Rightarrow> hold_why \<Rightarrow> owner \<Rightarrow> owner" where
  "hold_txn E i why s = hold_txn_for E i why (hold_duration why) s"

section \<open>The event queue\<close>

definition EVENT_RETRY_MS :: nat where
  "EVENT_RETRY_MS = 100"

text \<open>One offer to the channel: \<open>try_send\<close>, the event joining \<open>queue_in\<close> when it is taken.\<close>

definition channel_send :: "layer_env \<Rightarrow> txn_event \<Rightarrow> owner \<Rightarrow> owner \<times> send_result" where
  "channel_send E ev s =
     (let r = e_try_send E (tries s); s = s\<lparr>tries := tries s + 1\<rparr>
      in (if r = SendOk then s\<lparr>queue_in := queue_in s @ [ev]\<rparr> else s, r))"

definition arm_event_retry :: "layer_env \<Rightarrow> owner \<Rightarrow> owner" where
  "arm_event_retry E s =
     (if event_retry_armed s then s
      else (fst (arm E EventRetry (ms EVENT_RETRY_MS) s))\<lparr>event_retry_armed := True\<rparr>)"

definition defer_event :: "layer_env \<Rightarrow> txn_event \<Rightarrow> owner \<Rightarrow> owner" where
  "defer_event E ev s =
     (let s = bump (EventQueueDeferrals (event_class ev)) s;
          s = s\<lparr>deferred_events := deferred_events s @ [ev]\<rparr>
      in arm_event_retry E s)"

definition offer :: "layer_env \<Rightarrow> txn_event \<Rightarrow> bool \<Rightarrow> owner \<Rightarrow> owner \<times> bool" where
  "offer E ev critical s =
     (if critical \<and> deferred_events s \<noteq> [] then (defer_event E ev s, True)
      else case channel_send E ev s of
        (s, SendOk) \<Rightarrow> (s, True)
      | (s, SendFull) \<Rightarrow>
          if critical then (defer_event E ev s, True)
          else (bump (EventQueueDrops (event_class ev)) s, False)
      | (s, SendClosed) \<Rightarrow> (s\<lparr>deferred_events := [], event_retry_armed := False\<rparr>, False))"

definition emit :: "layer_env \<Rightarrow> txn_event \<Rightarrow> owner \<Rightarrow> owner \<times> bool" where
  "emit E ev s = offer E ev False s"

definition emit_critical :: "layer_env \<Rightarrow> txn_event \<Rightarrow> owner \<Rightarrow> owner" where
  "emit_critical E ev s = fst (offer E ev True s)"

definition emit_keepalive :: "layer_env \<Rightarrow> txn_event \<Rightarrow> owner \<Rightarrow> owner \<times> bool" where
  "emit_keepalive E ev s =
     (if \<not> c_keepalive_lane (e_cfg E) then emit E ev s
      else let r = e_lane_send E (lane_tries s); s = s\<lparr>lane_tries := lane_tries s + 1\<rparr>
           in case r of
                SendOk \<Rightarrow> (s\<lparr>lane_in := lane_in s @ [ev]\<rparr>, True)
              | SendFull \<Rightarrow> (bump KeepaliveLaneDrops s, False)
              | SendClosed \<Rightarrow> (s, False))"

text \<open>The loop of \<open>flush_deferred\<close> over the backlog; the result tells whether the channel was open.\<close>

fun flush_loop :: "layer_env \<Rightarrow> txn_event list \<Rightarrow> owner \<Rightarrow> owner \<times> bool" where
  "flush_loop E [] s = (s\<lparr>deferred_events := []\<rparr>, True)"
| "flush_loop E (ev # evs) s = (case channel_send E ev s of
      (s, SendOk) \<Rightarrow> flush_loop E evs s
    | (s, SendFull) \<Rightarrow> (s\<lparr>deferred_events := ev # evs\<rparr>, True)
    | (s, SendClosed) \<Rightarrow> (s\<lparr>deferred_events := [], event_retry_armed := False\<rparr>, False))"

definition flush_deferred :: "layer_env \<Rightarrow> owner \<Rightarrow> owner" where
  "flush_deferred E s = (case flush_loop E (deferred_events s) s of
      (s, still_open) \<Rightarrow>
        if \<not> still_open then s
        else if deferred_events s = [] then s\<lparr>event_retry_armed := False\<rparr>
        else arm_event_retry E s)"

text \<open>Whether \<open>ev\<close> is the request the server transaction \<open>t\<close> filed under \<open>k\<close> admitted
  (\<open>SweptServer::admitted\<close>).\<close>

fun swept_admitted :: "server_txn_key \<Rightarrow> string \<Rightarrow> string \<Rightarrow> txn_event \<Rightarrow> bool" where
  "swept_admitted k call_id from_tag (EMessage (Req req) _ _ _) =
     (of_request req = Some k \<and> rq_call_id req = call_id \<and> or_empty (rq_from_tag req) = from_tag)"
| "swept_admitted _ _ _ _ = False"

definition drop_deferred_request_of :: "server_txn_key \<Rightarrow> string \<Rightarrow> string \<Rightarrow> owner \<Rightarrow> owner" where
  "drop_deferred_request_of k call_id from_tag s =
     (if deferred_events s = [] then s
      else let kept = filter (\<lambda>ev. \<not> swept_admitted k call_id from_tag ev) (deferred_events s);
               removed = length (deferred_events s) - length kept
           in s\<lparr>deferred_events := kept,
                counters := (counters s)(DeferredSwept := counters s DeferredSwept + removed)\<rparr>)"

definition notify_quiesced :: "layer_env \<Rightarrow> string \<Rightarrow> owner \<Rightarrow> owner" where
  "notify_quiesced E cr s =
     emit_critical E (ECallQuiesced cr) (s\<lparr>self_release_watch := self_release_watch s - {cr}\<rparr>)"

definition flush_pending_quiesce :: "layer_env \<Rightarrow> owner \<Rightarrow> owner" where
  "flush_pending_quiesce E s =
     fold (\<lambda>cr s. if cr \<in> self_release_watch s \<and> \<not> has_txns_for cr s then notify_quiesced E cr s else s)
       (pending_quiesce s) (s\<lparr>pending_quiesce := []\<rparr>)"

section \<open>End of life\<close>

definition expire :: "layer_env \<Rightarrow> txn_id \<Rightarrow> owner \<Rightarrow> owner" where
  "expire E i s =
     (let unanswered = (case txn s i of
             None \<Rightarrow> None
           | Some t \<Rightarrow> (case (t_lifetime t, t_id t) of
               (LActive _, Server k) \<Rightarrow> Some (k, t_call_id t, t_from_tag t)
             | _ \<Rightarrow> None));
          s = fst (delete_txn E i s)
      in case unanswered of
           None \<Rightarrow> s
         | Some (k, call_id, from_tag) \<Rightarrow> drop_deferred_request_of k call_id from_tag s)"

definition overdue :: "layer_env \<Rightarrow> transaction \<Rightarrow> bool" where
  "overdue E t \<longleftrightarrow> deadline_after (e_clock_limit E) (deadline_of (t_lifetime t)) SWEEP_SLACK \<le> e_now E"

definition resident :: "layer_env \<Rightarrow> owner \<Rightarrow> transaction list" where
  "resident E s =
     map (\<lambda>b. the (clients s b)) (e_iter_branches E (dom (clients s))) @
     map (\<lambda>k. the (servers s k)) (e_iter_servers E (dom (servers s)))"

definition reap_overdue :: "layer_env \<Rightarrow> owner \<Rightarrow> owner" where
  "reap_overdue E s =
     fold (\<lambda>i s. bump SweepReaped (expire E i s)) (map t_id (filter (overdue E) (resident E s))) s"

definition forget_expired_uas_tags :: "layer_env \<Rightarrow> owner \<Rightarrow> owner" where
  "forget_expired_uas_tags E s =
     s\<lparr>recent_uas_tags := (\<lambda>k. case recent_uas_tags s k of
          None \<Rightarrow> None
        | Some (tag, since) \<Rightarrow> if e_now E - since < ms TIMER_L then Some (tag, since) else None)\<rparr>"

definition retained_bytes :: "transaction \<Rightarrow> nat" where
  "retained_bytes t =
     sum_list (map length (opt_list (t_retransmit_buf t) @
       map fst (concat (map (\<lambda>d. opt_list (d_ack d)) (t_dialogs t)))))"

definition sweep_owner :: "layer_env \<Rightarrow> owner \<Rightarrow> owner" where
  "sweep_owner E s =
     (let s = reap_overdue E s;
          s = forget_expired_uas_tags E s
      in s\<lparr>counters := (counters s)(RetransmitBufBytes := sum_list (map retained_bytes (resident E s)))\<rparr>)"

section \<open>Judging a new INVITE\<close>

definition class_of :: "layer_env \<Rightarrow> sip_request \<Rightarrow> invite_class" where
  "class_of E req =
     (if rq_to_tag req \<noteq> None then IInDialog else if e_is_emergency E req then IEmergency else INormal)"

fun ceiling_of :: "nat \<times> nat \<Rightarrow> invite_class \<Rightarrow> nat" where
  "ceiling_of (normal, emergency) INormal = normal"
| "ceiling_of (normal, emergency) IEmergency = max emergency normal"
| "ceiling_of (normal, emergency) IInDialog = max emergency normal"

definition bound_refuses :: "nat \<times> nat \<Rightarrow> invite_class \<Rightarrow> nat \<Rightarrow> bool" where
  "bound_refuses b c deferred \<longleftrightarrow> ceiling_of b c \<le> deferred"

definition backlog_refuses :: "layer_env \<Rightarrow> sip_request \<Rightarrow> owner \<Rightarrow> invite_class option" where
  "backlog_refuses E req s = (case c_deferred_bound (e_cfg E) of
      None \<Rightarrow> None
    | Some b \<Rightarrow>
        let backlog = length (deferred_events s)
        in if backlog < fst b then None
           else let c = class_of E req in if bound_refuses b c backlog then Some c else None)"

definition gate_refuses :: "layer_env \<Rightarrow> sip_request \<Rightarrow> invite_class option" where
  "gate_refuses E req =
     (if \<not> c_gate (e_cfg E) \<or> \<not> e_gate_refusing E then None
      else let c = class_of E req in if c = INormal then Some c else None)"

definition ident :: "layer_env \<Rightarrow> sip_request \<Rightarrow> nat" where
  "ident E req = e_ident E (or_empty (rq_branch req)) (rq_call_id req) (or_empty (rq_from_tag req))"

datatype new_invite = NIRefused | NIAdmitted bool

definition judge_new_invite :: "layer_env \<Rightarrow> sip_request \<Rightarrow> addr \<Rightarrow> owner \<Rightarrow> owner \<times> new_invite" where
  "judge_new_invite E req dest s = (case refusals s of
      None \<Rightarrow> (s, NIAdmitted False)
    | Some r \<Rightarrow>
        let backlog = backlog_refuses E req s;
            gate = (case backlog of Some _ \<Rightarrow> None | None \<Rightarrow> gate_refuses E req);
            (r, a) = admit_invite (e_now E) (ident E req) (rq_to_tag req = None)
                       (backlog \<noteq> None \<or> gate \<noteq> None) r;
            s = s\<lparr>refusals := Some r\<rparr>
        in (case a of
              Admit held \<Rightarrow> (s, NIAdmitted held)
            | _ \<Rightarrow>
                let s = (case a of
                           Repeat \<Rightarrow> bump RefusedCopies s
                         | _ \<Rightarrow> (case (backlog, gate) of
                             (Some c, _) \<Rightarrow> bump (DeferredRefused c) s
                           | (None, Some c) \<Rightarrow> bump (NewCallGateRefused c) s
                           | (None, None) \<Rightarrow> s));
                    s = (case e_refusal E req of None \<Rightarrow> s | Some buf \<Rightarrow> send_buffer buf dest s)
                in (s, NIRefused)))"

definition acknowledges_refusal :: "layer_env \<Rightarrow> sip_request \<Rightarrow> owner \<Rightarrow> owner \<times> bool" where
  "acknowledges_refusal E ack s = (case refusals s of
      None \<Rightarrow> (s, False)
    | Some r \<Rightarrow>
        if remembering r
        then case refused (e_now E) (ident E ack) r of (r, was) \<Rightarrow> (s\<lparr>refusals := Some r\<rparr>, was)
        else (s, False))"

section \<open>The bound To-tag\<close>

datatype tag_bound = BExact string | BFill string | BFree

definition recall_uas_tag :: "layer_env \<Rightarrow> sip_response \<Rightarrow> owner \<Rightarrow> string option" where
  "recall_uas_tag E resp s = (case rs_from_tag resp of
      None \<Rightarrow> None
    | Some ft \<Rightarrow> (case recent_uas_tags s (rs_call_id resp, ft) of
        None \<Rightarrow> None
      | Some (tag, since) \<Rightarrow> if e_now E - since < ms TIMER_L then Some tag else None))"

definition request_to_tag :: "transaction \<Rightarrow> string option" where
  "request_to_tag t = Option.bind (t_original_request t) rq_to_tag"

definition or_else :: "'a option \<Rightarrow> 'a option \<Rightarrow> 'a option" where
  "or_else a b = (case a of Some _ \<Rightarrow> a | None \<Rightarrow> b)"

definition bound_for :: "layer_env \<Rightarrow> sip_response \<Rightarrow> owner \<Rightarrow> tag_bound" where
  "bound_for E resp s =
     (if rs_cseq_method resp = MCancel then
        let t = Option.bind (cancelled_invite_id (rs_branch resp) (rs_sent_by resp)) (servers s)
        in case or_else (Option.bind t request_to_tag)
                  (or_else (Option.bind t bound_to_tag) (recall_uas_tag E resp s)) of
             None \<Rightarrow> BFree
           | Some tag \<Rightarrow> BExact tag
      else case Option.bind (of_response resp) (servers s) of
        None \<Rightarrow> (case recall_uas_tag E resp s of None \<Rightarrow> BFree | Some tag \<Rightarrow> BFill tag)
      | Some t \<Rightarrow> (case request_to_tag t of
          Some tag \<Rightarrow> BExact tag
        | None \<Rightarrow>
            if t_kind t = KInvite then BFree
            else case or_else (bound_to_tag t) (recall_uas_tag E resp s) of
                   None \<Rightarrow> BFree
                 | Some tag \<Rightarrow> BFill tag))"

definition retag_or_same :: "layer_env \<Rightarrow> sip_response \<Rightarrow> string \<Rightarrow> sip_response" where
  "retag_or_same E resp tag = (case retag_response E resp tag of None \<Rightarrow> resp | Some r \<Rightarrow> r)"

definition bind_to_tag :: "layer_env \<Rightarrow> sip_response \<Rightarrow> owner \<Rightarrow> owner \<times> sip_response" where
  "bind_to_tag E resp s =
     (if rs_status resp \<le> 100 then (s, resp)
      else
        let carried = rs_to_tag resp;
            fallback = (case carried of None \<Rightarrow> False | Some tag \<Rightarrow> is_fallback_to_tag tag);
            chosen = (if fallback then None else carried)
        in case bound_for E resp s of
             BFree \<Rightarrow> (if fallback then bump FallbackToTagUsed s else s, resp)
           | BFill tag \<Rightarrow> (case chosen of
               Some _ \<Rightarrow> (if fallback then bump FallbackToTagUsed s else s, resp)
             | None \<Rightarrow> (bump ToTagFilled s, retag_or_same E resp tag))
           | BExact tag \<Rightarrow> (case chosen of
               Some c \<Rightarrow>
                 if c = tag then (s, resp) else (bump ToTagCoerced s, retag_or_same E resp tag)
             | None \<Rightarrow> (bump ToTagFilled s, retag_or_same E resp tag)))"

definition record_uas_tag :: "layer_env \<Rightarrow> server_txn_key \<Rightarrow> sip_response \<Rightarrow> owner \<Rightarrow> owner" where
  "record_uas_tag E k resp s = (case rs_to_tag resp of
      None \<Rightarrow> s
    | Some tag \<Rightarrow> (case servers s k of
        None \<Rightarrow> s
      | Some t \<Rightarrow>
          if t_kind t \<noteq> KInvite \<or> rs_status resp < 200 then s
          else remember_uas_tag E (t_call_id t) (t_from_tag t) tag
                 (upd_server k (\<lambda>t. t\<lparr>t_final_to_tag := Some tag\<rparr>) s)))"

definition told_bound :: "layer_env \<Rightarrow> txn_id \<Rightarrow> owner \<Rightarrow> owner" where
  "told_bound E i s =
     (if c_on_bound (e_cfg E)
      then s\<lparr>bounds_told := bounds_told s @
             [\<lparr>bp_call_ref = Option.bind (txn s i) t_call_ref,
               bp_call_id = map_option t_call_id (txn s i),
               bp_from_tag = map_option t_from_tag (txn s i)\<rparr>]\<rparr>
      else s)"

end
