(* ===== verification/Txn_Client.thy ===== *)
theory Txn_Client
  imports Txn_Owner
begin

text \<open>
  The client transactions (\<open>src/crates/sip-txn/src/layer/client.rs\<close>), their give-up
  (\<open>client_give_up.rs\<close>), the held ACK of a non-2xx final (\<open>held_ack.rs\<close>), Accepted transactions
  (\<open>accepted.rs\<close>) and the obligations of an orphaned one (\<open>orphan.rs\<close>).
\<close>

section \<open>Retransmission\<close>

definition release_seed_resend :: "layer_env \<Rightarrow> string \<Rightarrow> owner \<Rightarrow> owner" where
  "release_seed_resend E branch s = (case clients s branch of
      None \<Rightarrow> s
    | Some t \<Rightarrow>
        if gave_up (t_lifetime t) then s
        else case t_seed_resend t of
          None \<Rightarrow> s
        | Some buf \<Rightarrow>
            let s = upd_client branch (\<lambda>t. t\<lparr>t_seed_resend := None\<rparr>) s;
                (s, key) = arm E (ClientRetransmit branch) (ms 0) s
            in upd_client branch (\<lambda>t. t\<lparr>t_retransmit_buf := Some buf, t_retransmit_key := Some key\<rparr>) s)"

definition arm_cancel_retransmit :: "layer_env \<Rightarrow> string \<Rightarrow> owner \<Rightarrow> owner" where
  "arm_cancel_retransmit E branch s = (case clients s branch of
      None \<Rightarrow> s
    | Some t \<Rightarrow>
        if t_cancel_retransmit_key t \<noteq> None then s
        else case t_held_cancel t of
          None \<Rightarrow> s
        | Some h \<Rightarrow> (case armed (schedule_rfc CancelClient) of
            None \<Rightarrow> s
          | Some (ladder, first) \<Rightarrow>
              let s = upd_client branch
                        (\<lambda>t. t\<lparr>t_held_cancel := map_option (\<lambda>h. h\<lparr>hc_ladder := Some ladder\<rparr>) (t_held_cancel t)\<rparr>) s;
                  (s, key) = arm E (CancelRetransmit branch) first s
              in upd_client branch (\<lambda>t. t\<lparr>t_cancel_retransmit_key := Some key\<rparr>) s))"

text \<open>One tick of a transaction's ladder through \<open>Ladder::advance\<close>: the ladder moved, and the wait
  to re-arm at.\<close>

definition advance_opt :: "ladder option \<Rightarrow> ladder option \<times> duration option" where
  "advance_opt l = (case l of None \<Rightarrow> (None, None) | Some l \<Rightarrow> (case advance l of (l, w) \<Rightarrow> (Some l, w)))"

definition fire_cancel_retransmit :: "layer_env \<Rightarrow> string \<Rightarrow> owner \<Rightarrow> owner" where
  "fire_cancel_retransmit E branch s = (case clients s branch of
      None \<Rightarrow> s
    | Some t \<Rightarrow>
        if \<not> is_active (t_state t) then s
        else case t_held_cancel t of
          None \<Rightarrow> s
        | Some h \<Rightarrow>
            if hc_wire h = WHeld then s
            else
              let (ladder, rearm) = advance_opt (hc_ladder h);
                  s = upd_client branch (\<lambda>t. t\<lparr>t_held_cancel := Some (h\<lparr>hc_ladder := ladder\<rparr>)\<rparr>) s;
                  s = send_buffer (hc_buf h) (hc_dest h) s;
                  s = bump (Retransmits (Some CancelClient) MCancel None) s
              in case rearm of
                   None \<Rightarrow> s
                 | Some wait \<Rightarrow>
                     let (s, key) = arm E (CancelRetransmit branch) wait s
                     in upd_client branch (\<lambda>t. t\<lparr>t_cancel_retransmit_key := Some key\<rparr>) s)"

definition start_client_retransmit :: "layer_env \<Rightarrow> string \<Rightarrow> bytes \<Rightarrow> addr \<Rightarrow> nat \<Rightarrow> txn_timeout_kind
    \<Rightarrow> owner \<Rightarrow> owner" where
  "start_client_retransmit E branch buf dest max_ms timeout_kind s = (case clients s branch of
      None \<Rightarrow> s
    | Some t \<Rightarrow>
        let cls = (case t_kind t of KInvite \<Rightarrow> InviteClient | KNonInvite \<Rightarrow> NonInviteClient);
            sched = with_give_up (schedule_rfc cls) (ms (min max_ms TIMER_B))
        in case armed sched of
             None \<Rightarrow> s
           | Some (ladder, first) \<Rightarrow>
               let (s, r_key) = arm E (ClientRetransmit branch) first s;
                   (s, t_key) = arm E (ClientTimeout branch) (ms max_ms) s
               in upd_client branch (\<lambda>t. t\<lparr>t_retransmit_key := Some r_key, t_timeout_key := Some t_key,
                    t_retransmit_buf := Some buf, t_ladder := Some ladder,
                    t_timeout_kind := timeout_kind, t_destination := Some dest\<rparr>) s)"

definition fire_retransmit :: "layer_env \<Rightarrow> string \<Rightarrow> owner \<Rightarrow> owner" where
  "fire_retransmit E branch s = (case clients s branch of
      None \<Rightarrow> s
    | Some t \<Rightarrow>
        if \<not> is_active (t_state t) then s
        else case (t_retransmit_buf t, t_destination t) of
          (Some buf, Some dest) \<Rightarrow>
            let proceeding = (t_kind t = KNonInvite \<and> t_state t = Proceeding);
                s = send_buffer buf dest s;
                s = (case Option.bind (t_ladder t) ladder_class of
                       None \<Rightarrow> s
                     | Some cls \<Rightarrow> bump (Retransmits (Some cls) (t_method t) None) s)
            in (case t_ladder t of
                  None \<Rightarrow> s
                | Some l \<Rightarrow>
                    let l = (if proceeding then retarget l NonInviteProceeding else l);
                        (l, rearm) = advance l;
                        s = upd_client branch (\<lambda>t. t\<lparr>t_ladder := Some l\<rparr>) s
                    in case rearm of
                         None \<Rightarrow> s
                       | Some next_interval \<Rightarrow>
                           let (s, key) = arm E (ClientRetransmit branch) next_interval s
                           in upd_client branch (\<lambda>t. t\<lparr>t_retransmit_key := Some key\<rparr>) s)
        | _ \<Rightarrow> s)"

definition flush_cancel_on_provisional :: "layer_env \<Rightarrow> string \<Rightarrow> owner \<Rightarrow> owner" where
  "flush_cancel_on_provisional E branch s = (case clients s branch of
      None \<Rightarrow> s
    | Some t \<Rightarrow> (case t_held_cancel t of
        None \<Rightarrow> s
      | Some h \<Rightarrow>
          if hc_wire h \<noteq> WHeld then s
          else
            let s = upd_client branch (\<lambda>t. t\<lparr>t_held_cancel := Some (h\<lparr>hc_wire := WSent\<rparr>)\<rparr>) s;
                s = (if gave_up (t_lifetime t) then hold_txn E (Client branch) HGaveUp s else s);
                s = send_buffer (hc_buf h) (hc_dest h) s;
                s = bump HeldCancelsFlushed s
            in arm_cancel_retransmit E branch s))"

text \<open>The three running timers of a client transaction that took its final, taken off it.\<close>

definition clear_running :: "transaction \<Rightarrow> transaction" where
  "clear_running t = t\<lparr>t_retransmit_key := None, t_timeout_key := None, t_cancel_retransmit_key := None\<rparr>"

definition complete_non_2xx :: "layer_env \<Rightarrow> string \<Rightarrow> owner \<Rightarrow> owner" where
  "complete_non_2xx E branch s =
     (let s = (case clients s branch of
                 None \<Rightarrow> s
               | Some t \<Rightarrow>
                   let s = upd_client branch (\<lambda>t. t\<lparr>t_state := Completed, t_held_cancel := None\<rparr>) s;
                       s = (if never_sent (t_held_cancel t) then bump HeldCancelsDropped s else s);
                       s = upd_client branch clear_running s
                   in cancel_timer (t_cancel_retransmit_key t)
                        (cancel_timer (t_timeout_key t) (cancel_timer (t_retransmit_key t) s)))
      in hold_txn E (Client branch) HTimerD s)"

section \<open>Give-up\<close>

definition timeout_event :: "string \<Rightarrow> owner \<Rightarrow> txn_event option" where
  "timeout_event branch s = (case clients s branch of
      None \<Rightarrow> None
    | Some t \<Rightarrow>
        if is_active (t_state t) \<and> \<not> gave_up (t_lifetime t)
        then Some (ETimeout branch (t_call_ref t) (t_leg_id t) (t_incarnation_mark t)
               (Some (meth_str (t_method t))) (t_cseq t) (t_destination t) (t_timeout_kind t))
        else None)"

definition give_up_txn :: "layer_env \<Rightarrow> string \<Rightarrow> owner \<Rightarrow> owner" where
  "give_up_txn E branch s = (case clients s branch of
      Some t \<Rightarrow>
        if t_kind t = KInvite
        then let s = upd_client branch (\<lambda>t. t\<lparr>t_ladder := None, t_retransmit_key := None\<rparr>) s;
                 s = cancel_timer (t_retransmit_key t) s
             in hold_txn E (Client branch) HGaveUp s
        else fst (delete_txn E (Client branch) s)
    | None \<Rightarrow> fst (delete_txn E (Client branch) s))"

definition fire_timeout :: "layer_env \<Rightarrow> string \<Rightarrow> owner \<Rightarrow> owner" where
  "fire_timeout E branch s = (case timeout_event branch s of
      None \<Rightarrow> s
    | Some ev \<Rightarrow>
        let reported = (case clients s branch of None \<Rightarrow> False | Some t \<Rightarrow> t_dead_hop_reported t);
            s = give_up_txn E branch s
        in if reported then s else emit_critical E ev s)"

definition fire_first_response :: "layer_env \<Rightarrow> string \<Rightarrow> owner \<Rightarrow> owner" where
  "fire_first_response E branch s = (case clients s branch of
      None \<Rightarrow> s
    | Some t \<Rightarrow>
        if \<not> (t_kind t = KInvite \<and> is_active (t_state t) \<and> \<not> gave_up (t_lifetime t) \<and>
              \<not> t_dead_hop_reported t) then s
        else if t_state t = Proceeding then
          (case (t_past_trying t, t_call_ref t, t_leg_id t) of
             (False, Some cr, Some lg) \<Rightarrow> fst (emit E (EHopAlive branch cr lg (t_incarnation_mark t)) s)
           | _ \<Rightarrow> s)
        else case timeout_event branch s of
          None \<Rightarrow> s
        | Some ev \<Rightarrow> emit_critical E ev (upd_client branch (\<lambda>t. t\<lparr>t_dead_hop_reported := True\<rparr>) s))"

definition client_timeout :: "layer_env \<Rightarrow> txn_kind \<Rightarrow> sip_request \<Rightarrow> nat \<times> txn_timeout_kind" where
  "client_timeout E kind req = (case kind of
      KInvite \<Rightarrow>
        if rq_to_tag req = None
        then (min TIMER_B (c_invite_initial_timeout_ms (e_cfg E)), TKResponse)
        else (TIMER_B, TKResponse)
    | KNonInvite \<Rightarrow> (TIMER_F, TKResponse))"

definition elapsed_ms :: "layer_env \<Rightarrow> instant \<Rightarrow> nat" where
  "elapsed_ms E since = min ((e_now E - since) div 1000000) u64_max"

definition rearm_invite_bound :: "layer_env \<Rightarrow> string \<Rightarrow> owner \<Rightarrow> owner" where
  "rearm_invite_bound E branch s = (case clients s branch of
      None \<Rightarrow> s
    | Some t \<Rightarrow>
        if t_kind t = KInvite \<and> t_timeout_kind t = TKResponse \<and> \<not> gave_up (t_lifetime t) \<and>
           \<not> t_dead_hop_reported t
        then
          let remaining = max (c_invite_initial_timeout_ms (e_cfg E) - elapsed_ms E (t_created_at t)) 1;
              s = upd_client branch (\<lambda>t. t\<lparr>t_timeout_key := None\<rparr>) s;
              s = cancel_timer (t_timeout_key t) s;
              (s, key) = arm E (ClientTimeout branch) (ms remaining) s
          in upd_client branch (\<lambda>t. t\<lparr>t_timeout_key := Some key, t_timeout_kind := TKTransaction\<rparr>) s
        else s)"

section \<open>Accepted transactions\<close>

text \<open>\<open>accept_2xx\<close> up to its hold: the state, the parked CANCEL, the INVITE's image, the dialog, the
  running timers.\<close>

definition accept_core :: "transaction \<Rightarrow> string \<Rightarrow> sip_response \<Rightarrow> owner \<Rightarrow> owner" where
  "accept_core t branch resp s =
     (let s = upd_client branch (\<lambda>t. t\<lparr>t_state := Accepted, t_held_cancel := None\<rparr>) s;
          s = (if never_sent (t_held_cancel t) then bump HeldCancelsDropped s else s);
          s = upd_client branch (\<lambda>t. case t_original_request t of
                None \<Rightarrow> t
              | Some invite \<Rightarrow> t\<lparr>t_original_request := None, t_retransmit_buf := Some (rq_image invite)\<rparr>) s;
          s = upd_client branch (\<lambda>t. t\<lparr>t_seed_resend := None, t_ladder := None\<rparr>) s;
          s = upd_client branch (\<lambda>t. fst (with_dialog (rs_to_tag resp) (\<lambda>d. d) t)) s;
          s = upd_client branch clear_running s;
          s = cancel_timer (t_retransmit_key t) s;
          s = cancel_timer (t_timeout_key t) s
      in cancel_timer (t_cancel_retransmit_key t) s)"

definition accept_2xx :: "layer_env \<Rightarrow> string \<Rightarrow> sip_response \<Rightarrow> owner \<Rightarrow> owner" where
  "accept_2xx E branch resp s = (case clients s branch of
      None \<Rightarrow> s
    | Some t \<Rightarrow> settle_accepted branch (hold_txn E (Client branch) HTimerM (accept_core t branch resp s)))"

definition note_tu_ack :: "layer_env \<Rightarrow> sip_request \<Rightarrow> bytes \<Rightarrow> addr \<Rightarrow> owner \<Rightarrow> owner" where
  "note_tu_ack E ack buf dest s =
     (case Option.bind (vm_call_ref (extract_via_custom_params ack)) (txn_index s) of
        None \<Rightarrow> s
      | Some c \<Rightarrow>
          let acknowledged = (\<lambda>b. case clients s b of
                None \<Rightarrow> False
              | Some t \<Rightarrow> t_state t = Accepted \<and> t_call_id t = rq_call_id ack \<and>
                  t_from_tag t = or_empty (rq_from_tag ack) \<and> t_cseq t = rq_cseq ack)
          in case find acknowledged (e_iter_branches E (ct_accepted c)) of
               None \<Rightarrow> s
             | Some branch \<Rightarrow>
                 upd_client branch
                   (\<lambda>t. fst (with_dialog (rq_to_tag ack) (\<lambda>d. d\<lparr>d_ack := Some (buf, dest)\<rparr>) t)) s)"

definition accepted_invite :: "layer_env \<Rightarrow> string \<Rightarrow> owner \<Rightarrow> sip_request option" where
  "accepted_invite E branch s =
     (case Option.bind (clients s branch) t_retransmit_buf of
        None \<Rightarrow> None
      | Some buf \<Rightarrow> (case e_parse E buf of Parsed (Req invite) \<Rightarrow> Some invite | _ \<Rightarrow> None))"

definition note_reliable_offer :: "string \<Rightarrow> sip_response \<Rightarrow> owner \<Rightarrow> owner" where
  "note_reliable_offer branch resp s = (case rs_to_tag resp of
      None \<Rightarrow> s
    | Some tag \<Rightarrow>
        if rs_sdp resp = None \<or> \<not> rs_rseq resp then s
        else upd_client branch (\<lambda>t.
          let offerless = (case t_original_request t of None \<Rightarrow> False | Some o' \<Rightarrow> rq_sdp o' = None)
          in if offerless \<and> length (t_reliable_offers t) < MAX_DIALOGS \<and> tag \<notin> set (t_reliable_offers t)
             then t\<lparr>t_reliable_offers := t_reliable_offers t @ [tag]\<rparr> else t) s)"

definition note_dialog_cseq :: "layer_env \<Rightarrow> string option \<Rightarrow> sip_request \<Rightarrow> owner \<Rightarrow> owner" where
  "note_dialog_cseq E call_ref req s = (case (rq_to_tag req, Option.bind call_ref (txn_index s)) of
      (Some to_tag, Some c) \<Rightarrow>
        fold (\<lambda>branch. upd_client branch (\<lambda>t.
            if t_kind t = KInvite \<and> t_call_id t = rq_call_id req \<and> t_from_tag t = or_empty (rq_from_tag req)
            then fst (with_dialog (Some to_tag)
                   (\<lambda>d. d\<lparr>d_cseq := max (d_cseq d) (rq_cseq req), d_byed := d_byed d \<or> rq_method req = MBye\<rparr>) t)
            else t))
          (e_iter_branches E (ct_client c) @ e_iter_branches E (ct_accepted c)) s
    | _ \<Rightarrow> s)"

section \<open>Sending a request\<close>

datatype cancel_gate = GHold | GSuppress | GSend

definition gate_of :: "sip_request \<Rightarrow> owner \<Rightarrow> cancel_gate" where
  "gate_of msg s =
     (if rq_method msg = MCancel
      then case Option.bind (rq_branch msg) (clients s) of
             Some t \<Rightarrow>
               if t_kind t = KInvite \<and> is_active (t_state t)
               then if t_state t = Trying then GHold else GSend
               else GSuppress
           | None \<Rightarrow> GSuppress
      else GSend)"

definition hold_cancel_unsent :: "layer_env \<Rightarrow> string \<Rightarrow> bytes \<Rightarrow> addr \<Rightarrow> owner \<Rightarrow> owner" where
  "hold_cancel_unsent E branch buf dest s =
     (let s = (case clients s branch of
                 None \<Rightarrow> s
               | Some t \<Rightarrow>
                   let s = upd_client branch (\<lambda>t. t\<lparr>t_held_cancel := Some (held_cancel_new buf dest WHeld)\<rparr>) s
                   in if t_held_cancel t \<noteq> None then bump HeldCancelsDropped s else s);
          s = bump CancelsHeld s
      in release_seed_resend E branch s)"

definition park_cancel :: "bytes \<Rightarrow> addr \<Rightarrow> transaction \<Rightarrow> transaction" where
  "park_cancel buf dest t = t\<lparr>t_held_cancel := Some (case t_held_cancel t of
      Some h \<Rightarrow> h\<lparr>hc_buf := buf, hc_dest := dest\<rparr>
    | None \<Rightarrow> held_cancel_new buf dest WSent)\<rparr>"

definition live_invite :: "sip_request \<Rightarrow> owner \<Rightarrow> string option" where
  "live_invite msg s =
     (if rq_method msg \<noteq> MCancel then None
      else case rq_branch msg of
        None \<Rightarrow> None
      | Some b \<Rightarrow> (case clients s b of
          None \<Rightarrow> None
        | Some t \<Rightarrow> if t_kind t = KInvite \<and> is_active (t_state t) then Some b else None))"

definition send_raw :: "layer_env \<Rightarrow> sip_request \<Rightarrow> bytes \<Rightarrow> addr \<Rightarrow> owner \<Rightarrow> owner" where
  "send_raw E msg buf dest s =
     (let park = live_invite msg s;
          first_on_given_up = (case Option.bind park (clients s) of
              None \<Rightarrow> False
            | Some t \<Rightarrow> gave_up (t_lifetime t) \<and> (t_held_cancel t = None \<or> never_sent (t_held_cancel t)));
          s = (case park of None \<Rightarrow> s | Some b \<Rightarrow> upd_client b (park_cancel buf dest) s);
          s = send_buffer buf dest s;
          s = (if rq_method msg = MAck then note_tu_ack E msg buf dest s else s)
      in case park of
           None \<Rightarrow> s
         | Some b \<Rightarrow>
             let s = arm_cancel_retransmit E b s
             in if first_on_given_up then hold_txn E (Client b) HGaveUp s else s)"

definition send_cancel_or_ack :: "layer_env \<Rightarrow> sip_request \<Rightarrow> bytes \<Rightarrow> addr \<Rightarrow> owner \<Rightarrow> owner" where
  "send_cancel_or_ack E msg buf dest s = (case gate_of msg s of
      GHold \<Rightarrow> hold_cancel_unsent E (or_empty (rq_branch msg)) buf dest s
    | GSuppress \<Rightarrow> bump CancelsSuppressedOnFinal s
    | GSend \<Rightarrow> send_raw E msg buf dest s)"

definition client_handle :: "txn_kind \<Rightarrow> string \<Rightarrow> sip_request \<Rightarrow> addr \<Rightarrow> client_txn_handle" where
  "client_handle kind branch msg dest =
     (case kind of KInvite \<Rightarrow> HInvite branch msg dest | KNonInvite \<Rightarrow> HNonInvite branch msg dest)"

definition client_head :: "txn_kind \<Rightarrow> string \<Rightarrow> sip_request \<Rightarrow> addr \<Rightarrow> new_transaction" where
  "client_head kind branch msg dest =
     \<lparr>t_id = Client branch, t_kind = kind, t_method = rq_method msg, t_cseq = rq_cseq msg,
      t_call_id = rq_call_id msg, t_from_tag = or_empty (rq_from_tag msg),
      t_original_request = (if kind = KInvite then Some msg else None),
      t_call_ref = vm_call_ref (extract_via_custom_params msg),
      t_leg_id = vm_leg_id (extract_via_custom_params msg),
      t_incarnation_mark = vm_incarnation_mark (extract_via_custom_params msg),
      t_state = Trying, t_destination = Some dest\<rparr>"

definition request_branch :: "layer_env \<Rightarrow> sip_request \<Rightarrow> owner \<Rightarrow> owner \<times> string" where
  "request_branch E msg s = (case rq_branch msg of
      Some b \<Rightarrow> if b = [] then new_branch E s else (s, b)
    | None \<Rightarrow> new_branch E s)"

definition open_client :: "layer_env \<Rightarrow> string \<Rightarrow> sip_request \<Rightarrow> bytes \<Rightarrow> addr \<Rightarrow> txn_kind \<Rightarrow> owner \<Rightarrow> owner" where
  "open_client E branch msg buf dest kind s =
     (let s = note_dialog_cseq E (vm_call_ref (extract_via_custom_params msg)) msg s;
          s = send_buffer buf dest s;
          s = open_txn E (client_head kind branch msg dest) s;
          (max_ms, timeout_kind) = client_timeout E kind msg;
          s = start_client_retransmit E branch buf dest max_ms timeout_kind s
      in if kind = KInvite \<and> rq_to_tag msg = None \<and>
            c_invite_first_response_timeout_ms (e_cfg E) \<le> max_ms
         then fst (arm E (FirstResponse branch) (ms (c_invite_first_response_timeout_ms (e_cfg E))) s)
         else s)"

definition do_send_request :: "layer_env \<Rightarrow> sip_request \<Rightarrow> addr \<Rightarrow> txn_kind \<Rightarrow> owner
    \<Rightarrow> owner \<times> client_txn_handle" where
  "do_send_request E msg dest kind s =
     (let buf = e_render E msg
      in if rq_method msg = MCancel \<or> rq_method msg = MAck
         then (send_cancel_or_ack E msg buf dest s, client_handle kind (or_empty (rq_branch msg)) msg dest)
         else
           let (s, branch) = request_branch E msg s
           in (open_client E branch msg buf dest kind s, client_handle kind branch msg dest))"

section \<open>Orphans\<close>

definition owed_answer :: "layer_env \<Rightarrow> sip_request \<Rightarrow> sip_response \<Rightarrow> string list \<Rightarrow> bytes option" where
  "owed_answer E invite resp reliable_offers =
     (let offered_reliably = (case rs_to_tag resp of None \<Rightarrow> False | Some tag \<Rightarrow> tag \<in> set reliable_offers)
      in if rq_sdp invite \<noteq> None \<or> offered_reliably then None
         else Option.bind (rs_sdp resp) (\<lambda>offer. e_reject_offer E offer invite))"

definition orphan_ack :: "layer_env \<Rightarrow> string \<Rightarrow> sip_request \<Rightarrow> sip_response \<Rightarrow> owner
    \<Rightarrow> owner \<times> datagram option" where
  "orphan_ack E branch invite resp s = (case clients s branch of
      None \<Rightarrow> (s, None)
    | Some t \<Rightarrow>
        let answer = owed_answer E invite resp (t_reliable_offers t);
            (s, fresh) = new_branch E s
        in (s, Option.bind (e_ack_2xx E invite resp fresh answer)
                 (\<lambda>ack. map_option (\<lambda>dest. (rq_image ack, dest)) (e_next_hop E ack))))"

definition orphan_bye :: "layer_env \<Rightarrow> string \<Rightarrow> sip_request \<Rightarrow> sip_response \<Rightarrow> owner
    \<Rightarrow> owner \<times> (sip_request \<times> addr) option" where
  "orphan_bye E branch invite resp s = (case clients s branch of
      None \<Rightarrow> (s, None)
    | Some t \<Rightarrow>
        if rq_to_tag invite \<noteq> None then (s, None)
        else
          let sent = (case find (\<lambda>d. d_to_tag d = rs_to_tag resp) (t_dialogs t) of
                 None \<Rightarrow> 0 | Some d \<Rightarrow> d_cseq d);
              cseq = (max (rq_cseq invite) sent + 1) mod 2 ^ 32;
              (s, fresh) = new_branch E s
          in (s, Option.bind (e_bye_2xx E invite resp cseq fresh)
                   (\<lambda>bye. map_option (\<lambda>dest. (bye, dest)) (e_next_hop E bye))))"

definition orphan_one :: "string \<Rightarrow> owner \<Rightarrow> owner" where
  "orphan_one branch s =
     detach_from_call (Client branch) (upd_client branch (\<lambda>t. t\<lparr>t_orphaned := True\<rparr>) s)"

definition bye_unheld_dialog :: "layer_env \<Rightarrow> string \<Rightarrow> sip_request \<Rightarrow> sip_response \<Rightarrow> owner \<Rightarrow> owner" where
  "bye_unheld_dialog E branch invite resp s = (case orphan_bye E branch invite resp s of
      (s, None) \<Rightarrow> s
    | (s, Some (bye, dest)) \<Rightarrow>
        let bye_branch = or_empty (rq_branch bye);
            s = fst (do_send_request E bye dest KNonInvite s)
        in if clients s bye_branch = None then s
           else bump OrphanedTransactions (orphan_one bye_branch s))"

definition release_2xx :: "layer_env \<Rightarrow> string \<Rightarrow> sip_response \<Rightarrow> owner \<Rightarrow> owner" where
  "release_2xx E branch resp s = (case clients s branch of
      None \<Rightarrow> s
    | Some t \<Rightarrow>
        let known = snd (with_dialog (rs_to_tag resp) (\<lambda>d. d) t);
            s = upd_client branch (\<lambda>t. fst (with_dialog (rs_to_tag resp) (\<lambda>d. d) t)) s
        in case Option.bind known d_ack of
             Some (ack, dest) \<Rightarrow> send_buffer ack dest s
           | None \<Rightarrow> (case accepted_invite E branch s of
               None \<Rightarrow> s
             | Some invite \<Rightarrow> (case orphan_ack E branch invite resp s of
                 (s, None) \<Rightarrow> s
               | (s, Some (ack, dest)) \<Rightarrow>
                   let s = send_buffer ack dest s
                   in case known of
                        None \<Rightarrow> s
                      | Some d \<Rightarrow>
                          let s = upd_client branch (\<lambda>t.
                                fst (with_dialog (rs_to_tag resp) (\<lambda>d. d\<lparr>d_ack := Some (ack, dest)\<rparr>) t)) s
                          in if d_byed d then s else bye_unheld_dialog E branch invite resp s)))"

definition accept_orphaned_2xx :: "layer_env \<Rightarrow> string \<Rightarrow> sip_response \<Rightarrow> owner \<Rightarrow> owner" where
  "accept_orphaned_2xx E branch resp s = release_2xx E branch resp (accept_2xx E branch resp s)"

definition orphan_branch :: "string \<Rightarrow> owner \<Rightarrow> owner" where
  "orphan_branch branch s =
     (if clients s branch = None then s
      else bump OrphanedTransactions (bump TxnOrphanedOnCallEvict (orphan_one branch s)))"

definition do_cancel_txns_for_call :: "layer_env \<Rightarrow> string \<Rightarrow> owner \<Rightarrow> owner" where
  "do_cancel_txns_for_call E cr s = (case txn_index s cr of
      None \<Rightarrow> s
    | Some c \<Rightarrow> fold orphan_branch (e_iter_branches E (ct_client c) @ e_iter_branches E (ct_accepted c)) s)"

section \<open>The held ACK\<close>

definition holds_ack :: "string \<Rightarrow> owner \<Rightarrow> bool" where
  "holds_ack branch s \<longleftrightarrow> Option.bind (clients s branch) t_unsent_ack \<noteq> None"

definition send_held_ack :: "string \<Rightarrow> owner \<Rightarrow> owner \<times> bool" where
  "send_held_ack branch s = (case Option.bind (clients s branch) t_unsent_ack of
      None \<Rightarrow> (s, False)
    | Some (ack, dest) \<Rightarrow>
        (send_buffer ack dest (upd_client branch (\<lambda>t. t\<lparr>t_unsent_ack := None\<rparr>) s), True))"

definition fire_ack_bound :: "layer_env \<Rightarrow> string \<Rightarrow> instant \<Rightarrow> owner \<Rightarrow> owner" where
  "fire_ack_bound E branch opened s =
     (if map_option t_created_at (clients s branch) = Some opened
      then case send_held_ack branch s of
             (s, True) \<Rightarrow> told_bound E (Client branch) s
           | (s, False) \<Rightarrow> s
      else s)"

definition ack_first_non_2xx :: "layer_env \<Rightarrow> string \<Rightarrow> datagram \<Rightarrow> owner \<Rightarrow> owner" where
  "ack_first_non_2xx E branch ack s = (case clients s branch of
      Some t \<Rightarrow>
        if 0 < c_ack_bound_ms (e_cfg E)
        then let s = upd_client branch (\<lambda>t. t\<lparr>t_unsent_ack := Some ack\<rparr>) s;
                 at = from_now E (ms (c_ack_bound_ms (e_cfg E)))
             in fst (insert_at E (AckBound branch (t_created_at t)) at s)
        else send_buffer (fst ack) (snd ack) s
    | None \<Rightarrow> send_buffer (fst ack) (snd ack) s)"

definition take_non_2xx_final :: "layer_env \<Rightarrow> string \<Rightarrow> sip_response \<Rightarrow> addr \<Rightarrow> transaction \<Rightarrow> owner \<Rightarrow> owner" where
  "take_non_2xx_final E branch resp src t s =
     (let ack = (case (t_original_request t, t_destination t) of
            (Some orig, Some dest) \<Rightarrow> map_option (\<lambda>buf. (buf, dest)) (e_ack_non_2xx E orig resp)
          | _ \<Rightarrow> None)
      in if t_state t = Completed then
           (case ack of
              Some (buf, dest) \<Rightarrow> if holds_ack branch s then s else send_buffer buf dest s
            | None \<Rightarrow> s)
         else if t_orphaned t then
           complete_non_2xx E branch
             (case ack of Some (buf, dest) \<Rightarrow> send_buffer buf dest s | None \<Rightarrow> s)
         else
           let s = (case ack of Some a \<Rightarrow> ack_first_non_2xx E branch a s | None \<Rightarrow> s);
               s = complete_non_2xx E branch s
           in emit_critical E (event_response resp src True) s)"

section \<open>An inbound response\<close>

definition take_100 :: "layer_env \<Rightarrow> string \<Rightarrow> sip_response \<Rightarrow> owner \<Rightarrow> owner \<times> bool" where
  "take_100 E branch resp s =
     (if branch = [] then (s, False)
      else case clients s branch of
        None \<Rightarrow> (s, False)
      | Some t \<Rightarrow>
          if t_method t = rs_cseq_method resp \<and> is_active (t_state t)
          then
            let s = upd_client branch (\<lambda>t. t\<lparr>t_state := Proceeding\<rparr>) s;
                s = (if t_kind t = KInvite
                     then cancel_timer (t_retransmit_key t)
                            (upd_client branch (\<lambda>t. t\<lparr>t_retransmit_key := None\<rparr>) s)
                     else s);
                s = rearm_invite_bound E branch s
            in (flush_cancel_on_provisional E branch s, True)
          else (s, False))"

definition take_cancel_response :: "layer_env \<Rightarrow> string \<Rightarrow> sip_response \<Rightarrow> addr \<Rightarrow> bool \<Rightarrow> owner \<Rightarrow> owner" where
  "take_cancel_response E branch resp src reoffer s =
     (let s = (case clients s branch of
                 None \<Rightarrow> s
               | Some t \<Rightarrow>
                   if t_kind t = KInvite \<and> t_held_cancel t \<noteq> None \<and> \<not> never_sent (t_held_cancel t)
                   then cancel_timer (t_cancel_retransmit_key t)
                          (upd_client branch (\<lambda>t. t\<lparr>t_held_cancel := None, t_cancel_retransmit_key := None\<rparr>) s)
                   else s)
      in if reoffer then s else fst (emit E (event_response resp src False) s))"

definition take_provisional :: "layer_env \<Rightarrow> string \<Rightarrow> sip_response \<Rightarrow> transaction \<Rightarrow> owner \<Rightarrow> owner" where
  "take_provisional E branch resp t s =
     (if is_active (t_state t)
      then
        let s = upd_client branch (\<lambda>t. t\<lparr>t_state := Proceeding, t_past_trying := True\<rparr>) s;
            s = (if t_kind t = KInvite
                 then cancel_timer (t_retransmit_key t)
                        (upd_client branch (\<lambda>t. t\<lparr>t_retransmit_key := None\<rparr>) s)
                 else s);
            s = (if t_kind t = KInvite then note_reliable_offer branch resp s else s);
            s = rearm_invite_bound E branch s
        in flush_cancel_on_provisional E branch s
      else s)"

definition client_match :: "string \<Rightarrow> sip_response \<Rightarrow> owner \<Rightarrow> transaction option" where
  "client_match branch resp s = (case clients s branch of
      None \<Rightarrow> None
    | Some t \<Rightarrow>
        if t_method t = rs_cseq_method resp \<and>
           (t_state t \<noteq> Accepted \<or> t_orphaned t \<or> \<not> (200 \<le> rs_status resp \<and> rs_status resp < 300))
        then Some t else None)"

text \<open>A final on the matched transaction \<open>t\<close>, which has not taken a 2xx.\<close>

definition take_final :: "layer_env \<Rightarrow> string \<Rightarrow> sip_response \<Rightarrow> addr \<Rightarrow> transaction \<Rightarrow> owner \<Rightarrow> owner" where
  "take_final E branch resp src t s =
     (if t_kind t = KInvite \<and> 300 \<le> rs_status resp then take_non_2xx_final E branch resp src t s
      else if t_kind t = KInvite then
        (if t_orphaned t then accept_orphaned_2xx E branch resp s
         else emit_critical E (event_response resp src True) (accept_2xx E branch resp s))
      else
        let s = fst (delete_txn E (Client branch) s)
        in if t_orphaned t then s else emit_critical E (event_response resp src True) s)"

definition pass_up :: "layer_env \<Rightarrow> string \<Rightarrow> sip_response \<Rightarrow> addr \<Rightarrow> bool \<Rightarrow> bool \<Rightarrow> owner \<Rightarrow> owner" where
  "pass_up E branch resp src matched reoffer s =
     (let orphaned = (case clients s branch of None \<Rightarrow> False | Some t \<Rightarrow> t_orphaned t)
      in if (matched \<and> \<not> orphaned) \<or> \<not> reoffer
         then fst (emit E (event_response resp src matched) s) else s)"

definition inbound_response :: "layer_env \<Rightarrow> sip_response \<Rightarrow> addr \<Rightarrow> bool \<Rightarrow> owner \<Rightarrow> owner \<times> bool" where
  "inbound_response E resp src reoffer s =
     (let branch = or_empty (rs_branch resp)
      in if rs_status resp = 100 then take_100 E branch resp s
         else if branch \<noteq> [] \<and> rs_cseq_method resp = MCancel
         then (take_cancel_response E branch resp src reoffer s, False)
         else case (if branch = [] then None else client_match branch resp s) of
           None \<Rightarrow> (pass_up E branch resp src False reoffer s, False)
         | Some t \<Rightarrow>
             if t_state t = Accepted
             then (if 200 \<le> rs_status resp \<and> rs_status resp < 300 then release_2xx E branch resp s else s, True)
             else if rs_status resp < 200
             then (pass_up E branch resp src True reoffer (take_provisional E branch resp t s), True)
             else (take_final E branch resp src t s, True))"

definition handle_inbound_response :: "layer_env \<Rightarrow> sip_response \<Rightarrow> addr \<Rightarrow> owner \<Rightarrow> owner" where
  "handle_inbound_response E resp src s = fst (inbound_response E resp src False s)"

end
