(* ===== verification/Txn_Server.thy ===== *)
theory Txn_Server
  imports Txn_Client
begin

text \<open>
  The server transactions (\<open>src/crates/sip-txn/src/layer/server.rs\<close>), a CANCEL and its answers
  (\<open>server_cancel.rs\<close>, \<open>held_cancel.rs\<close>), the first 100 Trying (\<open>trying.rs\<close>), the requests a consumer
  discards unanswered (\<open>unanswered.rs\<close>) and the hand-over of a call to another node (\<open>relinquish.rs\<close>).
\<close>

section \<open>Finals and their holds\<close>

definition state_after :: "txn_kind \<Rightarrow> nat \<Rightarrow> txn_state" where
  "state_after kind status =
     (if status \<le> 199 then Proceeding
      else if kind = KInvite \<and> 200 \<le> status \<and> status \<le> 299 then Accepted else Completed)"

definition final_hold :: "txn_kind \<Rightarrow> nat \<Rightarrow> hold_why" where
  "final_hold kind status = (case kind of
      KInvite \<Rightarrow> if 200 \<le> status \<and> status \<le> 299 then HTimerL else HTimerH
    | KNonInvite \<Rightarrow> HTimerJ)"

definition arm_final_hold :: "layer_env \<Rightarrow> server_txn_key \<Rightarrow> txn_kind \<Rightarrow> nat \<Rightarrow> owner \<Rightarrow> owner" where
  "arm_final_hold E k kind status s =
     (let s = hold_txn E (Server k) (final_hold kind status) s
      in if kind = KInvite \<and> 300 \<le> status
         then case armed (schedule_rfc InviteServerFinal) of
                None \<Rightarrow> s
              | Some (ladder, first) \<Rightarrow>
                  let (s, g_key) = arm E (ServerRetransmit k) first s
                  in upd_server k (\<lambda>t. t\<lparr>t_retransmit_key := Some g_key, t_ladder := Some ladder\<rparr>) s
         else s)"

definition fire_server_retransmit :: "layer_env \<Rightarrow> server_txn_key \<Rightarrow> owner \<Rightarrow> owner" where
  "fire_server_retransmit E k s = (case servers s k of
      None \<Rightarrow> s
    | Some t \<Rightarrow>
        if \<not> (t_kind t = KInvite \<and> t_state t = Completed) then s
        else case (t_last_response t, t_destination t, t_last_response_status t) of
          (Some buf, Some dest, Some status) \<Rightarrow>
            let s = send_buffer buf dest s;
                s = bump (Retransmits (Some InviteServerFinal) MInvite (Some status)) s
            in (case t_ladder t of
                  None \<Rightarrow> s
                | Some l \<Rightarrow>
                    let (l, rearm) = advance l;
                        s = upd_server k (\<lambda>t. t\<lparr>t_ladder := Some l\<rparr>) s
                    in case rearm of
                         None \<Rightarrow> s
                       | Some next_interval \<Rightarrow>
                           let (s, key) = arm E (ServerRetransmit k) next_interval s
                           in upd_server k (\<lambda>t. t\<lparr>t_retransmit_key := Some key\<rparr>) s)
        | _ \<Rightarrow> s)"

definition sent_final :: "txn_state \<Rightarrow> bool" where
  "sent_final st \<longleftrightarrow> st = Completed \<or> st = Confirmed \<or> st = Accepted"

text \<open>The response recorded on the transaction that sends it, and its holds when it is a final.\<close>

definition note_response :: "layer_env \<Rightarrow> server_txn_key \<Rightarrow> sip_response \<Rightarrow> owner \<Rightarrow> owner" where
  "note_response E k resp s = (case servers s k of
      None \<Rightarrow> s
    | Some t \<Rightarrow>
        let status = rs_status resp;
            tag = (if 100 < status then rs_to_tag resp else None);
            s = upd_server k (\<lambda>t. t\<lparr>t_uas_to_tag := or_else (t_uas_to_tag t) tag,
                  t_last_response := Some (rs_image resp), t_last_response_status := Some status,
                  t_state := state_after (t_kind t) status\<rparr>) s
        in if 200 \<le> status
           then arm_final_hold E k (t_kind t) status (upd_server k (\<lambda>t. t\<lparr>t_original_request := None\<rparr>) s)
           else s)"

definition drops_response :: "sip_response \<Rightarrow> owner \<Rightarrow> bool" where
  "drops_response msg s \<longleftrightarrow> rs_cseq_method msg \<noteq> MCancel \<and>
     (case Option.bind (of_response msg) (servers s) of None \<Rightarrow> False | Some t \<Rightarrow> sent_final (t_state t))"

definition do_send_response :: "layer_env \<Rightarrow> sip_response \<Rightarrow> addr \<Rightarrow> owner \<Rightarrow> owner \<times> bytes" where
  "do_send_response E msg dest s =
     (if drops_response msg s then (s, rs_image msg)
      else
        let (s, msg) = bind_to_tag E msg s; buf = rs_image msg
        in if rs_cseq_method msg = MCancel then (send_buffer buf dest s, buf)
           else case of_response msg of
             None \<Rightarrow> (send_buffer buf dest s, buf)
           | Some k \<Rightarrow> (case servers s k of
               Some t \<Rightarrow>
                 let dest = (case t_destination t of Some d \<Rightarrow> d | None \<Rightarrow> dest);
                     s = record_uas_tag E k msg s;
                     s = note_response E k msg s
                 in (send_buffer buf dest s, buf)
             | None \<Rightarrow>
                 if 300 \<le> rs_status msg \<and> rs_cseq_method msg = MInvite
                 then (bump ServerFinalUnseenBranch s, buf)
                 else (send_buffer buf dest s, buf)))"

definition hold_for_timer_i :: "layer_env \<Rightarrow> server_txn_key \<Rightarrow> owner \<Rightarrow> owner" where
  "hold_for_timer_i E k s = (case servers s k of
      None \<Rightarrow> s
    | Some t \<Rightarrow>
        let s = upd_server k (\<lambda>t. t\<lparr>t_retransmit_key := None, t_state := Confirmed, t_ladder := None\<rparr>) s;
            s = cancel_timer (t_retransmit_key t) s;
            s = hold_txn E (Server k) HTimerI s
        in detach_from_call (Server k) s)"

section \<open>The first 100 Trying\<close>

definition arm_trying_bound :: "layer_env \<Rightarrow> server_txn_key \<Rightarrow> instant \<Rightarrow> owner \<Rightarrow> owner" where
  "arm_trying_bound E k opened s =
     fst (insert_at E (TryingBound k opened)
       (deadline_after (e_clock_limit E) opened (ms (c_trying_bound_ms (e_cfg E)))) s)"

definition send_first_trying :: "layer_env \<Rightarrow> server_txn_key \<Rightarrow> owner \<Rightarrow> owner \<times> bool" where
  "send_first_trying E k s = (case servers s k of
      None \<Rightarrow> (s, False)
    | Some t \<Rightarrow> (case (t_original_request t, t_destination t) of
        (Some request, Some dest) \<Rightarrow>
          if \<not> (t_kind t = KInvite \<and> t_state t = Trying) then (s, False)
          else
            let delay = e_now E - t_created_at t;
                delayed = (if 0 < delay div 1000000 then Some delay else None)
            in (case generate_response E request 100 None delayed of
                  None \<Rightarrow> (s, False)
                | Some trying \<Rightarrow>
                    let s = send_buffer (rs_image trying) dest s
                    in (upd_server k (\<lambda>t. t\<lparr>t_state := Proceeding, t_last_response := Some (rs_image trying),
                          t_last_response_status := Some 100\<rparr>) s, True))
      | _ \<Rightarrow> (s, False)))"

definition fire_trying :: "layer_env \<Rightarrow> server_txn_key \<Rightarrow> instant \<Rightarrow> owner \<Rightarrow> owner" where
  "fire_trying E k opened s =
     (if map_option t_created_at (servers s k) = Some opened then fst (send_first_trying E k s) else s)"

section \<open>The held answers to a CANCEL\<close>

definition holds_cancel_answers :: "layer_env \<Rightarrow> bool" where
  "holds_cancel_answers E \<longleftrightarrow> 0 < c_cancel_bound_ms (e_cfg E)"

definition hold_cancel_answers :: "layer_env \<Rightarrow> server_txn_key \<Rightarrow> string \<times> string \<times> nat
    \<Rightarrow> datagram option \<Rightarrow> datagram option \<Rightarrow> owner \<Rightarrow> owner" where
  "hold_cancel_answers E k h ok term s = (case servers s k of
      None \<Rightarrow> s
    | Some t \<Rightarrow>
        let s = upd_server k
              (\<lambda>t. t\<lparr>t_unsent_cancel := Some \<lparr>cancel_ok = ok, terminated = term, held_as = h\<rparr>\<rparr>) s;
            s = s\<lparr>held_cancels := (held_cancels s)(h \<mapsto> k)\<rparr>;
            at = from_now E (ms (c_cancel_bound_ms (e_cfg E)))
        in fst (insert_at E (CancelBound k (t_created_at t)) at s))"

definition holds_cancel :: "server_txn_key \<Rightarrow> owner \<Rightarrow> bool" where
  "holds_cancel k s \<longleftrightarrow> Option.bind (servers s k) t_unsent_cancel \<noteq> None"

definition send_opt :: "datagram option \<Rightarrow> owner \<Rightarrow> owner" where
  "send_opt d s = (case d of None \<Rightarrow> s | Some (buf, dest) \<Rightarrow> send_buffer buf dest s)"

definition send_held_cancel :: "layer_env \<Rightarrow> server_txn_key \<Rightarrow> owner \<Rightarrow> owner \<times> bool" where
  "send_held_cancel E k s = (case Option.bind (servers s k) t_unsent_cancel of
      None \<Rightarrow> (s, False)
    | Some u \<Rightarrow>
        let s = upd_server k (\<lambda>t. t\<lparr>t_unsent_cancel := None\<rparr>) s;
            s = s\<lparr>held_cancels := (held_cancels s)(held_as u := None)\<rparr>;
            s = send_opt (cancel_ok u) s;
            s = send_opt (terminated u) s
        in (if terminated u = None then s else arm_final_hold E k KInvite 487 s, True))"

definition fire_cancel_bound :: "layer_env \<Rightarrow> server_txn_key \<Rightarrow> instant \<Rightarrow> owner \<Rightarrow> owner" where
  "fire_cancel_bound E k opened s =
     (if map_option t_created_at (servers s k) = Some opened
      then case send_held_cancel E k s of
             (s, True) \<Rightarrow> told_bound E (Server k) s
           | (s, False) \<Rightarrow> s
      else s)"

definition waive_held_final :: "server_txn_key \<Rightarrow> owner \<Rightarrow> owner" where
  "waive_held_final k s =
     upd_server k (\<lambda>t. t\<lparr>t_unsent_cancel := map_option (\<lambda>u. u\<lparr>terminated := None\<rparr>) (t_unsent_cancel t)\<rparr>) s"

definition flush_owed_sends :: "owner \<Rightarrow> owner" where
  "flush_owed_sends s =
     fold (\<lambda>(buf, dest). send_buffer buf dest) (owed_sends s) (s\<lparr>owed_sends := []\<rparr>)"

definition release_held_cancel :: "layer_env \<Rightarrow> string \<times> string \<times> nat \<Rightarrow> owner \<Rightarrow> owner \<times> bool" where
  "release_held_cancel E h s = (case held_cancels s h of
      None \<Rightarrow> (s, False)
    | Some k \<Rightarrow> send_held_cancel E k s)"

section \<open>A CANCEL\<close>

definition uas_to_tag_of :: "layer_env \<Rightarrow> server_txn_key \<Rightarrow> owner \<Rightarrow> owner \<times> string option" where
  "uas_to_tag_of E k s = (case Option.bind (servers s k) bound_to_tag of
      Some tag \<Rightarrow> (s, Some tag)
    | None \<Rightarrow>
        let (s, pinned) = (case Option.bind (servers s k) request_to_tag of
              Some tag \<Rightarrow> (s, tag)
            | None \<Rightarrow> new_tag E s)
        in (upd_server k (\<lambda>t. t\<lparr>t_uas_to_tag := Some pinned\<rparr>) s, Some pinned))"

definition cancelled_invite :: "sip_request \<Rightarrow> (transaction \<Rightarrow> bool) \<Rightarrow> owner \<Rightarrow> server_txn_key option" where
  "cancelled_invite req pick s =
     (case Option.bind (cancelled_invite_id (rq_branch req) (rq_sent_by req)) (servers s) of
        None \<Rightarrow> None
      | Some t \<Rightarrow> if pick t then (case t_id t of Server k \<Rightarrow> Some k | Client _ \<Rightarrow> None) else None)"

definition cancel_scope :: "sip_request \<Rightarrow> transaction \<Rightarrow> bool" where
  "cancel_scope req t \<longleftrightarrow>
     t_kind t = KInvite \<and> t_call_id t = rq_call_id req \<and> t_from_tag t = or_empty (rq_from_tag req)"

definition send_image :: "sip_response option \<Rightarrow> addr \<Rightarrow> owner \<Rightarrow> owner" where
  "send_image r dest s = (case r of None \<Rightarrow> s | Some resp \<Rightarrow> send_buffer (rs_image resp) dest s)"

definition answer_answered_cancel :: "layer_env \<Rightarrow> server_txn_key \<Rightarrow> sip_request \<Rightarrow> addr \<Rightarrow> owner \<Rightarrow> owner" where
  "answer_answered_cancel E k req dest s =
     (let (s, to_tag) = uas_to_tag_of E k s
      in send_image (generate_response E req 200 to_tag None) dest s)"

text \<open>The 487 of the cancelled INVITE: sent, or kept to be held, and its transaction Completed.\<close>

definition terminate_invite :: "layer_env \<Rightarrow> server_txn_key \<Rightarrow> string option \<Rightarrow> addr \<Rightarrow> owner
    \<Rightarrow> owner \<times> datagram option" where
  "terminate_invite E k to_tag cancel_dest s =
     (let dest = (case Option.bind (servers s k) t_destination of Some d \<Rightarrow> d | None \<Rightarrow> cancel_dest)
      in case Option.bind (Option.bind (servers s k) t_original_request)
                (\<lambda>orig. generate_response E orig 487 to_tag None) of
           None \<Rightarrow> (s, None)
         | Some term \<Rightarrow>
             let hold = holds_cancel_answers E;
                 s = (if hold then s else send_buffer (rs_image term) dest s);
                 s = record_uas_tag E k term s;
                 s = upd_server k (\<lambda>t. t\<lparr>t_state := Completed, t_last_response := Some (rs_image term),
                       t_last_response_status := Some 487, t_original_request := None\<rparr>) s;
                 s = (if hold then s else arm_final_hold E k KInvite 487 s)
             in (s, if hold then Some (rs_image term, dest) else None))"

definition cancel_matched :: "layer_env \<Rightarrow> server_txn_key \<Rightarrow> sip_request \<Rightarrow> addr \<Rightarrow> owner \<Rightarrow> owner" where
  "cancel_matched E k req cancel_dest s =
     (let orig = Option.bind (servers s k) t_original_request;
          invite_cseq = map_option rq_cseq orig;
          in_dialog = (case orig of None \<Rightarrow> False | Some r \<Rightarrow> rq_to_tag r \<noteq> None);
          (s, to_tag) = uas_to_tag_of E k s;
          hold = holds_cancel_answers E;
          ok = map_option (\<lambda>r. (rs_image r, cancel_dest)) (generate_response E req 200 to_tag None);
          s = (if hold then s else send_opt ok s);
          (s, held_487) = terminate_invite E k to_tag cancel_dest s;
          s = (if hold
               then hold_cancel_answers E k
                      (rq_call_id req, or_empty (rq_from_tag req),
                       case invite_cseq of None \<Rightarrow> 0 | Some c \<Rightarrow> c) ok held_487 s
               else s)
      in emit_critical E
           (ECancelled (rq_call_id req) (or_empty (rq_from_tag req)) invite_cseq in_dialog (rq_headers req) to_tag) s)"

definition handle_cancel :: "layer_env \<Rightarrow> sip_request \<Rightarrow> addr \<Rightarrow> bytes option \<Rightarrow> owner \<Rightarrow> owner \<times> bool" where
  "handle_cancel E req src datagram s =
     (let cancel_dest = e_stamped_destination E req src
      in case cancelled_invite req (\<lambda>t. cancel_scope req t \<and> is_active (t_state t)) s of
           Some k \<Rightarrow> (cancel_matched E k req cancel_dest s, True)
         | None \<Rightarrow>
             if cancelled_invite req (\<lambda>t. t_unsent_cancel t \<noteq> None) s \<noteq> None then (s, True)
             else case cancelled_invite req (\<lambda>t. cancel_scope req t \<and> sent_final (t_state t)) s of
               Some k \<Rightarrow> (answer_answered_cancel E k req cancel_dest s, True)
             | None \<Rightarrow> (case datagram of
                 None \<Rightarrow> (s, False)
               | Some d \<Rightarrow> (fst (emit E (EMessage (Req req) src False d) s), False)))"

section \<open>An inbound request\<close>

definition stamp_request :: "layer_env \<Rightarrow> sip_request \<Rightarrow> addr \<Rightarrow> owner \<Rightarrow> owner \<times> sip_request" where
  "stamp_request E req src s =
     (if e_stamp E req src = Unwritten then bump ViaStampsUnwritten s else s, stamp_received E req src)"

definition upward :: "layer_env \<Rightarrow> sip_request \<Rightarrow> addr \<Rightarrow> bytes \<Rightarrow> owner \<Rightarrow> owner \<times> txn_event" where
  "upward E req src datagram s =
     (let (s, req) = stamp_request E req src s in (s, EMessage (Req req) src False datagram))"

definition hand_up :: "layer_env \<Rightarrow> sip_request \<Rightarrow> addr \<Rightarrow> bytes \<Rightarrow> owner \<Rightarrow> owner \<times> bool" where
  "hand_up E req src datagram s = (let (s, ev) = upward E req src datagram s in emit E ev s)"

definition replay_cached :: "layer_env \<Rightarrow> sip_request \<Rightarrow> addr \<Rightarrow> owner \<Rightarrow> owner \<times> bool" where
  "replay_cached E req src s = (case of_request req of
      None \<Rightarrow> (s, False)
    | Some k \<Rightarrow>
        if holds_cancel k s then (s, True)
        else case servers s k of
          None \<Rightarrow> (s, False)
        | Some t \<Rightarrow>
            let dest = (case t_destination t of Some d \<Rightarrow> d | None \<Rightarrow> e_stamped_destination E req src)
            in (case (t_last_response t, t_last_response_status t) of
                  (Some cached, Some status) \<Rightarrow>
                    (bump (Retransmits None (t_method t) (Some status)) (send_buffer cached dest s), True)
                | _ \<Rightarrow>
                    if t_kind t = KInvite \<and> t_state t = Proceeding
                    then
                      let (s, request) = stamp_request E req src s
                      in case generate_response E request 100 None None of
                           None \<Rightarrow> (s, True)
                         | Some trying \<Rightarrow>
                             let s = send_buffer (rs_image trying) dest s
                             in (upd_server k (\<lambda>t. t\<lparr>t_last_response := Some (rs_image trying),
                                   t_last_response_status := Some 100\<rparr>) s, True)
                    else (s, True)))"

definition pass_ack :: "layer_env \<Rightarrow> sip_request \<Rightarrow> addr \<Rightarrow> bytes \<Rightarrow> owner \<Rightarrow> owner" where
  "pass_ack E req src datagram s =
     (if rq_to_tag req = None then s
      else case acknowledges_refusal E req s of
        (s, True) \<Rightarrow> s
      | (s, False) \<Rightarrow>
          if e_acks_parse_refusal E req then s else fst (hand_up E req src datagram s))"

definition handle_ack :: "layer_env \<Rightarrow> server_txn_key \<Rightarrow> sip_request \<Rightarrow> addr \<Rightarrow> bytes \<Rightarrow> owner \<Rightarrow> owner" where
  "handle_ack E k req src datagram s = (case servers s k of
      Some t \<Rightarrow>
        if t_kind t \<noteq> KInvite then pass_ack E req src datagram s
        else (case (t_state t, t_last_response_status t) of
            (Confirmed, _) \<Rightarrow> s
          | (Completed, Some st) \<Rightarrow>
              if 300 \<le> st then hold_for_timer_i E k s else pass_ack E req src datagram s
          | (Accepted, _) \<Rightarrow> fst (hand_up E req src datagram (detach_from_call (Server k) s))
          | _ \<Rightarrow> pass_ack E req src datagram s)
    | None \<Rightarrow> pass_ack E req src datagram s)"

definition server_head :: "server_txn_key \<Rightarrow> sip_request \<Rightarrow> addr \<Rightarrow> new_transaction" where
  "server_head k req dest =
     (let kind = (if rq_method req = MInvite then KInvite else KNonInvite)
      in \<lparr>t_id = Server k, t_kind = kind, t_method = rq_method req, t_cseq = rq_cseq req,
          t_call_id = rq_call_id req, t_from_tag = or_empty (rq_from_tag req),
          t_original_request = (if kind = KInvite then Some req else None),
          t_call_ref = extract_ruri_call_ref req, t_leg_id = None, t_incarnation_mark = None,
          t_state = Trying, t_destination = Some dest\<rparr>)"

definition open_server :: "layer_env \<Rightarrow> server_txn_key \<Rightarrow> sip_request \<Rightarrow> addr \<Rightarrow> bytes \<Rightarrow> addr \<Rightarrow> bool
    \<Rightarrow> owner \<Rightarrow> owner" where
  "open_server E k req src datagram dest held s =
     (let s = open_txn_with E (server_head k req dest) (\<lambda>t. t\<lparr>t_held := held\<rparr>) s;
          ev = EMessage (Req req) src False datagram
      in if rq_method req = MInvite
         then
           let s = (case servers s k of None \<Rightarrow> s | Some t \<Rightarrow> arm_trying_bound E k (t_created_at t) s)
           in emit_critical E ev s
         else case emit E ev s of
                (s, True) \<Rightarrow> s
              | (s, False) \<Rightarrow> fst (delete_txn E (Server k) s))"

definition admit_request :: "layer_env \<Rightarrow> sip_request \<Rightarrow> addr \<Rightarrow> bytes \<Rightarrow> owner \<Rightarrow> owner" where
  "admit_request E req src datagram s =
     (let dest = e_stamped_destination E req src;
          (s, req) = stamp_request E req src s
      in case of_request req of
           None \<Rightarrow> s
         | Some k \<Rightarrow>
             if rq_method req = MInvite
             then case judge_new_invite E req dest s of
                    (s, NIRefused) \<Rightarrow> s
                  | (s, NIAdmitted held) \<Rightarrow> open_server E k req src datagram dest held s
             else open_server E k req src datagram dest False s)"

definition handle_inbound_request :: "layer_env \<Rightarrow> sip_request \<Rightarrow> addr \<Rightarrow> owner \<Rightarrow> owner" where
  "handle_inbound_request E req src s =
     (let datagram = rq_image req
      in case of_request req of
           None \<Rightarrow> fst (hand_up E req src datagram s)
         | Some k \<Rightarrow>
             if rq_method req = MAck then handle_ack E k req src datagram s
             else if rq_method req = MCancel
             then let (s, cancel) = stamp_request E req src s
                  in fst (handle_cancel E cancel src (Some datagram) s)
             else case replay_cached E req src s of
               (s, True) \<Rightarrow> s
             | (s, False) \<Rightarrow>
                 if c_stateless_options (e_cfg E) \<and> rq_method req = MOptions \<and> rq_to_tag req = None
                 then let (s, ev) = upward E req src datagram s in fst (emit_keepalive E ev s)
                 else admit_request E req src datagram s)"

section \<open>Requests discarded unanswered\<close>

definition forget_unanswered :: "layer_env \<Rightarrow> server_txn_key \<Rightarrow> string \<Rightarrow> string \<Rightarrow> owner \<Rightarrow> owner" where
  "forget_unanswered E k call_id from_tag s =
     (let unanswered = (case servers s k of
            None \<Rightarrow> False
          | Some t \<Rightarrow> t_kind t = KNonInvite \<and> t_state t = Trying \<and> t_call_id t = call_id \<and> t_from_tag t = from_tag)
      in if unanswered
         then case delete_txn E (Server k) s of
                (s, True) \<Rightarrow> bump UnansweredForgotten s
              | (s, False) \<Rightarrow> s
         else s)"

text \<open>Deleting each of a list of transactions, counting those that were there.\<close>

fun delete_all :: "layer_env \<Rightarrow> txn_id list \<Rightarrow> owner \<Rightarrow> owner \<times> nat" where
  "delete_all E [] s = (s, 0)"
| "delete_all E (i # is) s =
     (let (s, gone) = delete_txn E i s; (s, n) = delete_all E is s in (s, n + of_bool gone))"

definition add_count :: "counter \<Rightarrow> nat \<Rightarrow> owner \<Rightarrow> owner" where
  "add_count c n s = s\<lparr>counters := (counters s)(c := counters s c + n)\<rparr>"

definition servers_of_call :: "layer_env \<Rightarrow> string \<Rightarrow> owner \<Rightarrow> server_txn_key list" where
  "servers_of_call E cr s =
     (case txn_index s cr of None \<Rightarrow> [] | Some c \<Rightarrow> e_iter_servers E (ct_server c))"

definition clients_of_call :: "layer_env \<Rightarrow> string \<Rightarrow> owner \<Rightarrow> string list" where
  "clients_of_call E cr s =
     (case txn_index s cr of
        None \<Rightarrow> []
      | Some c \<Rightarrow> e_iter_branches E (ct_client c) @ e_iter_branches E (ct_accepted c))"

definition open_non_invite :: "transaction option \<Rightarrow> bool" where
  "open_non_invite x = (case x of None \<Rightarrow> False | Some t \<Rightarrow> t_kind t = KNonInvite \<and> is_active (t_state t))"

definition forget_unanswered_of_call :: "layer_env \<Rightarrow> string \<Rightarrow> owner \<Rightarrow> owner \<times> nat" where
  "forget_unanswered_of_call E cr s =
     (let unanswered = filter (\<lambda>k. open_non_invite (servers s k)) (servers_of_call E cr s);
          (s, forgotten) = delete_all E (map Server unanswered) s
      in (add_count ReleasedUnansweredForgotten forgotten s, forgotten))"

definition open_in_dialog_invite :: "owner \<Rightarrow> server_txn_key
    \<Rightarrow> (server_txn_key \<times> sip_request \<times> addr option) option" where
  "open_in_dialog_invite s k = (case servers s k of
      None \<Rightarrow> None
    | Some t \<Rightarrow> (case t_original_request t of
        None \<Rightarrow> None
      | Some r \<Rightarrow>
          if t_kind t = KInvite \<and> is_active (t_state t) \<and> rq_to_tag r \<noteq> None
          then Some (k, r, t_destination t) else None))"

fun answer_each :: "layer_env \<Rightarrow> nat \<Rightarrow> (server_txn_key \<times> sip_request \<times> addr option) list \<Rightarrow> owner
    \<Rightarrow> owner \<times> nat" where
  "answer_each E status [] s = (s, 0)"
| "answer_each E status ((k, req, source) # rest) s =
     (case or_else source (e_request_target E req) of
        None \<Rightarrow> answer_each E status rest s
      | Some dest \<Rightarrow>
          let (s, to_tag) = uas_to_tag_of E k s
          in case generate_response E req status to_tag None of
               None \<Rightarrow> answer_each E status rest s
             | Some resp \<Rightarrow>
                 let s = fst (do_send_response E resp dest s);
                     (s, n) = answer_each E status rest s
                 in (s, n + 1))"

definition answer_unanswered_invites_of_call :: "layer_env \<Rightarrow> string \<Rightarrow> nat \<Rightarrow> owner \<Rightarrow> owner \<times> nat" where
  "answer_unanswered_invites_of_call E cr status s =
     (let unanswered = List.map_filter (open_in_dialog_invite s) (servers_of_call E cr s);
          (s, answered) = answer_each E status unanswered s
      in (add_count ReleasedUnansweredInvitesAnswered answered s, answered))"

section \<open>Relinquishing a call\<close>

definition relinquish_call :: "layer_env \<Rightarrow> string \<Rightarrow> owner \<Rightarrow> owner \<times> nat" where
  "relinquish_call E cr s =
     (let s = s\<lparr>self_release_watch := self_release_watch s - {cr}\<rparr>;
          cs = clients_of_call E cr s;
          ks = servers_of_call E cr s;
          s = fold (\<lambda>b s. fst (send_held_ack b s)) cs s;
          s = fold waive_held_final ks s;
          (s, n) = delete_all E (map Client cs) s;
          (s, m) = delete_all E (map Server ks) s
      in (s, n + m))"

definition relinquish_accepted_of_call :: "layer_env \<Rightarrow> string \<Rightarrow> owner \<Rightarrow> owner \<times> nat" where
  "relinquish_accepted_of_call E cr s =
     (let accepted = (case txn_index s cr of None \<Rightarrow> [] | Some c \<Rightarrow> e_iter_branches E (ct_accepted c))
      in delete_all E (map Client accepted) s)"

definition relinquish_server :: "layer_env \<Rightarrow> server_txn_key \<Rightarrow> owner \<Rightarrow> owner \<times> bool" where
  "relinquish_server E k s = delete_txn E (Server k) (waive_held_final k s)"

definition relinquish_client :: "layer_env \<Rightarrow> string \<Rightarrow> owner \<Rightarrow> owner \<times> bool" where
  "relinquish_client E branch s = delete_txn E (Client branch) (fst (send_held_ack branch s))"

end
