(* ===== verification/Txn_Layer.thy ===== *)
theory Txn_Layer
  imports Txn_Server
begin

text \<open>
  Seeding the transactions of a call taken over from another node
  (\<open>src/crates/sip-txn/src/layer/seed.rs\<close>, \<open>seed/non_invite.rs\<close>), the commands of the layer's
  handle (\<open>handle.rs\<close>, \<open>commands.rs\<close>), the timers' dispatch and the owner's loop (\<open>owner.rs\<close>,
  \<open>ingress.rs\<close>, \<open>run.rs\<close>), as a function of one turn's work and as a step relation.
\<close>

section \<open>Seeds\<close>

definition hold_seeded_identity :: "layer_env \<Rightarrow> server_txn_key \<Rightarrow> owner \<Rightarrow> owner" where
  "hold_seeded_identity E k s = (case (refusals s, servers s k) of
      (Some r, Some t) \<Rightarrow>
        let s = upd_server k (\<lambda>t. t\<lparr>t_held := True\<rparr>) s
        in s\<lparr>refusals := Some (hold_identity (e_ident E (sk_branch k) (t_call_id t) (t_from_tag t)) r)\<rparr>
    | _ \<Rightarrow> s)"

definition seed_head :: "txn_id \<Rightarrow> txn_kind \<Rightarrow> sip_request \<Rightarrow> string \<Rightarrow> string option \<Rightarrow> txn_state
    \<Rightarrow> addr option \<Rightarrow> new_transaction" where
  "seed_head i kind req call_ref leg_id st dest =
     \<lparr>t_id = i, t_kind = kind, t_method = rq_method req, t_cseq = rq_cseq req,
      t_call_id = rq_call_id req, t_from_tag = or_empty (rq_from_tag req),
      t_original_request = (if kind = KInvite then Some req else None), t_call_ref = Some call_ref,
      t_leg_id = leg_id, t_incarnation_mark = None, t_state = st, t_destination = dest\<rparr>"

definition answered_head :: "server_txn_key \<Rightarrow> txn_kind \<Rightarrow> meth \<Rightarrow> sip_response \<Rightarrow> string \<Rightarrow> string option
    \<Rightarrow> txn_state \<Rightarrow> addr option \<Rightarrow> new_transaction" where
  "answered_head k kind m resp call_ref leg_id st dest =
     \<lparr>t_id = Server k, t_kind = kind, t_method = m, t_cseq = rs_cseq resp,
      t_call_id = rs_call_id resp, t_from_tag = or_empty (rs_from_tag resp),
      t_original_request = None, t_call_ref = Some call_ref, t_leg_id = leg_id,
      t_incarnation_mark = None, t_state = st, t_destination = dest\<rparr>"

definition seed_server_invite :: "layer_env \<Rightarrow> string \<Rightarrow> sip_request \<Rightarrow> string option
    \<Rightarrow> sip_response option \<Rightarrow> string option \<Rightarrow> owner \<Rightarrow> owner \<times> bool" where
  "seed_server_invite E call_ref request to_tag provisional leg_id s = (case of_request request of
      None \<Rightarrow> (s, False)
    | Some k \<Rightarrow>
        if servers s k \<noteq> None then (s, False)
        else
          let dest = e_request_target E request;
              head = (seed_head (Server k) KInvite request call_ref leg_id Proceeding dest)
                       \<lparr>t_method := MInvite\<rparr>;
              s = open_txn_with E head
                    (\<lambda>t. t\<lparr>t_uas_to_tag := (if to_tag = Some [] then None else to_tag), t_seeded := True\<rparr>) s;
              s = hold_seeded_identity E k s
          in (case provisional of
                None \<Rightarrow> s
              | Some p \<Rightarrow>
                  let s = upd_server k (\<lambda>t. t\<lparr>t_last_response := Some (rs_image p),
                            t_last_response_status := Some (rs_status p)\<rparr>) s
                  in (case dest of None \<Rightarrow> s | Some d \<Rightarrow> send_buffer (rs_image p) d s), True))"

text \<open>The final \<open>resp\<close> recorded on the transaction \<open>k\<close> names.\<close>

definition note_seeded_final :: "server_txn_key \<Rightarrow> txn_state \<Rightarrow> sip_response \<Rightarrow> owner \<Rightarrow> owner" where
  "note_seeded_final k st resp s =
     upd_server k (\<lambda>t. t\<lparr>t_state := st, t_last_response := Some (rs_image resp),
       t_last_response_status := Some (rs_status resp), t_original_request := None\<rparr>) s"

definition accept_server :: "layer_env \<Rightarrow> server_txn_key \<Rightarrow> sip_response \<Rightarrow> owner \<Rightarrow> owner" where
  "accept_server E k resp s =
     hold_txn E (Server k) HTimerL (note_seeded_final k Accepted resp (record_uas_tag E k resp s))"

definition seed_accepted :: "layer_env \<Rightarrow> string \<Rightarrow> sip_response \<Rightarrow> string option \<Rightarrow> owner \<Rightarrow> owner \<times> bool" where
  "seed_accepted E call_ref resp leg_id s = (case of_response resp of
      None \<Rightarrow> (s, False)
    | Some k \<Rightarrow> (case servers s k of
        Some occupant \<Rightarrow>
          if \<not> is_active (t_state occupant) then (s, False)
          else
            let dest = (if t_seeded occupant then None else t_destination occupant);
                s = accept_server E k resp s
            in (case dest of None \<Rightarrow> s | Some d \<Rightarrow> send_buffer (rs_image resp) d s, True)
      | None \<Rightarrow>
          let s = open_txn E (answered_head k KInvite MInvite resp call_ref leg_id Accepted (e_response_target E resp)) s;
              s = hold_seeded_identity E k s
          in (accept_server E k resp s, True)))"

definition seed_rejected :: "layer_env \<Rightarrow> string \<Rightarrow> sip_response \<Rightarrow> addr \<Rightarrow> string option \<Rightarrow> nat option
    \<Rightarrow> owner \<Rightarrow> owner \<times> bool" where
  "seed_rejected E call_ref resp dest leg_id bound_ms s = (case of_response resp of
      None \<Rightarrow> (s, False)
    | Some k \<Rightarrow>
        let taken = (case servers s k of None \<Rightarrow> False | Some t \<Rightarrow> \<not> is_active (t_state t))
        in if taken then (s, False)
           else
             let occupant = map_option (\<lambda>t. case t_destination t of Some d \<Rightarrow> d | None \<Rightarrow> dest) (servers s k);
                 s = (if occupant \<noteq> None then s
                      else
                        let d = (case e_response_target E resp of Some d \<Rightarrow> d | None \<Rightarrow> dest)
                        in hold_seeded_identity E k
                             (open_txn E (answered_head k KInvite MInvite resp call_ref leg_id Completed (Some d)) s));
                 s = record_uas_tag E k resp s;
                 s = note_seeded_final k Completed resp s;
                 s = (case occupant of
                        None \<Rightarrow> s
                      | Some source \<Rightarrow> upd_server k (\<lambda>t. t\<lparr>t_destination := Some source\<rparr>) s);
                 s = arm_final_hold E k KInvite (rs_status resp) s;
                 s = (case bound_ms of
                        None \<Rightarrow> s
                      | Some left \<Rightarrow> hold_txn_for E (Server k) HTimerH (ms left) s)
             in (case occupant of None \<Rightarrow> s | Some source \<Rightarrow> send_buffer (rs_image resp) source s, True))"

definition seed_held_cancel :: "layer_env \<Rightarrow> string \<Rightarrow> sip_request \<Rightarrow> addr \<Rightarrow> owner \<Rightarrow> owner" where
  "seed_held_cancel E branch cancel dest s = (case clients s branch of
      None \<Rightarrow> s
    | Some _ \<Rightarrow>
        let s = upd_client branch
              (\<lambda>t. t\<lparr>t_held_cancel := Some (held_cancel_new (e_render E cancel) dest WHeld)\<rparr>) s;
            s = bump CancelsHeld s
        in release_seed_resend E branch s)"

text \<open>The head of a client seed: attributed from its Via, the call's \<open>call_ref\<close> where it names none.\<close>

definition client_seed_head :: "txn_kind \<Rightarrow> string \<Rightarrow> sip_request \<Rightarrow> string \<Rightarrow> txn_state \<Rightarrow> addr \<Rightarrow> new_transaction" where
  "client_seed_head kind branch req call_ref st dest =
     (seed_head (Client branch) kind req call_ref (vm_leg_id (extract_via_custom_params req)) st (Some dest))
       \<lparr>t_call_ref := or_else (vm_call_ref (extract_via_custom_params req)) (Some call_ref),
        t_incarnation_mark := vm_incarnation_mark (extract_via_custom_params req)\<rparr>"

definition seed_branch :: "sip_request \<Rightarrow> owner \<Rightarrow> string option" where
  "seed_branch req s = (case rq_branch req of
      None \<Rightarrow> None
    | Some b \<Rightarrow> if b = [] \<or> clients s b \<noteq> None then None else Some b)"

definition seed_client_invite :: "layer_env \<Rightarrow> string \<Rightarrow> sip_request \<Rightarrow> addr \<Rightarrow> bool \<Rightarrow> sip_request option
    \<Rightarrow> owner \<Rightarrow> owner \<times> bool" where
  "seed_client_invite E call_ref invite dest provisional cancel s = (case seed_branch invite s of
      None \<Rightarrow> (s, False)
    | Some branch \<Rightarrow>
        let (s, bound) = arm E (ClientTimeout branch) (ms (c_invite_initial_timeout_ms (e_cfg E))) s;
            resend = (if provisional then None else Some (e_render E invite));
            head = (client_seed_head KInvite branch invite call_ref
                     (if provisional then Proceeding else Trying) dest)\<lparr>t_method := MInvite\<rparr>;
            s = open_txn_with E head (\<lambda>t. t\<lparr>t_timeout_kind := TKTransaction, t_timeout_key := Some bound,
                  t_seed_resend := resend\<rparr>) s;
            s = (case cancel of None \<Rightarrow> s | Some c \<Rightarrow> seed_held_cancel E branch c dest s)
        in (release_seed_resend E branch s, True))"

definition seed_client_rejected :: "layer_env \<Rightarrow> string \<Rightarrow> sip_request \<Rightarrow> addr \<Rightarrow> nat \<Rightarrow> owner \<Rightarrow> owner \<times> bool" where
  "seed_client_rejected E call_ref invite dest bound_ms s = (case seed_branch invite s of
      None \<Rightarrow> (s, False)
    | Some branch \<Rightarrow>
        let head = (client_seed_head KInvite branch invite call_ref Completed dest)\<lparr>t_method := MInvite\<rparr>;
            s = open_txn E head s
        in (hold_txn_for E (Client branch) HTimerD (ms bound_ms) s, True))"

definition seed_client_non_invite :: "layer_env \<Rightarrow> string \<Rightarrow> sip_request \<Rightarrow> addr \<Rightarrow> nat \<Rightarrow> owner \<Rightarrow> owner \<times> bool" where
  "seed_client_non_invite E call_ref request dest bound_ms s = (case seed_branch request s of
      None \<Rightarrow> (s, False)
    | Some branch \<Rightarrow>
        let buf = rq_image request;
            (timer_f, timeout_kind) = client_timeout E KNonInvite request;
            max_ms = min bound_ms timer_f;
            s = open_txn E (client_seed_head KNonInvite branch request call_ref Trying dest) s;
            s = start_client_retransmit E branch buf dest max_ms timeout_kind s
        in (send_buffer buf dest s, True))"

definition seed_server_non_invite :: "layer_env \<Rightarrow> string \<Rightarrow> sip_request \<Rightarrow> string option \<Rightarrow> owner \<Rightarrow> owner \<times> bool" where
  "seed_server_non_invite E call_ref request leg_id s = (case of_request request of
      None \<Rightarrow> (s, False)
    | Some k \<Rightarrow>
        if servers s k \<noteq> None then (s, False)
        else (open_txn E (seed_head (Server k) KNonInvite request call_ref leg_id Trying
                (e_request_target E request)) s, True))"

definition seed_answered_non_invite :: "layer_env \<Rightarrow> string \<Rightarrow> sip_response \<Rightarrow> addr \<Rightarrow> nat \<Rightarrow> string option
    \<Rightarrow> owner \<Rightarrow> owner \<times> bool" where
  "seed_answered_non_invite E call_ref resp dest bound_ms leg_id s =
     (if rs_cseq_method resp \<in> {MInvite, MAck, MCancel} then (s, False)
      else case of_response resp of
        None \<Rightarrow> (s, False)
      | Some k \<Rightarrow>
          let taken = (case servers s k of None \<Rightarrow> False | Some t \<Rightarrow> \<not> is_active (t_state t))
          in if taken then (s, False)
             else
               let target = (case e_response_target E resp of Some d \<Rightarrow> d | None \<Rightarrow> dest);
                   to = (case servers s k of
                           Some t \<Rightarrow> (case t_destination t of Some d \<Rightarrow> d | None \<Rightarrow> dest)
                         | None \<Rightarrow> target);
                   s = (if servers s k \<noteq> None then s
                        else hold_seeded_identity E k
                          (open_txn E (answered_head k KNonInvite (rs_cseq_method resp) resp call_ref leg_id
                             Completed (Some target)) s));
                   s = note_seeded_final k Completed resp s;
                   s = hold_txn_for E (Server k) HTimerJ (ms bound_ms) s
               in (send_buffer (rs_image resp) to s, True))"

fun seed_one :: "layer_env \<Rightarrow> string \<Rightarrow> txn_seed \<Rightarrow> owner \<Rightarrow> owner \<times> bool" where
  "seed_one E cr (SClientInvite invite dest provisional cancel ack_ahead) s =
     (let (s, went_in) = seed_client_invite E cr invite dest provisional cancel s
      in (case ack_ahead of
            None \<Rightarrow> s
          | Some (ack, to) \<Rightarrow> if went_in \<and> \<not> provisional then send_buffer ack to s else s, went_in))"
| "seed_one E cr (SClientRejected invite dest bound_ms) s = seed_client_rejected E cr invite dest bound_ms s"
| "seed_one E cr (SServerInvite request to_tag provisional leg_id) s =
     seed_server_invite E cr request to_tag provisional leg_id s"
| "seed_one E cr (SServerAccepted resp leg_id) s = seed_accepted E cr resp leg_id s"
| "seed_one E cr (SServerRejected resp dest leg_id bound_ms) s = seed_rejected E cr resp dest leg_id bound_ms s"
| "seed_one E cr (SClientNonInvite request dest bound_ms) s = seed_client_non_invite E cr request dest bound_ms s"
| "seed_one E cr (SServerNonInvite request leg_id) s = seed_server_non_invite E cr request leg_id s"
| "seed_one E cr (SServerNonInviteAnswered resp dest bound_ms leg_id) s =
     seed_answered_non_invite E cr resp dest bound_ms leg_id s"

fun seed_all :: "layer_env \<Rightarrow> string \<Rightarrow> txn_seed list \<Rightarrow> owner \<Rightarrow> owner \<times> nat" where
  "seed_all E cr [] s = (s, 0)"
| "seed_all E cr (x # xs) s =
     (let (s, went_in) = seed_one E cr x s;
          s = (if went_in then s else bump TxnSeedSkipped s);
          (s, n) = seed_all E cr xs s
      in (s, n + of_bool went_in))"

definition do_seed :: "layer_env \<Rightarrow> string \<Rightarrow> txn_seed list \<Rightarrow> owner \<Rightarrow> owner \<times> nat" where
  "do_seed E cr seeds s =
     (let (s, seeded) = seed_all E cr seeds s in (add_count TxnSeeded seeded s, seeded))"

definition do_reoffer :: "layer_env \<Rightarrow> sip_message \<Rightarrow> addr \<Rightarrow> owner \<Rightarrow> owner \<times> reoffer" where
  "do_reoffer E msg src s =
     (let (s, matched) = (case msg of
            Resp resp \<Rightarrow> inbound_response E resp src True s
          | Req req \<Rightarrow>
              if rq_method req = MCancel then handle_cancel E req src None s
              else (s, case of_request req of None \<Rightarrow> False | Some k \<Rightarrow> servers s k \<noteq> None))
      in (s, if matched then Matched else Unmatched))"

section \<open>Commands\<close>

datatype command =
    CSendRequest sip_request addr txn_kind
  | CSendResponse sip_response addr
  | CSendRaw bytes addr
  | CSeed string "txn_seed list"
  | CReoffer sip_message addr
  | CCancelTxnsForCall string
  | CRelinquishCall string
  | CRelinquishServer server_txn_key
  | CRelinquishClient string
  | CRelinquishAccepted string
  | CForgetUnansweredOfCall string
  | CAnswerUnansweredInvitesOfCall string nat
  | CActiveTxnCount string
  | CHoldsClient string
  | CReleaseCancel string string nat
  | CReleaseAck string
  | CReleaseTrying server_txn_key
  | CWatchSelfRelease string

datatype reply =
    RHandle client_txn_handle | RBytes bytes | RUnit | RCount nat | RReoffer reoffer | RBool bool

fun handle_command :: "layer_env \<Rightarrow> command \<Rightarrow> owner \<Rightarrow> owner \<times> reply" where
  "handle_command E (CSendRequest msg dest kind) s =
     (let (s, h) = do_send_request E msg dest kind s in (s, RHandle h))"
| "handle_command E (CSendResponse msg dest) s =
     (let (s, b) = do_send_response E msg dest s in (s, RBytes b))"
| "handle_command E (CSendRaw buf dest) s = (send_buffer buf dest s, RUnit)"
| "handle_command E (CSeed cr seeds) s = (let (s, n) = do_seed E cr seeds s in (s, RCount n))"
| "handle_command E (CReoffer msg src) s = (let (s, r) = do_reoffer E msg src s in (s, RReoffer r))"
| "handle_command E (CCancelTxnsForCall cr) s = (do_cancel_txns_for_call E cr s, RUnit)"
| "handle_command E (CRelinquishCall cr) s = (let (s, n) = relinquish_call E cr s in (s, RCount n))"
| "handle_command E (CRelinquishServer k) s = (let (s, b) = relinquish_server E k s in (s, RBool b))"
| "handle_command E (CRelinquishClient b) s = (let (s, r) = relinquish_client E b s in (s, RBool r))"
| "handle_command E (CRelinquishAccepted cr) s =
     (let (s, n) = relinquish_accepted_of_call E cr s in (s, RCount n))"
| "handle_command E (CForgetUnansweredOfCall cr) s =
     (let (s, n) = forget_unanswered_of_call E cr s in (s, RCount n))"
| "handle_command E (CAnswerUnansweredInvitesOfCall cr status) s =
     (let (s, n) = answer_unanswered_invites_of_call E cr status s in (s, RCount n))"
| "handle_command E (CActiveTxnCount cr) s =
     (s, RCount (case txn_index s cr of None \<Rightarrow> 0 | Some c \<Rightarrow> on_books c))"
| "handle_command E (CHoldsClient b) s = (s, RBool (clients s b \<noteq> None))"
| "handle_command E (CReleaseCancel call_id from_tag cseq) s =
     (let (s, b) = release_held_cancel E (call_id, from_tag, cseq) s in (s, RBool b))"
| "handle_command E (CReleaseAck b) s = (let (s, r) = send_held_ack b s in (s, RBool r))"
| "handle_command E (CReleaseTrying k) s = (let (s, r) = send_first_trying E k s in (s, RBool r))"
| "handle_command E (CWatchSelfRelease cr) s =
     (if has_txns_for cr s then s\<lparr>self_release_watch := insert cr (self_release_watch s)\<rparr>
      else notify_quiesced E cr s, RUnit)"

section \<open>The loop\<close>

fun fire_timer :: "layer_env \<Rightarrow> timer \<Rightarrow> owner \<Rightarrow> owner" where
  "fire_timer E (ClientRetransmit b) s =
     fire_retransmit E b (upd_client b (\<lambda>t. t\<lparr>t_retransmit_key := None\<rparr>) s)"
| "fire_timer E (ServerRetransmit k) s =
     fire_server_retransmit E k (upd_server k (\<lambda>t. t\<lparr>t_retransmit_key := None\<rparr>) s)"
| "fire_timer E (ClientTimeout b) s =
     fire_timeout E b (upd_client b (\<lambda>t. t\<lparr>t_timeout_key := None\<rparr>) s)"
| "fire_timer E (FirstResponse b) s = fire_first_response E b s"
| "fire_timer E (TryingBound k opened) s = fire_trying E k opened s"
| "fire_timer E (AckBound b opened) s = fire_ack_bound E b opened s"
| "fire_timer E (CancelBound k opened) s = fire_cancel_bound E k opened s"
| "fire_timer E (Cleanup i) s = expire E i (txn_mut i (\<lambda>t. t\<lparr>t_cleanup_key := None\<rparr>) s)"
| "fire_timer E (CancelRetransmit b) s =
     fire_cancel_retransmit E b (upd_client b (\<lambda>t. t\<lparr>t_cancel_retransmit_key := None\<rparr>) s)"
| "fire_timer E EventRetry s = flush_deferred E (s\<lparr>event_retry_armed := False\<rparr>)"

definition refuse_unparsed :: "layer_env \<Rightarrow> bytes \<Rightarrow> addr \<Rightarrow> owner \<Rightarrow> owner" where
  "refuse_unparsed E raw src s = (case e_refuse_unparsed E raw src of
      PRAnswer resp \<Rightarrow>
        let dest = (case e_response_target E resp of Some d \<Rightarrow> d | None \<Rightarrow> src)
        in bump ParseRefusalsAnswered (send_buffer (rs_image resp) dest s)
    | PRCapped \<Rightarrow> bump ParseRefusalsCapped s
    | PRDropped \<Rightarrow> bump ParseErrors s)"

definition handle_packet :: "layer_env \<Rightarrow> bytes \<Rightarrow> addr \<Rightarrow> owner \<Rightarrow> owner" where
  "handle_packet E raw src s = (case e_parse E raw of
      ParseError \<Rightarrow> refuse_unparsed E raw src s
    | ParserPanicked \<Rightarrow> bump ParsePanics s
    | Parsed (Req req) \<Rightarrow> handle_inbound_request E req src s
    | Parsed (Resp resp) \<Rightarrow> handle_inbound_response E resp src s)"

datatype work =
    WForget server_txn_key string string
  | WCommand command
  | WTimer timer
  | WSweep
  | WPacket bytes addr

fun do_work :: "layer_env \<Rightarrow> work \<Rightarrow> owner \<Rightarrow> owner" where
  "do_work E (WForget k call_id from_tag) s = forget_unanswered E k call_id from_tag s"
| "do_work E (WCommand c) s = fst (handle_command E c s)"
| "do_work E (WTimer tm) s = fire_timer E tm s"
| "do_work E WSweep s = sweep_owner E s"
| "do_work E (WPacket raw src) s = handle_packet E raw src s"

definition end_turn :: "layer_env \<Rightarrow> owner \<Rightarrow> owner" where
  "end_turn E s =
     (let s = flush_pending_quiesce E (flush_owed_sends s)
      in s\<lparr>counters := (counters s)(TimerQueueLen := card (dom (timers s)),
            EventQueueDeferred := length (deferred_events s))\<rparr>)"

definition turn :: "layer_env \<Rightarrow> work \<Rightarrow> owner \<Rightarrow> owner" where
  "turn E w s = end_turn E (do_work E w s)"

text \<open>The timer wheel expires an entry within one millisecond tick of its due instant.\<close>

definition WHEEL_TICK :: duration where
  "WHEEL_TICK = 1000000"

text \<open>One turn of the loop at the clock reading of \<open>E\<close>: the \<open>select!\<close> takes a posted forget, a
  command, an expired timer (which leaves the wheel), the sweep, or a packet; it is biased, so the
  sweep is only taken while no timer is expired.\<close>

inductive owner_step :: "layer_env \<Rightarrow> owner \<Rightarrow> owner \<Rightarrow> bool" for E where
  step_forget: "owner_step E s (turn E (WForget k call_id from_tag) s)"
| step_command: "owner_step E s (turn E (WCommand c) s)"
| step_timer: "timers s k = Some (tm, due) \<Longrightarrow> due \<le> e_now E \<Longrightarrow>
    owner_step E s (turn E (WTimer tm) (s\<lparr>timers := (timers s)(k := None)\<rparr>))"
| step_sweep: "(\<And>k tm due. timers s k = Some (tm, due) \<Longrightarrow> e_now E < due + WHEEL_TICK) \<Longrightarrow>
    owner_step E s (turn E WSweep s)"
| step_packet: "owner_step E s (turn E (WPacket raw src) s)"

text \<open>What the proofs ask of a turn's environment: the wheel gives a key it does not hold, a set's
  iteration visits each element once, and the clock is representable.\<close>

definition env_ok :: "layer_env \<Rightarrow> bool" where
  "env_ok E \<longleftrightarrow>
     (\<forall>w. finite (dom w) \<longrightarrow> e_fresh_key E w \<notin> dom w) \<and>
     (\<forall>B. finite B \<longrightarrow> set (e_iter_branches E B) = B \<and> distinct (e_iter_branches E B)) \<and>
     (\<forall>K. finite K \<longrightarrow> set (e_iter_servers E K) = K \<and> distinct (e_iter_servers E K)) \<and>
     e_now E \<le> e_clock_limit E"

text \<open>The states of an owner under one configuration, with the clock reading of its last turn. The
  shared refusals may change between turns: other parties of the node judge INVITEs too.\<close>

inductive owner_reach :: "layer_config \<Rightarrow> instant \<Rightarrow> owner \<Rightarrow> instant \<Rightarrow> bool" for cfg lim where
  reach_init: "owner_reach cfg lim (owner_new r) t"
| reach_step: "owner_reach cfg lim s t \<Longrightarrow> env_ok E \<Longrightarrow> e_cfg E = cfg \<Longrightarrow> e_clock_limit E = lim \<Longrightarrow>
    t \<le> e_now E \<Longrightarrow> owner_step E s s' \<Longrightarrow> owner_reach cfg lim s' (e_now E)"
| reach_refusals: "owner_reach cfg lim s t \<Longrightarrow> owner_reach cfg lim (s\<lparr>refusals := Some r\<rparr>) t"

end
