(* ===== verification/Txn_Lockstep.thy ===== *)
theory Txn_Lockstep
  imports Txn_Layer
begin

text \<open>
  The timer wheel and the transactions in lockstep. A transaction keeps the wheel key of each timer
  armed for it; the invariant of this theory says that every key it keeps names that timer in the
  wheel, that no other entry of the wheel is a transaction's timer, and that every resident
  transaction has exactly one clean-up entry, due at its lifetime's deadline. It is stated over the
  view of an owner that concerns timers (the keys kept, the wheel, the deadlines), and proved
  preserved by the primitive operations here and by every handler in the next theory.
\<close>

section \<open>The view\<close>

fun slot :: "owner \<Rightarrow> timer \<Rightarrow> nat option" where
  "slot s (ClientRetransmit b) = Option.bind (clients s b) t_retransmit_key"
| "slot s (ServerRetransmit k) = Option.bind (servers s k) t_retransmit_key"
| "slot s (ClientTimeout b) = Option.bind (clients s b) t_timeout_key"
| "slot s (Cleanup i) = Option.bind (txn s i) t_cleanup_key"
| "slot s (CancelRetransmit b) = Option.bind (clients s b) t_cancel_retransmit_key"
| "slot s _ = None"

fun tracked :: "timer \<Rightarrow> bool" where
  "tracked (ClientRetransmit _) = True"
| "tracked (ServerRetransmit _) = True"
| "tracked (ClientTimeout _) = True"
| "tracked (Cleanup _) = True"
| "tracked (CancelRetransmit _) = True"
| "tracked _ = False"

definition due_of :: "owner \<Rightarrow> txn_id \<Rightarrow> instant option" where
  "due_of s i = map_option (\<lambda>t. deadline_of (t_lifetime t)) (txn s i)"

text \<open>\<open>in_step F \<sigma> w \<delta>\<close>: the keys \<open>\<sigma>\<close> and the wheel \<open>w\<close> agree, and every transaction with a
  deadline in \<open>\<delta>\<close> has its clean-up entry at it; every deadline is at most \<open>F\<close>.\<close>

definition in_step :: "instant \<Rightarrow> (timer \<Rightarrow> nat option) \<Rightarrow> wheel \<Rightarrow> (txn_id \<Rightarrow> instant option) \<Rightarrow> bool" where
  "in_step F \<sigma> w \<delta> \<longleftrightarrow>
     (\<forall>tm k. tracked tm \<longrightarrow> (\<sigma> tm = Some k \<longleftrightarrow> (\<exists>d. w k = Some (tm, d)))) \<and>
     (\<forall>k i d. w k = Some (Cleanup i, d) \<longrightarrow> \<delta> i = Some d) \<and>
     (\<forall>i d. \<delta> i = Some d \<longrightarrow> \<sigma> (Cleanup i) \<noteq> None \<and> d \<le> F) \<and> finite (dom w)"

lemma in_step_key: "in_step F \<sigma> w \<delta> \<Longrightarrow> tracked tm \<Longrightarrow> \<sigma> tm = Some k \<Longrightarrow> \<exists>d. w k = Some (tm, d)"
  by (simp add: in_step_def)

lemma in_step_entry: "in_step F \<sigma> w \<delta> \<Longrightarrow> tracked tm \<Longrightarrow> w k = Some (tm, d) \<Longrightarrow> \<sigma> tm = Some k"
  unfolding in_step_def by blast

lemma in_step_due: "in_step F \<sigma> w \<delta> \<Longrightarrow> w k = Some (Cleanup i, d) \<Longrightarrow> \<delta> i = Some d"
  by (simp add: in_step_def)

lemma in_step_cleanup: "in_step F \<sigma> w \<delta> \<Longrightarrow> \<delta> i = Some d \<Longrightarrow> \<sigma> (Cleanup i) \<noteq> None \<and> d \<le> F"
  unfolding in_step_def by blast

lemma in_step_finite: "in_step F \<sigma> w \<delta> \<Longrightarrow> finite (dom w)"
  by (simp add: in_step_def)

lemmas in_step_dests = in_step_key in_step_entry in_step_due in_step_cleanup in_step_finite

lemma in_stepI:
  assumes "\<And>tm k. tracked tm \<Longrightarrow> \<sigma> tm = Some k \<Longrightarrow> \<exists>d. w k = Some (tm, d)"
    and "\<And>tm k d. tracked tm \<Longrightarrow> w k = Some (tm, d) \<Longrightarrow> \<sigma> tm = Some k"
    and "\<And>k i d. w k = Some (Cleanup i, d) \<Longrightarrow> \<delta> i = Some d"
    and "\<And>i d. \<delta> i = Some d \<Longrightarrow> \<sigma> (Cleanup i) \<noteq> None \<and> d \<le> F" and "finite (dom w)"
  shows "in_step F \<sigma> w \<delta>"
  using assms unfolding in_step_def by blast

lemma in_step_mono: "in_step F \<sigma> w \<delta> \<Longrightarrow> F \<le> F' \<Longrightarrow> in_step F' \<sigma> w \<delta>"
  unfolding in_step_def by (meson order_trans)

text \<open>\<open>cancelled ko w\<close>: the wheel after \<open>cancel_timer ko\<close>.\<close>

definition cancelled :: "nat option \<Rightarrow> wheel \<Rightarrow> wheel" where
  "cancelled ko w = (case ko of None \<Rightarrow> w | Some k \<Rightarrow> w(k := None))"

lemma cancelled_Some_iff: "cancelled ko w k = Some e \<longleftrightarrow> w k = Some e \<and> ko \<noteq> Some k"
  by (auto simp: cancelled_def split: option.splits)

lemma cancelled_simps [simp]: "cancelled None w = w" "cancelled (Some k) w = w(k := None)"
  by (simp_all add: cancelled_def)

lemma finite_dom_cancelled [simp]: "finite (dom w) \<Longrightarrow> finite (dom (cancelled ko w))"
  by (cases ko) simp_all

lemma timers_cancel_timer [simp]: "timers (cancel_timer ko s) = cancelled ko (timers s)"
  by (simp add: cancel_timer_def split: option.splits)

text \<open>A transaction forgets a key it keeps, and that key is cancelled.\<close>

lemma in_step_cancel:
  assumes "in_step F \<sigma> w \<delta>" "tracked tm" "\<And>i. tm \<noteq> Cleanup i"
  shows "in_step F (\<sigma>(tm := None)) (cancelled (\<sigma> tm) w) \<delta>"
proof (rule in_stepI)
  show "\<exists>d. cancelled (\<sigma> tm) w k = Some (tm', d)" if "tracked tm'" "(\<sigma>(tm := None)) tm' = Some k" for tm' k
  proof -
    from that have ne: "tm' \<noteq> tm" "\<sigma> tm' = Some k" by (auto split: if_splits)
    then obtain d where d: "w k = Some (tm', d)" using in_step_key [OF assms(1), of tm' k] \<open>tracked tm'\<close> by blast
    have "\<sigma> tm \<noteq> Some k" using in_step_key [OF assms(1,2)] d ne by fastforce
    with d show ?thesis by (auto simp: cancelled_Some_iff)
  qed
  show "(\<sigma>(tm := None)) tm' = Some k" if "tracked tm'" "cancelled (\<sigma> tm) w k = Some (tm', d)" for tm' k d
    using that in_step_entry [OF assms(1) that(1)] by (auto simp: cancelled_Some_iff)
  show "\<delta> i = Some d" if "cancelled (\<sigma> tm) w k = Some (Cleanup i, d)" for k i d
    using that in_step_due [OF assms(1)] by (auto simp: cancelled_Some_iff)
qed (use assms in_step_cleanup [OF assms(1)] in_step_finite [OF assms(1)] in auto)

text \<open>A timer is armed for a transaction that keeps no key for it.\<close>

lemma in_step_arm:
  assumes "in_step F \<sigma> w \<delta>" "\<sigma> tm = None" "k \<notin> dom w" "tracked tm" "\<And>i. tm \<noteq> Cleanup i"
  shows "in_step F (\<sigma>(tm \<mapsto> k)) (w(k \<mapsto> (tm, d))) \<delta>"
proof (rule in_stepI)
  show "\<exists>d'. (w(k \<mapsto> (tm, d))) k' = Some (tm', d')" if "tracked tm'" "(\<sigma>(tm \<mapsto> k)) tm' = Some k'" for tm' k'
    using that in_step_key [OF assms(1) that(1)] assms(3) by (auto split: if_splits)
  show "(\<sigma>(tm \<mapsto> k)) tm' = Some k'" if "tracked tm'" "(w(k \<mapsto> (tm, d))) k' = Some (tm', d')" for tm' k' d'
    using that in_step_entry [OF assms(1) that(1)] assms(2,4) by (auto split: if_splits)
  show "\<delta> i = Some d'" if "(w(k \<mapsto> (tm, d))) k' = Some (Cleanup i, d')" for k' i d'
    using that assms(5) in_step_due [OF assms(1)] by (auto split: if_splits)
qed (use in_step_cleanup [OF assms(1)] in_step_finite [OF assms(1)] in auto)

lemma in_step_arm_untracked:
  assumes "in_step F \<sigma> w \<delta>" "k \<notin> dom w" "\<not> tracked tm"
  shows "in_step F \<sigma> (w(k \<mapsto> (tm, d))) \<delta>"
proof (rule in_stepI)
  show "\<exists>d'. (w(k \<mapsto> (tm, d))) k' = Some (tm', d')" if "tracked tm'" "\<sigma> tm' = Some k'" for tm' k'
    using that in_step_key [OF assms(1) that] assms(2) by auto
  show "\<sigma> tm' = Some k'" if "tracked tm'" "(w(k \<mapsto> (tm, d))) k' = Some (tm', d')" for tm' k' d'
    using that in_step_entry [OF assms(1) that(1)] assms(3) by (auto split: if_splits)
  show "\<delta> i = Some d'" if "(w(k \<mapsto> (tm, d))) k' = Some (Cleanup i, d')" for k' i d'
    using that assms(3) in_step_due [OF assms(1)] by (auto split: if_splits)
qed (use in_step_cleanup [OF assms(1)] in_step_finite [OF assms(1)] in auto)

lemma in_step_pop_untracked:
  assumes "in_step F \<sigma> w \<delta>" "w k = Some (tm, d)" "\<not> tracked tm"
  shows "in_step F \<sigma> (w(k := None)) \<delta>"
proof (rule in_stepI)
  show "\<exists>d'. (w(k := None)) k' = Some (tm', d')" if "tracked tm'" "\<sigma> tm' = Some k'" for tm' k'
    using that in_step_key [OF assms(1) that] assms(2,3) by auto
qed (use in_step_dests [OF assms(1)] in \<open>auto split: if_splits\<close>)

text \<open>The transaction \<open>i\<close> leaves: its clean-up entry is cancelled, its deadline is gone.\<close>

lemma in_step_leave:
  assumes "in_step F \<sigma> w \<delta>"
  shows "in_step F (\<sigma>(Cleanup i := None)) (cancelled (\<sigma> (Cleanup i)) w) (\<delta>(i := None))"
proof (rule in_stepI)
  show "\<exists>d. cancelled (\<sigma> (Cleanup i)) w k = Some (tm', d)"
    if "tracked tm'" "(\<sigma>(Cleanup i := None)) tm' = Some k" for tm' k
  proof -
    from that have ne: "tm' \<noteq> Cleanup i" "\<sigma> tm' = Some k" by (auto split: if_splits)
    then obtain d where d: "w k = Some (tm', d)" using in_step_key [OF assms, of tm' k] \<open>tracked tm'\<close> by blast
    have "\<sigma> (Cleanup i) \<noteq> Some k" using in_step_key [OF assms, of "Cleanup i"] d ne by fastforce
    with d show ?thesis by (auto simp: cancelled_Some_iff)
  qed
  show "(\<sigma>(Cleanup i := None)) tm' = Some k"
    if "tracked tm'" "cancelled (\<sigma> (Cleanup i)) w k = Some (tm', d)" for tm' k d
    using that in_step_entry [OF assms that(1)] by (auto simp: cancelled_Some_iff)
  show "(\<delta>(i := None)) j = Some d" if "cancelled (\<sigma> (Cleanup i)) w k = Some (Cleanup j, d)" for k j d
    using that in_step_due [OF assms] in_step_entry [OF assms, of "Cleanup j" k d]
    by (auto simp: cancelled_Some_iff)
qed (use in_step_cleanup [OF assms] in_step_finite [OF assms] in \<open>auto split: if_splits\<close>)

text \<open>The transaction \<open>i\<close> enters with its clean-up entry.\<close>

lemma in_step_enter:
  assumes "in_step F \<sigma> w \<delta>" "\<delta> i = None" "\<sigma> (Cleanup i) = None" "k \<notin> dom w" "d \<le> F"
  shows "in_step F (\<sigma>(Cleanup i \<mapsto> k)) (w(k \<mapsto> (Cleanup i, d))) (\<delta>(i \<mapsto> d))"
proof (rule in_stepI)
  show "\<exists>d'. (w(k \<mapsto> (Cleanup i, d))) k' = Some (tm', d')"
    if "tracked tm'" "(\<sigma>(Cleanup i \<mapsto> k)) tm' = Some k'" for tm' k'
    using that in_step_key [OF assms(1) that(1)] assms(4) by (auto split: if_splits)
  show "(\<sigma>(Cleanup i \<mapsto> k)) tm' = Some k'"
    if "tracked tm'" "(w(k \<mapsto> (Cleanup i, d))) k' = Some (tm', d')" for tm' k' d'
    using that in_step_entry [OF assms(1) that(1)] assms(3) by (auto split: if_splits)
  show "(\<delta>(i \<mapsto> d)) j = Some d'" if "(w(k \<mapsto> (Cleanup i, d))) k' = Some (Cleanup j, d')" for k' j d'
    using that in_step_due [OF assms(1)] in_step_entry [OF assms(1), of "Cleanup j" k' d'] assms(3)
    by (auto split: if_splits)
qed (use in_step_cleanup [OF assms(1)] in_step_finite [OF assms(1)] assms(5) in \<open>auto split: if_splits\<close>)

text \<open>A new deadline for \<open>i\<close>: its old clean-up entry goes, a new one comes.\<close>

lemma in_step_deadline:
  assumes "in_step F \<sigma> w \<delta>" "k \<notin> dom (cancelled (\<sigma> (Cleanup i)) w)" "d \<le> F"
  shows "in_step F (\<sigma>(Cleanup i \<mapsto> k)) ((cancelled (\<sigma> (Cleanup i)) w)(k \<mapsto> (Cleanup i, d))) (\<delta>(i \<mapsto> d))"
  using in_step_enter [OF in_step_leave [OF assms(1), of i], of i k d] assms(2,3) by simp

section \<open>The invariant of an owner\<close>

text \<open>What a resident transaction satisfies by itself.\<close>

definition client_ok :: "string \<Rightarrow> transaction \<Rightarrow> bool" where
  "client_ok b t \<longleftrightarrow> t_id t = Client b \<and> t_state t \<noteq> Confirmed \<and> (t_seed_resend t \<noteq> None \<longrightarrow> t_retransmit_key t = None) \<and>
     (t_state t = Trying \<longrightarrow> t_held_cancel t \<noteq> None \<longrightarrow> never_sent (t_held_cancel t))"

definition holds_487 :: "transaction \<Rightarrow> bool" where
  "holds_487 t \<longleftrightarrow> Option.bind (t_unsent_cancel t) terminated \<noteq> None"

definition server_ok :: "server_txn_key \<Rightarrow> transaction \<Rightarrow> bool" where
  "server_ok k t \<longleftrightarrow> t_id t = Server k \<and> t_timeout_key t = None \<and> t_cancel_retransmit_key t = None \<and>
     (is_active (t_state t) \<longrightarrow> t_retransmit_key t = None) \<and>
     (holds_487 t \<longrightarrow> \<not> is_active (t_state t) \<and> t_retransmit_key t = None)"

definition lockstep :: "instant \<Rightarrow> owner \<Rightarrow> bool" where
  "lockstep now s \<longleftrightarrow> in_step (now + MAX_DELAY) (slot s) (timers s) (due_of s) \<and>
     (\<forall>b t. clients s b = Some t \<longrightarrow> client_ok b t) \<and> (\<forall>k t. servers s k = Some t \<longrightarrow> server_ok k t)"

lemma txn_cong: "clients s' = clients s \<Longrightarrow> servers s' = servers s \<Longrightarrow> txn s' i = txn s i"
  by (cases i) simp_all

lemma slot_cong: "clients s' = clients s \<Longrightarrow> servers s' = servers s \<Longrightarrow> slot s' tm = slot s tm"
  by (cases tm) (simp_all add: txn_cong [of s' s])

lemma lockstep_cong:
  assumes "clients s' = clients s" "servers s' = servers s" "timers s' = timers s"
  shows "lockstep now s' = lockstep now s"
proof -
  have "slot s' = slot s" "due_of s' = due_of s"
    using slot_cong [OF assms(1,2)] txn_cong [OF assms(1,2)] by (auto simp: due_of_def fun_eq_iff)
  then show ?thesis by (simp add: lockstep_def assms)
qed

section \<open>Primitive operations\<close>

text \<open>Operations that touch neither the maps nor the wheel.\<close>

lemma frame_maps [simp]:
  "clients (bump c s) = clients s" "servers (bump c s) = servers s" "timers (bump c s) = timers s"
  "clients (drop_one c s) = clients s" "servers (drop_one c s) = servers s" "timers (drop_one c s) = timers s"
  "clients (add_count c n s) = clients s" "servers (add_count c n s) = servers s"
  "timers (add_count c n s) = timers s"
  "clients (send_buffer buf dest s) = clients s" "servers (send_buffer buf dest s) = servers s"
  "timers (send_buffer buf dest s) = timers s"
  "clients (sync_active s) = clients s" "servers (sync_active s) = servers s" "timers (sync_active s) = timers s"
  "clients (remember_uas_tag E x y z s) = clients s" "servers (remember_uas_tag E x y z s) = servers s"
  "timers (remember_uas_tag E x y z s) = timers s"
  "clients (owe_held_cancel u s) = clients s" "servers (owe_held_cancel u s) = servers s"
  "timers (owe_held_cancel u s) = timers s"
  by (simp_all add: bump_def drop_one_def add_count_def send_buffer_def sync_active_def
      remember_uas_tag_def owe_held_cancel_def)

lemma frame_maps_cond [simp]:
  "clients (quiesce_if_last cr s) = clients s" "servers (quiesce_if_last cr s) = servers s"
  "timers (quiesce_if_last cr s) = timers s"
  "clients (track_call_ref cr' i s) = clients s" "servers (track_call_ref cr' i s) = servers s"
  "timers (track_call_ref cr' i s) = timers s"
  "clients (untrack_call_ref cr' i s) = clients s" "servers (untrack_call_ref cr' i s) = servers s"
  "timers (untrack_call_ref cr' i s) = timers s"
  "clients (release_hold E x y z s) = clients s" "servers (release_hold E x y z s) = servers s"
  "timers (release_hold E x y z s) = timers s"
  "clients (told_bound E i s) = clients s" "servers (told_bound E i s) = servers s"
  "timers (told_bound E i s) = timers s"
  "clients (cancel_timer ko s) = clients s" "servers (cancel_timer ko s) = servers s"
  "clients (drop_deferred_request_of kk x y s) = clients s" "servers (drop_deferred_request_of kk x y s) = servers s"
  "timers (drop_deferred_request_of kk x y s) = timers s"
  "clients (send_opt d s) = clients s" "servers (send_opt d s) = servers s" "timers (send_opt d s) = timers s"
  "clients (send_image r d' s) = clients s" "servers (send_image r d' s) = servers s"
  "timers (send_image r d' s) = timers s"
  by (simp_all add: quiesce_if_last_def track_call_ref_def untrack_call_ref_def release_hold_def
      told_bound_def cancel_timer_def drop_deferred_request_of_def send_opt_def send_image_def Let_def
      split: option.splits prod.splits)

lemma settle_accepted_frame [simp]:
  "clients (settle_accepted b s) = clients s" "servers (settle_accepted b s) = servers s"
  "timers (settle_accepted b s) = timers s"
  by (simp_all add: settle_accepted_def Let_def split: option.splits)

lemma upd_frame [simp]:
  "servers (upd_client b f s) = servers s" "timers (upd_client b f s) = timers s"
  "clients (upd_server k f s) = clients s" "timers (upd_server k f s) = timers s"
  "timers (txn_mut i f s) = timers s"
  by (cases i; simp add: upd_client_def upd_server_def split: option.splits)+

lemma clients_upd_client: "clients (upd_client b f s) = (clients s)(b := map_option f (clients s b))"
  by (auto simp: upd_client_def fun_eq_iff split: option.splits)

lemma servers_upd_server: "servers (upd_server k f s) = (servers s)(k := map_option f (servers s k))"
  by (auto simp: upd_server_def fun_eq_iff split: option.splits)

lemma clients_upd_same [simp]: "clients (upd_client b f s) b = map_option f (clients s b)"
  by (simp add: clients_upd_client)

lemma servers_upd_same [simp]: "servers (upd_server k f s) k = map_option f (servers s k)"
  by (simp add: servers_upd_server)

text \<open>The rest of the state is untouched by an update of a transaction, a timer or a counter.\<close>

lemma lockstep_frames [simp]:
  "lockstep now (bump c s) = lockstep now s"
  "lockstep now (drop_one c s) = lockstep now s"
  "lockstep now (add_count c n s) = lockstep now s"
  "lockstep now (send_buffer buf dest s) = lockstep now s"
  "lockstep now (sync_active s) = lockstep now s"
  "lockstep now (remember_uas_tag E x y z s) = lockstep now s"
  "lockstep now (owe_held_cancel u s) = lockstep now s"
  "lockstep now (quiesce_if_last cr s) = lockstep now s"
  "lockstep now (track_call_ref cr' i s) = lockstep now s"
  "lockstep now (untrack_call_ref cr' i s) = lockstep now s"
  "lockstep now (release_hold E x y z s) = lockstep now s"
  "lockstep now (told_bound E i s) = lockstep now s"
  "lockstep now (drop_deferred_request_of kk x y s) = lockstep now s"
  "lockstep now (settle_accepted x s) = lockstep now s"
  "lockstep now (send_opt d s) = lockstep now s"
  "lockstep now (send_image r d' s) = lockstep now s"
  by (rule lockstep_cong; simp)+

lemma lockstep_fields [simp]:
  "lockstep now (s\<lparr>wire_out := a\<rparr>) = lockstep now s"
  "lockstep now (s\<lparr>queue_in := b\<rparr>) = lockstep now s"
  "lockstep now (s\<lparr>lane_in := b\<rparr>) = lockstep now s"
  "lockstep now (s\<lparr>tries := n\<rparr>) = lockstep now s"
  "lockstep now (s\<lparr>lane_tries := n\<rparr>) = lockstep now s"
  "lockstep now (s\<lparr>draws := n\<rparr>) = lockstep now s"
  "lockstep now (s\<lparr>self_release_watch := c\<rparr>) = lockstep now s"
  "lockstep now (s\<lparr>txn_index := d\<rparr>) = lockstep now s"
  "lockstep now (s\<lparr>deferred_events := b\<rparr>) = lockstep now s"
  "lockstep now (s\<lparr>refusals := e\<rparr>) = lockstep now s"
  "lockstep now (s\<lparr>event_retry_armed := f\<rparr>) = lockstep now s"
  "lockstep now (s\<lparr>pending_quiesce := g\<rparr>) = lockstep now s"
  "lockstep now (s\<lparr>held_cancels := h\<rparr>) = lockstep now s"
  "lockstep now (s\<lparr>owed_sends := a\<rparr>) = lockstep now s"
  "lockstep now (s\<lparr>recent_uas_tags := i\<rparr>) = lockstep now s"
  "lockstep now (s\<lparr>counters := j\<rparr>) = lockstep now s"
  "lockstep now (s\<lparr>bounds_told := k\<rparr>) = lockstep now s"
  by (rule lockstep_cong; simp)+

subsection \<open>Updating a transaction\<close>

definition same_timers :: "transaction \<Rightarrow> transaction \<Rightarrow> bool" where
  "same_timers t t' \<longleftrightarrow> t_retransmit_key t' = t_retransmit_key t \<and> t_timeout_key t' = t_timeout_key t \<and>
     t_cleanup_key t' = t_cleanup_key t \<and> t_cancel_retransmit_key t' = t_cancel_retransmit_key t \<and>
     deadline_of (t_lifetime t') = deadline_of (t_lifetime t)"

lemma slot_clients:
  assumes "servers s' = servers s" "clients s' = (clients s)(b := x)"
  shows "slot s' = (slot s)(ClientRetransmit b := Option.bind x t_retransmit_key,
    ClientTimeout b := Option.bind x t_timeout_key, Cleanup (Client b) := Option.bind x t_cleanup_key,
    CancelRetransmit b := Option.bind x t_cancel_retransmit_key)"
proof
  show "slot s' tm = ((slot s)(ClientRetransmit b := Option.bind x t_retransmit_key,
    ClientTimeout b := Option.bind x t_timeout_key, Cleanup (Client b) := Option.bind x t_cleanup_key,
    CancelRetransmit b := Option.bind x t_cancel_retransmit_key)) tm" for tm
  proof (cases tm)
    case (Cleanup i)
    then show ?thesis using assms by (cases i) auto
  qed (use assms in auto)
qed

lemma slot_servers:
  assumes "clients s' = clients s" "servers s' = (servers s)(k := x)"
  shows "slot s' = (slot s)(ServerRetransmit k := Option.bind x t_retransmit_key,
    Cleanup (Server k) := Option.bind x t_cleanup_key)"
proof
  show "slot s' tm = ((slot s)(ServerRetransmit k := Option.bind x t_retransmit_key,
    Cleanup (Server k) := Option.bind x t_cleanup_key)) tm" for tm
  proof (cases tm)
    case (Cleanup i)
    then show ?thesis using assms by (cases i) auto
  qed (use assms in auto)
qed

lemma due_of_clients:
  assumes "servers s' = servers s" "clients s' = (clients s)(b := x)"
  shows "due_of s' = (due_of s)(Client b := map_option (\<lambda>t. deadline_of (t_lifetime t)) x)"
proof
  show "due_of s' i = ((due_of s)(Client b := map_option (\<lambda>t. deadline_of (t_lifetime t)) x)) i" for i
    using assms by (cases i) (auto simp: due_of_def)
qed

lemma due_of_servers:
  assumes "clients s' = clients s" "servers s' = (servers s)(k := x)"
  shows "due_of s' = (due_of s)(Server k := map_option (\<lambda>t. deadline_of (t_lifetime t)) x)"
proof
  show "due_of s' i = ((due_of s)(Server k := map_option (\<lambda>t. deadline_of (t_lifetime t)) x)) i" for i
    using assms by (cases i) (auto simp: due_of_def)
qed

lemma lockstep_clientsI:
  assumes "lockstep now s" "servers s' = servers s" "clients s' = (clients s)(b := x)"
    and "\<And>t. x = Some t \<Longrightarrow> client_ok b t"
    and "in_step (now + MAX_DELAY) ((slot s)(ClientRetransmit b := Option.bind x t_retransmit_key,
      ClientTimeout b := Option.bind x t_timeout_key, Cleanup (Client b) := Option.bind x t_cleanup_key,
      CancelRetransmit b := Option.bind x t_cancel_retransmit_key)) (timers s')
      ((due_of s)(Client b := map_option (\<lambda>t. deadline_of (t_lifetime t)) x))"
  shows "lockstep now s'"
  using assms unfolding lockstep_def slot_clients [OF assms(2,3)] due_of_clients [OF assms(2,3)]
  by (auto split: if_splits)

lemma lockstep_serversI:
  assumes "lockstep now s" "clients s' = clients s" "servers s' = (servers s)(k := x)"
    and "\<And>t. x = Some t \<Longrightarrow> server_ok k t"
    and "in_step (now + MAX_DELAY) ((slot s)(ServerRetransmit k := Option.bind x t_retransmit_key,
      Cleanup (Server k) := Option.bind x t_cleanup_key)) (timers s')
      ((due_of s)(Server k := map_option (\<lambda>t. deadline_of (t_lifetime t)) x))"
  shows "lockstep now s'"
  using assms unfolding lockstep_def slot_servers [OF assms(2,3)] due_of_servers [OF assms(2,3)]
  by (auto split: if_splits)

lemma lockstep_client_ok: "lockstep now s \<Longrightarrow> clients s b = Some t \<Longrightarrow> client_ok b t"
  by (simp add: lockstep_def)

lemma lockstep_server_ok: "lockstep now s \<Longrightarrow> servers s k = Some t \<Longrightarrow> server_ok k t"
  by (simp add: lockstep_def)

lemma lockstep_in_step: "lockstep now s \<Longrightarrow> in_step (now + MAX_DELAY) (slot s) (timers s) (due_of s)"
  by (simp add: lockstep_def)

lemma fun_upd_idem4:
  "f a = w \<Longrightarrow> f b = x \<Longrightarrow> f c = y \<Longrightarrow> f d = z \<Longrightarrow> f(a := w, b := x, c := y, d := z) = f"
  by (auto simp: fun_eq_iff)

lemma lockstep_upd_client:
  assumes "lockstep now s"
    and "\<And>t. clients s b = Some t \<Longrightarrow> client_ok b t \<Longrightarrow> client_ok b (f t) \<and> same_timers t (f t)"
  shows "lockstep now (upd_client b f s)"
proof (cases "clients s b")
  case None
  then show ?thesis using assms(1) by (simp add: upd_client_def)
next
  case (Some t)
  from assms(2) [OF Some lockstep_client_ok [OF assms(1) Some]]
  have ok: "client_ok b (f t)" "same_timers t (f t)" by auto
  then have "slot (upd_client b f s) = slot s" "due_of (upd_client b f s) = due_of s"
    using Some
    by (auto simp: slot_clients [of _ s b "Some (f t)"] due_of_clients [of _ s b "Some (f t)"]
        clients_upd_client same_timers_def due_of_def intro!: fun_upd_idem4)
  then show ?thesis
    using assms(1) ok(1) by (auto simp: lockstep_def clients_upd_client Some split: if_splits)
qed

lemma lockstep_upd_server:
  assumes "lockstep now s"
    and "\<And>t. servers s k = Some t \<Longrightarrow> server_ok k t \<Longrightarrow> server_ok k (f t) \<and> same_timers t (f t)"
  shows "lockstep now (upd_server k f s)"
proof (cases "servers s k")
  case None
  then show ?thesis using assms(1) by (simp add: upd_server_def)
next
  case (Some t)
  from assms(2) [OF Some lockstep_server_ok [OF assms(1) Some]]
  have ok: "server_ok k (f t)" "same_timers t (f t)" by auto
  then have "slot (upd_server k f s) = slot s" "due_of (upd_server k f s) = due_of s"
    using Some
    by (auto simp: slot_servers [of _ s k "Some (f t)"] due_of_servers [of _ s k "Some (f t)"]
        servers_upd_server same_timers_def due_of_def fun_eq_iff)
  then show ?thesis
    using assms(1) ok(1) by (auto simp: lockstep_def servers_upd_server Some split: if_splits)
qed

subsection \<open>Forgetting keys\<close>

text \<open>A client transaction forgets the keys of some of its running timers, and they are cancelled;
  the fired timer of \<open>fire_timer\<close> left the wheel by itself.\<close>

lemma lockstep_forget_client:
  assumes ls: "lockstep now s" and t: "clients s b = Some t" and ok: "client_ok b t'"
    and keys: "t_retransmit_key t' = (if r then None else t_retransmit_key t)"
      "t_timeout_key t' = (if m then None else t_timeout_key t)"
      "t_cancel_retransmit_key t' = (if c then None else t_cancel_retransmit_key t)"
      "t_cleanup_key t' = t_cleanup_key t" "deadline_of (t_lifetime t') = deadline_of (t_lifetime t)"
    and s': "servers s' = servers s" "clients s' = (clients s)(b \<mapsto> t')"
      "timers s' = cancelled (if c then t_cancel_retransmit_key t else None)
        (cancelled (if m then t_timeout_key t else None)
          (cancelled (if r then t_retransmit_key t else None) (timers s)))"
  shows "lockstep now s'"
proof (rule lockstep_clientsI [OF ls s'(1,2)])
  let ?F = "now + MAX_DELAY" and ?drop = "\<lambda>tm x \<sigma>. if x then \<sigma>(tm := None) else \<sigma>"
  have sl: "slot s (ClientRetransmit b) = t_retransmit_key t" "slot s (ClientTimeout b) = t_timeout_key t"
    "slot s (CancelRetransmit b) = t_cancel_retransmit_key t" "slot s (Cleanup (Client b)) = t_cleanup_key t"
    using t by simp_all
  have step: "in_step ?F (?drop tm x \<sigma>) (cancelled (if x then ko else None) w) \<delta>"
    if "in_step ?F \<sigma> w \<delta>" "tracked tm" "\<And>i. tm \<noteq> Cleanup i" "\<sigma> tm = ko" for x tm ko \<sigma> w \<delta>
    using in_step_cancel [OF that(1-3)] that(1,4) by (cases x) simp_all
  have "in_step ?F (?drop (ClientRetransmit b) r (slot s))
      (cancelled (if r then t_retransmit_key t else None) (timers s)) (due_of s)" (is "in_step _ ?a ?aw _")
    by (rule step) (use lockstep_in_step [OF ls] sl in auto)
  then have "in_step ?F (?drop (ClientTimeout b) m ?a) (cancelled (if m then t_timeout_key t else None) ?aw) (due_of s)"
      (is "in_step _ ?b ?bw _")
    by (rule step) (use sl in auto)
  then have "in_step ?F (?drop (CancelRetransmit b) c ?b)
      (cancelled (if c then t_cancel_retransmit_key t else None) ?bw) (due_of s)"
    by (rule step) (use sl in auto)
  then have "in_step ?F (?drop (CancelRetransmit b) c ?b) (timers s') (due_of s)"
    by (simp only: s'(3))
  moreover have "?drop (CancelRetransmit b) c ?b = (slot s)(ClientRetransmit b := t_retransmit_key t',
      ClientTimeout b := t_timeout_key t', Cleanup (Client b) := t_cleanup_key t',
      CancelRetransmit b := t_cancel_retransmit_key t')"
    using sl keys by (auto simp: fun_eq_iff)
  moreover have "due_of s = (due_of s)(Client b \<mapsto> deadline_of (t_lifetime t'))"
    using t keys(5) by (auto simp: due_of_def fun_eq_iff)
  ultimately show "in_step ?F ((slot s)(ClientRetransmit b := Option.bind (Some t') t_retransmit_key,
      ClientTimeout b := Option.bind (Some t') t_timeout_key,
      Cleanup (Client b) := Option.bind (Some t') t_cleanup_key,
      CancelRetransmit b := Option.bind (Some t') t_cancel_retransmit_key)) (timers s')
      ((due_of s)(Client b := map_option (\<lambda>t. deadline_of (t_lifetime t)) (Some t')))"
    by simp
qed (use ok in simp)

lemma lockstep_forget_server:
  assumes ls: "lockstep now s" and t: "servers s k = Some t" and ok: "server_ok k t'"
    and keys: "t_retransmit_key t' = None" "t_cleanup_key t' = t_cleanup_key t"
      "deadline_of (t_lifetime t') = deadline_of (t_lifetime t)"
    and s': "clients s' = clients s" "servers s' = (servers s)(k \<mapsto> t')"
      "timers s' = cancelled (t_retransmit_key t) (timers s)"
  shows "lockstep now s'"
proof (rule lockstep_serversI [OF ls s'(1,2)])
  have "slot s (ServerRetransmit k) = t_retransmit_key t" using t by simp
  with in_step_cancel [OF lockstep_in_step [OF ls], of "ServerRetransmit k"] s'(3)
  have "in_step (now + MAX_DELAY) ((slot s)(ServerRetransmit k := None)) (timers s') (due_of s)" by simp
  moreover have "(slot s)(ServerRetransmit k := None) =
      (slot s)(ServerRetransmit k := t_retransmit_key t', Cleanup (Server k) := t_cleanup_key t')"
    using t keys by (auto simp: fun_eq_iff)
  moreover have "due_of s = (due_of s)(Server k \<mapsto> deadline_of (t_lifetime t'))"
    using t keys(3) by (auto simp: due_of_def fun_eq_iff)
  ultimately show "in_step (now + MAX_DELAY) ((slot s)(ServerRetransmit k := Option.bind (Some t') t_retransmit_key,
      Cleanup (Server k) := Option.bind (Some t') t_cleanup_key)) (timers s')
      ((due_of s)(Server k := map_option (\<lambda>t. deadline_of (t_lifetime t)) (Some t')))"
    by simp
qed (use ok in simp)

subsection \<open>Arming\<close>

lemma arm_frame [simp]:
  "clients (fst (arm E tm d s)) = clients s" "servers (fst (arm E tm d s)) = servers s"
  by (simp_all add: arm_def Let_def)

lemma timers_arm:
  "timers (fst (arm E tm d s)) = (timers s)(snd (arm E tm d s) \<mapsto> (tm, e_now E + min d MAX_DELAY))"
  "snd (arm E tm d s) = e_fresh_key E (timers s)"
  by (simp_all add: arm_def Let_def)

lemma env_fresh: "env_ok E \<Longrightarrow> finite (dom w) \<Longrightarrow> e_fresh_key E w \<notin> dom w"
  by (simp add: env_ok_def)

lemma lockstep_fresh: "env_ok E \<Longrightarrow> lockstep now s \<Longrightarrow> e_fresh_key E (timers s) \<notin> dom (timers s)"
  using env_fresh in_step_finite lockstep_in_step by blast

lemma lockstep_arm_untracked:
  assumes "env_ok E" "lockstep now s" "\<not> tracked tm"
  shows "lockstep now (fst (arm E tm d s))"
proof -
  have "slot (fst (arm E tm d s)) = slot s" "due_of (fst (arm E tm d s)) = due_of s"
    using slot_cong [of "fst (arm E tm d s)" s] txn_cong [of "fst (arm E tm d s)" s]
    by (auto simp: due_of_def fun_eq_iff)
  then show ?thesis
    using assms in_step_arm_untracked [OF lockstep_in_step [OF assms(2)] lockstep_fresh [OF assms(1,2)] assms(3)]
    by (simp add: lockstep_def timers_arm)
qed

text \<open>A client's timer armed and its key kept, in one field chosen by \<open>tm\<close>.\<close>

lemma lockstep_arm_client:
  assumes "env_ok E" and ls: "lockstep now s" and t: "clients s b = Some t" and ok: "client_ok b t'"
    and none: "slot s tm = None"
    and tm: "tm = ClientRetransmit b \<or> tm = ClientTimeout b \<or> tm = CancelRetransmit b"
    and keys: "t_retransmit_key t' = (if tm = ClientRetransmit b then Some (snd (arm E tm d s)) else t_retransmit_key t)"
      "t_timeout_key t' = (if tm = ClientTimeout b then Some (snd (arm E tm d s)) else t_timeout_key t)"
      "t_cancel_retransmit_key t' =
         (if tm = CancelRetransmit b then Some (snd (arm E tm d s)) else t_cancel_retransmit_key t)"
      "t_cleanup_key t' = t_cleanup_key t" "deadline_of (t_lifetime t') = deadline_of (t_lifetime t)"
    and s': "servers s' = servers s" "clients s' = (clients s)(b \<mapsto> t')" "timers s' = timers (fst (arm E tm d s))"
  shows "lockstep now s'"
proof (rule lockstep_clientsI [OF ls s'(1,2)])
  have tr: "tracked tm" "\<And>i. tm \<noteq> Cleanup i" using tm by auto
  from in_step_arm [OF lockstep_in_step [OF ls] none lockstep_fresh [OF assms(1) ls] tr]
  have "in_step (now + MAX_DELAY) ((slot s)(tm \<mapsto> snd (arm E tm d s))) (timers s') (due_of s)"
    by (simp add: s'(3) timers_arm)
  moreover have "(slot s)(tm \<mapsto> snd (arm E tm d s)) = (slot s)(ClientRetransmit b := t_retransmit_key t',
      ClientTimeout b := t_timeout_key t', Cleanup (Client b) := t_cleanup_key t',
      CancelRetransmit b := t_cancel_retransmit_key t')"
    using t tm keys by (auto simp: fun_eq_iff)
  moreover have "due_of s = (due_of s)(Client b \<mapsto> deadline_of (t_lifetime t'))"
    using t keys(5) by (auto simp: due_of_def fun_eq_iff)
  ultimately show "in_step (now + MAX_DELAY) ((slot s)(ClientRetransmit b := Option.bind (Some t') t_retransmit_key,
      ClientTimeout b := Option.bind (Some t') t_timeout_key,
      Cleanup (Client b) := Option.bind (Some t') t_cleanup_key,
      CancelRetransmit b := Option.bind (Some t') t_cancel_retransmit_key)) (timers s')
      ((due_of s)(Client b := map_option (\<lambda>t. deadline_of (t_lifetime t)) (Some t')))"
    by simp
qed (use ok in simp)

lemma lockstep_arm_server:
  assumes "env_ok E" and ls: "lockstep now s" and t: "servers s k = Some t" and ok: "server_ok k t'"
    and none: "t_retransmit_key t = None"
    and keys: "t_retransmit_key t' = Some (snd (arm E (ServerRetransmit k) d s))"
      "t_cleanup_key t' = t_cleanup_key t" "deadline_of (t_lifetime t') = deadline_of (t_lifetime t)"
    and s': "clients s' = clients s" "servers s' = (servers s)(k \<mapsto> t')"
      "timers s' = timers (fst (arm E (ServerRetransmit k) d s))"
  shows "lockstep now s'"
proof (rule lockstep_serversI [OF ls s'(1,2)])
  let ?tm = "ServerRetransmit k"
  have "slot s ?tm = None" using t none by simp
  from in_step_arm [OF lockstep_in_step [OF ls] this lockstep_fresh [OF assms(1) ls]]
  have "in_step (now + MAX_DELAY) ((slot s)(?tm \<mapsto> snd (arm E ?tm d s))) (timers s') (due_of s)"
    by (simp add: s'(3) timers_arm)
  moreover have "(slot s)(?tm \<mapsto> snd (arm E ?tm d s)) =
      (slot s)(ServerRetransmit k := t_retransmit_key t', Cleanup (Server k) := t_cleanup_key t')"
    using t keys by (auto simp: fun_eq_iff)
  moreover have "due_of s = (due_of s)(Server k \<mapsto> deadline_of (t_lifetime t'))"
    using t keys(3) by (auto simp: due_of_def fun_eq_iff)
  ultimately show "in_step (now + MAX_DELAY) ((slot s)(ServerRetransmit k := Option.bind (Some t') t_retransmit_key,
      Cleanup (Server k) := Option.bind (Some t') t_cleanup_key)) (timers s')
      ((due_of s)(Server k := map_option (\<lambda>t. deadline_of (t_lifetime t)) (Some t')))"
    by simp
qed (use ok in simp)

subsection \<open>Holds\<close>

lemma from_now_bounds:
  assumes "env_ok E"
  shows "e_now E \<le> from_now E d" "from_now E d \<le> e_now E + MAX_DELAY"
  using assms by (auto simp: from_now_def env_ok_def deadline_after_min)

lemma deadline_held_for:
  "deadline_of (held_for lt why u) = u \<or> deadline_of (held_for lt why u) = max u (deadline_of lt)"
  by (cases lt) simp_all

lemma due_bounds:
  assumes "env_ok E" "lockstep (e_now E) s" "txn s i = Some t"
  shows "e_now E \<le> deadline_of (held_for (t_lifetime t) why (from_now E left)) \<and>
    deadline_of (held_for (t_lifetime t) why (from_now E left)) \<le> e_now E + MAX_DELAY"
proof -
  have "deadline_of (t_lifetime t) \<le> e_now E + MAX_DELAY"
    using in_step_cleanup [OF lockstep_in_step [OF assms(2)], of i] assms(3) by (simp add: due_of_def)
  with from_now_bounds [OF assms(1), of left] deadline_held_for [of "t_lifetime t" why "from_now E left"]
  show ?thesis by auto
qed

definition held_txn :: "layer_env \<Rightarrow> hold_why \<Rightarrow> duration \<Rightarrow> wheel \<Rightarrow> transaction \<Rightarrow> transaction" where
  "held_txn E why left w t = t\<lparr>t_lifetime := held_for (t_lifetime t) why (from_now E left),
     t_cleanup_key := Some (e_fresh_key E (cancelled (t_cleanup_key t) w))\<rparr>"

lemma held_txn_fields [simp]:
  "t_retransmit_key (held_txn E why left w t) = t_retransmit_key t"
  "t_timeout_key (held_txn E why left w t) = t_timeout_key t"
  "t_cancel_retransmit_key (held_txn E why left w t) = t_cancel_retransmit_key t"
  "t_lifetime (held_txn E why left w t) = held_for (t_lifetime t) why (from_now E left)"
  "t_cleanup_key (held_txn E why left w t) = Some (e_fresh_key E (cancelled (t_cleanup_key t) w))"
  "t_state (held_txn E why left w t) = t_state t" "t_call_ref (held_txn E why left w t) = t_call_ref t"
  "t_held_cancel (held_txn E why left w t) = t_held_cancel t" "t_id (held_txn E why left w t) = t_id t"
  "t_kind (held_txn E why left w t) = t_kind t"
  "t_unsent_cancel (held_txn E why left w t) = t_unsent_cancel t"
  "client_ok b (held_txn E why left w t) = client_ok b t"
  "server_ok k (held_txn E why left w t) = server_ok k t"
  by (simp_all add: held_txn_def client_ok_def server_ok_def holds_487_def)

lemma hold_client_state:
  assumes "clients s b = Some t"
  shows "clients (hold_txn_for E (Client b) why left s) = (clients s)(b \<mapsto> held_txn E why left (timers s) t)"
    "servers (hold_txn_for E (Client b) why left s) = servers s"
    "timers (hold_txn_for E (Client b) why left s) =
      (let w = cancelled (t_cleanup_key t) (timers s)
       in w(e_fresh_key E w \<mapsto> (Cleanup (Client b),
            e_now E + min (deadline_of (held_for (t_lifetime t) why (from_now E left)) - e_now E) MAX_DELAY)))"
  using assms
  by (simp_all add: hold_txn_for_def arm_deadline_def insert_at_def Let_def case_prod_beta timers_arm
      clients_upd_client held_txn_def)

lemma hold_server_state:
  assumes "servers s k = Some t"
  shows "servers (hold_txn_for E (Server k) why left s) = (servers s)(k \<mapsto> held_txn E why left (timers s) t)"
    "clients (hold_txn_for E (Server k) why left s) = clients s"
    "timers (hold_txn_for E (Server k) why left s) =
      (let w = cancelled (t_cleanup_key t) (timers s)
       in w(e_fresh_key E w \<mapsto> (Cleanup (Server k),
            e_now E + min (deadline_of (held_for (t_lifetime t) why (from_now E left)) - e_now E) MAX_DELAY)))"
  using assms
  by (simp_all add: hold_txn_for_def arm_deadline_def insert_at_def Let_def case_prod_beta timers_arm
      servers_upd_server held_txn_def)

lemma hold_absent: "txn s i = None \<Longrightarrow> hold_txn_for E i why left s = s"
  by (simp add: hold_txn_for_def)

lemma lockstep_hold_for:
  assumes E: "env_ok E" and ls: "lockstep (e_now E) s"
  shows "lockstep (e_now E) (hold_txn_for E i why left s)"
proof (cases "txn s i")
  case None
  then show ?thesis using ls by (simp add: hold_absent)
next
  case t: (Some t)
  define d where "d = deadline_of (held_for (t_lifetime t) why (from_now E left))"
  define w where "w = cancelled (t_cleanup_key t) (timers s)"
  have due: "e_now E + min (d - e_now E) MAX_DELAY = d" "d \<le> e_now E + MAX_DELAY"
    using due_bounds [OF E ls t, of why left] by (auto simp: d_def)
  have key: "slot s (Cleanup i) = t_cleanup_key t" using t by simp
  have "e_fresh_key E w \<notin> dom w"
    using env_fresh [OF E] in_step_finite [OF lockstep_in_step [OF ls]] by (simp add: w_def)
  with in_step_deadline [OF lockstep_in_step [OF ls], of "e_fresh_key E w" i d] due(2) key
  have view: "in_step (e_now E + MAX_DELAY) ((slot s)(Cleanup i \<mapsto> e_fresh_key E w))
      (w(e_fresh_key E w \<mapsto> (Cleanup i, d))) ((due_of s)(i \<mapsto> d))" by (simp add: w_def)
  show ?thesis
  proof (cases i)
    case (Client b)
    with t have tb: "clients s b = Some t" by simp
    have sl: "(slot s)(ClientRetransmit b := t_retransmit_key t, ClientTimeout b := t_timeout_key t,
        Cleanup (Client b) \<mapsto> e_fresh_key E w, CancelRetransmit b := t_cancel_retransmit_key t) =
      (slot s)(Cleanup (Client b) \<mapsto> e_fresh_key E w)"
      using tb by (auto simp: fun_eq_iff)
    show ?thesis
      unfolding Client
    proof (rule lockstep_clientsI [OF ls hold_client_state(2,1) [OF tb]])
      show "client_ok b t'" if "Some (held_txn E why left (timers s) t) = Some t'" for t'
        using that lockstep_client_ok [OF ls tb] by auto
    qed (use view due(1) sl tb in \<open>simp add: hold_client_state w_def d_def Client Let_def\<close>)
  next
    case (Server k)
    with t have tk: "servers s k = Some t" by simp
    have sl: "(slot s)(ServerRetransmit k := t_retransmit_key t, Cleanup (Server k) \<mapsto> e_fresh_key E w) =
      (slot s)(Cleanup (Server k) \<mapsto> e_fresh_key E w)"
      using tk by (auto simp: fun_eq_iff)
    show ?thesis
      unfolding Server
    proof (rule lockstep_serversI [OF ls hold_server_state(2,1) [OF tk]])
      show "server_ok k t'" if "Some (held_txn E why left (timers s) t) = Some t'" for t'
        using that lockstep_server_ok [OF ls tk] by auto
    qed (use view due(1) sl tk in \<open>simp add: hold_server_state w_def d_def Server Let_def\<close>)
  qed
qed

lemma lockstep_hold: "env_ok E \<Longrightarrow> lockstep (e_now E) s \<Longrightarrow> lockstep (e_now E) (hold_txn E i why s)"
  by (simp add: hold_txn_def lockstep_hold_for)

subsection \<open>Leaving and entering the maps\<close>

lemma timers_cancel_timers_of:
  "timers (cancel_timers_of t s) = cancelled (t_cancel_retransmit_key t)
     (cancelled (t_cleanup_key t) (cancelled (t_timeout_key t) (cancelled (t_retransmit_key t) (timers s))))"
  by (simp add: cancel_timers_of_def)

lemma cancel_timers_of_frame [simp]:
  "clients (cancel_timers_of t s) = clients s" "servers (cancel_timers_of t s) = servers s"
  by (simp_all add: cancel_timers_of_def)

lemma in_step_leave_client:
  assumes "in_step F (slot s) w \<delta>" "clients s b = Some t"
  shows "in_step F ((slot s)(ClientRetransmit b := None, ClientTimeout b := None, Cleanup (Client b) := None,
      CancelRetransmit b := None))
    (cancelled (t_cancel_retransmit_key t) (cancelled (t_cleanup_key t)
      (cancelled (t_timeout_key t) (cancelled (t_retransmit_key t) w)))) (\<delta>(Client b := None))"
proof -
  from in_step_cancel [OF assms(1), of "ClientRetransmit b"]
  have "in_step F ((slot s)(ClientRetransmit b := None)) (cancelled (t_retransmit_key t) w) \<delta>"
    using assms(2) by simp
  from in_step_cancel [OF this, of "ClientTimeout b"]
  have "in_step F ((slot s)(ClientRetransmit b := None, ClientTimeout b := None))
    (cancelled (t_timeout_key t) (cancelled (t_retransmit_key t) w)) \<delta>"
    using assms(2) by simp
  from in_step_leave [OF this, of "Client b"]
  have "in_step F ((slot s)(ClientRetransmit b := None, ClientTimeout b := None, Cleanup (Client b) := None))
    (cancelled (t_cleanup_key t) (cancelled (t_timeout_key t) (cancelled (t_retransmit_key t) w)))
    (\<delta>(Client b := None))"
    using assms(2) by simp
  from in_step_cancel [OF this, of "CancelRetransmit b"] show ?thesis using assms(2) by simp
qed

lemma in_step_leave_server:
  assumes "in_step F (slot s) w \<delta>" "servers s k = Some t"
  shows "in_step F ((slot s)(ServerRetransmit k := None, Cleanup (Server k) := None))
    (cancelled (t_cleanup_key t) (cancelled (t_retransmit_key t) w)) (\<delta>(Server k := None))"
proof -
  from in_step_cancel [OF assms(1), of "ServerRetransmit k"]
  have "in_step F ((slot s)(ServerRetransmit k := None)) (cancelled (t_retransmit_key t) w) \<delta>"
    using assms(2) by simp
  from in_step_leave [OF this, of "Server k"] show ?thesis using assms(2) by simp
qed

text \<open>The maps and the wheel after a deletion.\<close>

lemma delete_client_state:
  assumes "clients s b = Some t"
  shows "clients (fst (delete_txn E (Client b) s)) = (clients s)(b := None)"
    "servers (fst (delete_txn E (Client b) s)) = servers s"
    "timers (fst (delete_txn E (Client b) s)) = timers (cancel_timers_of t s)"
  using assms
  by (simp_all add: delete_txn_def Let_def timers_cancel_timers_of split: option.splits)

lemma delete_server_state:
  assumes "servers s k = Some t"
  shows "servers (fst (delete_txn E (Server k) s)) = (servers s)(k := None)"
    "clients (fst (delete_txn E (Server k) s)) = clients s"
    "timers (fst (delete_txn E (Server k) s)) = timers (cancel_timers_of t s)"
  using assms
  by (simp_all add: delete_txn_def Let_def timers_cancel_timers_of split: option.splits)

lemma delete_absent: "txn s i = None \<Longrightarrow> delete_txn E i s = (s, False)"
  by (simp add: delete_txn_def)

lemma lockstep_delete:
  assumes ls: "lockstep now s"
  shows "lockstep now (fst (delete_txn E i s))"
proof (cases "txn s i")
  case None
  then show ?thesis using ls by (simp add: delete_absent)
next
  case t: (Some t)
  show ?thesis
  proof (cases i)
    case (Client b)
    with t have tb: "clients s b = Some t" by simp
    show ?thesis
      unfolding Client
      by (rule lockstep_clientsI [OF ls delete_client_state(2,1) [OF tb]])
        (use in_step_leave_client [OF lockstep_in_step [OF ls] tb] tb in
          \<open>simp_all add: delete_client_state timers_cancel_timers_of\<close>)
  next
    case (Server k)
    with t have tk: "servers s k = Some t" by simp
    have "t_timeout_key t = None" "t_cancel_retransmit_key t = None"
      using lockstep_server_ok [OF ls tk] by (simp_all add: server_ok_def)
    then show ?thesis
      unfolding Server
      by (intro lockstep_serversI [OF ls delete_server_state(2,1) [OF tk]])
        (use in_step_leave_server [OF lockstep_in_step [OF ls] tk] tk in
          \<open>simp_all add: delete_server_state timers_cancel_timers_of\<close>)
  qed
qed

lemma cancelled_upd_other: "ko \<noteq> Some k \<Longrightarrow> cancelled ko (w(k \<mapsto> e)) = (cancelled ko w)(k \<mapsto> e)"
  by (cases ko) (auto simp: fun_upd_twist)

lemma slot_in_dom: "in_step F \<sigma> w \<delta> \<Longrightarrow> tracked tm \<Longrightarrow> k \<notin> dom w \<Longrightarrow> \<sigma> tm \<noteq> Some k"
  by (auto dest: in_step_key)

lemma set_client_state:
  assumes "t_id t = Client b"
  shows "clients (set_txn t s) = (clients s)(b \<mapsto> t)" "servers (set_txn t s) = servers s"
    "timers (set_txn t s) = (case clients s b of None \<Rightarrow> timers s | Some old \<Rightarrow> timers (cancel_timers_of old s))"
  using assms
  by (simp_all add: set_txn_def Let_def timers_cancel_timers_of split: option.splits)

lemma set_server_state:
  assumes "t_id t = Server k"
  shows "servers (set_txn t s) = (servers s)(k \<mapsto> t)" "clients (set_txn t s) = clients s"
    "timers (set_txn t s) = (case servers s k of None \<Rightarrow> timers s | Some old \<Rightarrow> timers (cancel_timers_of old s))"
  using assms
  by (simp_all add: set_txn_def Let_def timers_cancel_timers_of split: option.splits)

text \<open>What a transaction is as it enters: no timer running, its lifetime the backstop.\<close>

definition entering :: "layer_env \<Rightarrow> new_transaction \<Rightarrow> transaction \<Rightarrow> bool" where
  "entering E head t \<longleftrightarrow> t_id t = t_id head \<and> t_retransmit_key t = None \<and> t_timeout_key t = None \<and>
     t_cancel_retransmit_key t = None \<and> t_held_cancel t = None \<and> t_unsent_cancel t = None \<and>
     (role_of (t_id head) = RClient \<longrightarrow> t_state t \<noteq> Confirmed) \<and>
     t_lifetime t = LActive (from_now E (ms (open_budget E (t_kind head))))"

lemma transaction_new_fields [simp]:
  "t_id (transaction_new c head lt) = t_id head" "t_kind (transaction_new c head lt) = t_kind head"
  "t_state (transaction_new c head lt) = t_state head" "t_call_ref (transaction_new c head lt) = t_call_ref head"
  "t_retransmit_key (transaction_new c head lt) = None" "t_timeout_key (transaction_new c head lt) = None"
  "t_cleanup_key (transaction_new c head lt) = None" "t_cancel_retransmit_key (transaction_new c head lt) = None"
  "t_held_cancel (transaction_new c head lt) = None" "t_seed_resend (transaction_new c head lt) = None"
  "t_unsent_cancel (transaction_new c head lt) = None" "t_lifetime (transaction_new c head lt) = lt"
  "t_orphaned (transaction_new c head lt) = False" "t_unsent_ack (transaction_new c head lt) = None"
  "t_created_at (transaction_new c head lt) = c" "t_held (transaction_new c head lt) = False"
  "t_original_request (transaction_new c head lt) = t_original_request head"
  "t_destination (transaction_new c head lt) = t_destination head"
  "t_method (transaction_new c head lt) = t_method head"
  by (simp_all add: transaction_new_def new_transaction.defs)

lemma open_state:
  assumes t: "t = finish (transaction_new (e_now E) head (LActive (from_now E (ms (open_budget E (t_kind head))))))"
    and d: "d = deadline_of (t_lifetime t)"
  shows "open_txn_with E head finish s =
    set_txn (t\<lparr>t_cleanup_key := Some (e_fresh_key E (timers s))\<rparr>)
      (s\<lparr>timers := (timers s)(e_fresh_key E (timers s) \<mapsto>
         (Cleanup (t_id t), e_now E + min (d - e_now E) MAX_DELAY))\<rparr>)"
  using assms by (simp add: open_txn_with_def insert_at_def arm_def Let_def case_prod_beta)

text \<open>The wheel as the transaction that held the identity leaves, whether or not there was one.\<close>

lemma displaced_client_view:
  assumes ls: "lockstep now s" and k: "k \<notin> dom (timers s)" and i: "t_id t = Client b"
  shows "\<exists>w. in_step (now + MAX_DELAY) ((slot s)(ClientRetransmit b := None, ClientTimeout b := None,
      Cleanup (Client b) := None, CancelRetransmit b := None)) w ((due_of s)(Client b := None)) \<and> k \<notin> dom w \<and>
    timers (set_txn t (s\<lparr>timers := (timers s)(k \<mapsto> e)\<rparr>)) = w(k \<mapsto> e)"
proof (cases "clients s b")
  case None
  then have "(slot s)(ClientRetransmit b := None, ClientTimeout b := None, Cleanup (Client b) := None,
      CancelRetransmit b := None) = slot s" "(due_of s)(Client b := None) = due_of s"
    by (auto simp: fun_eq_iff due_of_def)
  then show ?thesis using lockstep_in_step [OF ls] k None
    by (intro exI [of _ "timers s"]) (simp add: set_client_state [OF i])
next
  case (Some old)
  note view = lockstep_in_step [OF ls]
  have ne: "t_retransmit_key old \<noteq> Some k" "t_timeout_key old \<noteq> Some k" "t_cleanup_key old \<noteq> Some k"
    "t_cancel_retransmit_key old \<noteq> Some k"
    using slot_in_dom [OF view _ k, of "ClientRetransmit b"] slot_in_dom [OF view _ k, of "ClientTimeout b"]
      slot_in_dom [OF view _ k, of "Cleanup (Client b)"] slot_in_dom [OF view _ k, of "CancelRetransmit b"] Some
    by auto
  have "k \<notin> dom (timers (cancel_timers_of old s))"
    using k by (auto simp: timers_cancel_timers_of cancelled_Some_iff domIff)
  with in_step_leave_client [OF view Some] ne Some show ?thesis
    by (intro exI [of _ "timers (cancel_timers_of old s)"])
      (simp add: set_client_state [OF i] timers_cancel_timers_of cancelled_upd_other)
qed

lemma displaced_server_view:
  assumes ls: "lockstep now s" and k: "k \<notin> dom (timers s)" and i: "t_id t = Server j"
  shows "\<exists>w. in_step (now + MAX_DELAY) ((slot s)(ServerRetransmit j := None, Cleanup (Server j) := None)) w
      ((due_of s)(Server j := None)) \<and> k \<notin> dom w \<and>
    timers (set_txn t (s\<lparr>timers := (timers s)(k \<mapsto> e)\<rparr>)) = w(k \<mapsto> e)"
proof (cases "servers s j")
  case None
  then have "(slot s)(ServerRetransmit j := None, Cleanup (Server j) := None) = slot s"
    "(due_of s)(Server j := None) = due_of s"
    by (auto simp: fun_eq_iff due_of_def)
  then show ?thesis using lockstep_in_step [OF ls] k None
    by (intro exI [of _ "timers s"]) (simp add: set_server_state [OF i])
next
  case (Some old)
  note view = lockstep_in_step [OF ls]
  have ne: "t_retransmit_key old \<noteq> Some k" "t_cleanup_key old \<noteq> Some k"
    "t_timeout_key old = None" "t_cancel_retransmit_key old = None"
    using slot_in_dom [OF view _ k, of "ServerRetransmit j"] slot_in_dom [OF view _ k, of "Cleanup (Server j)"]
      Some lockstep_server_ok [OF ls Some] by (auto simp: server_ok_def)
  have "k \<notin> dom (timers (cancel_timers_of old s))"
    using k by (auto simp: timers_cancel_timers_of cancelled_Some_iff domIff)
  with in_step_leave_server [OF view Some] ne Some show ?thesis
    by (intro exI [of _ "timers (cancel_timers_of old s)"])
      (simp add: set_server_state [OF i] timers_cancel_timers_of cancelled_upd_other)
qed

lemma lockstep_set_client:
  assumes ls: "lockstep now s" and k: "k \<notin> dom (timers s)" and i: "t_id t = Client b" and ok: "client_ok b t"
    and keys: "t_retransmit_key t = None" "t_timeout_key t = None" "t_cancel_retransmit_key t = None"
      "t_cleanup_key t = Some k" "deadline_of (t_lifetime t) = d" "d \<le> now + MAX_DELAY"
  shows "lockstep now (set_txn t (s\<lparr>timers := (timers s)(k \<mapsto> (Cleanup (Client b), d))\<rparr>))" (is "lockstep now ?s'")
proof -
  let ?gone = "(slot s)(ClientRetransmit b := None, ClientTimeout b := None, Cleanup (Client b) := None,
      CancelRetransmit b := None)"
  obtain w where w: "in_step (now + MAX_DELAY) ?gone w ((due_of s)(Client b := None))" "k \<notin> dom w"
      "timers ?s' = w(k \<mapsto> (Cleanup (Client b), d))"
    using displaced_client_view [OF ls k i] by blast
  from in_step_enter [OF w(1) _ _ w(2) keys(6), of "Client b"] w(3)
  have "in_step (now + MAX_DELAY) (?gone(Cleanup (Client b) \<mapsto> k)) (timers ?s') ((due_of s)(Client b \<mapsto> d))"
    by simp
  moreover have "?gone(Cleanup (Client b) \<mapsto> k) = (slot s)(ClientRetransmit b := None, ClientTimeout b := None,
      Cleanup (Client b) \<mapsto> k, CancelRetransmit b := None)" by (auto simp: fun_eq_iff)
  ultimately show ?thesis
    by (intro lockstep_clientsI [OF ls, of _ b "Some t"])
      (use ok keys in \<open>auto simp: set_client_state [OF i]\<close>)
qed

lemma lockstep_set_server:
  assumes ls: "lockstep now s" and k: "k \<notin> dom (timers s)" and i: "t_id t = Server j" and ok: "server_ok j t"
    and keys: "t_retransmit_key t = None" "t_cleanup_key t = Some k" "deadline_of (t_lifetime t) = d"
      "d \<le> now + MAX_DELAY"
  shows "lockstep now (set_txn t (s\<lparr>timers := (timers s)(k \<mapsto> (Cleanup (Server j), d))\<rparr>))" (is "lockstep now ?s'")
proof -
  let ?gone = "(slot s)(ServerRetransmit j := None, Cleanup (Server j) := None)"
  obtain w where w: "in_step (now + MAX_DELAY) ?gone w ((due_of s)(Server j := None))" "k \<notin> dom w"
      "timers ?s' = w(k \<mapsto> (Cleanup (Server j), d))"
    using displaced_server_view [OF ls k i] by blast
  from in_step_enter [OF w(1) _ _ w(2) keys(4), of "Server j"] w(3)
  have "in_step (now + MAX_DELAY) (?gone(Cleanup (Server j) \<mapsto> k)) (timers ?s') ((due_of s)(Server j \<mapsto> d))"
    by simp
  then show ?thesis
    by (intro lockstep_serversI [OF ls, of _ j "Some t"])
      (use ok keys in \<open>auto simp: set_server_state [OF i]\<close>)
qed

lemma lockstep_open:
  assumes E: "env_ok E" and ls: "lockstep (e_now E) s"
    and ent: "entering E head (finish (transaction_new (e_now E) head
      (LActive (from_now E (ms (open_budget E (t_kind head)))))))"
  shows "lockstep (e_now E) (open_txn_with E head finish s)"
proof -
  define d where "d = from_now E (ms (open_budget E (t_kind head)))"
  define t where "t = finish (transaction_new (e_now E) head (LActive d))"
  define k where "k = e_fresh_key E (timers s)"
  from ent have t: "entering E head t" by (simp add: t_def d_def)
  have due: "d \<le> e_now E + MAX_DELAY" "e_now E + min (d - e_now E) MAX_DELAY = d"
    using from_now_bounds [OF E, of "ms (open_budget E (t_kind head))"] by (simp_all add: d_def)
  have k: "k \<notin> dom (timers s)" using lockstep_fresh [OF E ls] by (simp add: k_def)
  have st: "open_txn_with E head finish s = set_txn (t\<lparr>t_cleanup_key := Some k\<rparr>)
      (s\<lparr>timers := (timers s)(k \<mapsto> (Cleanup (t_id head), d))\<rparr>)"
    using open_state [OF refl refl, of E head finish s] t due(2)
    by (simp add: t_def k_def d_def [symmetric] entering_def)
  show ?thesis
  proof (cases "t_id head")
    case (Client b)
    with t show ?thesis unfolding st
      using lockstep_set_client [OF ls k, of "t\<lparr>t_cleanup_key := Some k\<rparr>" b d] due(1)
      by (simp add: entering_def client_ok_def d_def)
  next
    case (Server j)
    with t show ?thesis unfolding st
      using lockstep_set_server [OF ls k, of "t\<lparr>t_cleanup_key := Some k\<rparr>" j d] due(1)
      by (simp add: entering_def server_ok_def holds_487_def d_def)
  qed
qed

end
