(* ===== verification/Txn_Lockstep_Client.thy ===== *)
theory Txn_Lockstep_Client
  imports Txn_Lockstep
begin

text \<open>
  The event queue and the client handlers keep the timers in lockstep (\<open>events.rs\<close>, \<open>client.rs\<close>,
  \<open>client_give_up.rs\<close>, \<open>held_ack.rs\<close>, \<open>accepted.rs\<close>, \<open>orphan.rs\<close>). The collection \<open>step_inv\<close> holds one
  preservation rule per operation.
\<close>

lemmas txn_ok = client_ok_def server_ok_def holds_487_def same_timers_def

lemma same_timers_refl [simp]: "same_timers t t"
  by (simp add: same_timers_def)

section \<open>The event queue\<close>

lemma lockstep_channel_send [simp]: "lockstep now (fst (channel_send E ev s)) = lockstep now s"
  by (simp add: channel_send_def Let_def)

lemma lockstep_arm_event_retry [step_inv]:
  "env_ok E \<Longrightarrow> lockstep now s \<Longrightarrow> lockstep now (arm_event_retry E s)"
  by (simp add: arm_event_retry_def lockstep_arm_untracked)

lemma lockstep_defer [step_inv]: "env_ok E \<Longrightarrow> lockstep now s \<Longrightarrow> lockstep now (defer_event E ev s)"
  by (simp add: defer_event_def Let_def lockstep_arm_event_retry)

lemma lockstep_offer [step_inv]:
  assumes "env_ok E" "lockstep now s"
  shows "lockstep now (fst (offer E ev critical s))"
proof -
  obtain s1 r where c: "channel_send E ev s = (s1, r)" by (cases "channel_send E ev s")
  have "lockstep now s1" using assms(2) lockstep_channel_send [of now E ev s] by (simp add: c)
  with assms show ?thesis
    by (cases r) (simp_all add: offer_def c lockstep_defer)
qed

lemma lockstep_emit [step_inv]: "env_ok E \<Longrightarrow> lockstep now s \<Longrightarrow> lockstep now (fst (emit E ev s))"
  by (simp add: emit_def lockstep_offer)

lemma lockstep_emit_critical [step_inv]: "env_ok E \<Longrightarrow> lockstep now s \<Longrightarrow> lockstep now (emit_critical E ev s)"
  by (simp add: emit_critical_def lockstep_offer)

lemma lockstep_emit_keepalive [step_inv]:
  "env_ok E \<Longrightarrow> lockstep now s \<Longrightarrow> lockstep now (fst (emit_keepalive E ev s))"
  by (simp add: emit_keepalive_def Let_def lockstep_emit split: send_result.splits)

lemma lockstep_flush_loop: "lockstep now s \<Longrightarrow> lockstep now (fst (flush_loop E evs s))"
proof (induction evs arbitrary: s)
  case (Cons ev evs)
  obtain s1 r where c: "channel_send E ev s = (s1, r)" by (cases "channel_send E ev s")
  have "lockstep now s1" using Cons.prems lockstep_channel_send [of now E ev s] by (simp add: c)
  with Cons.IH show ?case by (cases r) (simp_all add: c)
qed simp

lemma lockstep_flush_deferred [step_inv]:
  "env_ok E \<Longrightarrow> lockstep now s \<Longrightarrow> lockstep now (flush_deferred E s)"
  using lockstep_flush_loop [of now s E "deferred_events s"]
  by (auto simp: flush_deferred_def case_prod_beta lockstep_arm_event_retry)

lemma lockstep_notify_quiesced [step_inv]:
  "env_ok E \<Longrightarrow> lockstep now s \<Longrightarrow> lockstep now (notify_quiesced E cr s)"
  by (simp add: notify_quiesced_def lockstep_emit_critical)

lemma lockstep_fold [step_inv]:
  "lockstep now s \<Longrightarrow> (\<And>x s. lockstep now s \<Longrightarrow> lockstep now (f x s)) \<Longrightarrow> lockstep now (fold f xs s)"
  by (induction xs arbitrary: s) auto

lemma lockstep_flush_pending_quiesce [step_inv]:
  "env_ok E \<Longrightarrow> lockstep now s \<Longrightarrow> lockstep now (flush_pending_quiesce E s)"
  unfolding flush_pending_quiesce_def by (rule lockstep_fold) (auto intro: lockstep_notify_quiesced)

section \<open>Detaching, expiring, sweeping\<close>

lemma lockstep_detach [step_inv]: "lockstep now s \<Longrightarrow> lockstep now (detach_from_call i s)"
proof (cases i)
  case (Client b)
  assume "lockstep now s"
  then have "lockstep now (upd_client b (\<lambda>t. t\<lparr>t_call_ref := None\<rparr>) s)"
    by (rule lockstep_upd_client) (simp add: txn_ok)
  with \<open>lockstep now s\<close> Client show ?thesis by (simp add: detach_from_call_def Let_def split: option.split)
next
  case (Server k)
  assume "lockstep now s"
  then have "lockstep now (upd_server k (\<lambda>t. t\<lparr>t_call_ref := None\<rparr>) s)"
    by (rule lockstep_upd_server) (simp add: txn_ok)
  with \<open>lockstep now s\<close> Server show ?thesis by (simp add: detach_from_call_def Let_def split: option.split)
qed

lemma lockstep_expire [step_inv]: "lockstep now s \<Longrightarrow> lockstep now (expire E i s)"
  using lockstep_delete [of now s E i] by (simp add: expire_def Let_def split: option.split prod.split)

lemma lockstep_sweep [step_inv]: "lockstep now s \<Longrightarrow> lockstep now (sweep_owner E s)"
  unfolding sweep_owner_def reap_overdue_def forget_expired_uas_tags_def Let_def lockstep_fields
  by (rule lockstep_fold) (simp_all add: lockstep_expire)

section \<open>Client timers\<close>

lemma lockstep_release_seed_resend [step_inv]:
  assumes E: "env_ok E" and ls: "lockstep now s"
  shows "lockstep now (release_seed_resend E b s)"
proof (cases "clients s b")
  case None
  then show ?thesis using ls by (simp add: release_seed_resend_def)
next
  case (Some t)
  show ?thesis
  proof (cases "gave_up (t_lifetime t) \<or> t_seed_resend t = None")
    case True
    then show ?thesis using ls Some by (auto simp: release_seed_resend_def split: option.split)
  next
    case False
    then obtain buf where buf: "t_seed_resend t = Some buf" by auto
    define s1 where "s1 = upd_client b (\<lambda>t. t\<lparr>t_seed_resend := None\<rparr>) s"
    have ls1: "lockstep now s1"
      unfolding s1_def using ls by (rule lockstep_upd_client) (simp add: txn_ok)
    have t1: "clients s1 b = Some (t\<lparr>t_seed_resend := None\<rparr>)" by (simp add: s1_def Some)
    have none: "t_retransmit_key t = None"
      using lockstep_client_ok [OF ls Some] buf by (simp add: client_ok_def)
    show ?thesis
      using False Some buf
      by (simp add: release_seed_resend_def Let_def case_prod_beta s1_def [symmetric])
        (rule lockstep_arm_client [where tm = "ClientRetransmit b" and s = s1 and d = "ms 0", OF E ls1 t1],
          use none t1 lockstep_client_ok [OF ls Some] in \<open>auto simp: txn_ok clients_upd_client\<close>)
  qed
qed

lemma lockstep_arm_cancel_retransmit [step_inv]:
  assumes E: "env_ok E" and ls: "lockstep now s"
  shows "lockstep now (arm_cancel_retransmit E b s)"
proof (cases "\<exists>t h. clients s b = Some t \<and> t_cancel_retransmit_key t = None \<and> t_held_cancel t = Some h \<and>
    armed (schedule_rfc CancelClient) \<noteq> None")
  case False
  then show ?thesis using ls by (auto simp: arm_cancel_retransmit_def split: option.split)
next
  case True
  then obtain t h l first where t: "clients s b = Some t" "t_cancel_retransmit_key t = None"
      "t_held_cancel t = Some h" "armed (schedule_rfc CancelClient) = Some (l, first)" by auto
  let ?f = "\<lambda>t. t\<lparr>t_held_cancel := map_option (\<lambda>h. h\<lparr>hc_ladder := Some l\<rparr>) (t_held_cancel t)\<rparr>"
  define s1 where "s1 = upd_client b ?f s"
  have ls1: "lockstep now s1"
    unfolding s1_def using ls
    by (rule lockstep_upd_client) (auto simp: txn_ok never_sent_def split: option.splits)
  have t1: "clients s1 b = Some (?f t)" by (simp add: s1_def t)
  show ?thesis
    using t
    by (simp add: arm_cancel_retransmit_def Let_def case_prod_beta s1_def [symmetric])
      (rule lockstep_arm_client [where tm = "CancelRetransmit b" and s = s1 and d = first, OF E ls1 t1],
        use t t1 lockstep_client_ok [OF ls1 t1] in \<open>auto simp: txn_ok clients_upd_client\<close>)
qed

lemma lockstep_fire_cancel_retransmit:
  assumes E: "env_ok E" and ls: "lockstep now s" and none: "slot s (CancelRetransmit b) = None"
  shows "lockstep now (fire_cancel_retransmit E b s)"
proof (cases "\<exists>t h. clients s b = Some t \<and> is_active (t_state t) \<and> t_held_cancel t = Some h \<and> hc_wire h \<noteq> WHeld")
  case False
  then show ?thesis using ls by (auto simp: fire_cancel_retransmit_def split: option.split)
next
  case True
  then obtain t h where t: "clients s b = Some t" "is_active (t_state t)" "t_held_cancel t = Some h"
      "hc_wire h \<noteq> WHeld" by auto
  obtain l rearm where adv: "advance_opt (hc_ladder h) = (l, rearm)" by (cases "advance_opt (hc_ladder h)")
  define s1 where "s1 = bump (Retransmits (Some CancelClient) MCancel None) (send_buffer (hc_buf h) (hc_dest h)
    (upd_client b (\<lambda>t. t\<lparr>t_held_cancel := Some (h\<lparr>hc_ladder := l\<rparr>)\<rparr>) s))"
  have ok: "client_ok b (t\<lparr>t_held_cancel := Some (h\<lparr>hc_ladder := l\<rparr>)\<rparr>)"
    using lockstep_client_ok [OF ls t(1)] t by (auto simp: txn_ok never_sent_def)
  then have "lockstep now (upd_client b (\<lambda>t. t\<lparr>t_held_cancel := Some (h\<lparr>hc_ladder := l\<rparr>)\<rparr>) s)"
    using t(1) by (intro lockstep_upd_client [OF ls]) (auto simp: same_timers_def)
  then have ls1: "lockstep now s1" by (simp add: s1_def)
  have t1: "clients s1 b = Some (t\<lparr>t_held_cancel := Some (h\<lparr>hc_ladder := l\<rparr>)\<rparr>)" by (simp add: s1_def t)
  have fire: "fire_cancel_retransmit E b s = (case rearm of
        None \<Rightarrow> s1
      | Some wait \<Rightarrow> upd_client b (\<lambda>t. t\<lparr>t_cancel_retransmit_key := Some (snd (arm E (CancelRetransmit b) wait s1))\<rparr>)
          (fst (arm E (CancelRetransmit b) wait s1)))"
    using t by (cases rearm) (simp_all add: fire_cancel_retransmit_def adv s1_def Let_def case_prod_beta)
  show ?thesis
  proof (cases rearm)
    case None
    then show ?thesis using ls1 fire by simp
  next
    case (Some wait)
    show ?thesis
      unfolding fire Some option.case
      by (rule lockstep_arm_client [where tm = "CancelRetransmit b" and s = s1 and d = wait, OF E ls1 t1])
        (use none t t1 ok in \<open>auto simp: client_ok_def clients_upd_client\<close>)
  qed
qed

lemma lockstep_fire_retransmit:
  assumes E: "env_ok E" and ls: "lockstep now s" and none: "slot s (ClientRetransmit b) = None"
    and seed: "\<And>t. clients s b = Some t \<Longrightarrow> t_seed_resend t = None"
  shows "lockstep now (fire_retransmit E b s)"
proof (cases "\<exists>t buf dest l. clients s b = Some t \<and> is_active (t_state t) \<and> t_retransmit_buf t = Some buf \<and>
    t_destination t = Some dest \<and> t_ladder t = Some l")
  case False
  then show ?thesis using ls by (auto simp: fire_retransmit_def Let_def split: option.split)
next
  case True
  then obtain t buf dest l where t: "clients s b = Some t" "is_active (t_state t)" "t_retransmit_buf t = Some buf"
      "t_destination t = Some dest" "t_ladder t = Some l" by auto
  define l1 where "l1 = (if t_kind t = KNonInvite \<and> t_state t = Proceeding then retarget l NonInviteProceeding else l)"
  obtain l2 rearm where adv: "advance l1 = (l2, rearm)" by (cases "advance l1")
  define s0 where "s0 = (case ladder_class l of
      None \<Rightarrow> send_buffer buf dest s
    | Some cls \<Rightarrow> bump (Retransmits (Some cls) (t_method t) None) (send_buffer buf dest s))"
  define s1 where "s1 = upd_client b (\<lambda>t. t\<lparr>t_ladder := Some l2\<rparr>) s0"
  have ls0: "lockstep now s0" "clients s0 = clients s" using ls by (simp_all add: s0_def split: option.split)
  then have ls1: "lockstep now s1"
    unfolding s1_def by (intro lockstep_upd_client) (auto simp: txn_ok)
  have t1: "clients s1 b = Some (t\<lparr>t_ladder := Some l2\<rparr>)" by (simp add: s1_def ls0 t)
  have fire: "fire_retransmit E b s = (case rearm of
        None \<Rightarrow> s1
      | Some wait \<Rightarrow> upd_client b (\<lambda>t. t\<lparr>t_retransmit_key := Some (snd (arm E (ClientRetransmit b) wait s1))\<rparr>)
          (fst (arm E (ClientRetransmit b) wait s1)))"
    using t adv
    by (cases rearm; cases "ladder_class l")
      (simp_all add: fire_retransmit_def Let_def case_prod_beta l1_def s0_def s1_def)
  show ?thesis
  proof (cases rearm)
    case None
    then show ?thesis using ls1 fire by simp
  next
    case (Some wait)
    show ?thesis
      unfolding fire Some option.case
      by (rule lockstep_arm_client [where tm = "ClientRetransmit b" and s = s1 and d = wait, OF E ls1 t1])
        (use none t t1 seed [OF t(1)] lockstep_client_ok [OF ls t(1)] in \<open>auto simp: client_ok_def clients_upd_client\<close>)
  qed
qed

lemma lockstep_start_client_retransmit:
  assumes E: "env_ok E" and ls: "lockstep now s"
    and fresh: "\<And>t. clients s b = Some t \<Longrightarrow> t_retransmit_key t = None \<and> t_timeout_key t = None \<and> t_seed_resend t = None"
  shows "lockstep now (start_client_retransmit E b buf dest max_ms tk s)"
proof (cases "\<exists>t l first. clients s b = Some t \<and>
    armed (with_give_up (schedule_rfc (case t_kind t of KInvite \<Rightarrow> InviteClient | KNonInvite \<Rightarrow> NonInviteClient))
      (ms (min max_ms TIMER_B))) = Some (l, first)")
  case False
  then show ?thesis using ls by (auto simp: start_client_retransmit_def Let_def split: option.split)
next
  case True
  then obtain t l first where t: "clients s b = Some t" "armed (with_give_up (schedule_rfc
      (case t_kind t of KInvite \<Rightarrow> InviteClient | KNonInvite \<Rightarrow> NonInviteClient)) (ms (min max_ms TIMER_B))) =
      Some (l, first)" by auto
  define k where "k = snd (arm E (ClientRetransmit b) first s)"
  define t1 where "t1 = t\<lparr>t_retransmit_key := Some k\<rparr>"
  define s1 where "s1 = upd_client b (\<lambda>t. t\<lparr>t_retransmit_key := Some k\<rparr>) (fst (arm E (ClientRetransmit b) first s))"
  have ok: "client_ok b t1" using lockstep_client_ok [OF ls t(1)] fresh [OF t(1)] by (simp add: txn_ok t1_def)
  have ls1: "lockstep now s1"
    by (rule lockstep_arm_client [where tm = "ClientRetransmit b" and d = first, OF E ls t(1) ok])
      (use t fresh [OF t(1)] in \<open>auto simp: s1_def t1_def k_def clients_upd_client\<close>)
  have c1: "clients s1 b = Some t1" by (simp add: s1_def t t1_def)
  have same: "timers s1 = timers (fst (arm E (ClientRetransmit b) first s))" by (simp add: s1_def)
  let ?k2 = "snd (arm E (ClientTimeout b) (ms max_ms) (fst (arm E (ClientRetransmit b) first s)))"
  have k2: "?k2 = snd (arm E (ClientTimeout b) (ms max_ms) s1)" by (simp add: timers_arm(2) same)
  have start: "start_client_retransmit E b buf dest max_ms tk s =
    upd_client b (\<lambda>t. t\<lparr>t_retransmit_key := Some k, t_timeout_key := Some ?k2, t_retransmit_buf := Some buf,
      t_ladder := Some l, t_timeout_kind := tk, t_destination := Some dest\<rparr>)
      (fst (arm E (ClientTimeout b) (ms max_ms) (fst (arm E (ClientRetransmit b) first s))))"
    using t by (simp add: start_client_retransmit_def Let_def case_prod_beta k_def)
  show ?thesis
    unfolding start
    by (rule lockstep_arm_client [where tm = "ClientTimeout b" and s = s1 and d = "ms max_ms", OF E ls1 c1])
      (use t c1 ok fresh [OF t(1)] k2 same in
        \<open>auto simp: s1_def t1_def client_ok_def clients_upd_client timers_arm fun_eq_iff\<close>)
qed

lemma clients_hold_txn:
  "clients (hold_txn E (Client b) why s) b' =
     (if b' = b then map_option (held_txn E why (hold_duration why) (timers s)) (clients s b) else clients s b')"
  by (cases "clients s b") (simp_all add: hold_txn_def hold_client_state hold_absent)

lemma lockstep_flush_cancel [step_inv]:
  assumes E: "env_ok E" and ls: "lockstep (e_now E) s" and st: "\<And>t. clients s b = Some t \<Longrightarrow> t_state t \<noteq> Trying"
  shows "lockstep (e_now E) (flush_cancel_on_provisional E b s)"
proof (cases "\<exists>t h. clients s b = Some t \<and> t_held_cancel t = Some h \<and> hc_wire h = WHeld")
  case False
  then show ?thesis using ls by (auto simp: flush_cancel_on_provisional_def split: option.split)
next
  case True
  then obtain t h where t: "clients s b = Some t" "t_held_cancel t = Some h" "hc_wire h = WHeld" by auto
  have "lockstep (e_now E) (upd_client b (\<lambda>t. t\<lparr>t_held_cancel := Some (h\<lparr>hc_wire := WSent\<rparr>)\<rparr>) s)"
    using ls by (rule lockstep_upd_client) (use st in \<open>auto simp: txn_ok\<close>)
  then show ?thesis
    using t E
    by (simp add: flush_cancel_on_provisional_def Let_def lockstep_arm_cancel_retransmit lockstep_hold)
qed

lemma never_sent_simps [simp]: "never_sent None = False" "never_sent (Some h) = (hc_wire h = WHeld)"
  by (simp_all add: never_sent_def)

lemma lockstep_complete_non_2xx [step_inv]:
  assumes E: "env_ok E" and ls: "lockstep (e_now E) s"
  shows "lockstep (e_now E) (complete_non_2xx E b s)"
proof (cases "clients s b")
  case None
  then show ?thesis using E ls by (simp add: complete_non_2xx_def Let_def lockstep_hold)
next
  case (Some t)
  let ?f = "\<lambda>t. clear_running (t\<lparr>t_state := Completed, t_held_cancel := None\<rparr>)"
  have "lockstep (e_now E) (cancel_timer (t_cancel_retransmit_key t) (cancel_timer (t_timeout_key t)
      (cancel_timer (t_retransmit_key t) (upd_client b ?f s))))"
    by (rule lockstep_forget_client [OF ls Some, where t' = "?f t" and r = True and m = True and c = True])
      (use lockstep_client_ok [OF ls Some] Some in \<open>auto simp: client_ok_def clear_running_def clients_upd_client\<close>)
  moreover have "upd_client b clear_running (upd_client b (\<lambda>t. t\<lparr>t_state := Completed, t_held_cancel := None\<rparr>) s) =
      upd_client b ?f s" by (simp add: upd_client_def Some)
  moreover have "lockstep (e_now E) (cancel_timer x (cancel_timer y (cancel_timer z
      (upd_client b clear_running (bump c (upd_client b f s)))))) =
    lockstep (e_now E) (cancel_timer x (cancel_timer y (cancel_timer z
      (upd_client b clear_running (upd_client b f s)))))" for c f x y z
    by (rule lockstep_cong) (simp_all add: clients_upd_client)
  ultimately show ?thesis
    using E Some by (simp add: complete_non_2xx_def Let_def lockstep_hold)
qed

lemma lockstep_give_up [step_inv]:
  assumes E: "env_ok E" and ls: "lockstep (e_now E) s"
  shows "lockstep (e_now E) (give_up_txn E b s)"
proof (cases "\<exists>t. clients s b = Some t \<and> t_kind t = KInvite")
  case False
  then show ?thesis using lockstep_delete [OF ls] by (auto simp: give_up_txn_def split: option.split)
next
  case True
  then obtain t where t: "clients s b = Some t" "t_kind t = KInvite" by blast
  let ?f = "\<lambda>t. t\<lparr>t_ladder := None, t_retransmit_key := None\<rparr>"
  have "lockstep (e_now E) (cancel_timer (t_retransmit_key t) (upd_client b ?f s))"
    by (rule lockstep_forget_client [OF ls t(1), where t' = "?f t" and r = True and m = False and c = False])
      (use lockstep_client_ok [OF ls t(1)] t in \<open>auto simp: client_ok_def clients_upd_client\<close>)
  with t E show ?thesis by (simp add: give_up_txn_def Let_def lockstep_hold)
qed

lemma lockstep_fire_timeout [step_inv]:
  "env_ok E \<Longrightarrow> lockstep (e_now E) s \<Longrightarrow> lockstep (e_now E) (fire_timeout E b s)"
  by (simp add: fire_timeout_def Let_def lockstep_give_up lockstep_emit_critical split: option.split)

lemma lockstep_fire_first_response [step_inv]:
  assumes "env_ok E" "lockstep now s"
  shows "lockstep now (fire_first_response E b s)"
proof -
  have "lockstep now (upd_client b (\<lambda>t. t\<lparr>t_dead_hop_reported := True\<rparr>) s)"
    using assms(2) by (rule lockstep_upd_client) (simp add: txn_ok)
  with assms show ?thesis
    by (auto simp: fire_first_response_def lockstep_emit lockstep_emit_critical split: option.split bool.split)
qed

lemma lockstep_rearm_invite_bound [step_inv]:
  assumes E: "env_ok E" and ls: "lockstep now s"
  shows "lockstep now (rearm_invite_bound E b s)"
proof (cases "clients s b")
  case None
  then show ?thesis using ls by (simp add: rearm_invite_bound_def)
next
  case (Some t)
  define s1 where "s1 = cancel_timer (t_timeout_key t) (upd_client b (\<lambda>t. t\<lparr>t_timeout_key := None\<rparr>) s)"
  have ls1: "lockstep now s1"
    by (rule lockstep_forget_client [OF ls Some,
          where t' = "t\<lparr>t_timeout_key := None\<rparr>" and r = False and m = True and c = False])
      (use lockstep_client_ok [OF ls Some] Some in \<open>auto simp: s1_def client_ok_def clients_upd_client\<close>)
  have t1: "clients s1 b = Some (t\<lparr>t_timeout_key := None\<rparr>)" by (simp add: s1_def Some)
  have "lockstep now (upd_client b (\<lambda>t. t\<lparr>t_timeout_key := Some (snd (arm E (ClientTimeout b) d s1)),
      t_timeout_kind := TKTransaction\<rparr>) (fst (arm E (ClientTimeout b) d s1)))" for d
    by (rule lockstep_arm_client [where tm = "ClientTimeout b" and d = d, OF E ls1 t1])
      (use t1 lockstep_client_ok [OF ls Some] in \<open>auto simp: client_ok_def clients_upd_client\<close>)
  with ls Some show ?thesis
    by (simp add: rearm_invite_bound_def Let_def case_prod_beta s1_def)
qed

lemma rearm_keeps_state:
  "map_option t_state (clients (rearm_invite_bound E b s) b') = map_option t_state (clients s b')"
  by (auto simp: rearm_invite_bound_def Let_def case_prod_beta clients_upd_client split: option.split)

section \<open>Accepted and orphaned transactions\<close>

lemma with_dialog_ok [simp]:
  "client_ok b (fst (with_dialog tag f t)) = client_ok b t" "same_timers t (fst (with_dialog tag f t))"
  "t_state (fst (with_dialog tag f t)) = t_state t" "t_call_ref (fst (with_dialog tag f t)) = t_call_ref t"
  "t_held_cancel (fst (with_dialog tag f t)) = t_held_cancel t"
  by (auto simp: with_dialog_def txn_ok split: option.split)

lemma lockstep_with_dialog [step_inv]:
  "lockstep now s \<Longrightarrow> lockstep now (upd_client b (\<lambda>t. fst (with_dialog tag f t)) s)"
  by (rule lockstep_upd_client) simp_all

text \<open>The transaction \<open>accept_core\<close> leaves.\<close>

definition accepted_txn :: "sip_response \<Rightarrow> transaction \<Rightarrow> transaction" where
  "accepted_txn resp t = clear_running (fst (with_dialog (rs_to_tag resp) (\<lambda>d. d)
     ((case t_original_request t of
        None \<Rightarrow> t\<lparr>t_state := Accepted, t_held_cancel := None\<rparr>
      | Some invite \<Rightarrow> t\<lparr>t_state := Accepted, t_held_cancel := None, t_original_request := None,
          t_retransmit_buf := Some (rq_image invite)\<rparr>)\<lparr>t_seed_resend := None, t_ladder := None\<rparr>)))"

lemma with_dialog_dialogs: "fst (with_dialog tag f t) = t\<lparr>t_dialogs := t_dialogs (fst (with_dialog tag f t))\<rparr>"
  by (auto simp: with_dialog_def split: option.split)

lemma accepted_txn_fields [simp]:
  "t_retransmit_key (accepted_txn resp t) = None" "t_timeout_key (accepted_txn resp t) = None"
  "t_cancel_retransmit_key (accepted_txn resp t) = None"
  "t_cleanup_key (accepted_txn resp t) = t_cleanup_key t" "t_lifetime (accepted_txn resp t) = t_lifetime t"
  "t_id (accepted_txn resp t) = t_id t" "t_state (accepted_txn resp t) = Accepted"
  "t_call_ref (accepted_txn resp t) = t_call_ref t" "t_held_cancel (accepted_txn resp t) = None"
  "t_seed_resend (accepted_txn resp t) = None" "t_orphaned (accepted_txn resp t) = t_orphaned t"
  unfolding accepted_txn_def clear_running_def
  by (subst with_dialog_dialogs; simp split: option.split)+

lemma accept_core_state:
  assumes "clients s b = Some t"
  shows "clients (accept_core t b resp s) = (clients s)(b \<mapsto> accepted_txn resp t)"
    "servers (accept_core t b resp s) = servers s"
    "timers (accept_core t b resp s) = cancelled (t_cancel_retransmit_key t)
      (cancelled (t_timeout_key t) (cancelled (t_retransmit_key t) (timers s)))"
  using assms
  by (simp_all add: accept_core_def Let_def clients_upd_client accepted_txn_def split: option.split)

lemma lockstep_accept_2xx [step_inv]:
  assumes E: "env_ok E" and ls: "lockstep (e_now E) s"
  shows "lockstep (e_now E) (accept_2xx E b resp s)"
proof (cases "clients s b")
  case None
  then show ?thesis using ls by (simp add: accept_2xx_def)
next
  case (Some t)
  have "lockstep (e_now E) (accept_core t b resp s)"
    by (rule lockstep_forget_client [OF ls Some, where t' = "accepted_txn resp t" and r = True and m = True and c = True])
      (use lockstep_client_ok [OF ls Some] in \<open>simp_all add: accept_core_state [OF Some] client_ok_def\<close>)
  then show ?thesis using E Some by (simp add: accept_2xx_def lockstep_hold)
qed

lemma lockstep_note_tu_ack [step_inv]: "lockstep now s \<Longrightarrow> lockstep now (note_tu_ack E ack buf dest s)"
  by (simp add: note_tu_ack_def Let_def lockstep_with_dialog split: option.split)

lemma lockstep_note_reliable_offer [step_inv]: "lockstep now s \<Longrightarrow> lockstep now (note_reliable_offer b resp s)"
  by (auto simp: note_reliable_offer_def Let_def txn_ok split: option.split intro!: lockstep_upd_client)

lemma lockstep_note_dialog_cseq [step_inv]: "lockstep now s \<Longrightarrow> lockstep now (note_dialog_cseq E cr req s)"
  unfolding note_dialog_cseq_def
  by (auto split: option.split intro!: lockstep_fold lockstep_upd_client)

section \<open>Sending a request\<close>

lemma lockstep_hold_cancel_unsent [step_inv]:
  assumes "env_ok E" "lockstep now s"
  shows "lockstep now (hold_cancel_unsent E b buf dest s)"
proof -
  have "lockstep now (upd_client b (\<lambda>t. t\<lparr>t_held_cancel := Some (held_cancel_new buf dest WHeld)\<rparr>) s)"
    using assms(2) by (rule lockstep_upd_client) (simp add: txn_ok held_cancel_new_def)
  with assms show ?thesis
    by (simp add: hold_cancel_unsent_def Let_def lockstep_release_seed_resend split: option.split)
qed

text \<open>The gate sends a CANCEL only on an INVITE that left \<open>Trying\<close>.\<close>

lemma gate_send_not_trying:
  "gate_of msg s = GSend \<Longrightarrow> live_invite msg s = Some b \<Longrightarrow> clients s b = Some t \<Longrightarrow> t_state t \<noteq> Trying"
  by (auto simp: gate_of_def live_invite_def split: if_splits option.splits)

lemma lockstep_send_raw [step_inv]:
  assumes E: "env_ok E" and ls: "lockstep (e_now E) s" and gate: "gate_of msg s = GSend"
  shows "lockstep (e_now E) (send_raw E msg buf dest s)"
proof (cases "live_invite msg s")
  case None
  then show ?thesis using ls by (simp add: send_raw_def Let_def lockstep_note_tu_ack)
next
  case (Some b)
  have "lockstep (e_now E) (upd_client b (park_cancel buf dest) s)"
    using ls
    by (rule lockstep_upd_client)
      (use gate_send_not_trying [OF gate Some] in \<open>auto simp: txn_ok park_cancel_def\<close>)
  then show ?thesis
    using E Some
    by (simp add: send_raw_def Let_def lockstep_note_tu_ack lockstep_arm_cancel_retransmit lockstep_hold)
qed

lemma lockstep_send_cancel_or_ack [step_inv]:
  "env_ok E \<Longrightarrow> lockstep (e_now E) s \<Longrightarrow> lockstep (e_now E) (send_cancel_or_ack E msg buf dest s)"
  by (cases "gate_of msg s")
    (simp_all add: send_cancel_or_ack_def lockstep_hold_cancel_unsent lockstep_send_raw)

lemma clients_open_client:
  "t_id (finish (transaction_new (e_now E) head (LActive (from_now E (ms (open_budget E (t_kind head))))))) = Client b \<Longrightarrow>
   clients (open_txn_with E head finish s) b = Some ((finish (transaction_new (e_now E) head
     (LActive (from_now E (ms (open_budget E (t_kind head)))))))\<lparr>t_cleanup_key := Some (e_fresh_key E (timers s))\<rparr>)"
  by (subst open_state [OF refl refl]) (simp add: set_client_state)

lemma lockstep_open_client [step_inv]:
  assumes E: "env_ok E" and ls: "lockstep (e_now E) s"
  shows "lockstep (e_now E) (open_client E b msg buf dest kind s)"
proof -
  define s1 where "s1 = send_buffer buf dest (note_dialog_cseq E (vm_call_ref (extract_via_custom_params msg)) msg s)"
  define s2 where "s2 = open_txn E (client_head kind b msg dest) s1"
  have "lockstep (e_now E) s1" using ls by (simp add: s1_def lockstep_note_dialog_cseq)
  then have ls2: "lockstep (e_now E) s2"
    unfolding s2_def open_txn_def by (rule lockstep_open [OF E]) (simp add: entering_def client_head_def)
  have t: "t_retransmit_key t = None \<and> t_timeout_key t = None \<and> t_seed_resend t = None"
    if "clients s2 b = Some t" for t
    using that by (auto simp: s2_def open_txn_def clients_open_client client_head_def)
  obtain max_ms tk where ct: "client_timeout E kind msg = (max_ms, tk)" by (cases "client_timeout E kind msg")
  have "lockstep (e_now E) (start_client_retransmit E b buf dest max_ms tk s2)"
    by (rule lockstep_start_client_retransmit [OF E ls2]) (use t in auto)
  then show ?thesis
    using E by (auto simp: open_client_def Let_def ct s1_def s2_def lockstep_arm_untracked)
qed

lemma lockstep_new_branch [simp]: "lockstep now (fst (new_branch E s)) = lockstep now s"
  "lockstep now (fst (new_tag E s)) = lockstep now s"
  by (simp_all add: new_branch_def new_tag_def)

lemma lockstep_request_branch [simp]: "lockstep now (fst (request_branch E msg s)) = lockstep now s"
  by (simp add: request_branch_def split: option.split)

lemma lockstep_send_request [step_inv]:
  "env_ok E \<Longrightarrow> lockstep (e_now E) s \<Longrightarrow> lockstep (e_now E) (fst (do_send_request E msg dest kind s))"
  by (simp add: do_send_request_def Let_def case_prod_beta lockstep_send_cancel_or_ack lockstep_open_client)

section \<open>Orphans\<close>

lemma lockstep_orphan_one [step_inv]: "lockstep now s \<Longrightarrow> lockstep now (orphan_one b s)"
  unfolding orphan_one_def by (intro lockstep_detach lockstep_upd_client) (auto simp: txn_ok)

lemma lockstep_orphan_draws [simp]:
  "lockstep now (fst (orphan_ack E b invite resp s)) = lockstep now s"
  "lockstep now (fst (orphan_bye E b invite resp s)) = lockstep now s"
  by (simp_all add: orphan_ack_def orphan_bye_def Let_def case_prod_beta split: option.split)

lemma lockstep_bye_unheld [step_inv]:
  assumes "env_ok E" "lockstep (e_now E) s"
  shows "lockstep (e_now E) (bye_unheld_dialog E b invite resp s)"
proof -
  obtain s1 built where o: "orphan_bye E b invite resp s = (s1, built)" by (cases "orphan_bye E b invite resp s")
  have "lockstep (e_now E) s1" using assms(2) lockstep_orphan_draws(2) [of "e_now E" E b invite resp s] by (simp add: o)
  with assms(1) show ?thesis
    by (cases built) (auto simp: bye_unheld_dialog_def o Let_def lockstep_orphan_one lockstep_send_request)
qed

lemma lockstep_release_2xx [step_inv]:
  assumes E: "env_ok E" and ls: "lockstep (e_now E) s"
  shows "lockstep (e_now E) (release_2xx E b resp s)"
proof -
  define s1 where "s1 = upd_client b (\<lambda>t. fst (with_dialog (rs_to_tag resp) (\<lambda>d. d) t)) s"
  have ls1: "lockstep (e_now E) s1" using ls by (simp add: s1_def lockstep_with_dialog)
  have ack: "lockstep (e_now E) s2" if "orphan_ack E b invite resp s1 = (s2, d)" for invite s2 d
    using ls1 lockstep_orphan_draws(1) [of "e_now E" E b invite resp s1] that by simp
  show ?thesis
    using ls E ls1
    by (auto simp: release_2xx_def Let_def s1_def [symmetric] lockstep_bye_unheld lockstep_with_dialog
        split: option.split prod.split dest!: ack)
qed

lemma lockstep_cancel_txns_for_call [step_inv]:
  "lockstep now s \<Longrightarrow> lockstep now (do_cancel_txns_for_call E cr s)"
  unfolding do_cancel_txns_for_call_def orphan_branch_def
  by (auto split: option.split intro!: lockstep_fold lockstep_orphan_one)

section \<open>Responses\<close>

lemma lockstep_send_held_ack [step_inv]: "lockstep now s \<Longrightarrow> lockstep now (fst (send_held_ack b s))"
  by (auto simp: send_held_ack_def txn_ok split: option.split intro: lockstep_upd_client)

lemma lockstep_fire_ack_bound [step_inv]: "lockstep now s \<Longrightarrow> lockstep now (fire_ack_bound E b opened s)"
  using lockstep_send_held_ack [of now s b]
  by (auto simp: fire_ack_bound_def split: prod.split bool.split)

lemma lockstep_ack_first [step_inv]:
  assumes "env_ok E" "lockstep now s"
  shows "lockstep now (ack_first_non_2xx E b ack s)"
proof -
  have "lockstep now (upd_client b (\<lambda>t. t\<lparr>t_unsent_ack := Some ack\<rparr>) s)"
    using assms(2) by (rule lockstep_upd_client) (simp add: txn_ok)
  with assms show ?thesis
    by (simp add: ack_first_non_2xx_def Let_def insert_at_def lockstep_arm_untracked split: option.split)
qed

lemma lockstep_take_non_2xx [step_inv]:
  "env_ok E \<Longrightarrow> lockstep (e_now E) s \<Longrightarrow> lockstep (e_now E) (take_non_2xx_final E b resp src t s)"
  by (auto simp: take_non_2xx_final_def Let_def lockstep_complete_non_2xx lockstep_emit_critical lockstep_ack_first
      split: option.split)

text \<open>A provisional: the INVITE's retransmission stops, the state is \<open>Proceeding\<close>.\<close>

lemma lockstep_proceeding:
  assumes ls: "lockstep now s" and t: "clients s b = Some t"
    and f: "\<And>t. same_timers t (f t) \<and> t_state (f t) = Proceeding \<and> t_id (f t) = t_id t \<and>
      t_seed_resend (f t) = t_seed_resend t"
  shows "lockstep now (if t_kind t = KInvite
      then cancel_timer (t_retransmit_key t) (upd_client b (\<lambda>t. t\<lparr>t_retransmit_key := None\<rparr>) (upd_client b f s))
      else upd_client b f s)"
proof -
  have ok: "client_ok b (f t)" using lockstep_client_ok [OF ls t] f [of t] by (simp add: txn_ok)
  have ls1: "lockstep now (upd_client b f s)"
    using ls by (rule lockstep_upd_client) (use t ok f in auto)
  have t1: "clients (upd_client b f s) b = Some (f t)" by (simp add: t)
  have "lockstep now (cancel_timer (t_retransmit_key (f t))
      (upd_client b (\<lambda>t. t\<lparr>t_retransmit_key := None\<rparr>) (upd_client b f s)))"
    by (rule lockstep_forget_client [OF ls1 t1, where t' = "(f t)\<lparr>t_retransmit_key := None\<rparr>" and
          r = True and m = False and c = False])
      (use ok t in \<open>auto simp: client_ok_def clients_upd_client\<close>)
  with ls1 f [of t] show ?thesis by (simp add: same_timers_def)
qed

lemma lockstep_take_100 [step_inv]:
  assumes E: "env_ok E" and ls: "lockstep (e_now E) s"
  shows "lockstep (e_now E) (fst (take_100 E b resp s))"
proof (cases "clients s b")
  case None
  then show ?thesis using ls by (simp add: take_100_def)
next
  case (Some t)
  define s1 where "s1 = (if t_kind t = KInvite
      then cancel_timer (t_retransmit_key t) (upd_client b (\<lambda>t. t\<lparr>t_retransmit_key := None\<rparr>)
        (upd_client b (\<lambda>t. t\<lparr>t_state := Proceeding\<rparr>) s))
      else upd_client b (\<lambda>t. t\<lparr>t_state := Proceeding\<rparr>) s)"
  have "lockstep (e_now E) s1"
    unfolding s1_def by (rule lockstep_proceeding [OF ls Some]) (simp add: same_timers_def)
  then have ls2: "lockstep (e_now E) (rearm_invite_bound E b s1)" by (rule lockstep_rearm_invite_bound [OF E])
  have "map_option t_state (clients (rearm_invite_bound E b s1) b) = Some Proceeding"
    by (simp add: rearm_keeps_state s1_def Some)
  then have "lockstep (e_now E) (flush_cancel_on_provisional E b (rearm_invite_bound E b s1))"
    by (intro lockstep_flush_cancel [OF E ls2]) auto
  with ls Some show ?thesis by (simp add: take_100_def Let_def s1_def)
qed

lemma reliable_offer_keeps_state:
  "map_option t_state (clients (note_reliable_offer b resp s) b') = map_option t_state (clients s b')"
  by (auto simp: note_reliable_offer_def clients_upd_client Let_def map_option_case split: option.split)

lemma lockstep_take_provisional [step_inv]:
  assumes E: "env_ok E" and ls: "lockstep (e_now E) s" and t: "clients s b = Some t"
  shows "lockstep (e_now E) (take_provisional E b resp t s)"
proof -
  define s1 where "s1 = (if t_kind t = KInvite
      then cancel_timer (t_retransmit_key t) (upd_client b (\<lambda>t. t\<lparr>t_retransmit_key := None\<rparr>)
        (upd_client b (\<lambda>t. t\<lparr>t_state := Proceeding, t_past_trying := True\<rparr>) s))
      else upd_client b (\<lambda>t. t\<lparr>t_state := Proceeding, t_past_trying := True\<rparr>) s)"
  define s2 where "s2 = (if t_kind t = KInvite then note_reliable_offer b resp s1 else s1)"
  have "lockstep (e_now E) s1"
    unfolding s1_def by (rule lockstep_proceeding [OF ls t]) (simp add: same_timers_def)
  then have "lockstep (e_now E) s2" by (simp add: s2_def lockstep_note_reliable_offer)
  then have ls2: "lockstep (e_now E) (rearm_invite_bound E b s2)" by (rule lockstep_rearm_invite_bound [OF E])
  have "map_option t_state (clients s1 b) = Some Proceeding" by (simp add: s1_def t)
  then have "map_option t_state (clients (rearm_invite_bound E b s2) b) = Some Proceeding"
    unfolding rearm_keeps_state s2_def by (simp add: reliable_offer_keeps_state del: map_option_eq_Some)
  then have "lockstep (e_now E) (flush_cancel_on_provisional E b (rearm_invite_bound E b s2))"
    by (intro lockstep_flush_cancel [OF E ls2]) auto
  with ls show ?thesis by (auto simp: take_provisional_def Let_def s1_def s2_def)
qed

lemma lockstep_take_cancel_response [step_inv]:
  assumes E: "env_ok E" and ls: "lockstep now s"
  shows "lockstep now (take_cancel_response E b resp src reoffer s)"
proof -
  have "lockstep now (cancel_timer (t_cancel_retransmit_key t)
      (upd_client b (\<lambda>t. t\<lparr>t_held_cancel := None, t_cancel_retransmit_key := None\<rparr>) s))" if "clients s b = Some t" for t
    by (rule lockstep_forget_client [OF ls that, where t' = "t\<lparr>t_held_cancel := None, t_cancel_retransmit_key := None\<rparr>"
          and r = False and m = False and c = True])
      (use lockstep_client_ok [OF ls that] that in \<open>auto simp: client_ok_def clients_upd_client\<close>)
  with ls E show ?thesis
    by (auto simp: take_cancel_response_def Let_def intro!: lockstep_emit split: option.split)
qed

lemma lockstep_take_final [step_inv]:
  "env_ok E \<Longrightarrow> lockstep (e_now E) s \<Longrightarrow> lockstep (e_now E) (take_final E b resp src t s)"
  by (simp add: take_final_def Let_def accept_orphaned_2xx_def lockstep_take_non_2xx lockstep_release_2xx
      lockstep_accept_2xx lockstep_emit_critical lockstep_delete)

lemma client_match_Some: "client_match b resp s = Some t \<Longrightarrow> clients s b = Some t"
  by (auto simp: client_match_def split: option.splits if_splits)

lemma lockstep_pass_up [step_inv]:
  "env_ok E \<Longrightarrow> lockstep now s \<Longrightarrow> lockstep now (pass_up E b resp src matched reoffer s)"
  by (simp add: pass_up_def Let_def lockstep_emit)

lemma lockstep_inbound_response [step_inv]:
  "env_ok E \<Longrightarrow> lockstep (e_now E) s \<Longrightarrow> lockstep (e_now E) (fst (inbound_response E resp src reoffer s))"
  by (auto simp: inbound_response_def Let_def lockstep_take_100 lockstep_take_cancel_response lockstep_pass_up
      lockstep_release_2xx lockstep_take_provisional [OF _ _ client_match_Some] lockstep_take_final
      split: option.split)

end
