(* ===== verification/Txn_Lockstep_Server.thy ===== *)
theory Txn_Lockstep_Server
  imports Txn_Lockstep_Client
begin

text \<open>
  The server handlers, the seeds and the loop keep the timers in lockstep (\<open>server.rs\<close>,
  \<open>server_cancel.rs\<close>, \<open>held_cancel.rs\<close>, \<open>trying.rs\<close>, \<open>unanswered.rs\<close>, \<open>relinquish.rs\<close>, \<open>seed.rs\<close>,
  \<open>commands.rs\<close>, \<open>run.rs\<close>); every reachable owner satisfies the invariant.
\<close>

section \<open>Finals\<close>

lemma servers_hold_txn:
  "servers (hold_txn E (Server k) why s) k' =
     (if k' = k then map_option (held_txn E why (hold_duration why) (timers s)) (servers s k) else servers s k')"
  by (cases "servers s k") (simp_all add: hold_txn_def hold_server_state hold_absent)

text \<open>Timer G is armed for a resident transaction that has none running.\<close>

lemma lockstep_arm_final_hold:
  assumes E: "env_ok E" and ls: "lockstep (e_now E) s" and t: "servers s k = Some t"
    and none: "t_retransmit_key t = None" "\<not> is_active (t_state t)" "\<not> holds_487 t"
  shows "lockstep (e_now E) (arm_final_hold E k kind status s)"
proof -
  define s1 where "s1 = hold_txn E (Server k) (final_hold kind status) s"
  define t1 where "t1 = held_txn E (final_hold kind status) (hold_duration (final_hold kind status)) (timers s) t"
  have ls1: "lockstep (e_now E) s1" using E ls by (simp add: s1_def lockstep_hold)
  have s1: "servers s1 k = Some t1" by (simp add: s1_def servers_hold_txn t t1_def)
  have t1: "t_retransmit_key t1 = None" "\<not> is_active (t_state t1)" "\<not> holds_487 t1" "server_ok k t1"
    using none lockstep_server_ok [OF ls1 s1] by (simp_all add: t1_def holds_487_def)
  have "lockstep (e_now E) (upd_server k (\<lambda>t. t\<lparr>t_retransmit_key := Some (snd (arm E (ServerRetransmit k) d s1)),
      t_ladder := Some l\<rparr>) (fst (arm E (ServerRetransmit k) d s1)))" for d l
    by (rule lockstep_arm_server [where d = d, OF E ls1 s1])
      (use t1 s1 in \<open>auto simp: server_ok_def holds_487_def servers_upd_server\<close>)
  then show ?thesis
    using ls1 by (auto simp: arm_final_hold_def Let_def case_prod_beta s1_def split: option.split)
qed

lemma lockstep_fire_server_retransmit:
  assumes E: "env_ok E" and ls: "lockstep now s" and none: "slot s (ServerRetransmit k) = None"
    and free: "\<And>t. servers s k = Some t \<Longrightarrow> \<not> holds_487 t"
  shows "lockstep now (fire_server_retransmit E k s)"
proof (cases "\<exists>t buf dest st l. servers s k = Some t \<and> t_kind t = KInvite \<and> t_state t = Completed \<and>
    t_last_response t = Some buf \<and> t_destination t = Some dest \<and> t_last_response_status t = Some st \<and> t_ladder t = Some l")
  case False
  then show ?thesis using ls by (auto simp: fire_server_retransmit_def Let_def split: option.split)
next
  case True
  then obtain t buf dest st l where t: "servers s k = Some t" "t_kind t = KInvite" "t_state t = Completed"
    "t_last_response t = Some buf" "t_destination t = Some dest" "t_last_response_status t = Some st"
    "t_ladder t = Some l" by auto
  obtain l2 rearm where adv: "advance l = (l2, rearm)" by (cases "advance l")
  define s1 where "s1 = upd_server k (\<lambda>t. t\<lparr>t_ladder := Some l2\<rparr>)
    (bump (Retransmits (Some InviteServerFinal) MInvite (Some st)) (send_buffer buf dest s))"
  have ls1: "lockstep now s1"
    unfolding s1_def by (rule lockstep_upd_server) (use ls in \<open>auto simp: txn_ok\<close>)
  have t1: "servers s1 k = Some (t\<lparr>t_ladder := Some l2\<rparr>)" by (simp add: s1_def t)
  have fire: "fire_server_retransmit E k s = (case rearm of
        None \<Rightarrow> s1
      | Some wait \<Rightarrow> upd_server k (\<lambda>t. t\<lparr>t_retransmit_key := Some (snd (arm E (ServerRetransmit k) wait s1))\<rparr>)
          (fst (arm E (ServerRetransmit k) wait s1)))"
    using t adv by (cases rearm) (simp_all add: fire_server_retransmit_def Let_def case_prod_beta s1_def)
  show ?thesis
  proof (cases rearm)
    case None
    then show ?thesis using ls1 fire by simp
  next
    case (Some wait)
    show ?thesis
      unfolding fire Some option.case
      by (rule lockstep_arm_server [where d = wait, OF E ls1 t1])
        (use none t t1 free [OF t(1)] lockstep_server_ok [OF ls t(1)] in
          \<open>auto simp: server_ok_def holds_487_def is_active_def servers_upd_server\<close>)
  qed
qed

lemma lockstep_bind_to_tag [simp]: "lockstep now (fst (bind_to_tag E resp s)) = lockstep now s"
  by (simp add: bind_to_tag_def Let_def split: tag_bound.split option.split)

lemma bind_to_tag_frame [simp]:
  "servers (fst (bind_to_tag E resp s)) = servers s" "clients (fst (bind_to_tag E resp s)) = clients s"
  "timers (fst (bind_to_tag E resp s)) = timers s"
  by (simp_all add: bind_to_tag_def Let_def split: tag_bound.split option.split)

lemma bind_to_tag_same [simp]:
  "rs_cseq_method (snd (bind_to_tag E resp s)) = rs_cseq_method resp"
  "rs_status (snd (bind_to_tag E resp s)) = rs_status resp"
  "of_response (snd (bind_to_tag E resp s)) = of_response resp"
  by (simp_all add: bind_to_tag_def Let_def retag_or_same_def retag_response_def of_response_def
      split: tag_bound.split option.split)

lemma lockstep_record_uas_tag [step_inv]: "lockstep now s \<Longrightarrow> lockstep now (record_uas_tag E k resp s)"
  by (auto simp: record_uas_tag_def txn_ok split: option.split intro: lockstep_upd_server)

lemma record_uas_tag_keeps:
  "servers s k = Some t \<Longrightarrow> \<exists>tag. servers (record_uas_tag E k resp s) k = Some (t\<lparr>t_final_to_tag := tag\<rparr>)"
  by (auto simp: record_uas_tag_def split: option.split intro: exI [of _ "t_final_to_tag t"])

lemma state_after_final: "200 \<le> st \<Longrightarrow> \<not> is_active (state_after kind st)"
  by (simp add: state_after_def is_active_def)

lemma state_after_provisional: "st < 200 \<Longrightarrow> state_after kind st = Proceeding"
  by (simp add: state_after_def)

lemma active_idle:
  "server_ok k t \<Longrightarrow> is_active (t_state t) \<Longrightarrow> t_retransmit_key t = None \<and> \<not> holds_487 t"
  by (simp add: server_ok_def)

text \<open>A final recorded on an active transaction, then its holds.\<close>

lemma lockstep_final_recorded:
  assumes E: "env_ok E" and ls: "lockstep (e_now E) s" and t: "servers s k = Some t" "is_active (t_state t)"
    and f: "same_timers t (f t)" "t_id (f t) = t_id t" "\<not> is_active (t_state (f t))"
      "t_unsent_cancel (f t) = t_unsent_cancel t"
  shows "lockstep (e_now E) (upd_server k f s)"
    "lockstep (e_now E) (arm_final_hold E k kind status (upd_server k f s))"
proof -
  note idle = active_idle [OF lockstep_server_ok [OF ls t(1)] t(2)]
  have ok: "server_ok k (f t)" using lockstep_server_ok [OF ls t(1)] f idle by (simp add: txn_ok)
  show ls1: "lockstep (e_now E) (upd_server k f s)"
    using ls by (rule lockstep_upd_server) (use t ok f in auto)
  show "lockstep (e_now E) (arm_final_hold E k kind status (upd_server k f s))"
    by (rule lockstep_arm_final_hold [OF E ls1, where t = "f t"])
      (use t f idle in \<open>auto simp: same_timers_def holds_487_def\<close>)
qed

lemma lockstep_note_response:
  assumes E: "env_ok E" and ls: "lockstep (e_now E) s"
    and act: "\<And>t. servers s k = Some t \<Longrightarrow> is_active (t_state t)"
  shows "lockstep (e_now E) (note_response E k resp s)"
proof (cases "servers s k")
  case None
  then show ?thesis using ls by (simp add: note_response_def)
next
  case (Some t)
  let ?tag = "if 100 < rs_status resp then rs_to_tag resp else None"
  let ?g = "\<lambda>t. t\<lparr>t_uas_to_tag := or_else (t_uas_to_tag t) ?tag, t_last_response := Some (rs_image resp),
    t_last_response_status := Some (rs_status resp), t_state := state_after (t_kind t) (rs_status resp)\<rparr>"
  show ?thesis
  proof (cases "200 \<le> rs_status resp")
    case True
    have "upd_server k (\<lambda>t. t\<lparr>t_original_request := None\<rparr>) (upd_server k ?g s) =
        upd_server k (\<lambda>t. (?g t)\<lparr>t_original_request := None\<rparr>) s" by (simp add: upd_server_def Some)
    then show ?thesis
      using lockstep_final_recorded(2) [OF E ls Some act [OF Some],
          where f = "\<lambda>t. (?g t)\<lparr>t_original_request := None\<rparr>"] True Some state_after_final [OF True]
      by (simp add: note_response_def Let_def same_timers_def)
  next
    case False
    have "lockstep (e_now E) (upd_server k ?g s)"
      using ls
      by (rule lockstep_upd_server)
        (use act [OF Some] Some False in \<open>auto simp: txn_ok state_after_provisional is_active_def\<close>)
    then show ?thesis using False Some by (simp add: note_response_def Let_def)
  qed
qed

lemma lockstep_send_response [step_inv]:
  assumes E: "env_ok E" and ls: "lockstep (e_now E) s"
  shows "lockstep (e_now E) (fst (do_send_response E msg dest s))"
proof -
  have act: "lockstep (e_now E) (note_response E k (snd (bind_to_tag E msg s))
      (record_uas_tag E k (snd (bind_to_tag E msg s)) (fst (bind_to_tag E msg s))))"
    if "\<not> drops_response msg s" "rs_cseq_method msg \<noteq> MCancel" "of_response msg = Some k" for k
  proof (rule lockstep_note_response [OF E])
    show "lockstep (e_now E) (record_uas_tag E k (snd (bind_to_tag E msg s)) (fst (bind_to_tag E msg s)))"
      using ls by (simp add: lockstep_record_uas_tag)
    fix t assume t: "servers (record_uas_tag E k (snd (bind_to_tag E msg s)) (fst (bind_to_tag E msg s))) k = Some t"
    then obtain t0 where t0: "servers s k = Some t0"
      by (auto simp: record_uas_tag_def split: option.splits if_splits)
    then have "\<exists>tag. t = t0\<lparr>t_final_to_tag := tag\<rparr>"
      using record_uas_tag_keeps [of "fst (bind_to_tag E msg s)" k t0 E "snd (bind_to_tag E msg s)"] t by auto
    moreover have "\<not> sent_final (t_state t0)" using that t0 by (simp add: drops_response_def)
    ultimately show "is_active (t_state t)" by (cases "t_state t0") (auto simp: sent_final_def is_active_def)
  qed
  show ?thesis
    using ls act
    by (auto simp: do_send_response_def Let_def case_prod_beta split: option.split)
qed

lemma lockstep_hold_for_timer_i [step_inv]:
  assumes E: "env_ok E" and ls: "lockstep (e_now E) s"
  shows "lockstep (e_now E) (hold_for_timer_i E k s)"
proof (cases "servers s k")
  case None
  then show ?thesis using ls by (simp add: hold_for_timer_i_def)
next
  case (Some t)
  let ?f = "\<lambda>t. t\<lparr>t_retransmit_key := None, t_state := Confirmed, t_ladder := None\<rparr>"
  have "lockstep (e_now E) (cancel_timer (t_retransmit_key t) (upd_server k ?f s))"
    by (rule lockstep_forget_server [OF ls Some, where t' = "?f t"])
      (use lockstep_server_ok [OF ls Some] Some in
        \<open>auto simp: server_ok_def holds_487_def is_active_def servers_upd_server\<close>)
  with E Some show ?thesis by (simp add: hold_for_timer_i_def Let_def lockstep_detach lockstep_hold)
qed

section \<open>A CANCEL and its answers\<close>

lemma lockstep_send_held_cancel [step_inv]:
  assumes E: "env_ok E" and ls: "lockstep (e_now E) s"
  shows "lockstep (e_now E) (fst (send_held_cancel E k s))"
proof (cases "\<exists>t u. servers s k = Some t \<and> t_unsent_cancel t = Some u")
  case False
  then show ?thesis using ls by (auto simp: send_held_cancel_def bind_eq_Some_conv split: option.split)
next
  case True
  then obtain t u where t: "servers s k = Some t" "t_unsent_cancel t = Some u" by blast
  define s0 where "s0 = upd_server k (\<lambda>t. t\<lparr>t_unsent_cancel := None\<rparr>) s"
  define s1 where "s1 = send_opt (terminated u) (send_opt (cancel_ok u)
    (s0\<lparr>held_cancels := (held_cancels s0)(held_as u := None)\<rparr>))"
  have "lockstep (e_now E) s0" unfolding s0_def using ls by (rule lockstep_upd_server) (auto simp: txn_ok)
  then have ls1: "lockstep (e_now E) s1" by (simp add: s1_def)
  have t1: "servers s1 k = Some (t\<lparr>t_unsent_cancel := None\<rparr>)" by (simp add: s1_def s0_def t)
  have send: "fst (send_held_cancel E k s) = (if terminated u = None then s1 else arm_final_hold E k KInvite 487 s1)"
    using t by (simp add: send_held_cancel_def Let_def s1_def s0_def)
  show ?thesis
  proof (cases "terminated u")
    case None
    then show ?thesis using send ls1 by simp
  next
    case (Some d)
    with lockstep_server_ok [OF ls t(1)] t(2)
    have "t_retransmit_key t = None" "\<not> is_active (t_state t)" by (simp_all add: server_ok_def holds_487_def)
    then show ?thesis
      unfolding send using Some lockstep_arm_final_hold [OF E ls1 t1] by (simp add: holds_487_def)
  qed
qed

lemma lockstep_fire_cancel_bound [step_inv]:
  "env_ok E \<Longrightarrow> lockstep (e_now E) s \<Longrightarrow> lockstep (e_now E) (fire_cancel_bound E k opened s)"
  using lockstep_send_held_cancel [of E s k]
  by (auto simp: fire_cancel_bound_def split: prod.split bool.split)

lemma lockstep_release_held_cancel [step_inv]:
  "env_ok E \<Longrightarrow> lockstep (e_now E) s \<Longrightarrow> lockstep (e_now E) (fst (release_held_cancel E h s))"
  by (simp add: release_held_cancel_def lockstep_send_held_cancel split: option.split)

lemma lockstep_waive [step_inv]: "lockstep now s \<Longrightarrow> lockstep now (waive_held_final k s)"
  unfolding waive_held_final_def
  by (rule lockstep_upd_server) (auto simp: txn_ok bind_eq_Some_conv)

lemma lockstep_flush_owed [step_inv]: "lockstep now s \<Longrightarrow> lockstep now (flush_owed_sends s)"
  unfolding flush_owed_sends_def by (rule lockstep_fold) auto

lemma lockstep_uas_to_tag_of [step_inv]: "lockstep now s \<Longrightarrow> lockstep now (fst (uas_to_tag_of E k s))"
  by (auto simp: uas_to_tag_of_def Let_def case_prod_beta txn_ok split: option.split intro!: lockstep_upd_server)

lemma uas_to_tag_of_servers:
  "servers (fst (uas_to_tag_of E k s)) k = Some t \<Longrightarrow> \<exists>t0 tag. servers s k = Some t0 \<and> t = t0\<lparr>t_uas_to_tag := tag\<rparr>"
  by (auto simp: uas_to_tag_of_def Let_def case_prod_beta new_tag_def split: option.splits
      intro: exI [of _ "t_uas_to_tag t"])

lemma lockstep_hold_cancel_answers:
  assumes E: "env_ok E" and ls: "lockstep now s"
    and idle: "term \<noteq> None \<Longrightarrow> servers s k = Some t \<Longrightarrow> \<not> is_active (t_state t) \<and> t_retransmit_key t = None"
    and t: "servers s k = Some t"
  shows "lockstep now (hold_cancel_answers E k h ok term s)"
proof -
  have "lockstep now (upd_server k
      (\<lambda>t. t\<lparr>t_unsent_cancel := Some \<lparr>cancel_ok = ok, terminated = term, held_as = h\<rparr>\<rparr>) s)"
    using ls by (rule lockstep_upd_server) (use t idle in \<open>auto simp: txn_ok\<close>)
  then show ?thesis
    using E t by (simp add: hold_cancel_answers_def Let_def insert_at_def lockstep_arm_untracked)
qed

lemma lockstep_terminate_invite:
  assumes E: "env_ok E" and ls: "lockstep (e_now E) s" and t: "servers s k = Some t" "is_active (t_state t)"
  shows "lockstep (e_now E) (fst (terminate_invite E k tag cd s)) \<and>
    (\<exists>t'. servers (fst (terminate_invite E k tag cd s)) k = Some t' \<and>
      (snd (terminate_invite E k tag cd s) \<noteq> None \<longrightarrow> \<not> is_active (t_state t') \<and> t_retransmit_key t' = None))"
proof (cases "Option.bind (t_original_request t) (\<lambda>orig. generate_response E orig 487 tag None)")
  case None
  then show ?thesis using ls t by (simp add: terminate_invite_def Let_def)
next
  case (Some ans)
  let ?f = "\<lambda>t. t\<lparr>t_state := Completed, t_last_response := Some (rs_image ans),
    t_last_response_status := Some 487, t_original_request := None\<rparr>"
  define sb where "sb = (if holds_cancel_answers E then s
     else send_buffer (rs_image ans) (case t_destination t of Some d \<Rightarrow> d | None \<Rightarrow> cd) s)"
  define s0 where "s0 = record_uas_tag E k ans sb"
  have ls0: "lockstep (e_now E) s0" using ls by (simp add: s0_def sb_def lockstep_record_uas_tag)
  have "servers sb k = Some t" using t by (simp add: sb_def)
  from record_uas_tag_keeps [OF this, of E ans]
  obtain t0 where t0: "servers s0 k = Some t0" "t_state t0 = t_state t" "t_retransmit_key t0 = t_retransmit_key t"
    by (auto simp: s0_def)
  have act: "is_active (t_state t0)" using t t0 by simp
  note rec = lockstep_final_recorded [OF E ls0 t0(1) act, where f = ?f]
  have "fst (terminate_invite E k tag cd s) =
      (if holds_cancel_answers E then upd_server k ?f s0 else arm_final_hold E k KInvite 487 (upd_server k ?f s0)) \<and>
    (snd (terminate_invite E k tag cd s) \<noteq> None \<longleftrightarrow> holds_cancel_answers E)"
    using Some t by (auto simp: terminate_invite_def Let_def s0_def sb_def split: option.split)
  moreover have "\<exists>t'. servers (arm_final_hold E k KInvite 487 (upd_server k ?f s0)) k = Some t'"
    using t0 by (auto simp: arm_final_hold_def Let_def case_prod_beta servers_hold_txn split: option.split)
  moreover have "t_retransmit_key t = None"
    using active_idle [OF lockstep_server_ok [OF ls t(1)] t(2)] by simp
  ultimately show ?thesis
    using rec t0 by (auto simp: same_timers_def is_active_def split: if_splits)
qed

lemma lockstep_cancel_matched:
  assumes E: "env_ok E" and ls: "lockstep (e_now E) s" and t: "servers s k = Some t" "is_active (t_state t)"
  shows "lockstep (e_now E) (cancel_matched E k req cd s)"
proof -
  obtain s1 tag where u: "uas_to_tag_of E k s = (s1, tag)" by (cases "uas_to_tag_of E k s")
  have ls1: "lockstep (e_now E) s1" using lockstep_uas_to_tag_of [OF ls, of E k] by (simp add: u)
  define ok where "ok = map_option (\<lambda>r. (rs_image r, cd)) (generate_response E req 200 tag None)"
  define s2 where "s2 = (if holds_cancel_answers E then s1 else send_opt ok s1)"
  have ls2: "lockstep (e_now E) s2" using ls1 by (simp add: s2_def)
  have "\<exists>t1. servers s1 k = Some t1 \<and> is_active (t_state t1)"
    using t u by (auto simp: uas_to_tag_of_def Let_def case_prod_beta new_tag_def split: option.splits prod.splits)
  then obtain t2 where t2: "servers s2 k = Some t2" "is_active (t_state t2)" by (auto simp: s2_def)
  obtain s3 h where ter: "terminate_invite E k tag cd s2 = (s3, h)" by (cases "terminate_invite E k tag cd s2")
  from lockstep_terminate_invite [OF E ls2 t2, of tag cd] ter
  obtain t3 where s3: "lockstep (e_now E) s3" "servers s3 k = Some t3"
    "h \<noteq> None \<longrightarrow> \<not> is_active (t_state t3) \<and> t_retransmit_key t3 = None" by auto
  have "lockstep (e_now E) (hold_cancel_answers E k x ok h s3)" for x
    by (rule lockstep_hold_cancel_answers [OF E s3(1) _ s3(2)]) (use s3(3) in auto)
  with E s3(1) show ?thesis
    using ter by (cases "holds_cancel_answers E")
      (simp_all add: cancel_matched_def Let_def u ok_def [symmetric] s2_def lockstep_emit_critical)
qed

lemma cancelled_invite_Some:
  assumes "lockstep now s" "cancelled_invite req pick s = Some k"
  shows "\<exists>t. servers s k = Some t \<and> pick t"
proof -
  from assms(2) obtain j t where j: "servers s j = Some t" "pick t" "t_id t = Server k"
    by (auto simp: cancelled_invite_def bind_eq_Some_conv split: option.splits if_splits txn_id.splits)
  with lockstep_server_ok [OF assms(1) j(1)] show ?thesis by (auto simp: server_ok_def)
qed

lemma lockstep_handle_cancel [step_inv]:
  assumes E: "env_ok E" and ls: "lockstep (e_now E) s"
  shows "lockstep (e_now E) (fst (handle_cancel E req src dg s))"
proof -
  have "lockstep (e_now E) (cancel_matched E k req cd s)"
    if "cancelled_invite req (\<lambda>t. cancel_scope req t \<and> is_active (t_state t)) s = Some k" for k cd
    using cancelled_invite_Some [OF ls that] lockstep_cancel_matched [OF E ls] by blast
  moreover have "lockstep (e_now E) (answer_answered_cancel E k req cd s)" for k cd
    using lockstep_uas_to_tag_of [OF ls, of E k] by (simp add: answer_answered_cancel_def Let_def case_prod_beta)
  ultimately show ?thesis
    using ls E by (auto simp: handle_cancel_def Let_def lockstep_emit split: option.split)
qed

section \<open>Requests\<close>

lemma lockstep_send_first_trying [step_inv]: "lockstep now s \<Longrightarrow> lockstep now (fst (send_first_trying E k s))"
proof -
  assume ls: "lockstep now s"
  have "lockstep now (upd_server k (\<lambda>t. t\<lparr>t_state := Proceeding, t_last_response := Some x,
      t_last_response_status := Some 100\<rparr>) (send_buffer y z s))"
    if "servers s k = Some t" "t_state t = Trying" for t x y z
    by (rule lockstep_upd_server) (use ls that in \<open>auto simp: txn_ok is_active_def\<close>)
  with ls show ?thesis by (auto simp: send_first_trying_def Let_def split: option.split)
qed

lemma lockstep_fire_trying [step_inv]: "lockstep now s \<Longrightarrow> lockstep now (fire_trying E k opened s)"
  by (simp add: fire_trying_def lockstep_send_first_trying)

lemma lockstep_stamp [simp]: "lockstep now (fst (stamp_request E req src s)) = lockstep now s"
  "lockstep now (fst (upward E req src dg s)) = lockstep now s"
  by (simp_all add: stamp_request_def upward_def Let_def)

lemma lockstep_hand_up [step_inv]:
  "env_ok E \<Longrightarrow> lockstep now s \<Longrightarrow> lockstep now (fst (hand_up E req src dg s))"
  by (simp add: hand_up_def Let_def case_prod_beta lockstep_emit)

lemma lockstep_replay [step_inv]: "lockstep now s \<Longrightarrow> lockstep now (fst (replay_cached E req src s))"
proof -
  assume ls: "lockstep now s"
  have "lockstep now (upd_server k (\<lambda>t. t\<lparr>t_last_response := Some x, t_last_response_status := Some 100\<rparr>) s')"
    if "lockstep now s'" for k x s'
    using that by (rule lockstep_upd_server) (auto simp: txn_ok)
  with ls show ?thesis
    by (auto simp: replay_cached_def Let_def case_prod_beta split: option.split)
qed

lemma lockstep_acknowledges [simp]: "lockstep now (fst (acknowledges_refusal E ack s)) = lockstep now s"
  by (simp add: acknowledges_refusal_def case_prod_beta split: option.split)

lemma lockstep_pass_ack [step_inv]:
  assumes E: "env_ok E" and ls: "lockstep now s"
  shows "lockstep now (pass_ack E req src dg s)"
proof -
  obtain s1 b where a: "acknowledges_refusal E req s = (s1, b)" by (cases "acknowledges_refusal E req s")
  have "lockstep now s1" using ls lockstep_acknowledges [of now E req s] by (simp add: a)
  with ls E show ?thesis by (cases b) (simp_all add: pass_ack_def a lockstep_hand_up)
qed

lemma lockstep_handle_ack [step_inv]:
  "env_ok E \<Longrightarrow> lockstep (e_now E) s \<Longrightarrow> lockstep (e_now E) (handle_ack E k req src dg s)"
  by (auto simp: handle_ack_def lockstep_pass_ack lockstep_hand_up lockstep_detach lockstep_hold_for_timer_i
      split: option.split txn_state.split)

lemma lockstep_judge [simp]: "lockstep now (fst (judge_new_invite E req dest s)) = lockstep now s"
  by (auto simp: judge_new_invite_def Let_def case_prod_beta split: option.split admission.split)

lemma lockstep_open_server [step_inv]:
  assumes E: "env_ok E" and ls: "lockstep (e_now E) s"
  shows "lockstep (e_now E) (open_server E k req src dg dest held s)"
proof -
  define s1 where "s1 = open_txn_with E (server_head k req dest) (\<lambda>t. t\<lparr>t_held := held\<rparr>) s"
  have ls1: "lockstep (e_now E) s1"
    unfolding s1_def by (rule lockstep_open [OF E ls]) (simp add: entering_def server_head_def Let_def)
  obtain s2 took where em: "emit E (EMessage (Req req) src False dg) s1 = (s2, took)"
    by (cases "emit E (EMessage (Req req) src False dg) s1")
  have "lockstep (e_now E) s2" using lockstep_emit [OF E ls1, of "EMessage (Req req) src False dg"] by (simp add: em)
  with ls1 E show ?thesis
    by (cases took)
      (auto simp: open_server_def Let_def s1_def [symmetric] em arm_trying_bound_def insert_at_def
        lockstep_emit_critical lockstep_arm_untracked lockstep_delete split: option.split)
qed

lemma lockstep_admit_request [step_inv]:
  assumes E: "env_ok E" and ls: "lockstep (e_now E) s"
  shows "lockstep (e_now E) (admit_request E req src dg s)"
proof -
  have "lockstep (e_now E) s2"
    if "judge_new_invite E r d (fst (stamp_request E req src s)) = (s2, x)" for r d s2 x
    using ls lockstep_judge [of "e_now E" E r d "fst (stamp_request E req src s)"] that by simp
  then show ?thesis
    using ls E
    by (auto simp: admit_request_def Let_def case_prod_beta lockstep_open_server
        split: option.split prod.split new_invite.split)
qed

lemma lockstep_inbound_request [step_inv]:
  assumes E: "env_ok E" and ls: "lockstep (e_now E) s"
  shows "lockstep (e_now E) (handle_inbound_request E req src s)"
proof -
  obtain s1 absorbed where r: "replay_cached E req src s = (s1, absorbed)" by (cases "replay_cached E req src s")
  have "lockstep (e_now E) s1" using lockstep_replay [OF ls, of E req src] by (simp add: r)
  with ls E show ?thesis
    by (cases absorbed)
      (auto simp: handle_inbound_request_def Let_def case_prod_beta r lockstep_hand_up lockstep_handle_ack
        lockstep_handle_cancel lockstep_emit_keepalive lockstep_admit_request split: option.split)
qed

end
