(* ===== verification/Txn_Lockstep_Layer.thy ===== *)
theory Txn_Lockstep_Layer
  imports Txn_Lockstep_Server
begin

text \<open>
  The releases of a call, the seeds, the commands and the loop keep the timers in lockstep
  (\<open>unanswered.rs\<close>, \<open>relinquish.rs\<close>, \<open>seed.rs\<close>, \<open>commands.rs\<close>, \<open>run.rs\<close>), so every reachable owner
  satisfies the invariant: every timer a transaction believes it has is in the wheel, every
  transaction timer of the wheel is the one its transaction keeps, and every transaction's clean-up
  is in the wheel at its deadline.
\<close>

section \<open>Requests discarded, calls relinquished\<close>

lemma lockstep_forget_unanswered [step_inv]:
  assumes "lockstep now s"
  shows "lockstep now (forget_unanswered E k c f s)"
proof -
  obtain s1 b where d: "delete_txn E (Server k) s = (s1, b)" by (cases "delete_txn E (Server k) s")
  have "lockstep now s1" using lockstep_delete [OF assms, of E "Server k"] by (simp add: d)
  with assms show ?thesis by (cases b) (simp_all add: forget_unanswered_def Let_def d)
qed

lemma lockstep_delete_all [step_inv]: "lockstep now s \<Longrightarrow> lockstep now (fst (delete_all E is s))"
proof (induction "is" arbitrary: s)
  case (Cons i "is")
  then show ?case using lockstep_delete [of now s E i] by (simp add: Let_def case_prod_beta)
qed simp

lemma lockstep_answer_each [step_inv]:
  assumes E: "env_ok E"
  shows "lockstep (e_now E) s \<Longrightarrow> lockstep (e_now E) (fst (answer_each E status xs s))"
proof (induction xs arbitrary: s)
  case (Cons x xs)
  obtain k req source where x: "x = (k, req, source)" by (cases x)
  show ?case
    using Cons lockstep_uas_to_tag_of [OF Cons.prems, of E k] lockstep_send_response [OF E]
    by (auto simp: x Let_def case_prod_beta split: option.split)
qed simp

lemma lockstep_releases [step_inv]:
  assumes E: "env_ok E" and ls: "lockstep (e_now E) s"
  shows "lockstep (e_now E) (fst (forget_unanswered_of_call E cr s))"
    "lockstep (e_now E) (fst (answer_unanswered_invites_of_call E cr status s))"
    "lockstep (e_now E) (fst (relinquish_accepted_of_call E cr s))"
    "lockstep (e_now E) (fst (relinquish_server E k s))"
    "lockstep (e_now E) (fst (relinquish_client E b s))"
  using ls lockstep_answer_each [OF E ls]
  by (simp_all add: forget_unanswered_of_call_def answer_unanswered_invites_of_call_def
      relinquish_accepted_of_call_def relinquish_server_def relinquish_client_def Let_def case_prod_beta
      lockstep_delete_all lockstep_delete lockstep_waive lockstep_send_held_ack)

lemma lockstep_relinquish_call [step_inv]:
  assumes "lockstep now s"
  shows "lockstep now (fst (relinquish_call E cr s))"
proof -
  have "lockstep now (fold waive_held_final ks (fold (\<lambda>b s. fst (send_held_ack b s)) cs
      (s\<lparr>self_release_watch := self_release_watch s - {cr}\<rparr>)))" for ks cs
    by (intro lockstep_fold) (use assms in \<open>simp_all add: lockstep_waive lockstep_send_held_ack\<close>)
  then show ?thesis by (simp add: relinquish_call_def Let_def case_prod_beta lockstep_delete_all)
qed

section \<open>Seeds\<close>

lemma servers_open_server:
  "t_id (finish (transaction_new (e_now E) head (LActive (from_now E (ms (open_budget E (t_kind head))))))) = Server k \<Longrightarrow>
   servers (open_txn_with E head finish s) k = Some ((finish (transaction_new (e_now E) head
     (LActive (from_now E (ms (open_budget E (t_kind head)))))))\<lparr>t_cleanup_key := Some (e_fresh_key E (timers s))\<rparr>)"
  using open_state [OF refl refl, of E head finish s] by (simp add: set_server_state)

lemma lockstep_hold_seeded [step_inv]: "lockstep now s \<Longrightarrow> lockstep now (hold_seeded_identity E k s)"
  by (auto simp: hold_seeded_identity_def Let_def txn_ok split: option.split intro: lockstep_upd_server)

lemma hold_seeded_keeps:
  "servers s k = Some t \<Longrightarrow> \<exists>h. servers (hold_seeded_identity E k s) k = Some (t\<lparr>t_held := h\<rparr>)"
  by (auto simp: hold_seeded_identity_def Let_def split: option.split intro: exI [of _ "t_held t"])

text \<open>A final seeded on a resident transaction that runs no Timer G and holds no 487.\<close>

definition idle_at :: "server_txn_key \<Rightarrow> owner \<Rightarrow> bool" where
  "idle_at k s \<longleftrightarrow> (\<exists>t. servers s k = Some t \<and> t_retransmit_key t = None \<and> \<not> holds_487 t)"

lemma idle_at_record [simp]: "idle_at k s \<Longrightarrow> idle_at k (record_uas_tag E k resp s)"
  unfolding idle_at_def using record_uas_tag_keeps [of s k _ E resp] by (fastforce simp: holds_487_def)

lemma idle_at_hold_seeded [simp]: "idle_at k s \<Longrightarrow> idle_at k (hold_seeded_identity E k s)"
  unfolding idle_at_def using hold_seeded_keeps [of s k _ E] by (fastforce simp: holds_487_def)

lemma idle_at_active: "lockstep now s \<Longrightarrow> servers s k = Some t \<Longrightarrow> is_active (t_state t) \<Longrightarrow> idle_at k s"
  using active_idle [OF lockstep_server_ok] by (fastforce simp: idle_at_def)

lemma idle_at_open: "t_id head = Server k \<Longrightarrow> idle_at k (open_txn E head s)"
  by (simp add: idle_at_def open_txn_def servers_open_server holds_487_def)

lemma lockstep_open_plain:
  "env_ok E \<Longrightarrow> lockstep (e_now E) s \<Longrightarrow> (role_of (t_id head) = RClient \<longrightarrow> t_state head \<noteq> Confirmed) \<Longrightarrow>
   lockstep (e_now E) (open_txn E head s)"
  unfolding open_txn_def by (rule lockstep_open) (simp_all add: entering_def)

lemma lockstep_note_seeded_final:
  assumes "lockstep now s" "idle_at k s" "\<not> is_active st"
  shows "lockstep now (note_seeded_final k st resp s)"
  unfolding note_seeded_final_def using assms(1)
  by (rule lockstep_upd_server) (use assms(2,3) in \<open>auto simp: txn_ok idle_at_def\<close>)

lemma lockstep_seeded_hold:
  assumes E: "env_ok E" and ls: "lockstep (e_now E) s" and idle: "idle_at k s"
  shows "lockstep (e_now E) (arm_final_hold E k kind status (note_seeded_final k Completed resp s))"
    "lockstep (e_now E) (arm_final_hold E k kind status
      (upd_server k (\<lambda>t. t\<lparr>t_destination := d\<rparr>) (note_seeded_final k Completed resp s)))"
proof -
  have ls1: "lockstep (e_now E) (note_seeded_final k Completed resp s)"
    using ls idle by (rule lockstep_note_seeded_final) (simp add: is_active_def)
  then have ls2: "lockstep (e_now E) (upd_server k (\<lambda>t. t\<lparr>t_destination := d\<rparr>) (note_seeded_final k Completed resp s))"
    by (rule lockstep_upd_server) (auto simp: txn_ok)
  from idle obtain t where t: "servers s k = Some t" "t_retransmit_key t = None" "\<not> holds_487 t"
    by (auto simp: idle_at_def)
  show "lockstep (e_now E) (arm_final_hold E k kind status (note_seeded_final k Completed resp s))"
    by (rule lockstep_arm_final_hold [OF E ls1, where t = "t\<lparr>t_state := Completed, t_last_response := Some (rs_image resp),
        t_last_response_status := Some (rs_status resp), t_original_request := None\<rparr>"])
      (use t in \<open>auto simp: note_seeded_final_def holds_487_def is_active_def\<close>)
  show "lockstep (e_now E) (arm_final_hold E k kind status
      (upd_server k (\<lambda>t. t\<lparr>t_destination := d\<rparr>) (note_seeded_final k Completed resp s)))"
    by (rule lockstep_arm_final_hold [OF E ls2, where t = "t\<lparr>t_state := Completed, t_last_response := Some (rs_image resp),
        t_last_response_status := Some (rs_status resp), t_original_request := None, t_destination := d\<rparr>"])
      (use t in \<open>auto simp: note_seeded_final_def holds_487_def is_active_def\<close>)
qed

lemma lockstep_accept_server:
  "env_ok E \<Longrightarrow> lockstep (e_now E) s \<Longrightarrow> idle_at k s \<Longrightarrow> lockstep (e_now E) (accept_server E k resp s)"
  by (simp add: accept_server_def lockstep_hold lockstep_note_seeded_final lockstep_record_uas_tag is_active_def)

lemma answered_head_id [simp]: "t_id (answered_head k kind m resp cr leg st d) = Server k"
  by (simp add: answered_head_def)

lemma lockstep_seed_accepted [step_inv]:
  assumes E: "env_ok E" and ls: "lockstep (e_now E) s"
  shows "lockstep (e_now E) (fst (seed_accepted E cr resp leg s))"
proof -
  have "lockstep (e_now E) (accept_server E k resp s)" if "servers s k = Some t" "is_active (t_state t)" for k t
    using E ls idle_at_active [OF ls that] by (rule lockstep_accept_server)
  moreover have "lockstep (e_now E) (accept_server E k resp (hold_seeded_identity E k
      (open_txn E (answered_head k KInvite MInvite resp cr leg Accepted d) s)))" for k d
    using E ls by (intro lockstep_accept_server lockstep_hold_seeded lockstep_open_plain) (simp_all add: idle_at_open)
  ultimately show ?thesis using ls by (auto simp: seed_accepted_def Let_def split: option.split)
qed

text \<open>The transaction a seeded final goes on: the occupant, still active, or one opened for it.\<close>

lemma lockstep_seed_occupant:
  assumes E: "env_ok E" and ls: "lockstep (e_now E) s" and free: "\<And>t. servers s k = Some t \<Longrightarrow> is_active (t_state t)"
    and s1: "s1 = (if servers s k \<noteq> None then s
      else hold_seeded_identity E k (open_txn E (answered_head k kind m resp cr leg st d) s))"
  shows "lockstep (e_now E) s1 \<and> idle_at k s1"
proof (cases "servers s k")
  case None
  then show ?thesis using E ls by (simp add: s1 lockstep_hold_seeded lockstep_open_plain idle_at_open)
next
  case (Some t)
  then show ?thesis using ls idle_at_active [OF ls Some free] by (simp add: s1)
qed

lemma lockstep_seed_rejected [step_inv]:
  assumes E: "env_ok E" and ls: "lockstep (e_now E) s"
  shows "lockstep (e_now E) (fst (seed_rejected E cr resp dest leg bound s))"
proof (cases "\<exists>k. of_response resp = Some k \<and> (\<forall>t. servers s k = Some t \<longrightarrow> is_active (t_state t))")
  case False
  then show ?thesis using ls by (auto simp: seed_rejected_def Let_def split: option.split)
next
  case True
  then obtain k where k: "of_response resp = Some k" "\<And>t. servers s k = Some t \<Longrightarrow> is_active (t_state t)" by blast
  define s1 where "s1 = (if servers s k \<noteq> None then s else hold_seeded_identity E k (open_txn E
    (answered_head k KInvite MInvite resp cr leg Completed
      (Some (case e_response_target E resp of Some d \<Rightarrow> d | None \<Rightarrow> dest))) s))"
  define s2 where "s2 = record_uas_tag E k resp s1"
  have s2: "lockstep (e_now E) s2" "idle_at k s2"
    using lockstep_seed_occupant [OF E ls k(2) s1_def] by (simp_all add: s2_def lockstep_record_uas_tag)
  have hold: "lockstep (e_now E) (case bound of None \<Rightarrow> s' | Some l \<Rightarrow> hold_txn_for E (Server k) HTimerH (ms l) s')"
    if "lockstep (e_now E) s'" for s'
    using E that by (simp add: lockstep_hold_for split: option.split)
  have taken: "\<not> (case servers s k of None \<Rightarrow> False | Some t \<Rightarrow> \<not> is_active (t_state t))"
    using k(2) by (simp split: option.split)
  show ?thesis
    using k(1) taken hold lockstep_seeded_hold [OF E s2]
    by (cases "servers s k") (simp_all add: seed_rejected_def Let_def s2_def s1_def)
qed

lemma lockstep_seed_answered [step_inv]:
  assumes E: "env_ok E" and ls: "lockstep (e_now E) s"
  shows "lockstep (e_now E) (fst (seed_answered_non_invite E cr resp dest bound leg s))"
proof (cases "\<exists>k. of_response resp = Some k \<and> (\<forall>t. servers s k = Some t \<longrightarrow> is_active (t_state t))")
  case False
  then show ?thesis using ls by (auto simp: seed_answered_non_invite_def Let_def split: option.split)
next
  case True
  then obtain k where k: "of_response resp = Some k" "\<And>t. servers s k = Some t \<Longrightarrow> is_active (t_state t)" by blast
  define s1 where "s1 = (if servers s k \<noteq> None then s else hold_seeded_identity E k (open_txn E
    (answered_head k KNonInvite (rs_cseq_method resp) resp cr leg Completed
      (Some (case e_response_target E resp of Some d \<Rightarrow> d | None \<Rightarrow> dest))) s))"
  have s1: "lockstep (e_now E) s1" "idle_at k s1"
    using lockstep_seed_occupant [OF E ls k(2) s1_def] by simp_all
  have taken: "\<not> (case servers s k of None \<Rightarrow> False | Some t \<Rightarrow> \<not> is_active (t_state t))"
    using k(2) by (simp split: option.split)
  have "lockstep (e_now E) (hold_txn_for E (Server k) HTimerJ (ms bound) (note_seeded_final k Completed resp s1))"
    using s1 by (intro lockstep_hold_for [OF E] lockstep_note_seeded_final) (simp_all add: is_active_def)
  then show ?thesis
    using ls k(1) taken by (simp add: seed_answered_non_invite_def Let_def s1_def)
qed

lemma lockstep_seed_server_invite [step_inv]:
  assumes E: "env_ok E" and ls: "lockstep (e_now E) s"
  shows "lockstep (e_now E) (fst (seed_server_invite E cr req tag prov leg s))"
proof -
  have upd: "lockstep now (upd_server k (\<lambda>t. t\<lparr>t_last_response := x, t_last_response_status := y\<rparr>) s')"
    if "lockstep now s'" for now k x y s'
    using that by (rule lockstep_upd_server) (auto simp: txn_ok)
  have "lockstep (e_now E) (hold_seeded_identity E k (open_txn_with E head
      (\<lambda>t. t\<lparr>t_uas_to_tag := u, t_seeded := True\<rparr>) s))" if "t_id head = Server k" for k head u
    by (intro lockstep_hold_seeded lockstep_open [OF E ls]) (use that in \<open>simp add: entering_def\<close>)
  then show ?thesis
    using ls
    by (auto simp: seed_server_invite_def Let_def seed_head_def split: option.split intro!: upd)
qed

lemma seed_branch_free: "seed_branch req s = Some b \<Longrightarrow> clients s b = None"
  by (auto simp: seed_branch_def split: option.splits if_splits)

lemma client_seed_head_id [simp]:
  "t_id (client_seed_head kind b req cr st d) = Client b" "t_state (client_seed_head kind b req cr st d) = st"
  by (simp_all add: client_seed_head_def seed_head_def)

text \<open>A client transaction enters with its give-up timer already in the wheel.\<close>

lemma lockstep_enter_bounded:
  assumes E: "env_ok E" and ls: "lockstep (e_now E) s" and free: "clients s b = None"
    and head: "t_id head = Client b" "t_state head \<noteq> Confirmed"
  shows "lockstep (e_now E) (open_txn_with E head
    (\<lambda>t. t\<lparr>t_timeout_kind := tk, t_timeout_key := Some (snd (arm E (ClientTimeout b) d s)), t_seed_resend := r\<rparr>)
    (fst (arm E (ClientTimeout b) d s)))"
proof -
  define k1 where "k1 = snd (arm E (ClientTimeout b) d s)"
  define w1 where "w1 = timers (fst (arm E (ClientTimeout b) d s))"
  define k2 where "k2 = e_fresh_key E w1"
  define u where "u = from_now E (ms (open_budget E (t_kind head)))"
  define t where "t = (transaction_new (e_now E) head (LActive u))
    \<lparr>t_timeout_kind := tk, t_timeout_key := Some k1, t_seed_resend := r\<rparr>"
  have none: "slot s (ClientTimeout b) = None" "slot s (Cleanup (Client b)) = None" "due_of s (Client b) = None"
    "slot s (ClientRetransmit b) = None" "slot s (CancelRetransmit b) = None"
    using free by (simp_all add: due_of_def)
  have v1: "in_step (e_now E + MAX_DELAY) ((slot s)(ClientTimeout b \<mapsto> k1)) w1 (due_of s)"
    unfolding w1_def timers_arm(1) k1_def
    by (rule in_step_arm [OF lockstep_in_step [OF ls] none(1)])
      (use lockstep_fresh [OF E ls] in \<open>simp_all add: timers_arm(2)\<close>)
  have u: "u \<le> e_now E + MAX_DELAY" "e_now E + min (u - e_now E) MAX_DELAY = u"
    using from_now_bounds [OF E, of "ms (open_budget E (t_kind head))"] by (simp_all add: u_def)
  have v2: "in_step (e_now E + MAX_DELAY) ((slot s)(ClientTimeout b \<mapsto> k1, Cleanup (Client b) \<mapsto> k2))
      (w1(k2 \<mapsto> (Cleanup (Client b), u))) ((due_of s)(Client b \<mapsto> u))"
    by (rule in_step_enter [OF v1])
      (use none u env_fresh [OF E in_step_finite [OF v1]] in \<open>simp_all add: k2_def\<close>)
  let ?s' = "set_txn (t\<lparr>t_cleanup_key := Some k2\<rparr>)
      ((fst (arm E (ClientTimeout b) d s))\<lparr>timers := w1(k2 \<mapsto> (Cleanup (Client b), u))\<rparr>)"
  have id: "t_id (t\<lparr>t_cleanup_key := Some k2\<rparr>) = Client b" by (simp add: t_def head)
  have ok: "client_ok b (t\<lparr>t_cleanup_key := Some k2\<rparr>)" by (simp add: client_ok_def t_def head)
  have "lockstep (e_now E) ?s'"
  proof (rule lockstep_clientsI [OF ls, of _ b "Some (t\<lparr>t_cleanup_key := Some k2\<rparr>)"])
    have "(slot s)(ClientTimeout b \<mapsto> k1, Cleanup (Client b) \<mapsto> k2) = (slot s)(ClientRetransmit b := None,
        ClientTimeout b \<mapsto> k1, Cleanup (Client b) \<mapsto> k2, CancelRetransmit b := None)"
      using none by (auto simp: fun_eq_iff)
    with v2 show "in_step (e_now E + MAX_DELAY)
      ((slot s)(ClientRetransmit b := Option.bind (Some (t\<lparr>t_cleanup_key := Some k2\<rparr>)) t_retransmit_key,
        ClientTimeout b := Option.bind (Some (t\<lparr>t_cleanup_key := Some k2\<rparr>)) t_timeout_key,
        Cleanup (Client b) := Option.bind (Some (t\<lparr>t_cleanup_key := Some k2\<rparr>)) t_cleanup_key,
        CancelRetransmit b := Option.bind (Some (t\<lparr>t_cleanup_key := Some k2\<rparr>)) t_cancel_retransmit_key))
      (timers ?s') ((due_of s)(Client b := map_option (\<lambda>t. deadline_of (t_lifetime t)) (Some (t\<lparr>t_cleanup_key := Some k2\<rparr>))))"
      by (simp add: set_client_state [OF id] free) (simp add: t_def)
  qed (use ok in \<open>simp_all add: set_client_state [OF id]\<close>)
  then show ?thesis
    by (simp add: open_state [OF refl refl] k1_def [symmetric] u_def [symmetric] w1_def [symmetric]
        k2_def [symmetric] u(2) head t_def)
qed

lemma lockstep_seed_held_cancel [step_inv]:
  assumes "env_ok E" "lockstep now s"
  shows "lockstep now (seed_held_cancel E b c d s)"
proof -
  have "lockstep now (upd_client b (\<lambda>t. t\<lparr>t_held_cancel := Some (held_cancel_new (e_render E c) d WHeld)\<rparr>) s)"
    using assms(2) by (rule lockstep_upd_client) (auto simp: txn_ok held_cancel_new_def)
  with assms show ?thesis by (simp add: seed_held_cancel_def Let_def lockstep_release_seed_resend split: option.split)
qed

lemma lockstep_seed_client_invite [step_inv]:
  assumes E: "env_ok E" and ls: "lockstep (e_now E) s"
  shows "lockstep (e_now E) (fst (seed_client_invite E cr invite dest prov cancel s))"
proof (cases "seed_branch invite s")
  case None
  then show ?thesis using ls by (simp add: seed_client_invite_def)
next
  case (Some b)
  show ?thesis
    using Some E lockstep_enter_bounded [OF E ls seed_branch_free [OF Some],
        of "(client_seed_head KInvite b invite cr (if prov then Proceeding else Trying) dest)\<lparr>t_method := MInvite\<rparr>"]
    by (cases cancel)
      (simp_all add: seed_client_invite_def Let_def case_prod_beta lockstep_release_seed_resend lockstep_seed_held_cancel)
qed

lemma lockstep_seed_client_non_invite [step_inv]:
  assumes E: "env_ok E" and ls: "lockstep (e_now E) s"
  shows "lockstep (e_now E) (fst (seed_client_non_invite E cr req dest bound s))"
proof -
  have "lockstep (e_now E) (start_client_retransmit E b buf dest m tk
      (open_txn E (client_seed_head KNonInvite b req cr Trying dest) s))" for b buf m tk
    using E ls by (intro lockstep_start_client_retransmit lockstep_open_plain)
      (auto simp: open_txn_def clients_open_client)
  with ls show ?thesis
    by (auto simp: seed_client_non_invite_def Let_def case_prod_beta split: option.split)
qed

lemma lockstep_seed_one [step_inv]:
  assumes E: "env_ok E" and ls: "lockstep (e_now E) s"
  shows "lockstep (e_now E) (fst (seed_one E cr x s))"
proof (cases x)
  case (SClientInvite invite dest prov cancel ack)
  then show ?thesis using lockstep_seed_client_invite [OF E ls, of cr invite dest prov cancel]
    by (auto simp: Let_def case_prod_beta split: option.split)
next
  case (SClientRejected invite dest bound)
  then show ?thesis using E ls
    by (simp add: seed_client_rejected_def Let_def lockstep_hold_for lockstep_open_plain split: option.split)
next
  case (SServerNonInvite req leg)
  then show ?thesis using E ls
    by (simp add: seed_server_non_invite_def Let_def lockstep_open_plain seed_head_def split: option.split)
qed (use E ls in \<open>simp_all add: lockstep_seed_server_invite lockstep_seed_accepted lockstep_seed_rejected
      lockstep_seed_client_non_invite lockstep_seed_answered\<close>)

lemma lockstep_seed_all:
  assumes E: "env_ok E"
  shows "lockstep (e_now E) s \<Longrightarrow> lockstep (e_now E) (fst (seed_all E cr xs s))"
proof (induction xs arbitrary: s)
  case (Cons x xs)
  then show ?case using lockstep_seed_one [OF E Cons.prems, of cr x] by (simp add: Let_def case_prod_beta)
qed simp

lemma lockstep_reoffer [step_inv]:
  "env_ok E \<Longrightarrow> lockstep (e_now E) s \<Longrightarrow> lockstep (e_now E) (fst (do_reoffer E msg src s))"
  by (auto simp: do_reoffer_def Let_def case_prod_beta lockstep_inbound_response lockstep_handle_cancel
      split: sip_message.split)

section \<open>Commands, timers, packets\<close>

lemma lockstep_handle_command [step_inv]:
  "env_ok E \<Longrightarrow> lockstep (e_now E) s \<Longrightarrow> lockstep (e_now E) (fst (handle_command E c s))"
  by (cases c)
    (simp_all add: Let_def case_prod_beta do_seed_def lockstep_seed_all lockstep_send_request lockstep_send_response
      lockstep_reoffer lockstep_cancel_txns_for_call lockstep_relinquish_call lockstep_releases
      lockstep_release_held_cancel lockstep_send_held_ack lockstep_send_first_trying lockstep_notify_quiesced)

lemma lockstep_handle_packet [step_inv]:
  "env_ok E \<Longrightarrow> lockstep (e_now E) s \<Longrightarrow> lockstep (e_now E) (handle_packet E raw src s)"
  by (simp add: handle_packet_def refuse_unparsed_def handle_inbound_response_def Let_def lockstep_inbound_request
      lockstep_inbound_response split: parse_result.split sip_message.split parse_refusal.split)

text \<open>An entry taken off the wheel: its transaction forgets the key, as \<open>fire_timer\<close> has it do.\<close>

lemma lockstep_popped_client:
  assumes ls: "lockstep now s" and e: "timers s k = Some (tm, d)"
    and f: "tm = ClientRetransmit b \<and> f = (\<lambda>t. t\<lparr>t_retransmit_key := None\<rparr>) \<or>
      tm = ClientTimeout b \<and> f = (\<lambda>t. t\<lparr>t_timeout_key := None\<rparr>) \<or>
      tm = CancelRetransmit b \<and> f = (\<lambda>t. t\<lparr>t_cancel_retransmit_key := None\<rparr>)"
  shows "lockstep now (upd_client b f (s\<lparr>timers := (timers s)(k := None)\<rparr>))"
proof -
  have slot: "slot s tm = Some k" by (rule in_step_entry [OF lockstep_in_step [OF ls] _ e]) (use f in auto)
  with f obtain t where t: "clients s b = Some t" by (auto simp: bind_eq_Some_conv)
  show ?thesis
    by (rule lockstep_forget_client [OF ls t, where r = "tm = ClientRetransmit b" and m = "tm = ClientTimeout b"
          and c = "tm = CancelRetransmit b" and t' = "f t"])
      (use f slot t lockstep_client_ok [OF ls t] in \<open>auto simp: clients_upd_client client_ok_def\<close>)
qed

lemma lockstep_popped_server:
  assumes ls: "lockstep now s" and e: "timers s k = Some (ServerRetransmit j, d)"
  shows "lockstep now (upd_server j (\<lambda>t. t\<lparr>t_retransmit_key := None\<rparr>) (s\<lparr>timers := (timers s)(k := None)\<rparr>)) \<and>
    (\<exists>t. servers s j = Some t \<and> \<not> holds_487 t)"
proof -
  have "slot s (ServerRetransmit j) = Some k" by (rule in_step_entry [OF lockstep_in_step [OF ls] _ e]) simp
  then obtain t where t: "servers s j = Some t" "t_retransmit_key t = Some k" by (auto simp: bind_eq_Some_conv)
  have "lockstep now (upd_server j (\<lambda>t. t\<lparr>t_retransmit_key := None\<rparr>) (s\<lparr>timers := (timers s)(k := None)\<rparr>))"
    by (rule lockstep_forget_server [OF ls t(1), where t' = "t\<lparr>t_retransmit_key := None\<rparr>"])
      (use t lockstep_server_ok [OF ls t(1)] in \<open>auto simp: servers_upd_server txn_ok\<close>)
  moreover have "\<not> holds_487 t" using lockstep_server_ok [OF ls t(1)] t(2) by (auto simp: server_ok_def)
  ultimately show ?thesis using t by blast
qed

lemma lockstep_popped_untracked:
  assumes ls: "lockstep now s" and e: "timers s k = Some (tm, d)" and "\<not> tracked tm"
  shows "lockstep now (s\<lparr>timers := (timers s)(k := None)\<rparr>)"
proof -
  have "slot (s\<lparr>timers := (timers s)(k := None)\<rparr>) = slot s" "due_of (s\<lparr>timers := (timers s)(k := None)\<rparr>) = due_of s"
    using slot_cong [of "s\<lparr>timers := (timers s)(k := None)\<rparr>" s] txn_cong [of "s\<lparr>timers := (timers s)(k := None)\<rparr>" s]
    by (auto simp: due_of_def fun_eq_iff)
  with in_step_pop_untracked [OF lockstep_in_step [OF ls] e assms(3)] ls show ?thesis by (simp add: lockstep_def)
qed

lemma cancelled_pop: "cancelled ko (w(k := None)) = (cancelled ko w)(k := None)"
  by (cases ko) (auto simp: fun_eq_iff)

lemma lockstep_popped_cleanup:
  assumes ls: "lockstep now s" and e: "timers s k = Some (Cleanup i, d)"
  shows "lockstep now (fst (delete_txn E i
    (txn_mut i (\<lambda>t. t\<lparr>t_cleanup_key := None\<rparr>) (s\<lparr>timers := (timers s)(k := None)\<rparr>))))" (is "lockstep now (fst (delete_txn E i ?s))")
proof -
  have slot: "slot s (Cleanup i) = Some k" by (rule in_step_entry [OF lockstep_in_step [OF ls] _ e]) simp
  show ?thesis
  proof (cases i)
    case (Client b)
    with slot obtain t where t: "clients s b = Some t" "t_cleanup_key t = Some k" by (auto simp: bind_eq_Some_conv)
    let ?s1 = "upd_client b (\<lambda>t. t\<lparr>t_cleanup_key := None\<rparr>) (s\<lparr>timers := (timers s)(k := None)\<rparr>)"
    have s1: "clients ?s1 b = Some (t\<lparr>t_cleanup_key := None\<rparr>)" by (simp add: t)
    have "timers (fst (delete_txn E (Client b) ?s1)) = cancelled (t_cancel_retransmit_key t) (cancelled (t_cleanup_key t)
        (cancelled (t_timeout_key t) (cancelled (t_retransmit_key t) (timers s))))"
      unfolding delete_client_state(3) [OF s1] by (simp add: timers_cancel_timers_of cancelled_pop t(2))
    moreover have "clients (fst (delete_txn E (Client b) ?s1)) = (clients s)(b := None)"
      unfolding delete_client_state(1) [OF s1] by (simp add: clients_upd_client)
    moreover have "servers (fst (delete_txn E (Client b) ?s1)) = servers s"
      unfolding delete_client_state(2) [OF s1] by simp
    ultimately show ?thesis
      unfolding Client txn_mut.simps
      using lockstep_clientsI [OF ls, of _ b None] in_step_leave_client [OF lockstep_in_step [OF ls] t(1)] by simp
  next
    case (Server j)
    with slot obtain t where t: "servers s j = Some t" "t_cleanup_key t = Some k" by (auto simp: bind_eq_Some_conv)
    have keys: "t_timeout_key t = None" "t_cancel_retransmit_key t = None"
      using lockstep_server_ok [OF ls t(1)] by (simp_all add: server_ok_def)
    let ?s1 = "upd_server j (\<lambda>t. t\<lparr>t_cleanup_key := None\<rparr>) (s\<lparr>timers := (timers s)(k := None)\<rparr>)"
    have s1: "servers ?s1 j = Some (t\<lparr>t_cleanup_key := None\<rparr>)" by (simp add: t)
    have "timers (fst (delete_txn E (Server j) ?s1)) =
        cancelled (t_cleanup_key t) (cancelled (t_retransmit_key t) (timers s))"
      unfolding delete_server_state(3) [OF s1] by (simp add: timers_cancel_timers_of cancelled_pop t(2) keys)
    moreover have "servers (fst (delete_txn E (Server j) ?s1)) = (servers s)(j := None)"
      unfolding delete_server_state(1) [OF s1] by (simp add: servers_upd_server)
    moreover have "clients (fst (delete_txn E (Server j) ?s1)) = clients s"
      unfolding delete_server_state(2) [OF s1] by simp
    ultimately show ?thesis
      unfolding Server txn_mut.simps
      using lockstep_serversI [OF ls, of _ j None] in_step_leave_server [OF lockstep_in_step [OF ls] t(1)] by simp
  qed
qed

lemma lockstep_expire_delete: "lockstep now (expire E i s) = lockstep now (fst (delete_txn E i s))" if "txn s i \<noteq> None"
  using that by (auto simp: expire_def Let_def split: option.split prod.split)

lemma lockstep_fire_timer:
  assumes E: "env_ok E" and ls: "lockstep (e_now E) s" and e: "timers s k = Some (tm, d)"
  shows "lockstep (e_now E) (fire_timer E tm (s\<lparr>timers := (timers s)(k := None)\<rparr>))"
proof (cases tm)
  case (ClientRetransmit b)
  have slot: "slot s tm = Some k"
    by (rule in_step_entry [OF lockstep_in_step [OF ls] _ e]) (simp add: ClientRetransmit)
  show ?thesis
    unfolding ClientRetransmit fire_timer.simps
    by (rule lockstep_fire_retransmit [OF E lockstep_popped_client [OF ls e]])
      (use slot lockstep_client_ok [OF ls, of b] in \<open>auto simp: ClientRetransmit client_ok_def bind_eq_Some_conv\<close>)
next
  case (ServerRetransmit j)
  from lockstep_popped_server [OF ls, of k j d] e show ?thesis
    unfolding ServerRetransmit fire_timer.simps
    by (intro lockstep_fire_server_retransmit [OF E]) (auto simp: ServerRetransmit holds_487_def)
next
  case (ClientTimeout b)
  show ?thesis
    unfolding ClientTimeout fire_timer.simps
    by (rule lockstep_fire_timeout [OF E lockstep_popped_client [OF ls e]]) (simp add: ClientTimeout)
next
  case (CancelRetransmit b)
  show ?thesis
    unfolding CancelRetransmit fire_timer.simps
    by (rule lockstep_fire_cancel_retransmit [OF E lockstep_popped_client [OF ls e]])
      (cases "clients s b"; simp add: CancelRetransmit)+
next
  case (Cleanup i)
  have "txn s i \<noteq> None"
    using in_step_entry [OF lockstep_in_step [OF ls] _ e] by (cases "txn s i") (simp_all add: Cleanup)
  then have "txn (txn_mut i (\<lambda>t. t\<lparr>t_cleanup_key := None\<rparr>) (s\<lparr>timers := (timers s)(k := None)\<rparr>)) i \<noteq> None"
    by (cases i) auto
  with lockstep_popped_cleanup [OF ls, of k i d E] e show ?thesis
    by (simp add: Cleanup lockstep_expire_delete)
qed (use E lockstep_popped_untracked [OF ls e] in \<open>simp_all add: lockstep_fire_first_response lockstep_fire_trying
      lockstep_fire_ack_bound lockstep_fire_cancel_bound lockstep_flush_deferred\<close>)

section \<open>Turns\<close>

lemma lockstep_end_turn:
  "env_ok E \<Longrightarrow> lockstep (e_now E) s \<Longrightarrow> lockstep (e_now E) (end_turn E s)"
  by (simp add: end_turn_def Let_def lockstep_flush_pending_quiesce lockstep_flush_owed)

lemma lockstep_mono: "lockstep now s \<Longrightarrow> now \<le> now' \<Longrightarrow> lockstep now' s"
  unfolding lockstep_def by (blast intro: in_step_mono add_right_mono)

lemma lockstep_step:
  assumes "owner_step E s s'" "env_ok E" "lockstep (e_now E) s"
  shows "lockstep (e_now E) s'"
  using assms(1)
proof cases
  case (step_timer k tm due)
  with lockstep_fire_timer [OF assms(2,3) step_timer(2)] assms(2) show ?thesis
    by (simp add: turn_def lockstep_end_turn)
qed (use assms(2,3) in \<open>simp_all add: turn_def lockstep_end_turn lockstep_forget_unanswered lockstep_handle_command
      lockstep_sweep lockstep_handle_packet\<close>)

lemma lockstep_new: "lockstep now (owner_new r)"
proof -
  have none: "txn (owner_new r) i = None" for i by (cases i) (simp_all add: owner_new_def)
  then have "slot (owner_new r) tm = None" for tm by (cases tm) (simp_all add: owner_new_def)
  with none show ?thesis by (simp add: lockstep_def in_step_def due_of_def) (simp add: owner_new_def)
qed

lemma reach_lockstep: "owner_reach cfg lim s t \<Longrightarrow> lockstep t s"
proof (induction rule: owner_reach.induct)
  case (reach_step s t E s')
  then show ?case using lockstep_step lockstep_mono by blast
qed (simp_all add: lockstep_new)

end
