(* ===== verification/Txn_Actions.thy ===== *)
theory Txn_Actions
  imports Txn_Lockstep_Layer
begin

text \<open>
  The transaction table as an abstract machine. Each handler of the layer is a sequence of a few
  actions on the two maps, the call index and the counted books: a transaction enters, leaves, is
  detached from its call, or moves along the state diagram of its role. The locale \<open>turn_inv\<close> is the
  interface an invariant offers to these actions; that every handler and every turn keep it is
  proved once, inside the locale.
\<close>

section \<open>The state diagrams\<close>

text \<open>The arcs of RFC 3261 section 17 with the Accepted state of RFC 6026; Terminated is leaving the
  maps. A client transaction that took a non-2xx final still accepts a 2xx.\<close>

inductive server_arc :: "txn_state \<Rightarrow> txn_state \<Rightarrow> bool" where
  "server_arc Trying Proceeding"
| "is_active st \<Longrightarrow> server_arc st Completed"
| "is_active st \<Longrightarrow> server_arc st Accepted"
| "server_arc Completed Confirmed"

inductive client_arc :: "txn_state \<Rightarrow> txn_state \<Rightarrow> bool" where
  "client_arc Trying Proceeding"
| "is_active st \<Longrightarrow> client_arc st Completed"
| "is_active st \<or> st = Completed \<Longrightarrow> client_arc st Accepted"

lemmas arcs = server_arc.intros client_arc.intros

inductive_cases server_arcE: "server_arc st st'"
inductive_cases client_arcE: "client_arc st st'"

text \<open>What a transaction is and never changes.\<close>

definition same_head :: "transaction \<Rightarrow> transaction \<Rightarrow> bool" where
  "same_head t t' \<longleftrightarrow> t_id t' = t_id t \<and> t_kind t' = t_kind t \<and> t_method t' = t_method t \<and>
     t_cseq t' = t_cseq t \<and> t_call_id t' = t_call_id t \<and> t_from_tag t' = t_from_tag t \<and>
     t_created_at t' = t_created_at t"

text \<open>A server transaction that recorded its final keeps it, with its To-tag.\<close>

definition final_kept :: "transaction \<Rightarrow> transaction \<Rightarrow> bool" where
  "final_kept t t' \<longleftrightarrow> (sent_final (t_state t) \<and> t_last_response t \<noteq> None \<longrightarrow>
     t_last_response t' = t_last_response t \<and> t_last_response_status t' = t_last_response_status t \<and>
     t_final_to_tag t' = t_final_to_tag t)"

definition server_move :: "transaction \<Rightarrow> transaction \<Rightarrow> bool" where
  "server_move t t' \<longleftrightarrow> same_head t t' \<and> server_arc\<^sup>*\<^sup>* (t_state t) (t_state t') \<and> final_kept t t' \<and>
     (t_uas_to_tag t \<noteq> None \<longrightarrow> t_uas_to_tag t' = t_uas_to_tag t) \<and>
     never_sent (t_held_cancel t') = never_sent (t_held_cancel t)"

definition client_move :: "transaction \<Rightarrow> transaction \<Rightarrow> bool" where
  "client_move t t' \<longleftrightarrow> same_head t t' \<and> client_arc\<^sup>*\<^sup>* (t_state t) (t_state t') \<and>
     (t_orphaned t \<longrightarrow> t_orphaned t')"

text \<open>An update none of the invariants sees.\<close>

definition tick :: "transaction \<Rightarrow> transaction \<Rightarrow> bool" where
  "tick t t' \<longleftrightarrow> same_head t t' \<and> t_state t' = t_state t \<and> t_call_ref t' = t_call_ref t \<and>
     t_orphaned t' = t_orphaned t \<and> never_sent (t_held_cancel t') = never_sent (t_held_cancel t) \<and>
     t_last_response t' = t_last_response t \<and> t_last_response_status t' = t_last_response_status t \<and>
     (sent_final (t_state t) \<and> t_last_response t \<noteq> None \<longrightarrow> t_final_to_tag t' = t_final_to_tag t) \<and>
     (t_uas_to_tag t \<noteq> None \<longrightarrow> t_uas_to_tag t' = t_uas_to_tag t)"

lemmas move_defs = same_head_def final_kept_def server_move_def client_move_def tick_def

lemma tick_refl [simp]: "tick t t"
  by (simp add: move_defs)

section \<open>The tables\<close>

text \<open>The counters that state what the tables hold.\<close>

definition books :: "owner \<Rightarrow> nat \<times> nat \<times> nat \<times> nat" where
  "books s = (counters s CancelsHeld, counters s HeldCancelsFlushed, counters s HeldCancelsDropped,
     counters s ActiveTransactions)"

definition booked :: "counter set" where
  "booked = {CancelsHeld, HeldCancelsFlushed, HeldCancelsDropped, ActiveTransactions}"

definition unsent :: "transaction \<Rightarrow> nat" where
  "unsent t = of_bool (never_sent (t_held_cancel t))"

text \<open>The index as a client branch moves to the Accepted side of its call.\<close>

definition settled :: "string \<Rightarrow> string option \<Rightarrow> (string \<rightharpoonup> call_txns) \<Rightarrow> (string \<rightharpoonup> call_txns)" where
  "settled b cr ix = (case Option.bind cr ix of
      None \<Rightarrow> ix
    | Some c \<Rightarrow>
        if b \<in> ct_client c
        then ix(the cr \<mapsto> c\<lparr>ct_client := ct_client c - {b}, ct_accepted := insert b (ct_accepted c)\<rparr>)
        else ix)"

text \<open>What a transaction is as it enters the maps.\<close>

definition opened :: "layer_env \<Rightarrow> transaction \<Rightarrow> bool" where
  "opened E t \<longleftrightarrow> t_created_at t = e_now E \<and> t_held_cancel t = None \<and>
     (role_of (t_id t) = RClient \<longrightarrow> t_state t \<noteq> Accepted)"

locale turn_inv =
  fixes E :: layer_env and P :: "owner \<Rightarrow> bool"
  assumes frame: "\<lbrakk>P s; clients s' = clients s; servers s' = servers s; txn_index s' = txn_index s;
      books s' = books s\<rbrakk> \<Longrightarrow> P s'"
    and client: "\<lbrakk>P s; clients s b = Some t; client_move t t'; t_call_ref t' = t_call_ref t;
      t_state t' = Accepted \<longleftrightarrow> t_state t = Accepted;
      clients s' = (clients s)(b \<mapsto> t'); servers s' = servers s; txn_index s' = txn_index s;
      books s = (h, fl, dr, ac); books s' = (h', fl', dr', ac);
      h' + fl + dr + unsent t = h + fl' + dr' + unsent t'\<rbrakk> \<Longrightarrow> P s'"
    and accept: "\<lbrakk>P s; clients s b = Some t; client_move t t'; t_call_ref t' = t_call_ref t;
      t_state t \<noteq> Accepted; t_state t' = Accepted; t_held_cancel t' = None;
      clients s' = (clients s)(b \<mapsto> t'); servers s' = servers s;
      txn_index s' = settled b (t_call_ref t) (txn_index s);
      books s = (h, fl, dr, ac); books s' = (h, fl, dr + unsent t, ac)\<rbrakk> \<Longrightarrow> P s'"
    and server: "\<lbrakk>P s; servers s k = Some t; server_move t t'; t_call_ref t' = t_call_ref t;
      clients s' = clients s; servers s' = (servers s)(k \<mapsto> t'); txn_index s' = txn_index s;
      books s' = books s\<rbrakk> \<Longrightarrow> P s'"
    and detach: "P s \<Longrightarrow> P (detach_from_call i s)"
    and leave: "P s \<Longrightarrow> P (fst (delete_txn E i s))"
    and enter: "P s \<Longrightarrow> opened E t \<Longrightarrow> P (set_txn t s)"
begin

section \<open>Primitives\<close>

lemma P_iff:
  "clients s' = clients s \<Longrightarrow> servers s' = servers s \<Longrightarrow> txn_index s' = txn_index s \<Longrightarrow> books s' = books s \<Longrightarrow>
   P s' = P s"
  using frame [of s s'] frame [of s' s] by metis

lemma P_counters: "(\<And>c. c \<in> booked \<Longrightarrow> cs c = counters s c) \<Longrightarrow> P (s\<lparr>counters := cs\<rparr>) = P s"
  by (rule P_iff) (simp_all add: books_def booked_def)

lemma P_bump: "c \<notin> booked \<Longrightarrow> P (bump c s) = P s" "c \<notin> booked \<Longrightarrow> P (drop_one c s) = P s"
    "c \<notin> booked \<Longrightarrow> P (add_count c n s) = P s"
  unfolding bump_def drop_one_def add_count_def by (auto intro!: P_counters)

lemma P_fields [simp]:
  "P (s\<lparr>wire_out := a\<rparr>) = P s" "P (s\<lparr>queue_in := b\<rparr>) = P s" "P (s\<lparr>lane_in := b\<rparr>) = P s"
  "P (s\<lparr>tries := n\<rparr>) = P s" "P (s\<lparr>lane_tries := n\<rparr>) = P s" "P (s\<lparr>draws := n\<rparr>) = P s"
  "P (s\<lparr>self_release_watch := w\<rparr>) = P s" "P (s\<lparr>deferred_events := b\<rparr>) = P s"
  "P (s\<lparr>refusals := r\<rparr>) = P s" "P (s\<lparr>event_retry_armed := e\<rparr>) = P s"
  "P (s\<lparr>pending_quiesce := q\<rparr>) = P s" "P (s\<lparr>held_cancels := hc\<rparr>) = P s"
  "P (s\<lparr>owed_sends := a\<rparr>) = P s" "P (s\<lparr>recent_uas_tags := u\<rparr>) = P s"
  "P (s\<lparr>bounds_told := v\<rparr>) = P s" "P (s\<lparr>timers := x\<rparr>) = P s"
  by (rule P_iff; simp add: books_def)+

lemma P_ops [simp]:
  "P (send_buffer buf dest s) = P s" "P (cancel_timer ko s) = P s" "P (fst (arm E' tm d s)) = P s"
  "P (fst (insert_at E' tm at s)) = P s" "P (remember_uas_tag E' x y z s) = P s"
  "P (owe_held_cancel u s) = P s" "P (release_hold E' x y z s) = P s" "P (quiesce_if_last cr s) = P s"
  "P (fst (new_tag E' s)) = P s" "P (fst (new_branch E' s)) = P s" "P (told_bound E' i s) = P s"
  by (simp_all add: send_buffer_def cancel_timer_def arm_def insert_at_def Let_def remember_uas_tag_def
      owe_held_cancel_def release_hold_def quiesce_if_last_def new_tag_def new_branch_def told_bound_def
      split: option.split)

lemma P_upd_client [step_inv]:
  assumes "P s" "\<And>t. clients s b = Some t \<Longrightarrow> tick t (f t)"
  shows "P (upd_client b f s)"
proof (cases "clients s b")
  case None
  then show ?thesis using assms(1) by (simp add: upd_client_def)
next
  case (Some t)
  obtain h fl dr ac where b: "books s = (h, fl, dr, ac)" by (cases "books s") auto
  have "books (upd_client b f s) = books s" by (simp add: books_def upd_client_def Some)
  with assms(2) [OF Some] b show ?thesis
    by (intro client [OF assms(1) Some, of "f t"])
      (auto simp: upd_client_def Some move_defs unsent_def)
qed

lemma P_upd_server [step_inv]:
  assumes "P s" "\<And>t. servers s k = Some t \<Longrightarrow> server_move t (f t) \<and> t_call_ref (f t) = t_call_ref t"
  shows "P (upd_server k f s)"
proof (cases "servers s k")
  case None
  then show ?thesis using assms(1) by (simp add: upd_server_def)
next
  case (Some t)
  with assms(2) [OF Some] show ?thesis
    by (intro server [OF assms(1) Some, of "f t"]) (auto simp: upd_server_def books_def)
qed

lemma P_tick_server:
  "P s \<Longrightarrow> (\<And>t. servers s k = Some t \<Longrightarrow> tick t (f t)) \<Longrightarrow> P (upd_server k f s)"
  by (rule P_upd_server) (auto simp: move_defs)

lemma P_txn_mut: "P s \<Longrightarrow> (\<And>t. txn s i = Some t \<Longrightarrow> tick t (f t)) \<Longrightarrow> P (txn_mut i f s)"
  by (cases i) (auto intro: P_upd_client P_tick_server)

lemma P_hold_for [step_inv]: "P s \<Longrightarrow> P (hold_txn_for E' i why left s)"
  unfolding hold_txn_for_def arm_deadline_def
  by (auto simp: Let_def case_prod_beta move_defs split: option.split intro!: P_txn_mut)

lemma P_hold [step_inv]: "P s \<Longrightarrow> P (hold_txn E' i why s)"
  by (simp add: hold_txn_def P_hold_for)

lemma P_fold [step_inv]: "P s \<Longrightarrow> (\<And>x s. P s \<Longrightarrow> P (f x s)) \<Longrightarrow> P (fold f xs s)"
  by (induction xs arbitrary: s) auto

lemma P_open: "P s \<Longrightarrow> opened E (finish (transaction_new (e_now E) head
    (LActive (from_now E (ms (open_budget E (t_kind head))))))) \<Longrightarrow> P (open_txn_with E head finish s)"
  unfolding open_txn_with_def Let_def case_prod_beta
  by (rule enter) (simp_all add: opened_def)

section \<open>Events\<close>

lemmas P_count = P_bump [simplified booked_def]

lemma P_channel_send [simp]: "P (fst (channel_send E' ev s)) = P s"
  by (simp add: channel_send_def Let_def)

lemma P_arm_event_retry [simp]: "P (arm_event_retry E' s) = P s"
  by (simp add: arm_event_retry_def)

lemma P_defer [simp]: "P (defer_event E' ev s) = P s"
  by (simp add: defer_event_def Let_def P_count)

lemma P_offer [simp]: "P (fst (offer E' ev c s)) = P s"
proof -
  obtain s1 r where c: "channel_send E' ev s = (s1, r)" by (cases "channel_send E' ev s")
  have "P s1 = P s" using P_channel_send [of E' ev s] by (simp add: c)
  then show ?thesis by (cases r) (simp_all add: offer_def c P_count)
qed

lemma P_emit [simp]: "P (fst (emit E' ev s)) = P s" "P (emit_critical E' ev s) = P s"
  by (simp_all add: emit_def emit_critical_def)

lemma P_emit_keepalive [simp]: "P (fst (emit_keepalive E' ev s)) = P s"
  by (simp add: emit_keepalive_def Let_def P_count split: send_result.split)

lemma P_flush_loop [simp]: "P (fst (flush_loop E' evs s)) = P s"
proof (induction evs arbitrary: s)
  case (Cons ev evs)
  obtain s1 r where c: "channel_send E' ev s = (s1, r)" by (cases "channel_send E' ev s")
  have "P s1 = P s" using P_channel_send [of E' ev s] by (simp add: c)
  with Cons.IH show ?case by (cases r) (simp_all add: c)
qed simp

lemma P_flush_deferred [simp]: "P (flush_deferred E' s) = P s"
  by (simp add: flush_deferred_def case_prod_beta)

lemma P_notify [simp]: "P (notify_quiesced E' cr s) = P s"
  by (simp add: notify_quiesced_def)

lemma P_flush_pending [simp]: "P (flush_pending_quiesce E' s) = P s"
proof -
  have "P (fold (\<lambda>cr s. if cr \<in> self_release_watch s \<and> \<not> has_txns_for cr s then notify_quiesced E' cr s else s) xs s) = P s"
    for xs s by (induction xs arbitrary: s) auto
  then show ?thesis by (simp add: flush_pending_quiesce_def)
qed

lemma P_drop_deferred [simp]: "P (drop_deferred_request_of k c f s) = P s"
proof (cases "deferred_events s = []")
  case False
  show ?thesis by (rule P_iff) (simp_all add: drop_deferred_request_of_def Let_def books_def)
qed (simp add: drop_deferred_request_of_def)

lemma P_flush_owed [simp]: "P (flush_owed_sends s) = P s"
proof -
  have "P (fold (\<lambda>(buf, dest). send_buffer buf dest) xs s) = P s" for xs s
    by (induction xs arbitrary: s) (simp_all add: case_prod_beta)
  from this [of "owed_sends s" "s\<lparr>owed_sends := []\<rparr>"] show ?thesis by (simp add: flush_owed_sends_def)
qed

lemma P_expire [step_inv]: "P s \<Longrightarrow> P (expire E i s)"
  using leave [of s i] by (simp add: expire_def Let_def split: option.split prod.split)

lemma P_sweep [step_inv]: "P s \<Longrightarrow> P (sweep_owner E s)"
proof -
  assume "P s"
  then have "P (reap_overdue E s)"
    unfolding reap_overdue_def Let_def by (intro P_fold) (auto simp: P_count P_expire)
  then show ?thesis
    by (auto simp: sweep_owner_def forget_expired_uas_tags_def Let_def books_def intro: frame)
qed

end

end
