(* ===== verification/Txn_Actions_Client.thy ===== *)
theory Txn_Actions_Client
  imports Txn_Actions
begin

text \<open>
  The client handlers as actions on the tables: an invariant of the tables is kept by each of them
  (\<open>client.rs\<close>, \<open>client_give_up.rs\<close>, \<open>held_ack.rs\<close>, \<open>accepted.rs\<close>, \<open>orphan.rs\<close>).
\<close>

section \<open>What the composite operations leave of the tables\<close>

lemma hold_keeps [simp]:
  "counters (hold_txn_for E i why left s) = counters s" "txn_index (hold_txn_for E i why left s) = txn_index s"
  "counters (hold_txn E i why s) = counters s" "txn_index (hold_txn E i why s) = txn_index s"
  "books (hold_txn E i why s) = books s"
  by (cases i; simp add: hold_txn_def hold_txn_for_def arm_deadline_def Let_def case_prod_beta books_def upd_client_def
      upd_server_def insert_at_def arm_def cancel_timer_def split: option.split)+

lemma held_txn_move: "tick t (held_txn E why left w t)"
  by (simp add: held_txn_def move_defs)

lemma never_sent_ladder [simp]:
  "never_sent (map_option (\<lambda>h. h\<lparr>hc_ladder := l\<rparr>) x) = never_sent x"
  "never_sent (Some (h\<lparr>hc_ladder := l2\<rparr>)) = never_sent (Some h)"
  by (cases x) simp_all

lemma active_cases: "is_active st \<Longrightarrow> st = Trying \<or> st = Proceeding"
  by (simp add: is_active_def)

lemma client_arc_proceed: "is_active st \<Longrightarrow> client_arc\<^sup>*\<^sup>* st Proceeding"
  using active_cases by (blast intro: arcs)

lemma client_arc_final:
  "st \<noteq> Confirmed \<Longrightarrow> st \<noteq> Accepted \<Longrightarrow> client_arc\<^sup>*\<^sup>* st Completed \<and> client_arc\<^sup>*\<^sup>* st Accepted"
  by (cases st) (auto intro!: r_into_rtranclp client_arc.intros simp: is_active_def)

lemma bump_frame [simp]:
  "books (bump CancelsHeld s) = (let (h, fl, dr, ac) = books s in (h + 1, fl, dr, ac))"
  "books (bump HeldCancelsFlushed s) = (let (h, fl, dr, ac) = books s in (h, fl + 1, dr, ac))"
  "books (bump HeldCancelsDropped s) = (let (h, fl, dr, ac) = books s in (h, fl, dr + 1, ac))"
  "txn_index (bump c s) = txn_index s"
  by (simp_all add: books_def bump_def)

lemma upd_keeps [simp]:
  "books (upd_client b f s) = books s" "txn_index (upd_client b f s) = txn_index s"
  "books (upd_server k f s) = books s" "txn_index (upd_server k f s) = txn_index s"
  by (simp_all add: upd_client_def upd_server_def books_def split: option.split)

lemma cancel_keeps [simp]: "books (cancel_timer ko s) = books s" "txn_index (cancel_timer ko s) = txn_index s"
  by (simp_all add: cancel_timer_def books_def split: option.split)

lemma bump_past:
  "bump c (send_buffer buf dest s) = send_buffer buf dest (bump c s)"
  "bump c (hold_txn E i why s) = hold_txn E i why (bump c s)"
  by (simp add: send_buffer_def bump_def)
    (cases i; simp add: hold_txn_def hold_txn_for_def arm_deadline_def Let_def case_prod_beta upd_client_def
      upd_server_def insert_at_def arm_def cancel_timer_def bump_def split: option.split)

lemma settle_keeps:
  "txn_index (settle_accepted b s) = settled b (Option.bind (clients s b) t_call_ref) (txn_index s)"
  "books (settle_accepted b s) = books s"
  by (cases "Option.bind (clients s b) t_call_ref";
      simp add: settle_accepted_def settled_def Let_def quiesce_if_last_def books_def split: option.split)+

lemma accept_core_keeps:
  "txn_index (accept_core t b resp s) = txn_index s"
  "books (accept_core t b resp s) =
     (let (h, fl, dr, ac) = books s in (h, fl, dr + of_bool (never_sent (t_held_cancel t)), ac))"
  by (simp_all add: accept_core_def Let_def case_prod_beta)

lemma with_dialog_tick [simp]: "tick t (fst (with_dialog tag f t))"
  by (subst with_dialog_dialogs) (simp add: move_defs)

lemma park_cancel_tick [simp]: "tick t (park_cancel buf dest t)"
  by (cases "t_held_cancel t") (simp_all add: park_cancel_def move_defs held_cancel_new_def)

context turn_inv
begin

section \<open>Retransmission\<close>

lemma P_release_seed_resend [step_inv]: "P s \<Longrightarrow> P (release_seed_resend E' b s)"
  by (auto simp: release_seed_resend_def Let_def case_prod_beta move_defs split: option.split intro!: P_upd_client)

lemma P_arm_cancel_retransmit [step_inv]: "P s \<Longrightarrow> P (arm_cancel_retransmit E' b s)"
  by (auto simp: arm_cancel_retransmit_def Let_def case_prod_beta move_defs split: option.split intro!: P_upd_client)

lemma P_fire_cancel_retransmit [step_inv]: "P s \<Longrightarrow> P (fire_cancel_retransmit E' b s)"
  by (auto simp: fire_cancel_retransmit_def Let_def case_prod_beta move_defs P_count split: option.split
      intro!: P_upd_client)

lemma P_start_client_retransmit [step_inv]: "P s \<Longrightarrow> P (start_client_retransmit E' b buf dest m tk s)"
  by (auto simp: start_client_retransmit_def Let_def case_prod_beta move_defs split: option.split intro!: P_upd_client)

lemma P_fire_retransmit [step_inv]: "P s \<Longrightarrow> P (fire_retransmit E' b s)"
  by (auto simp: fire_retransmit_def Let_def case_prod_beta move_defs P_count split: option.split intro!: P_upd_client)

text \<open>A client transaction moved by one counted update.\<close>

lemma P_client_counted:
  assumes "P s" "clients s b = Some t" "client_move t t'" "t_call_ref t' = t_call_ref t"
    and "t_state t' = Accepted \<longleftrightarrow> t_state t = Accepted"
    and "clients s' = (clients s)(b \<mapsto> t')" "servers s' = servers s" "txn_index s' = txn_index s"
    and "\<And>h fl dr ac. books s = (h, fl, dr, ac) \<Longrightarrow> \<exists>h' fl' dr'. books s' = (h', fl', dr', ac) \<and>
      h' + fl + dr + unsent t = h + fl' + dr' + unsent t'"
  shows "P s'"
proof -
  obtain h fl dr ac where b: "books s = (h, fl, dr, ac)" by (cases "books s") auto
  with assms(9) obtain h' fl' dr' where "books s' = (h', fl', dr', ac)"
    "h' + fl + dr + unsent t = h + fl' + dr' + unsent t'" by blast
  with b show ?thesis using client [OF assms(1-8)] by blast
qed

lemma P_flush_cancel [step_inv]:
  assumes "P s"
  shows "P (flush_cancel_on_provisional E' b s)"
proof (cases "\<exists>t h. clients s b = Some t \<and> t_held_cancel t = Some h \<and> hc_wire h = WHeld")
  case False
  then show ?thesis using assms by (auto simp: flush_cancel_on_provisional_def split: option.split)
next
  case True
  then obtain t h where t: "clients s b = Some t" "t_held_cancel t = Some h" "hc_wire h = WHeld" by blast
  have "P (bump HeldCancelsFlushed (upd_client b (\<lambda>t. t\<lparr>t_held_cancel := Some (h\<lparr>hc_wire := WSent\<rparr>)\<rparr>) s))"
    by (rule P_client_counted [OF assms t(1), of "t\<lparr>t_held_cancel := Some (h\<lparr>hc_wire := WSent\<rparr>)\<rparr>"])
      (use t in \<open>auto simp: move_defs unsent_def clients_upd_client\<close>)
  then show ?thesis
    using t by (auto simp: flush_cancel_on_provisional_def Let_def bump_past intro!: P_arm_cancel_retransmit P_hold)
qed

section \<open>Give-up\<close>

lemma P_give_up [step_inv]: "P s \<Longrightarrow> P (give_up_txn E b s)"
  by (auto simp: give_up_txn_def Let_def move_defs leave split: option.split intro!: P_hold P_upd_client)

lemma P_fire_timeout [step_inv]: "P s \<Longrightarrow> P (fire_timeout E b s)"
  by (auto simp: fire_timeout_def Let_def P_give_up split: option.split)

lemma P_fire_first_response [step_inv]: "P s \<Longrightarrow> P (fire_first_response E' b s)"
  by (auto simp: fire_first_response_def Let_def move_defs split: option.split bool.split intro!: P_upd_client)

lemma P_rearm_invite_bound [step_inv]: "P s \<Longrightarrow> P (rearm_invite_bound E' b s)"
  by (auto simp: rearm_invite_bound_def Let_def case_prod_beta move_defs split: option.split intro!: P_upd_client)

section \<open>Finals\<close>

lemma P_complete_non_2xx:
  assumes "P s" "\<And>t. clients s b = Some t \<Longrightarrow> t_state t \<noteq> Confirmed \<and> t_state t \<noteq> Accepted"
  shows "P (complete_non_2xx E' b s)"
proof (cases "clients s b")
  case None
  then show ?thesis using assms(1) by (simp add: complete_non_2xx_def P_hold)
next
  case (Some t)
  let ?s1 = "upd_client b (\<lambda>t. t\<lparr>t_state := Completed, t_held_cancel := None\<rparr>) s"
  have "P (if never_sent (t_held_cancel t) then bump HeldCancelsDropped ?s1 else ?s1)"
    by (rule P_client_counted [OF assms(1) Some, of "t\<lparr>t_state := Completed, t_held_cancel := None\<rparr>"])
      (use assms(2) [OF Some] client_arc_final [of "t_state t"] Some in
        \<open>auto simp: move_defs unsent_def clients_upd_client\<close>)
  then show ?thesis
    using Some by (auto simp: complete_non_2xx_def Let_def clear_running_def move_defs intro!: P_hold P_upd_client)
qed

lemma P_accept_2xx:
  assumes "P s" "\<And>t. clients s b = Some t \<Longrightarrow> t_state t \<noteq> Confirmed \<and> t_state t \<noteq> Accepted"
  shows "P (accept_2xx E' b resp s)"
proof (cases "clients s b")
  case None
  then show ?thesis using assms(1) by (simp add: accept_2xx_def)
next
  case (Some t)
  obtain h fl dr ac where b: "books s = (h, fl, dr, ac)" by (cases "books s") auto
  let ?s1 = "accept_core t b resp s"
  define t' where "t' = held_txn E' HTimerM (hold_duration HTimerM) (timers ?s1) (accepted_txn resp t)"
  have c1: "clients ?s1 = (clients s)(b \<mapsto> accepted_txn resp t)" "servers ?s1 = servers s"
    using accept_core_state [OF Some] by simp_all
  have fields: "same_head t (accepted_txn resp t)" "t_orphaned (accepted_txn resp t) = t_orphaned t"
    "t_call_ref (accepted_txn resp t) = t_call_ref t" "t_state (accepted_txn resp t) = Accepted"
    "t_held_cancel (accepted_txn resp t) = None"
    by (auto simp: accepted_txn_def move_defs clear_running_def with_dialog_def split: option.split)
  have t': "tick (accepted_txn resp t) t'" unfolding t'_def by (rule held_txn_move)
  have cl: "clients (hold_txn E' (Client b) HTimerM ?s1) = (clients s)(b \<mapsto> t')"
    "servers (hold_txn E' (Client b) HTimerM ?s1) = servers s"
    by (auto simp: hold_txn_def hold_client_state c1 t'_def)
  show ?thesis
    unfolding accept_2xx_def Some option.case
    by (rule accept [OF assms(1) Some, where t' = t', OF _ _ _ _ _ _ _ _ b])
      (use assms(2) [OF Some] client_arc_final [of "t_state t"] fields t' b cl in
        \<open>auto simp: move_defs settle_keeps accept_core_keeps unsent_def t'_def held_txn_def\<close>)
qed

section \<open>Requests\<close>

lemma P_note_tu_ack [step_inv]: "P s \<Longrightarrow> P (note_tu_ack E' ack buf dest s)"
  by (auto simp: note_tu_ack_def Let_def split: option.split intro!: P_upd_client)

lemma P_note_reliable_offer [step_inv]: "P s \<Longrightarrow> P (note_reliable_offer b resp s)"
  by (auto simp: note_reliable_offer_def Let_def move_defs split: option.split intro!: P_upd_client)

lemma P_note_dialog_cseq [step_inv]: "P s \<Longrightarrow> P (note_dialog_cseq E' cr req s)"
  unfolding note_dialog_cseq_def by (auto split: option.split intro!: P_fold P_upd_client)

lemma P_hold_cancel_unsent:
  assumes "P s" "clients s b = Some t" "t_held_cancel t \<noteq> None \<longrightarrow> never_sent (t_held_cancel t)"
  shows "P (hold_cancel_unsent E' b buf dest s)"
proof -
  let ?s1 = "upd_client b (\<lambda>t. t\<lparr>t_held_cancel := Some (held_cancel_new buf dest WHeld)\<rparr>) s"
  have "P (bump CancelsHeld (if t_held_cancel t \<noteq> None then bump HeldCancelsDropped ?s1 else ?s1))"
    by (rule P_client_counted [OF assms(1,2), of "t\<lparr>t_held_cancel := Some (held_cancel_new buf dest WHeld)\<rparr>"])
      (use assms(2,3) in \<open>auto simp: move_defs unsent_def clients_upd_client held_cancel_new_def\<close>)
  then show ?thesis using assms(2) by (simp add: hold_cancel_unsent_def Let_def P_release_seed_resend)
qed

lemma P_send_raw [step_inv]: "P s \<Longrightarrow> P (send_raw E' msg buf dest s)"
  by (auto simp: send_raw_def Let_def split: option.split
      intro!: P_hold P_arm_cancel_retransmit P_note_tu_ack P_upd_client)

lemma gate_hold:
  assumes "gate_of msg s = GHold" "lockstep now s"
  shows "\<exists>t. clients s (or_empty (rq_branch msg)) = Some t \<and> (t_held_cancel t \<noteq> None \<longrightarrow> never_sent (t_held_cancel t))"
proof -
  from assms(1) obtain t where t: "clients s (or_empty (rq_branch msg)) = Some t" "t_state t = Trying"
    by (auto simp: gate_of_def or_empty_def bind_eq_Some_conv split: if_splits option.splits)
  with lockstep_client_ok [OF assms(2) t(1)] show ?thesis by (simp add: client_ok_def)
qed

lemma P_send_cancel_or_ack [step_inv]:
  "P s \<Longrightarrow> lockstep now s \<Longrightarrow> P (send_cancel_or_ack E' msg buf dest s)"
  using gate_hold [of msg s now]
  by (cases "gate_of msg s") (auto simp: send_cancel_or_ack_def P_count P_send_raw intro: P_hold_cancel_unsent)

lemma P_open_client [step_inv]: "P s \<Longrightarrow> P (open_client E b msg buf dest kind s)"
proof -
  assume "P s"
  then have "P (open_txn E (client_head kind b msg dest)
      (send_buffer buf dest (note_dialog_cseq E cr msg s)))" for cr
    unfolding open_txn_def by (intro P_open) (simp_all add: P_note_dialog_cseq opened_def client_head_def)
  then show ?thesis
    by (auto simp: open_client_def Let_def case_prod_beta P_start_client_retransmit)
qed

lemma P_request_branch [simp]: "P (fst (request_branch E' msg s)) = P s"
  by (simp add: request_branch_def split: option.split)

lemma P_send_request [step_inv]:
  "P s \<Longrightarrow> lockstep now s \<Longrightarrow> P (fst (do_send_request E msg dest kind s))"
  by (simp add: do_send_request_def Let_def case_prod_beta P_send_cancel_or_ack P_open_client)

section \<open>Orphans and held ACKs\<close>

lemma P_orphan_one [step_inv]: "P s \<Longrightarrow> P (orphan_one b s)"
proof (cases "clients s b")
  case None
  assume "P s"
  then show ?thesis using None by (simp add: orphan_one_def upd_client_def detach)
next
  case (Some t)
  assume "P s"
  then have "P (upd_client b (\<lambda>t. t\<lparr>t_orphaned := True\<rparr>) s)"
    by (rule P_client_counted [OF _ Some, of "t\<lparr>t_orphaned := True\<rparr>"])
      (use Some in \<open>auto simp: move_defs unsent_def clients_upd_client\<close>)
  then show ?thesis unfolding orphan_one_def by (rule detach)
qed

lemma P_orphan_draws [simp]:
  "P (fst (orphan_ack E' b invite resp s)) = P s" "P (fst (orphan_bye E' b invite resp s)) = P s"
  by (simp_all add: orphan_ack_def orphan_bye_def Let_def case_prod_beta split: option.split)

lemma P_bye_unheld [step_inv]:
  assumes "P s" "lockstep now s"
  shows "P (bye_unheld_dialog E b invite resp s)"
proof -
  obtain s1 x where o: "orphan_bye E b invite resp s = (s1, x)" by (cases "orphan_bye E b invite resp s")
  have s1: "P s1" "lockstep now s1"
    using assms P_orphan_draws(2) [of E b invite resp s] lockstep_orphan_draws(2) [of now E b invite resp s]
    by (simp_all add: o)
  show ?thesis
    using s1 by (cases x) (auto simp: bye_unheld_dialog_def o Let_def case_prod_beta P_count
        intro: P_orphan_one P_send_request)
qed

lemma P_release_2xx [step_inv]:
  assumes "P s" "lockstep now s"
  shows "P (release_2xx E b resp s)"
proof (cases "clients s b")
  case (Some t)
  define s1 where "s1 = upd_client b (\<lambda>t. fst (with_dialog (rs_to_tag resp) (\<lambda>d. d) t)) s"
  have s1: "P s1" "lockstep now s1"
    using assms by (auto simp: s1_def lockstep_with_dialog intro: P_upd_client)
  have bye: "P (bye_unheld_dialog E b invite resp
      (upd_client b (\<lambda>t. fst (with_dialog (rs_to_tag resp) (\<lambda>d. d\<lparr>d_ack := Some y\<rparr>) t)) s'))"
    "P (upd_client b (\<lambda>t. fst (with_dialog (rs_to_tag resp) (\<lambda>d. d\<lparr>d_ack := Some y\<rparr>) t)) s')"
    if "P s'" "lockstep now s'" for invite y s'
    using that by (auto intro!: P_bye_unheld P_upd_client lockstep_with_dialog)
  show ?thesis
  proof (cases "Option.bind (snd (with_dialog (rs_to_tag resp) (\<lambda>d. d) t)) d_ack = None \<and> accepted_invite E b s1 \<noteq> None")
    case False
    then show ?thesis using Some s1(1) by (auto simp: release_2xx_def Let_def s1_def [symmetric] split: option.split)
  next
    case True
    then obtain invite where inv: "accepted_invite E b s1 = Some invite" by blast
    obtain s2 x where o: "orphan_ack E b invite resp s1 = (s2, x)" by (cases "orphan_ack E b invite resp s1")
    have s2: "P s2" "lockstep now s2"
      using s1 P_orphan_draws(1) [of E b invite resp s1] lockstep_orphan_draws(1) [of now E b invite resp s1]
      by (simp_all add: o)
    show ?thesis
      using True Some inv o s2 bye [of "send_buffer y z s2" for y z]
      by (cases x) (auto simp: release_2xx_def Let_def s1_def [symmetric] split: option.split)
  qed
qed (use assms in \<open>simp add: release_2xx_def\<close>)

lemma P_cancel_txns_for_call [step_inv]: "P s \<Longrightarrow> P (do_cancel_txns_for_call E' cr s)"
  unfolding do_cancel_txns_for_call_def orphan_branch_def
  by (auto simp: P_count split: option.split intro!: P_fold P_orphan_one)

lemma P_send_held_ack [step_inv]: "P s \<Longrightarrow> P (fst (send_held_ack b s))"
  by (auto simp: send_held_ack_def move_defs split: option.split intro!: P_upd_client)

lemma P_fire_ack_bound [step_inv]: "P s \<Longrightarrow> P (fire_ack_bound E' b at s)"
  using P_send_held_ack [of s b] by (auto simp: fire_ack_bound_def split: prod.split bool.split)

section \<open>Responses\<close>

lemma P_ack_first [step_inv]: "P s \<Longrightarrow> P (ack_first_non_2xx E' b ack s)"
  by (auto simp: ack_first_non_2xx_def Let_def move_defs split: option.split intro!: P_upd_client)

lemma ack_first_state: "map_option t_state (clients (ack_first_non_2xx E' b ack s) b) = map_option t_state (clients s b)"
  by (auto simp: ack_first_non_2xx_def Let_def insert_at_def split: option.split)

lemma P_take_non_2xx:
  assumes "P s" "clients s b = Some t" "t_state t \<noteq> Confirmed" "t_state t \<noteq> Accepted"
  shows "P (take_non_2xx_final E' b resp src t s)"
proof -
  have "P (complete_non_2xx E' b (ack_first_non_2xx E' b a s))" for a
  proof (rule P_complete_non_2xx)
    fix t' assume "clients (ack_first_non_2xx E' b a s) b = Some t'"
    then have "t_state t' = t_state t" using ack_first_state [of E' b a s] assms(2) by simp
    then show "t_state t' \<noteq> Confirmed \<and> t_state t' \<noteq> Accepted" using assms by simp
  qed (simp add: assms P_ack_first)
  moreover have "P (complete_non_2xx E' b (send_buffer x y s))" "P (complete_non_2xx E' b s)" for x y
    using assms by (auto intro!: P_complete_non_2xx)
  ultimately show ?thesis
    using assms(1) by (auto simp: take_non_2xx_final_def Let_def split: option.split)
qed

lemma P_proceed:
  assumes "P s" "clients s b = Some t" "is_active (t_state t)"
    and "tick (t\<lparr>t_state := Proceeding\<rparr>) (f t)"
  shows "P (upd_client b f s)"
  by (rule P_client_counted [OF assms(1,2), of "f t"])
    (use assms client_arc_proceed [OF assms(3)] in
      \<open>auto simp: move_defs unsent_def clients_upd_client is_active_def\<close>)

lemma P_take_100 [step_inv]:
  assumes "P s"
  shows "P (fst (take_100 E' b resp s))"
proof (cases "\<exists>t. clients s b = Some t \<and> is_active (t_state t)")
  case True
  then obtain t where t: "clients s b = Some t" "is_active (t_state t)" by blast
  have "P (upd_client b (\<lambda>t. t\<lparr>t_state := Proceeding\<rparr>) s)"
    by (rule P_proceed [OF assms t]) (simp add: move_defs)
  then have "P (flush_cancel_on_provisional E' b (rearm_invite_bound E' b
      (if t_kind t = KInvite then cancel_timer (t_retransmit_key t)
        (upd_client b (\<lambda>t. t\<lparr>t_retransmit_key := None\<rparr>) (upd_client b (\<lambda>t. t\<lparr>t_state := Proceeding\<rparr>) s))
       else upd_client b (\<lambda>t. t\<lparr>t_state := Proceeding\<rparr>) s)))"
    by (intro P_flush_cancel P_rearm_invite_bound) (auto simp: move_defs intro!: P_upd_client)
  then show ?thesis using t assms by (simp add: take_100_def Let_def)
qed (use assms in \<open>auto simp: take_100_def split: option.split\<close>)

lemma P_take_cancel_response [step_inv]: "P s \<Longrightarrow> P (take_cancel_response E' b resp src reoffer s)"
  by (auto simp: take_cancel_response_def Let_def move_defs split: option.split intro!: P_upd_client)

lemma P_take_provisional [step_inv]:
  assumes "P s" "clients s b = Some t"
  shows "P (take_provisional E' b resp t s)"
proof (cases "is_active (t_state t)")
  case True
  have "P (upd_client b (\<lambda>t. t\<lparr>t_state := Proceeding, t_past_trying := True\<rparr>) s)"
    by (rule P_proceed [OF assms True]) (simp add: move_defs)
  then have "P (flush_cancel_on_provisional E' b (rearm_invite_bound E' b
      (if t_kind t = KInvite then note_reliable_offer b resp (cancel_timer (t_retransmit_key t)
        (upd_client b (\<lambda>t. t\<lparr>t_retransmit_key := None\<rparr>)
          (upd_client b (\<lambda>t. t\<lparr>t_state := Proceeding, t_past_trying := True\<rparr>) s)))
       else upd_client b (\<lambda>t. t\<lparr>t_state := Proceeding, t_past_trying := True\<rparr>) s)))"
    by (intro P_flush_cancel P_rearm_invite_bound) (auto simp: move_defs intro!: P_note_reliable_offer P_upd_client)
  then show ?thesis by (simp add: take_provisional_def Let_def True split: if_splits)
qed (use assms in \<open>simp add: take_provisional_def\<close>)

lemma P_take_final [step_inv]:
  assumes E: "env_ok E" and ls: "lockstep (e_now E) s" and P: "P s"
    and t: "clients s b = Some t" "t_state t \<noteq> Accepted"
  shows "P (take_final E b resp src t s)"
proof -
  have st: "t_state t \<noteq> Confirmed" using lockstep_client_ok [OF ls t(1)] by (simp add: client_ok_def)
  have acc: "P (accept_2xx E b resp s)" using P t st by (auto intro: P_accept_2xx)
  then have "P (release_2xx E b resp (accept_2xx E b resp s))"
    by (rule P_release_2xx [OF _ lockstep_accept_2xx [OF E ls]])
  with acc P t st leave [OF P] show ?thesis
    by (simp add: take_final_def accept_orphaned_2xx_def Let_def P_take_non_2xx)
qed

lemma P_pass_up [simp]: "P (pass_up E' b resp src m r s) = P s"
  by (simp add: pass_up_def Let_def)

lemma P_inbound_response [step_inv]:
  "env_ok E \<Longrightarrow> lockstep (e_now E) s \<Longrightarrow> P s \<Longrightarrow> P (fst (inbound_response E resp src reoffer s))"
  by (auto simp: inbound_response_def Let_def P_take_100 P_take_cancel_response
      P_release_2xx P_take_provisional [OF _ client_match_Some] P_take_final [OF _ _ _ client_match_Some]
      split: option.split)

end

end
