(* ===== verification/Txn_Actions_Server.thy ===== *)
theory Txn_Actions_Server
  imports Txn_Actions_Client
begin

text \<open>
  The server handlers, the seeds, the commands and the loop as actions on the tables: an invariant
  of the tables is kept by each of them and by every turn (\<open>server.rs\<close>, \<open>server_cancel.rs\<close>,
  \<open>held_cancel.rs\<close>, \<open>trying.rs\<close>, \<open>unanswered.rs\<close>, \<open>relinquish.rs\<close>, \<open>seed.rs\<close>, \<open>commands.rs\<close>, \<open>run.rs\<close>).
\<close>

lemma not_sent_final: "\<not> sent_final st \<longleftrightarrow> is_active st"
  by (cases st) (simp_all add: sent_final_def is_active_def)

lemma server_arc_after: "is_active st \<Longrightarrow> server_arc\<^sup>*\<^sup>* st (state_after kind status)"
  by (cases st) (auto simp: state_after_def is_active_def intro!: r_into_rtranclp server_arc.intros)

text \<open>The transaction a seeded final goes on: one with no final yet, or one opened for it.\<close>

definition fit :: "server_txn_key \<Rightarrow> txn_state \<Rightarrow> owner \<Rightarrow> bool" where
  "fit k st s \<longleftrightarrow> (\<forall>t. servers s k = Some t \<longrightarrow> is_active (t_state t) \<or> t_state t = st \<and> t_last_response t = None)"

lemma fit_record [simp]: "fit k st s \<Longrightarrow> fit k st (record_uas_tag E k resp s)"
  by (auto simp: fit_def record_uas_tag_def split: option.split)

lemma fit_hold_seeded [simp]: "fit k st s \<Longrightarrow> fit k st (hold_seeded_identity E k s)"
  by (auto simp: fit_def hold_seeded_identity_def Let_def split: option.split)

lemma fit_open: "t_id head = Server k \<Longrightarrow> t_state head = st \<Longrightarrow> fit k st (open_txn E head s)"
  by (auto simp: fit_def open_txn_def servers_open_server) (simp_all add: transaction_new_def new_transaction.defs)

lemma fit_not_answered: "fit k st s \<Longrightarrow> servers s k = Some t \<Longrightarrow> sent_final (t_state t) \<Longrightarrow> t_last_response t = None"
  by (auto simp: fit_def not_sent_final [symmetric])

context turn_inv
begin

section \<open>Finals\<close>

lemma P_arm_final_hold [step_inv]: "P s \<Longrightarrow> P (arm_final_hold E' k kind status s)"
  by (auto simp: arm_final_hold_def Let_def case_prod_beta move_defs split: option.split
      intro!: P_hold P_tick_server)

lemma P_fire_server_retransmit [step_inv]: "P s \<Longrightarrow> P (fire_server_retransmit E' k s)"
  by (auto simp: fire_server_retransmit_def Let_def case_prod_beta move_defs P_count split: option.split
      intro!: P_tick_server)

lemma P_bind_to_tag [simp]: "P (fst (bind_to_tag E' resp s)) = P s"
  by (simp add: bind_to_tag_def Let_def P_count split: tag_bound.split option.split)

lemma P_record_uas_tag:
  assumes "P s" "\<And>t. servers s k = Some t \<Longrightarrow> sent_final (t_state t) \<Longrightarrow> t_last_response t = None"
  shows "P (record_uas_tag E' k resp s)"
proof -
  have "P (upd_server k (\<lambda>t. t\<lparr>t_final_to_tag := Some tag\<rparr>) s)" for tag
    using assms(1) by (rule P_upd_server) (use assms(2) in \<open>auto simp: move_defs\<close>)
  with assms(1) show ?thesis by (simp add: record_uas_tag_def split: option.split)
qed

lemma P_note_response:
  assumes "P s" "\<And>t. servers s k = Some t \<Longrightarrow> is_active (t_state t)"
  shows "P (note_response E' k resp s)"
proof -
  let ?tag = "if 100 < rs_status resp then rs_to_tag resp else None"
  have "P (upd_server k (\<lambda>t. t\<lparr>t_uas_to_tag := or_else (t_uas_to_tag t) ?tag, t_last_response := Some (rs_image resp),
      t_last_response_status := Some (rs_status resp), t_state := state_after (t_kind t) (rs_status resp)\<rparr>) s)"
    using assms(1)
  proof (rule P_upd_server)
    fix t assume "servers s k = Some t"
    with assms(2) have act: "is_active (t_state t)" by blast
    then show "server_move t (t\<lparr>t_uas_to_tag := or_else (t_uas_to_tag t) ?tag, t_last_response := Some (rs_image resp),
        t_last_response_status := Some (rs_status resp), t_state := state_after (t_kind t) (rs_status resp)\<rparr>) \<and>
      t_call_ref (t\<lparr>t_uas_to_tag := or_else (t_uas_to_tag t) ?tag, t_last_response := Some (rs_image resp),
        t_last_response_status := Some (rs_status resp), t_state := state_after (t_kind t) (rs_status resp)\<rparr>) = t_call_ref t"
      using server_arc_after [OF act, of "t_kind t" "rs_status resp"] not_sent_final [of "t_state t"]
      by (auto simp: move_defs or_else_def)
  qed
  then show ?thesis
    using assms(1) by (auto simp: note_response_def Let_def move_defs split: option.split
        intro!: P_arm_final_hold P_tick_server [where f = "\<lambda>t. t\<lparr>t_original_request := None\<rparr>"])
qed

lemma P_send_response [step_inv]:
  assumes P: "P s"
  shows "P (fst (do_send_response E' msg dest s))"
proof (cases "drops_response msg s")
  case True
  then show ?thesis using P by (simp add: do_send_response_def)
next
  case False
  obtain s1 m where b: "bind_to_tag E' msg s = (s1, m)" by (cases "bind_to_tag E' msg s")
  have s1: "P s1" "servers s1 = servers s" "of_response m = of_response msg" "rs_cseq_method m = rs_cseq_method msg"
    using P P_bind_to_tag [of E' msg s] bind_to_tag_frame(1) [of E' msg s] bind_to_tag_same [of E' msg s]
    by (simp_all add: b)
  have "P (note_response E' k m (record_uas_tag E' k m s1))"
    if k: "of_response msg = Some k" and "rs_cseq_method msg \<noteq> MCancel" for k
  proof -
    have act: "is_active (t_state t)" if "servers s1 k = Some t" for t
      using False that \<open>rs_cseq_method msg \<noteq> MCancel\<close> k by (simp add: drops_response_def s1(2) not_sent_final)
    show ?thesis
    proof (rule P_note_response)
      show "P (record_uas_tag E' k m s1)"
        using s1(1) by (rule P_record_uas_tag) (use act not_sent_final in blast)
      fix t assume "servers (record_uas_tag E' k m s1) k = Some t"
      then show "is_active (t_state t)"
        using act by (auto simp: record_uas_tag_def split: option.splits if_splits)
    qed
  qed
  then show ?thesis
    using False s1(1) by (auto simp: do_send_response_def b s1 Let_def P_count split: option.split)
qed

lemma P_hold_for_timer_i:
  assumes "P s" "\<And>t. servers s k = Some t \<Longrightarrow> t_state t = Completed"
  shows "P (hold_for_timer_i E' k s)"
proof -
  have "P (upd_server k (\<lambda>t. t\<lparr>t_retransmit_key := None, t_state := Confirmed, t_ladder := None\<rparr>) s)"
    using assms(1) by (rule P_upd_server) (use assms(2) in \<open>auto simp: move_defs intro: r_into_rtranclp server_arc.intros\<close>)
  with assms(1) show ?thesis by (auto simp: hold_for_timer_i_def Let_def split: option.split intro!: detach P_hold)
qed

section \<open>A CANCEL and its answers\<close>

lemma P_send_opt [simp]: "P (send_opt d s) = P s" "P (send_image r dest s) = P s"
  by (simp_all add: send_opt_def send_image_def split: option.split prod.split)

lemma P_send_held_cancel [step_inv]: "P s \<Longrightarrow> P (fst (send_held_cancel E' k s))"
  by (auto simp: send_held_cancel_def Let_def move_defs split: option.split intro!: P_arm_final_hold P_tick_server)

lemma P_fire_cancel_bound [step_inv]: "P s \<Longrightarrow> P (fire_cancel_bound E' k at s)"
  using P_send_held_cancel [of s E' k] by (auto simp: fire_cancel_bound_def split: prod.split bool.split)

lemma P_release_held_cancel [step_inv]: "P s \<Longrightarrow> P (fst (release_held_cancel E' h s))"
  by (simp add: release_held_cancel_def P_send_held_cancel split: option.split)

lemma P_waive [step_inv]: "P s \<Longrightarrow> P (waive_held_final k s)"
  unfolding waive_held_final_def by (rule P_tick_server) (auto simp: move_defs)

lemma P_uas_to_tag_of [step_inv]: "P s \<Longrightarrow> P (fst (uas_to_tag_of E' k s))"
  by (auto simp: uas_to_tag_of_def Let_def case_prod_beta move_defs bound_to_tag_def new_tag_def split: option.splits
      intro!: P_tick_server)

lemma P_hold_cancel_answers [step_inv]: "P s \<Longrightarrow> P (hold_cancel_answers E' k h ok ans s)"
  by (auto simp: hold_cancel_answers_def Let_def move_defs split: option.split intro!: P_tick_server)

lemma P_terminate_invite:
  assumes "P s" "\<And>t. servers s k = Some t \<Longrightarrow> is_active (t_state t)"
  shows "P (fst (terminate_invite E' k tag cd s))"
proof -
  have "P (upd_server k (\<lambda>t. t\<lparr>t_state := Completed, t_last_response := x, t_last_response_status := Some 487,
      t_original_request := None\<rparr>) (record_uas_tag E' k r s'))"
    if "P s'" "servers s' = servers s" for x r s'
  proof (rule P_upd_server)
    show "P (record_uas_tag E' k r s')"
      using that(1) by (rule P_record_uas_tag) (use assms(2) that(2) not_sent_final in auto)
    fix t assume "servers (record_uas_tag E' k r s') k = Some t"
    then have "is_active (t_state t)"
      using assms(2) that(2) by (auto simp: record_uas_tag_def split: option.splits if_splits)
    then show "server_move t (t\<lparr>t_state := Completed, t_last_response := x, t_last_response_status := Some 487,
        t_original_request := None\<rparr>) \<and> t_call_ref (t\<lparr>t_state := Completed, t_last_response := x,
        t_last_response_status := Some 487, t_original_request := None\<rparr>) = t_call_ref t"
      using not_sent_final [of "t_state t"] by (auto simp: move_defs intro!: r_into_rtranclp server_arc.intros)
  qed
  with assms(1) show ?thesis
    by (auto simp: terminate_invite_def Let_def split: option.split intro!: P_arm_final_hold)
qed

lemma P_cancel_matched:
  assumes "P s" "servers s k = Some t" "is_active (t_state t)"
  shows "P (cancel_matched E' k req cd s)"
proof -
  obtain s1 tag where u: "uas_to_tag_of E' k s = (s1, tag)" by (cases "uas_to_tag_of E' k s")
  have P1: "P s1" using P_uas_to_tag_of [OF assms(1), of E' k] by (simp add: u)
  have act: "is_active (t_state t')" if "servers s1 k = Some t'" for t'
    using uas_to_tag_of_servers [of E' k s t'] that assms by (auto simp: u)
  define s2 where "s2 = (if holds_cancel_answers E' then s1
    else send_opt (map_option (\<lambda>r. (rs_image r, cd)) (generate_response E' req 200 tag None)) s1)"
  obtain s3 h where ter: "terminate_invite E' k tag cd s2 = (s3, h)" by (cases "terminate_invite E' k tag cd s2")
  have "P (fst (terminate_invite E' k tag cd s2))"
    by (rule P_terminate_invite) (use P1 act in \<open>auto simp: s2_def send_opt_def split: if_splits option.splits\<close>)
  then have "P s3" by (simp add: ter)
  then show ?thesis
    using ter by (cases "holds_cancel_answers E'")
      (simp_all add: cancel_matched_def Let_def u s2_def P_hold_cancel_answers)
qed

lemma P_handle_cancel [step_inv]:
  assumes "P s" "lockstep now s"
  shows "P (fst (handle_cancel E' req src dg s))"
proof -
  have "P (cancel_matched E' k req cd s)"
    if "cancelled_invite req (\<lambda>t. cancel_scope req t \<and> is_active (t_state t)) s = Some k" for k cd
    using cancelled_invite_Some [OF assms(2) that] P_cancel_matched [OF assms(1)] by blast
  moreover have "P (answer_answered_cancel E' k req cd s)" for k cd
    using P_uas_to_tag_of [OF assms(1), of E' k] by (simp add: answer_answered_cancel_def Let_def case_prod_beta)
  ultimately show ?thesis
    using assms(1) by (auto simp: handle_cancel_def Let_def split: option.split)
qed

section \<open>Requests\<close>

lemma P_send_first_trying [step_inv]:
  assumes "P s"
  shows "P (fst (send_first_trying E' k s))"
proof -
  have "P (upd_server k (\<lambda>t. t\<lparr>t_state := Proceeding, t_last_response := x, t_last_response_status := y\<rparr>) s')"
    if "P s'" "servers s' k = Some t" "t_state t = Trying" for t x y s'
    using that(1) by (rule P_upd_server)
      (use that(2,3) in \<open>auto simp: move_defs sent_final_def intro!: r_into_rtranclp server_arc.intros\<close>)
  with assms show ?thesis by (auto simp: send_first_trying_def Let_def split: option.split)
qed

lemma P_fire_trying [step_inv]: "P s \<Longrightarrow> P (fire_trying E' k at s)"
  by (simp add: fire_trying_def P_send_first_trying)

lemma P_stamp [simp]: "P (fst (stamp_request E' req src s)) = P s" "P (fst (upward E' req src dg s)) = P s"
    "P (fst (hand_up E' req src dg s)) = P s"
  by (simp_all add: stamp_request_def upward_def hand_up_def Let_def case_prod_beta P_count)

lemma P_replay [step_inv]:
  assumes "P s"
  shows "P (fst (replay_cached E' req src s))"
proof -
  have "P (upd_server k (\<lambda>t. t\<lparr>t_last_response := x, t_last_response_status := y\<rparr>) s')"
    if "P s'" "servers s' k = Some t" "t_state t = Proceeding" for k t x y s'
    using that(1) by (rule P_upd_server) (use that(2,3) in \<open>auto simp: move_defs sent_final_def\<close>)
  with assms show ?thesis
    by (auto simp: replay_cached_def stamp_request_def Let_def case_prod_beta P_count split: option.split)
qed

lemma P_acknowledges [simp]: "P (fst (acknowledges_refusal E' ack s)) = P s"
  by (simp add: acknowledges_refusal_def case_prod_beta split: option.split)

lemma P_pass_ack [step_inv]: "P s \<Longrightarrow> P (pass_ack E' req src dg s)"
proof -
  assume "P s"
  obtain s1 b where a: "acknowledges_refusal E' req s = (s1, b)" by (cases "acknowledges_refusal E' req s")
  have "P s1" using \<open>P s\<close> P_acknowledges [of E' req s] by (simp add: a)
  with \<open>P s\<close> show ?thesis by (cases b) (simp_all add: pass_ack_def a)
qed

lemma P_handle_ack [step_inv]: "P s \<Longrightarrow> P (handle_ack E' k req src dg s)"
  by (auto simp: handle_ack_def P_pass_ack detach split: option.split txn_state.split intro!: P_hold_for_timer_i)

lemma P_judge [simp]: "P (fst (judge_new_invite E' req dest s)) = P s"
  by (auto simp: judge_new_invite_def Let_def case_prod_beta P_count split: option.split admission.split)

lemma P_open_server [step_inv]:
  assumes "P s"
  shows "P (open_server E k req src dg dest held s)"
proof -
  define s1 where "s1 = open_txn_with E (server_head k req dest) (\<lambda>t. t\<lparr>t_held := held\<rparr>) s"
  have P1: "P s1"
    unfolding s1_def using assms by (rule P_open) (simp add: opened_def server_head_def Let_def)
  obtain s2 took where em: "emit E (EMessage (Req req) src False dg) s1 = (s2, took)"
    by (cases "emit E (EMessage (Req req) src False dg) s1")
  have "P s2" using P1 P_emit(1) [of E "EMessage (Req req) src False dg" s1] by (simp add: em)
  with P1 show ?thesis
    by (cases took)
      (auto simp: open_server_def Let_def s1_def [symmetric] em arm_trying_bound_def leave split: option.split)
qed

lemma P_admit_request [step_inv]:
  assumes "P s"
  shows "P (admit_request E req src dg s)"
proof -
  have "P s2" if "judge_new_invite E r d (fst (stamp_request E req src s)) = (s2, x)" for r d s2 x
    using assms P_judge [of E r d "fst (stamp_request E req src s)"] that by simp
  then show ?thesis
    using assms
    by (auto simp: admit_request_def Let_def case_prod_beta P_open_server
        split: option.split prod.split new_invite.split)
qed

lemma P_inbound_request [step_inv]:
  assumes P: "P s" and ls: "lockstep now s"
  shows "P (handle_inbound_request E req src s)"
proof -
  obtain s1 absorbed where r: "replay_cached E req src s = (s1, absorbed)" by (cases "replay_cached E req src s")
  have "P s1" using P_replay [OF P, of E req src] by (simp add: r)
  moreover have "P (fst (handle_cancel E c src dg (fst (stamp_request E req src s))))" for c dg
    using P ls by (intro P_handle_cancel [where now = now]) simp_all
  ultimately show ?thesis
    using P by (cases absorbed)
      (auto simp: handle_inbound_request_def Let_def case_prod_beta r P_handle_ack P_admit_request split: option.split)
qed

section \<open>Releases\<close>

lemma P_forget_unanswered [step_inv]: "P s \<Longrightarrow> P (forget_unanswered E k c f s)"
proof -
  assume "P s"
  obtain s1 b where d: "delete_txn E (Server k) s = (s1, b)" by (cases "delete_txn E (Server k) s")
  have "P s1" using leave [OF \<open>P s\<close>, of "Server k"] by (simp add: d)
  with \<open>P s\<close> show ?thesis by (cases b) (simp_all add: forget_unanswered_def Let_def d P_count)
qed

lemma P_delete_all [step_inv]: "P s \<Longrightarrow> P (fst (delete_all E is s))"
proof (induction "is" arbitrary: s)
  case (Cons i "is")
  then show ?case using leave [of s i] by (simp add: Let_def case_prod_beta)
qed simp

lemma P_answer_each [step_inv]: "P s \<Longrightarrow> P (fst (answer_each E' status xs s))"
proof (induction xs arbitrary: s)
  case (Cons x xs)
  obtain k req source where x: "x = (k, req, source)" by (cases x)
  show ?case
    using Cons P_uas_to_tag_of [OF Cons.prems, of E' k] P_send_response
    by (auto simp: x Let_def case_prod_beta split: option.split)
qed simp

lemma P_releases [step_inv]:
  assumes "P s"
  shows "P (fst (forget_unanswered_of_call E cr s))"
    "P (fst (answer_unanswered_invites_of_call E cr status s))"
    "P (fst (relinquish_accepted_of_call E cr s))"
    "P (fst (relinquish_server E k s))" "P (fst (relinquish_client E b s))"
  using assms P_answer_each [OF assms]
  by (simp_all add: forget_unanswered_of_call_def answer_unanswered_invites_of_call_def
      relinquish_accepted_of_call_def relinquish_server_def relinquish_client_def Let_def case_prod_beta P_count
      P_delete_all leave P_waive P_send_held_ack)

lemma P_relinquish_call [step_inv]:
  assumes "P s"
  shows "P (fst (relinquish_call E cr s))"
proof -
  have "P (fold waive_held_final ks (fold (\<lambda>b s. fst (send_held_ack b s)) cs
      (s\<lparr>self_release_watch := self_release_watch s - {cr}\<rparr>)))" for ks cs
    by (intro P_fold) (use assms in \<open>simp_all add: P_waive P_send_held_ack\<close>)
  then show ?thesis by (simp add: relinquish_call_def Let_def case_prod_beta P_delete_all)
qed

section \<open>Seeds\<close>

lemma P_hold_seeded [step_inv]: "P s \<Longrightarrow> P (hold_seeded_identity E' k s)"
  by (auto simp: hold_seeded_identity_def Let_def move_defs split: option.split intro!: P_tick_server)

lemma P_open_plain:
  "P s \<Longrightarrow> (role_of (t_id head) = RClient \<longrightarrow> t_state head \<noteq> Accepted) \<Longrightarrow> P (open_txn E head s)"
  unfolding open_txn_def by (rule P_open) (simp_all add: opened_def)

lemma P_note_seeded_final:
  assumes "P s" "fit k st s" "st = Accepted \<or> st = Completed"
  shows "P (note_seeded_final k st resp s)"
  unfolding note_seeded_final_def using assms(1)
proof (rule P_upd_server)
  fix t assume "servers s k = Some t"
  with assms(2) consider "is_active (t_state t)" | "t_state t = st" "t_last_response t = None"
    by (auto simp: fit_def)
  then show "server_move t (t\<lparr>t_state := st, t_last_response := Some (rs_image resp),
      t_last_response_status := Some (rs_status resp), t_original_request := None\<rparr>) \<and>
    t_call_ref (t\<lparr>t_state := st, t_last_response := Some (rs_image resp),
      t_last_response_status := Some (rs_status resp), t_original_request := None\<rparr>) = t_call_ref t"
    using assms(3) not_sent_final [of "t_state t"]
    by cases (auto simp: move_defs intro!: r_into_rtranclp server_arc.intros)
qed

lemma P_accept_server: "P s \<Longrightarrow> fit k Accepted s \<Longrightarrow> P (accept_server E' k resp s)"
  by (auto simp: accept_server_def dest: fit_not_answered intro!: P_hold P_note_seeded_final P_record_uas_tag)

lemma P_seed_occupant:
  assumes "P s" "\<And>t. servers s k = Some t \<Longrightarrow> is_active (t_state t)"
    and s1: "s1 = (if servers s k \<noteq> None then s
      else hold_seeded_identity E k (open_txn E (answered_head k kind m resp cr leg st d) s))"
  shows "P s1 \<and> fit k st s1"
proof (cases "servers s k")
  case None
  have "P (open_txn E (answered_head k kind m resp cr leg st d) s)"
    using assms(1) by (rule P_open_plain) simp
  then show ?thesis
    using None by (simp add: s1 P_hold_seeded fit_open answered_head_def)
next
  case (Some t)
  then show ?thesis using assms(1,2) by (simp add: s1 fit_def)
qed

lemma P_seed_accepted [step_inv]:
  assumes "P s"
  shows "P (fst (seed_accepted E cr resp leg s))"
proof -
  have "P (accept_server E k resp s)" if "servers s k = Some t" "is_active (t_state t)" for k t
    using assms that by (intro P_accept_server) (simp_all add: fit_def)
  moreover have "P (accept_server E k resp (hold_seeded_identity E k
      (open_txn E (answered_head k KInvite MInvite resp cr leg Accepted d) s)))" for k d
    using assms by (intro P_accept_server P_hold_seeded P_open_plain) (simp_all add: fit_open answered_head_def)
  ultimately show ?thesis using assms by (auto simp: seed_accepted_def Let_def split: option.split)
qed

lemma P_seed_rejected [step_inv]:
  assumes "P s"
  shows "P (fst (seed_rejected E cr resp dest leg bound s))"
proof (cases "\<exists>k. of_response resp = Some k \<and> (\<forall>t. servers s k = Some t \<longrightarrow> is_active (t_state t))")
  case False
  then show ?thesis using assms by (auto simp: seed_rejected_def Let_def split: option.split)
next
  case True
  then obtain k where k: "of_response resp = Some k" "\<And>t. servers s k = Some t \<Longrightarrow> is_active (t_state t)" by blast
  define s1 where "s1 = (if servers s k \<noteq> None then s else hold_seeded_identity E k (open_txn E
    (answered_head k KInvite MInvite resp cr leg Completed
      (Some (case e_response_target E resp of Some d \<Rightarrow> d | None \<Rightarrow> dest))) s))"
  define s3 where "s3 = note_seeded_final k Completed resp (record_uas_tag E k resp s1)"
  have s1: "P s1" "fit k Completed s1" using P_seed_occupant [OF assms k(2) s1_def] by simp_all
  then have s3: "P s3"
    unfolding s3_def by (auto intro!: P_note_seeded_final P_record_uas_tag dest: fit_not_answered)
  have dest: "P (upd_server k (\<lambda>t. t\<lparr>t_destination := d\<rparr>) s3)" for d
    using s3 by (rule P_tick_server) (simp add: move_defs)
  have hold: "P (case bound of None \<Rightarrow> s' | Some l \<Rightarrow> hold_txn_for E (Server k) HTimerH (ms l) s')" if "P s'" for s'
    using that by (simp add: P_hold_for split: option.split)
  have taken: "\<not> (case servers s k of None \<Rightarrow> False | Some t \<Rightarrow> \<not> is_active (t_state t))"
    using k(2) by (simp split: option.split)
  show ?thesis
    using k(1) taken hold P_arm_final_hold [OF s3, of E k KInvite "rs_status resp"]
      P_arm_final_hold [OF dest, of E k KInvite "rs_status resp"]
    by (cases "servers s k") (simp_all add: seed_rejected_def Let_def s3_def s1_def)
qed

lemma P_seed_answered [step_inv]:
  assumes "P s"
  shows "P (fst (seed_answered_non_invite E cr resp dest bound leg s))"
proof (cases "\<exists>k. of_response resp = Some k \<and> (\<forall>t. servers s k = Some t \<longrightarrow> is_active (t_state t))")
  case False
  then show ?thesis using assms by (auto simp: seed_answered_non_invite_def Let_def split: option.split)
next
  case True
  then obtain k where k: "of_response resp = Some k" "\<And>t. servers s k = Some t \<Longrightarrow> is_active (t_state t)" by blast
  define s1 where "s1 = (if servers s k \<noteq> None then s else hold_seeded_identity E k (open_txn E
    (answered_head k KNonInvite (rs_cseq_method resp) resp cr leg Completed
      (Some (case e_response_target E resp of Some d \<Rightarrow> d | None \<Rightarrow> dest))) s))"
  have "P (note_seeded_final k Completed resp s1)"
    using P_seed_occupant [OF assms k(2) s1_def] by (simp add: P_note_seeded_final)
  moreover have taken: "\<not> (case servers s k of None \<Rightarrow> False | Some t \<Rightarrow> \<not> is_active (t_state t))"
    using k(2) by (simp split: option.split)
  ultimately show ?thesis
    using assms k(1) by (simp add: seed_answered_non_invite_def Let_def s1_def P_hold_for)
qed

lemma P_seed_server_invite [step_inv]:
  assumes "P s"
  shows "P (fst (seed_server_invite E cr req tag prov leg s))"
proof -
  have "P (upd_server k (\<lambda>t. t\<lparr>t_last_response := x, t_last_response_status := y\<rparr>) s1) \<and> P s1"
    if "t_id head = Server k" "t_state head = Proceeding" "s1 = hold_seeded_identity E k (open_txn_with E head
      (\<lambda>t. t\<lparr>t_uas_to_tag := u, t_seeded := True\<rparr>) s)" for k head u x y s1
  proof -
    have "P (open_txn_with E head (\<lambda>t. t\<lparr>t_uas_to_tag := u, t_seeded := True\<rparr>) s)"
      using assms by (rule P_open) (simp add: opened_def that)
    then have P1: "P s1" by (simp add: that P_hold_seeded)
    have "\<exists>t. servers (open_txn_with E head (\<lambda>t. t\<lparr>t_uas_to_tag := u, t_seeded := True\<rparr>) s) k = Some t \<and>
      t_state t = Proceeding" using that(1,2) by (auto simp: servers_open_server)
    then obtain t where t: "servers (open_txn_with E head (\<lambda>t. t\<lparr>t_uas_to_tag := u, t_seeded := True\<rparr>) s) k = Some t"
      "t_state t = Proceeding" by blast
    have "\<exists>t1. servers s1 k = Some t1 \<and> t_state t1 = Proceeding"
      using hold_seeded_keeps [OF t(1), of E] that(3) t(2) by auto
    then obtain t1 where "servers s1 k = Some t1" "t_state t1 = Proceeding" by blast
    with P1 show ?thesis
      by (auto simp: move_defs sent_final_def intro!: P_upd_server)
  qed
  with assms show ?thesis
    by (auto simp: seed_server_invite_def Let_def seed_head_def split: option.split)
qed

lemma P_seed_held_cancel:
  assumes "P s" "\<And>t. clients s b = Some t \<Longrightarrow> t_held_cancel t = None"
  shows "P (seed_held_cancel E' b c d s)"
proof (cases "clients s b")
  case None
  then show ?thesis using assms(1) by (simp add: seed_held_cancel_def)
next
  case (Some t)
  let ?f = "\<lambda>t. t\<lparr>t_held_cancel := Some (held_cancel_new (e_render E' c) d WHeld)\<rparr>"
  have "P (bump CancelsHeld (upd_client b ?f s))"
    by (rule P_client_counted [OF assms(1) Some, of "?f t"])
      (use assms(2) [OF Some] Some in \<open>auto simp: move_defs unsent_def clients_upd_client held_cancel_new_def\<close>)
  then show ?thesis using Some by (simp add: seed_held_cancel_def Let_def P_release_seed_resend)
qed

lemma P_seed_client_invite [step_inv]:
  assumes "P s"
  shows "P (fst (seed_client_invite E cr invite dest prov cancel s))"
proof (cases "seed_branch invite s")
  case None
  then show ?thesis using assms by (simp add: seed_client_invite_def)
next
  case (Some b)
  define head where "head = (client_seed_head KInvite b invite cr (if prov then Proceeding else Trying) dest)\<lparr>t_method := MInvite\<rparr>"
  define s1 where "s1 = open_txn_with E head (\<lambda>t. t\<lparr>t_timeout_kind := TKTransaction,
      t_timeout_key := Some (snd (arm E (ClientTimeout b) (ms (c_invite_initial_timeout_ms (e_cfg E))) s)),
      t_seed_resend := (if prov then None else Some (e_render E invite))\<rparr>)
    (fst (arm E (ClientTimeout b) (ms (c_invite_initial_timeout_ms (e_cfg E))) s))"
  have "P s1"
    unfolding s1_def by (rule P_open) (use assms in \<open>simp_all add: opened_def head_def\<close>)
  moreover have "t_held_cancel t = None" if "clients s1 b = Some t" for t
    using that by (simp add: s1_def clients_open_client head_def) (auto simp: transaction_new_def new_transaction.defs)
  ultimately have "P (release_seed_resend E b (case cancel of None \<Rightarrow> s1 | Some c \<Rightarrow> seed_held_cancel E b c dest s1))"
    by (auto split: option.split intro!: P_release_seed_resend P_seed_held_cancel)
  then show ?thesis
    using Some by (cases prov; cases cancel) (simp_all add: seed_client_invite_def Let_def case_prod_beta s1_def head_def)
qed

lemma P_seed_one [step_inv]:
  assumes "P s"
  shows "P (fst (seed_one E cr x s))"
proof (cases x)
  case (SClientInvite invite dest prov cancel ack)
  then show ?thesis using P_seed_client_invite [OF assms, of cr invite dest prov cancel]
    by (auto simp: Let_def case_prod_beta split: option.split)
next
  case (SClientRejected invite dest bound)
  then show ?thesis using assms
    by (simp add: seed_client_rejected_def Let_def P_hold_for P_open_plain split: option.split)
next
  case (SClientNonInvite req dest bound)
  then show ?thesis using assms
    by (simp add: seed_client_non_invite_def Let_def case_prod_beta P_start_client_retransmit P_open_plain
        split: option.split)
next
  case (SServerNonInvite req leg)
  then show ?thesis using assms
    by (simp add: seed_server_non_invite_def Let_def P_open_plain seed_head_def split: option.split)
qed (use assms in \<open>simp_all add: P_seed_server_invite P_seed_accepted P_seed_rejected P_seed_answered\<close>)

lemma P_seed_all [step_inv]: "P s \<Longrightarrow> P (fst (seed_all E cr xs s))"
proof (induction xs arbitrary: s)
  case (Cons x xs)
  then show ?case using P_seed_one [OF Cons.prems, of cr x] by (simp add: Let_def case_prod_beta P_count)
qed simp

lemma P_reoffer [step_inv]:
  "env_ok E \<Longrightarrow> lockstep (e_now E) s \<Longrightarrow> P s \<Longrightarrow> P (fst (do_reoffer E msg src s))"
  using P_handle_cancel [of s "e_now E"]
  by (auto simp: do_reoffer_def Let_def case_prod_beta P_inbound_response split: sip_message.split)

section \<open>Commands, timers, turns\<close>

lemma P_handle_command [step_inv]:
  "env_ok E \<Longrightarrow> lockstep (e_now E) s \<Longrightarrow> P s \<Longrightarrow> P (fst (handle_command E c s))"
  using P_send_request [of s "e_now E"]
  by (cases c)
    (simp_all add: Let_def case_prod_beta do_seed_def P_count P_seed_all P_send_response P_reoffer
      P_cancel_txns_for_call P_relinquish_call P_releases P_release_held_cancel P_send_held_ack P_send_first_trying)

lemma P_handle_packet [step_inv]:
  "env_ok E \<Longrightarrow> lockstep (e_now E) s \<Longrightarrow> P s \<Longrightarrow> P (handle_packet E raw src s)"
  using P_inbound_request [of s "e_now E"]
  by (simp add: handle_packet_def refuse_unparsed_def handle_inbound_response_def Let_def P_count
      P_inbound_response split: parse_result.split sip_message.split parse_refusal.split)

lemma P_fire_timer [step_inv]: "P s \<Longrightarrow> P (fire_timer E tm s)"
  by (cases tm)
    (auto simp: move_defs P_fire_first_response P_fire_trying P_fire_ack_bound P_fire_cancel_bound
      intro!: P_fire_retransmit P_fire_server_retransmit P_fire_timeout P_expire P_fire_cancel_retransmit
        P_upd_client P_tick_server P_txn_mut)

lemma P_end_turn [simp]: "P (end_turn E' s) = P s"
  unfolding end_turn_def Let_def by (subst P_counters) (auto simp: booked_def)

theorem P_step:
  assumes "owner_step E s s'" "env_ok E" "lockstep (e_now E) s" "P s"
  shows "P s'"
  using assms(1)
proof cases
  case (step_timer k tm due)
  then show ?thesis using assms(4) by (simp add: turn_def P_fire_timer)
qed (use assms in \<open>simp_all add: turn_def P_forget_unanswered P_handle_command P_sweep P_handle_packet\<close>)

end

end
