(* ===== verification/Txn_Invariants.thy ===== *)
theory Txn_Invariants
  imports Txn_Actions_Server
begin

text \<open>
  The invariants of the transaction tables, each an interpretation of \<open>turn_inv\<close>: the call index is
  exactly what the two maps say, the gauges count what the tables hold, and every transaction moves
  along the state diagram of its role.
\<close>

section \<open>The call index\<close>

text \<open>What the maps say of a call: its client branches before a 2xx, its server transactions, and its
  client branches Accepted after a 2xx.\<close>

definition call_side :: "owner \<Rightarrow> string \<Rightarrow> call_txns" where
  "call_side s cr =
     \<lparr>ct_client = {b. \<exists>t. clients s b = Some t \<and> t_call_ref t = Some cr \<and> t_state t \<noteq> Accepted},
      ct_server = {k. \<exists>t. servers s k = Some t \<and> t_call_ref t = Some cr},
      ct_accepted = {b. \<exists>t. clients s b = Some t \<and> t_call_ref t = Some cr \<and> t_state t = Accepted}\<rparr>"

text \<open>An index with an entry for each call that has any transaction, and no other.\<close>

definition exact :: "(string \<Rightarrow> call_txns) \<Rightarrow> (string \<rightharpoonup> call_txns)" where
  "exact f cr = (if holds_none (f cr) then None else Some (f cr))"

definition index_ok :: "owner \<Rightarrow> bool" where
  "index_ok s \<longleftrightarrow> txn_index s = exact (call_side s)"

fun drop_id :: "txn_id \<Rightarrow> call_txns \<Rightarrow> call_txns" where
  "drop_id (Client b) c = c\<lparr>ct_client := ct_client c - {b}, ct_accepted := ct_accepted c - {b}\<rparr>"
| "drop_id (Server k) c = c\<lparr>ct_server := ct_server c - {k}\<rparr>"

fun add_id :: "txn_id \<Rightarrow> call_txns \<Rightarrow> call_txns" where
  "add_id (Client b) c = c\<lparr>ct_client := insert b (ct_client c)\<rparr>"
| "add_id (Server k) c = c\<lparr>ct_server := insert k (ct_server c)\<rparr>"

lemma holds_none_iff: "holds_none c \<longleftrightarrow> c = call_txns_default"
  by (cases c) (auto simp: holds_none_def call_txns_default_def)

lemma holds_none_drop: "holds_none c \<Longrightarrow> holds_none (drop_id i c)"
  by (cases i) (simp_all add: holds_none_def)

lemma holds_none_add [simp]: "\<not> holds_none (add_id i c)"
  by (cases i) (simp_all add: holds_none_def)

lemma untrack_index:
  assumes "txn_index s = exact f"
  shows "txn_index (untrack_call_ref (Some cr) i s) = exact (f(cr := drop_id i (f cr)))"
proof
  fix x
  show "txn_index (untrack_call_ref (Some cr) i s) x = exact (f(cr := drop_id i (f cr))) x"
    using assms holds_none_drop [of "f cr" i]
    by (cases i) (auto simp: untrack_call_ref_def exact_def Let_def)
qed

lemma track_index:
  assumes "txn_index s = exact f"
  shows "txn_index (track_call_ref (Some cr) i s) = exact (f(cr := add_id i (f cr)))"
proof
  fix x
  show "txn_index (track_call_ref (Some cr) i s) x = exact (f(cr := add_id i (f cr))) x"
    using assms holds_none_add [of i "f cr"]
    by (cases i) (auto simp: track_call_ref_def exact_def Let_def holds_none_iff simp del: holds_none_add)
qed

lemma track_none [simp]: "track_call_ref None i s = s" "untrack_call_ref None i s = s"
  by (simp_all add: track_call_ref_def untrack_call_ref_def)

lemma settled_index:
  assumes "ix = exact f" "b \<in> ct_client (f cr)"
  shows "settled b (Some cr) ix =
    exact (f(cr := (f cr)\<lparr>ct_client := ct_client (f cr) - {b}, ct_accepted := insert b (ct_accepted (f cr))\<rparr>))"
  using assms by (auto simp: settled_def exact_def fun_eq_iff holds_none_def)

lemma call_side_eq:
  assumes "\<And>cr b. (\<exists>t. clients s' b = Some t \<and> t_call_ref t = Some cr \<and> t_state t \<noteq> Accepted) \<longleftrightarrow> b \<in> ct_client (f cr)"
    and "\<And>cr k. (\<exists>t. servers s' k = Some t \<and> t_call_ref t = Some cr) \<longleftrightarrow> k \<in> ct_server (f cr)"
    and "\<And>cr b. (\<exists>t. clients s' b = Some t \<and> t_call_ref t = Some cr \<and> t_state t = Accepted) \<longleftrightarrow> b \<in> ct_accepted (f cr)"
  shows "call_side s' = f"
  by (rule ext) (use assms in \<open>auto simp: call_side_def intro!: call_txns.equality\<close>)

text \<open>The maps as one transaction leaves its call, or joins one.\<close>

lemma call_side_without:
  assumes "txn s i = Some t" and "\<And>t'. x = Some t' \<Longrightarrow> t_call_ref t' = None"
    and "\<And>b. i = Client b \<Longrightarrow> clients s' = (clients s)(b := x) \<and> servers s' = servers s"
    and "\<And>k. i = Server k \<Longrightarrow> servers s' = (servers s)(k := x) \<and> clients s' = clients s"
  shows "call_side s' = (case t_call_ref t of None \<Rightarrow> call_side s | Some cr \<Rightarrow> (call_side s)(cr := drop_id i (call_side s cr)))"
proof (cases i)
  case (Client b)
  with assms show ?thesis
    by (intro call_side_eq) (auto simp: call_side_def split: option.split if_splits)
next
  case (Server j)
  with assms show ?thesis
    by (intro call_side_eq) (auto simp: call_side_def split: option.split if_splits)
qed

lemma untracked_side:
  assumes "index_ok s" "txn s i = Some t" "\<And>t'. x = Some t' \<Longrightarrow> t_call_ref t' = None"
    and "\<And>b. i = Client b \<Longrightarrow> clients s' = (clients s)(b := x) \<and> servers s' = servers s"
    and "\<And>k. i = Server k \<Longrightarrow> servers s' = (servers s)(k := x) \<and> clients s' = clients s"
    and "txn_index s' = txn_index (untrack_call_ref (t_call_ref t) i s)"
  shows "index_ok s'"
  using assms(1,6) untrack_index [of s "call_side s" _ i]
    call_side_without [OF assms(2-5)]
  by (cases "t_call_ref t") (simp_all add: index_ok_def)

lemma call_side_with:
  assumes "txn s i = None" and "role_of i = RClient \<Longrightarrow> t_state t \<noteq> Accepted"
    and "\<And>b. i = Client b \<Longrightarrow> clients s' = (clients s)(b \<mapsto> t) \<and> servers s' = servers s"
    and "\<And>k. i = Server k \<Longrightarrow> servers s' = (servers s)(k \<mapsto> t) \<and> clients s' = clients s"
  shows "call_side s' = (case t_call_ref t of None \<Rightarrow> call_side s | Some cr \<Rightarrow> (call_side s)(cr := add_id i (call_side s cr)))"
proof (cases i)
  case (Client b)
  with assms show ?thesis
    by (intro call_side_eq) (auto simp: call_side_def split: option.split if_splits)
next
  case (Server j)
  with assms show ?thesis
    by (intro call_side_eq) (auto simp: call_side_def split: option.split if_splits)
qed

lemma tracked_side:
  assumes "index_ok s" "txn s i = None" and "role_of i = RClient \<Longrightarrow> t_state t \<noteq> Accepted"
    and "\<And>b. i = Client b \<Longrightarrow> clients s' = (clients s)(b \<mapsto> t) \<and> servers s' = servers s"
    and "\<And>k. i = Server k \<Longrightarrow> servers s' = (servers s)(k \<mapsto> t) \<and> clients s' = clients s"
    and "txn_index s' = txn_index (track_call_ref (t_call_ref t) i s)"
  shows "index_ok s'"
  using assms(1,6) track_index [of s "call_side s" _ i] call_side_with [OF assms(2-5)]
  by (cases "t_call_ref t") (simp_all add: index_ok_def)

lemma index_frames [simp]:
  "txn_index (remember_uas_tag E x y z s) = txn_index s" "txn_index (owe_held_cancel u s) = txn_index s"
  "txn_index (cancel_timers_of t s) = txn_index s" "txn_index (release_hold E x y z s) = txn_index s"
  "txn_index (sync_active s) = txn_index s" "txn_index (drop_one c s) = txn_index s"
  "txn_index (quiesce_if_last cr s) = txn_index s" "txn_index (fst (arm E tm d s)) = txn_index s"
  "txn_index (fst (insert_at E tm at s)) = txn_index s"
  by (simp_all add: remember_uas_tag_def owe_held_cancel_def cancel_timers_of_def release_hold_def sync_active_def
      drop_one_def quiesce_if_last_def arm_def insert_at_def Let_def split: option.split)

lemma txn_mut_index [simp]: "txn_index (txn_mut i f s) = txn_index s"
  by (cases i) simp_all

lemma untrack_cong: "txn_index s' = txn_index s \<Longrightarrow> txn_index (untrack_call_ref cr i s') = txn_index (untrack_call_ref cr i s)"
  by (simp add: untrack_call_ref_def Let_def split: option.split)

lemma track_cong: "txn_index s' = txn_index s \<Longrightarrow> txn_index (track_call_ref cr i s') = txn_index (track_call_ref cr i s)"
  by (simp add: track_call_ref_def Let_def split: option.split)

lemma delete_index:
  assumes "txn s i = Some t"
  shows "txn_index (fst (delete_txn E i s)) = txn_index (untrack_call_ref (t_call_ref t) i s)"
  using assms by (simp add: delete_txn_def Let_def split: option.split txn_id.split)
    (intro impI allI conjI untrack_cong; simp)

lemma set_index:
  "txn_index (set_txn t s) = txn_index (track_call_ref (t_call_ref t) (t_id t) (case txn s (t_id t) of
     None \<Rightarrow> s | Some old \<Rightarrow> untrack_call_ref (t_call_ref old) (t_id t) s))"
  by (auto simp: set_txn_def Let_def split: option.split txn_id.split intro!: track_cong untrack_cong)

lemma index_detach: "index_ok s \<Longrightarrow> index_ok (detach_from_call i s)"
proof (cases "Option.bind (txn s i) t_call_ref")
  case None
  assume "index_ok s"
  then show ?thesis using None by (simp add: detach_from_call_def)
next
  case (Some cr)
  then obtain t where t: "txn s i = Some t" "t_call_ref t = Some cr" by (auto simp: bind_eq_Some_conv)
  assume "index_ok s"
  then show ?thesis
    by (rule untracked_side [OF _ t(1), of "Some (t\<lparr>t_call_ref := None\<rparr>)"])
      (use t in \<open>auto simp: detach_from_call_def Let_def Some clients_upd_client servers_upd_server
        intro!: untrack_cong\<close>)
qed

lemma index_leave: "index_ok s \<Longrightarrow> index_ok (fst (delete_txn E i s))"
proof (cases "txn s i")
  case (Some t)
  assume "index_ok s"
  then show ?thesis
    by (rule untracked_side [OF _ Some, of None])
      (use Some in \<open>auto simp: delete_client_state delete_server_state delete_index\<close>)
qed (simp add: delete_absent)

lemma index_enter:
  assumes "index_ok s" "opened E t"
  shows "index_ok (set_txn t s)"
proof -
  define mid where "mid = (case txn s (t_id t) of
      None \<Rightarrow> s
    | Some old \<Rightarrow> (case t_id t of
          Client b \<Rightarrow> s\<lparr>clients := (clients s)(b := None)\<rparr>
        | Server k \<Rightarrow> s\<lparr>servers := (servers s)(k := None)\<rparr>)\<lparr>txn_index :=
            txn_index (untrack_call_ref (t_call_ref old) (t_id t) s)\<rparr>)"
  have "index_ok mid"
  proof (cases "txn s (t_id t)")
    case (Some old)
    show ?thesis
      by (rule untracked_side [OF assms(1) Some, of None])
        (use Some in \<open>auto simp: mid_def split: txn_id.split\<close>)
  qed (use assms in \<open>simp add: mid_def\<close>)
  then show ?thesis
  proof (rule tracked_side)
    show "txn mid (t_id t) = None" by (auto simp: mid_def split: option.split txn_id.split)
    show "txn_index (set_txn t s) = txn_index (track_call_ref (t_call_ref t) (t_id t) mid)"
      unfolding set_index by (rule track_cong) (simp add: mid_def split: option.split)
  qed (use assms(2) in \<open>auto simp: opened_def mid_def set_client_state set_server_state split: option.split\<close>)
qed

interpretation index: turn_inv E index_ok for E
proof
  show "index_ok (detach_from_call i s)" if "index_ok s" for s i using that by (rule index_detach)
  show "index_ok (fst (delete_txn E i s))" if "index_ok s" for s i using that by (rule index_leave)
  show "index_ok (set_txn t s)" if "index_ok s" "opened E t" for s t using that by (rule index_enter)
  show "index_ok s'" if "index_ok s" "clients s' = clients s" "servers s' = servers s" "txn_index s' = txn_index s"
    for s s'
  proof -
    have "call_side s' = call_side s" using that by (simp add: call_side_def fun_eq_iff)
    with that show ?thesis by (simp add: index_ok_def)
  qed
  show "index_ok s'" if "index_ok s" "clients s b = Some t" "t_call_ref t' = t_call_ref t"
    "t_state t' = Accepted \<longleftrightarrow> t_state t = Accepted" "clients s' = (clients s)(b \<mapsto> t')" "servers s' = servers s"
    "txn_index s' = txn_index s" for s s' b t t'
  proof -
    have "call_side s' = call_side s"
      by (rule call_side_eq) (use that in \<open>auto simp: call_side_def split: if_splits\<close>)
    with that show ?thesis by (simp add: index_ok_def)
  qed
  show "index_ok s'" if "index_ok s" "servers s k = Some t" "t_call_ref t' = t_call_ref t"
    "clients s' = clients s" "servers s' = (servers s)(k \<mapsto> t')" "txn_index s' = txn_index s" for s s' k t t'
  proof -
    have "call_side s' = call_side s"
      by (rule call_side_eq) (use that in \<open>auto simp: call_side_def split: if_splits\<close>)
    with that show ?thesis by (simp add: index_ok_def)
  qed
  show "index_ok s'" if "index_ok s" "clients s b = Some t" "t_call_ref t' = t_call_ref t"
    "t_state t \<noteq> Accepted" "t_state t' = Accepted" "clients s' = (clients s)(b \<mapsto> t')" "servers s' = servers s"
    "txn_index s' = settled b (t_call_ref t) (txn_index s)" for s s' b t t'
  proof (cases "t_call_ref t")
    case None
    have "call_side s' = call_side s"
      by (rule call_side_eq) (use that None in \<open>auto simp: call_side_def split: if_splits\<close>)
    with that None show ?thesis by (simp add: index_ok_def settled_def)
  next
    case (Some cr)
    have "b \<in> ct_client (call_side s cr)" using that Some by (auto simp: call_side_def)
    from settled_index [of "txn_index s" "call_side s" b cr, OF _ this] that(1,8) Some
    have "txn_index s' = exact ((call_side s)(cr := (call_side s cr)\<lparr>ct_client := ct_client (call_side s cr) - {b},
        ct_accepted := insert b (ct_accepted (call_side s cr))\<rparr>))" by (simp add: index_ok_def)
    moreover have "call_side s' = (call_side s)(cr := (call_side s cr)\<lparr>ct_client := ct_client (call_side s cr) - {b},
        ct_accepted := insert b (ct_accepted (call_side s cr))\<rparr>)"
      by (rule call_side_eq) (use that Some in \<open>auto simp: call_side_def split: if_splits\<close>)
    ultimately show ?thesis by (simp add: index_ok_def)
  qed
qed

section \<open>The gauges\<close>

text \<open>The CANCELs resident unsent.\<close>

definition total_unsent :: "(string \<rightharpoonup> transaction) \<Rightarrow> nat" where
  "total_unsent m = (\<Sum>b \<in> dom m. unsent (the (m b)))"

definition unsent_at :: "transaction option \<Rightarrow> nat" where
  "unsent_at x = (case x of None \<Rightarrow> 0 | Some t \<Rightarrow> unsent t)"

lemma total_unsent_upd:
  assumes "finite (dom m)"
  shows "total_unsent (m(b := x)) + unsent_at (m b) = total_unsent m + unsent_at x"
proof -
  have split: "total_unsent m' = (\<Sum>b' \<in> dom m' - {b}. unsent (the (m' b'))) + unsent_at (m' b)"
    if "finite (dom m')" for m' :: "string \<rightharpoonup> transaction"
  proof (cases "m' b")
    case (Some t)
    then have "b \<in> dom m'" by auto
    with that Some show ?thesis by (simp add: total_unsent_def sum.remove [of _ b] unsent_at_def)
  next
    case None
    then have "dom m' - {b} = dom m'" by auto
    with None show ?thesis by (simp add: total_unsent_def unsent_at_def)
  qed
  have same: "(\<Sum>b' \<in> dom (m(b := x)) - {b}. unsent (the ((m(b := x)) b'))) = (\<Sum>b' \<in> dom m - {b}. unsent (the (m b')))"
    by (rule sum.cong) (auto split: if_splits)
  have "finite (dom (m(b := x)))" using assms by (cases x) simp_all
  from split [OF this] split [OF assms] same show ?thesis by simp
qed

definition gauges_ok :: "owner \<Rightarrow> bool" where
  "gauges_ok s \<longleftrightarrow> finite (dom (clients s)) \<and> finite (dom (servers s)) \<and>
     (\<forall>k t. servers s k = Some t \<longrightarrow> \<not> never_sent (t_held_cancel t)) \<and>
     counters s ActiveTransactions = card (dom (clients s)) + card (dom (servers s)) \<and>
     counters s CancelsHeld =
       counters s HeldCancelsFlushed + counters s HeldCancelsDropped + total_unsent (clients s)"

lemma gauges_okI:
  assumes "gauges_ok s" "dom (clients s') = dom (clients s)" "dom (servers s') = dom (servers s)"
    and "\<And>k t. servers s' k = Some t \<Longrightarrow> \<not> never_sent (t_held_cancel t)"
    and "books s = (h, fl, dr, ac)" "books s' = (h', fl', dr', ac)"
    and "h' + fl + dr + total_unsent (clients s) = h + fl' + dr' + total_unsent (clients s')"
  shows "gauges_ok s'"
  using assms by (simp add: gauges_ok_def books_def)

lemma counter_frames [simp]:
  "counters (remember_uas_tag E x y z s) = counters s" "counters (owe_held_cancel u s) = counters s"
  "counters (cancel_timers_of t s) = counters s" "counters (release_hold E x y z s) = counters s"
  "counters (quiesce_if_last cr s) = counters s" "counters (track_call_ref cr' i s) = counters s"
  "counters (untrack_call_ref cr' i s) = counters s"
  "counters (upd_client b f s) = counters s" "counters (upd_server k f s) = counters s"
  by (simp_all add: remember_uas_tag_def owe_held_cancel_def cancel_timers_of_def cancel_timer_def release_hold_def
      quiesce_if_last_def track_call_ref_def untrack_call_ref_def upd_client_def upd_server_def Let_def
      split: option.split)

lemma sync_active_counters:
  "counters (sync_active s) = (counters s)(ActiveTransactions := card (dom (clients s)) + card (dom (servers s)))"
  by (simp add: sync_active_def)

lemma gauges_detach: "gauges_ok s \<Longrightarrow> gauges_ok (detach_from_call i s)"
proof (cases "Option.bind (txn s i) t_call_ref")
  case None
  assume "gauges_ok s"
  then show ?thesis using None by (simp add: detach_from_call_def)
next
  case (Some cr)
  then obtain t where t: "txn s i = Some t" "t_call_ref t = Some cr" by (auto simp: bind_eq_Some_conv)
  assume g: "gauges_ok s"
  obtain h fl dr ac where b: "books s = (h, fl, dr, ac)" by (cases "books s") auto
  have total: "total_unsent ((clients s)(b \<mapsto> t\<lparr>t_call_ref := None\<rparr>)) = total_unsent (clients s)"
    if "clients s b = Some t" for b
    using total_unsent_upd [of "clients s" b "Some (t\<lparr>t_call_ref := None\<rparr>)"] g that
    by (simp add: gauges_ok_def unsent_at_def unsent_def)
  show ?thesis
    by (cases i; rule gauges_okI [OF g _ _ _ b, of _ h fl dr])
      (use t b g [unfolded gauges_ok_def] in \<open>auto simp: detach_from_call_def Let_def Some clients_upd_client servers_upd_server
        books_def total split: if_splits\<close>)
qed

lemma gauges_leave: "gauges_ok s \<Longrightarrow> gauges_ok (fst (delete_txn E i s))"
proof (cases "txn s i")
  case (Some t)
  assume g: "gauges_ok s"
  show ?thesis
  proof (cases i)
    case (Client b)
    with Some g show ?thesis
      using total_unsent_upd [of "clients s" b None]
      by (auto simp: gauges_ok_def delete_client_state) (auto simp: delete_txn_def Let_def sync_active_counters bump_def
          drop_one_def unsent_at_def unsent_def dom_fun_upd split: option.split)
  next
    case (Server k)
    with Some g show ?thesis
      by (auto simp: gauges_ok_def delete_server_state) (auto simp: delete_txn_def Let_def sync_active_counters bump_def
          drop_one_def split: option.split)
  qed
qed (simp add: delete_absent)

lemma gauges_enter:
  assumes g: "gauges_ok s" and t: "opened E t"
  shows "gauges_ok (set_txn t s)"
proof (cases "t_id t")
  case (Client b)
  have "unsent_at (Some t) = 0" using t by (simp add: opened_def unsent_at_def unsent_def)
  with g total_unsent_upd [of "clients s" b "Some t"] show ?thesis
    by (auto simp: gauges_ok_def set_client_state [OF Client])
      (auto simp: set_txn_def Let_def Client sync_active_counters bump_def unsent_at_def unsent_def split: option.split)
next
  case (Server k)
  with g t show ?thesis
    by (auto simp: gauges_ok_def set_server_state [OF Server] opened_def)
      (auto simp: set_txn_def Let_def Server sync_active_counters bump_def split: option.split)
qed

interpretation gauges: turn_inv E gauges_ok for E
proof
  show "gauges_ok (detach_from_call i s)" if "gauges_ok s" for s i using that by (rule gauges_detach)
  show "gauges_ok (fst (delete_txn E i s))" if "gauges_ok s" for s i using that by (rule gauges_leave)
  show "gauges_ok (set_txn t s)" if "gauges_ok s" "opened E t" for s t using that by (rule gauges_enter)
  show "gauges_ok s'" if "gauges_ok s" "clients s' = clients s" "servers s' = servers s" "books s' = books s"
    for s s' using that by (simp add: gauges_ok_def books_def)
  show "gauges_ok s'" if "gauges_ok s" "clients s b = Some t" "clients s' = (clients s)(b \<mapsto> t')"
    "servers s' = servers s" "books s = (h, fl, dr, ac)" "books s' = (h', fl', dr', ac)"
    "h' + fl + dr + unsent t = h + fl' + dr' + unsent t'" for s s' b t t' h fl dr ac h' fl' dr'
    by (rule gauges_okI [OF that(1) _ _ _ that(5,6)])
      (use that total_unsent_upd [of "clients s" b "Some t'"] in \<open>auto simp: gauges_ok_def unsent_at_def split: if_splits\<close>)
  show "gauges_ok s'" if "gauges_ok s" "servers s k = Some t" "server_move t t'" "clients s' = clients s"
    "servers s' = (servers s)(k \<mapsto> t')" "books s' = books s" for s s' k t t'
    using that by (auto simp: gauges_ok_def books_def server_move_def insert_absorb domI)
  show "gauges_ok s'" if "gauges_ok s" "clients s b = Some t" "t_held_cancel t' = None"
    "clients s' = (clients s)(b \<mapsto> t')" "servers s' = servers s" "books s = (h, fl, dr, ac)"
    "books s' = (h, fl, dr + unsent t, ac)" for s s' b t t' h fl dr ac
    by (rule gauges_okI [OF that(1) _ _ _ that(6,7)])
      (use that total_unsent_upd [of "clients s" b "Some t'"] in
        \<open>auto simp: gauges_ok_def unsent_at_def unsent_def split: if_splits\<close>)
qed

section \<open>The state diagrams\<close>

lemma sent_final_arc: "server_arc\<^sup>*\<^sup>* st st' \<Longrightarrow> sent_final st \<Longrightarrow> sent_final st'"
proof (induction rule: rtranclp_induct)
  case (step y z)
  from step(2) step.IH [OF step.prems] show ?case by cases (simp_all add: sent_final_def)
qed simp

lemma server_move_refl [simp]: "server_move t t"
  by (simp add: move_defs)

lemma server_move_trans: "server_move t u \<Longrightarrow> server_move u v \<Longrightarrow> server_move t v"
  using sent_final_arc [of "t_state t" "t_state u"] rtranclp_trans [of server_arc "t_state t" "t_state u" "t_state v"]
  unfolding move_defs by auto

lemma client_move_refl [simp]: "client_move t t"
  by (simp add: move_defs)

lemma client_move_trans: "client_move t u \<Longrightarrow> client_move u v \<Longrightarrow> client_move t v"
  using rtranclp_trans [of client_arc "t_state t" "t_state u" "t_state v"] unfolding move_defs by auto

text \<open>Every server transaction of \<open>s\<close> was opened at this turn's instant, or is the one \<open>s0\<close> had,
  moved along its diagram.\<close>

definition server_from :: "layer_env \<Rightarrow> owner \<Rightarrow> owner \<Rightarrow> bool" where
  "server_from E s0 s \<longleftrightarrow> (\<forall>k t'. servers s k = Some t' \<longrightarrow>
     t_created_at t' = e_now E \<or> (\<exists>t. servers s0 k = Some t \<and> server_move t t'))"

definition client_from :: "layer_env \<Rightarrow> owner \<Rightarrow> owner \<Rightarrow> bool" where
  "client_from E s0 s \<longleftrightarrow> (\<forall>b t'. clients s b = Some t' \<longrightarrow>
     t_created_at t' = e_now E \<or> (\<exists>t. clients s0 b = Some t \<and> client_move t t'))"

lemma server_fromI:
  assumes "server_from E s0 s" "\<And>k t'. servers s' k = Some t' \<Longrightarrow>
    t_created_at t' = e_now E \<or> (\<exists>t. servers s k = Some t \<and> server_move t t')"
  shows "server_from E s0 s'"
  unfolding server_from_def
proof (intro allI impI)
  fix k t' assume t': "servers s' k = Some t'"
  consider "t_created_at t' = e_now E" | t where "servers s k = Some t" "server_move t t'" using assms(2) [OF t'] by blast
  then show "t_created_at t' = e_now E \<or> (\<exists>t. servers s0 k = Some t \<and> server_move t t')"
  proof cases
    case (2 t)
    have "t_created_at t' = t_created_at t" using 2(2) by (simp add: server_move_def same_head_def)
    moreover have "t_created_at t = e_now E \<or> (\<exists>t0. servers s0 k = Some t0 \<and> server_move t0 t)"
      using assms(1) 2(1) by (simp add: server_from_def)
    ultimately show ?thesis using server_move_trans [OF _ 2(2)] by auto
  qed simp
qed

lemma client_fromI:
  assumes "client_from E s0 s" "\<And>b t'. clients s' b = Some t' \<Longrightarrow>
    t_created_at t' = e_now E \<or> (\<exists>t. clients s b = Some t \<and> client_move t t')"
  shows "client_from E s0 s'"
  unfolding client_from_def
proof (intro allI impI)
  fix b t' assume t': "clients s' b = Some t'"
  consider "t_created_at t' = e_now E" | t where "clients s b = Some t" "client_move t t'" using assms(2) [OF t'] by blast
  then show "t_created_at t' = e_now E \<or> (\<exists>t. clients s0 b = Some t \<and> client_move t t')"
  proof cases
    case (2 t)
    have "t_created_at t' = t_created_at t" using 2(2) by (simp add: client_move_def same_head_def)
    moreover have "t_created_at t = e_now E \<or> (\<exists>t0. clients s0 b = Some t0 \<and> client_move t0 t)"
      using assms(1) 2(1) by (simp add: client_from_def)
    ultimately show ?thesis using client_move_trans [OF _ 2(2)] by auto
  qed simp
qed

lemma detach_state:
  "clients (detach_from_call i s) b = Some t' \<Longrightarrow> \<exists>t. clients s b = Some t \<and> (t' = t \<or> t' = t\<lparr>t_call_ref := None\<rparr>)"
  "servers (detach_from_call i s) k = Some t' \<Longrightarrow> \<exists>t. servers s k = Some t \<and> (t' = t \<or> t' = t\<lparr>t_call_ref := None\<rparr>)"
  by (cases i; auto simp: detach_from_call_def Let_def clients_upd_client servers_upd_server split: option.splits if_splits)+

lemma delete_state:
  "clients (fst (delete_txn E i s)) b = Some t \<Longrightarrow> clients s b = Some t"
  "servers (fst (delete_txn E i s)) k = Some t \<Longrightarrow> servers s k = Some t"
  by (cases "txn s i"; cases i; auto simp: delete_absent delete_client_state delete_server_state split: if_splits)+

lemma set_state:
  "clients (set_txn t s) b = Some t' \<Longrightarrow> t' = t \<or> clients s b = Some t'"
  "servers (set_txn t s) k = Some t' \<Longrightarrow> t' = t \<or> servers s k = Some t'"
  by (cases "t_id t"; auto simp: set_client_state set_server_state split: if_splits)+

interpretation server_diagram: turn_inv E "server_from E s0" for E s0
proof unfold_locales
  show "server_from E s0 s'" if "server_from E s0 s" "servers s' = servers s" for s s'
    using that by (simp add: server_from_def)
  then show "server_from E s0 s'" if "server_from E s0 s" "clients s' = (clients s)(b \<mapsto> t')" "servers s' = servers s"
    for s s' b t' using that by blast
  show "server_from E s0 s'" if "server_from E s0 s" "servers s k = Some t" "server_move t t'"
    "servers s' = (servers s)(k \<mapsto> t')" for s s' k t t'
    using that(1) by (rule server_fromI) (use that in \<open>auto split: if_splits\<close>)
  show "server_from E s0 (detach_from_call i s)" if "server_from E s0 s" for s i
    using that by (rule server_fromI) (auto dest!: detach_state(2) simp: move_defs)
  show "server_from E s0 (fst (delete_txn E i s))" if "server_from E s0 s" for s i
    using that by (rule server_fromI) (auto dest!: delete_state(2))
  show "server_from E s0 (set_txn t s)" if "server_from E s0 s" "opened E t" for s t
    using that(1) by (rule server_fromI) (use that(2) in \<open>auto dest!: set_state(2) simp: opened_def\<close>)
qed (simp add: server_from_def)

interpretation client_diagram: turn_inv E "client_from E s0" for E s0
proof
  show "client_from E s0 s'" if "client_from E s0 s" "clients s' = clients s" for s s'
    using that by (simp add: client_from_def)
  then show "client_from E s0 s'" if "client_from E s0 s" "clients s' = clients s" "servers s' = (servers s)(k \<mapsto> t')"
    for s s' k t' using that by blast
  show "client_from E s0 s'" if "client_from E s0 s" "clients s b = Some t" "client_move t t'"
    "clients s' = (clients s)(b \<mapsto> t')" for s s' b t t'
    using that(1) by (rule client_fromI) (use that in \<open>auto split: if_splits\<close>)
  then show "client_from E s0 s'" if "client_from E s0 s" "clients s b = Some t" "client_move t t'"
    "t_state t' = Accepted" "clients s' = (clients s)(b \<mapsto> t')" for s s' b t t' using that by blast
  show "client_from E s0 (detach_from_call i s)" if "client_from E s0 s" for s i
    using that by (rule client_fromI) (auto dest!: detach_state(1) simp: move_defs)
  show "client_from E s0 (fst (delete_txn E i s))" if "client_from E s0 s" for s i
    using that by (rule client_fromI) (auto dest!: delete_state(1))
  show "client_from E s0 (set_txn t s)" if "client_from E s0 s" "opened E t" for s t
    using that(1) by (rule client_fromI) (use that(2) in \<open>auto dest!: set_state(1) simp: opened_def\<close>)
qed

section \<open>Every reachable owner\<close>

lemma index_new: "index_ok (owner_new r)"
  by (simp add: index_ok_def exact_def call_side_def holds_none_def owner_new_def fun_eq_iff)

lemma gauges_new: "gauges_ok (owner_new r)"
  by (simp add: gauges_ok_def total_unsent_def owner_new_def)

lemma reach_tables: "owner_reach cfg lim s t \<Longrightarrow> index_ok s \<and> gauges_ok s"
proof (induction rule: owner_reach.induct)
  case (reach_step s t E s')
  have "lockstep (e_now E) s" using lockstep_mono [OF reach_lockstep [OF reach_step(1)]] reach_step by blast
  with reach_step show ?case using index.P_step gauges.P_step by blast
qed (simp_all add: index_new gauges_new)

lemma step_diagrams:
  assumes "owner_reach cfg lim s t" "env_ok E" "t \<le> e_now E" "owner_step E s s'"
  shows "server_from E s s'" "client_from E s s'"
proof -
  have ls: "lockstep (e_now E) s" using lockstep_mono [OF reach_lockstep [OF assms(1)] assms(3)] .
  have "server_from E s s" "client_from E s s" by (auto simp: server_from_def client_from_def)
  with ls assms show "server_from E s s'" "client_from E s s'"
    using server_diagram.P_step client_diagram.P_step by blast+
qed

section \<open>The end of a turn\<close>

lemma offer_frame [simp]:
  "clients (fst (offer E ev c s)) = clients s" "servers (fst (offer E ev c s)) = servers s"
  "wire_out (fst (offer E ev c s)) = wire_out s" "txn_index (fst (offer E ev c s)) = txn_index s"
  by (auto simp: offer_def channel_send_def defer_event_def arm_event_retry_def arm_def bump_def Let_def
      split: send_result.split)

lemma emit_frame [simp]:
  "clients (emit_critical E ev s) = clients s" "servers (emit_critical E ev s) = servers s"
  "wire_out (emit_critical E ev s) = wire_out s" "txn_index (emit_critical E ev s) = txn_index s"
  by (simp_all add: emit_critical_def)

lemma flush_pending_frame [simp]:
  "clients (flush_pending_quiesce E s) = clients s" "servers (flush_pending_quiesce E s) = servers s"
  "wire_out (flush_pending_quiesce E s) = wire_out s" "txn_index (flush_pending_quiesce E s) = txn_index s"
proof -
  let ?f = "\<lambda>cr s. if cr \<in> self_release_watch s \<and> \<not> has_txns_for cr s then notify_quiesced E cr s else s"
  have "clients (fold ?f xs s) = clients s \<and> servers (fold ?f xs s) = servers s \<and>
    wire_out (fold ?f xs s) = wire_out s \<and> txn_index (fold ?f xs s) = txn_index s" for xs s
    by (induction xs arbitrary: s) (simp_all add: notify_quiesced_def)
  then show "clients (flush_pending_quiesce E s) = clients s" "servers (flush_pending_quiesce E s) = servers s"
    "wire_out (flush_pending_quiesce E s) = wire_out s" "txn_index (flush_pending_quiesce E s) = txn_index s"
    by (simp_all add: flush_pending_quiesce_def)
qed

lemma flush_owed_frame [simp]:
  "clients (flush_owed_sends s) = clients s" "servers (flush_owed_sends s) = servers s"
  "wire_out (flush_owed_sends s) = wire_out s @ owed_sends s" "txn_index (flush_owed_sends s) = txn_index s"
proof -
  let ?f = "\<lambda>(buf, dest). send_buffer buf dest"
  have "clients (fold ?f xs s) = clients s \<and> servers (fold ?f xs s) = servers s \<and>
    wire_out (fold ?f xs s) = wire_out s @ xs \<and> txn_index (fold ?f xs s) = txn_index s" for xs s
    by (induction xs arbitrary: s) (auto simp: send_buffer_def)
  from this [of "owed_sends s" "s\<lparr>owed_sends := []\<rparr>"]
  show "clients (flush_owed_sends s) = clients s" "servers (flush_owed_sends s) = servers s"
    "wire_out (flush_owed_sends s) = wire_out s @ owed_sends s" "txn_index (flush_owed_sends s) = txn_index s"
    by (simp_all add: flush_owed_sends_def)
qed

lemma end_turn_frame [simp]:
  "clients (end_turn E s) = clients s" "servers (end_turn E s) = servers s"
  "wire_out (end_turn E s) = wire_out s @ owed_sends s" "txn_index (end_turn E s) = txn_index s"
  by (simp_all add: end_turn_def Let_def)

end
