(* ===== verification/Txn_Example.thy ===== *)
theory Txn_Example
  imports Txn_Invariants "HOL-Library.Char_ord" "HOL-Library.List_Lexorder" "HOL-Library.Product_Lexorder"
begin

text \<open>
  A concrete environment and a first turn, at which the properties of the transaction layer are
  exercised: an owner that sends an INVITE of a call and takes the answer to it.
\<close>

section \<open>An environment\<close>

definition free_key :: "wheel \<Rightarrow> nat" where
  "free_key w = (LEAST k. w k = None)"

definition enc_key :: "server_txn_key \<Rightarrow> string \<times> string \<times> nat \<times> string" where
  "enc_key k = (sk_branch k, sk_sent_by k,
     case sk_method k of MOther x \<Rightarrow> (1, x) | m \<Rightarrow> (0, meth_str m))"

definition dec_key :: "string \<times> string \<times> nat \<times> string \<Rightarrow> server_txn_key" where
  "dec_key x = (case x of (b, sb, n, m) \<Rightarrow>
     \<lparr>sk_branch = b, sk_sent_by = sb, sk_method = if n = 1 then MOther m else from_wire m\<rparr>)"

definition cfg0 :: layer_config where
  "cfg0 = \<lparr>c_invite_initial_timeout_ms = 180000, c_invite_first_response_timeout_ms = 4000,
     c_trying_bound_ms = 200, c_ack_bound_ms = 0, c_cancel_bound_ms = 0, c_deferred_bound = None,
     c_gate = False, c_on_bound = False, c_keepalive_lane = False, c_stateless_options = False\<rparr>"

text \<open>The environment at instant \<open>now\<close>: the channel takes every event, a composed message's image is
  its status or method, every address resolves to \<open>''hop''\<close>.\<close>

definition env_at :: "instant \<Rightarrow> layer_env" where
  "env_at now =
     \<lparr>e_now = now, e_clock_limit = 10 ^ 30, e_cfg = cfg0, e_fresh_key = free_key,
      e_try_send = (\<lambda>_. SendOk), e_lane_send = (\<lambda>_. SendOk), e_gate_refusing = False,
      e_new_tag = (\<lambda>_. ''tag''), e_new_branch = (\<lambda>_. ''fresh''), e_ident = (\<lambda>_ _ _. 0),
      e_is_emergency = (\<lambda>_. False), e_refusal = (\<lambda>_. None), e_render = rq_image,
      e_compose = (\<lambda>_ st _ _. if st = 100 then Some ''100'' else if st = 200 then Some ''200'' else Some ''4xx''),
      e_fallback_hash = (\<lambda>x. x),
      e_ack_non_2xx = (\<lambda>_ _. Some ''ACK''), e_ack_2xx = (\<lambda>_ _ _ _. None), e_bye_2xx = (\<lambda>_ _ _ _. None),
      e_next_hop = (\<lambda>_. Some ''hop''), e_reject_offer = (\<lambda>_ _. None), e_parse = (\<lambda>_. ParseError),
      e_refuse_unparsed = (\<lambda>_ _. PRDropped), e_stamp = (\<lambda>_ _. Unchanged),
      e_stamped_destination = (\<lambda>_ src. src), e_request_target = (\<lambda>_. Some ''hop''),
      e_response_target = (\<lambda>_. Some ''hop''), e_acks_parse_refusal = (\<lambda>_. False),
      e_retag = (\<lambda>_ _. Some ''retagged''),
      e_iter_branches = sorted_list_of_set,
      e_iter_servers = (\<lambda>K. map dec_key (sorted_list_of_set (enc_key ` K)))\<rparr>"

lemma env_at_fields [simp]:
  "e_now (env_at t) = t" "e_clock_limit (env_at t) = 10 ^ 30" "e_cfg (env_at t) = cfg0"
  "e_fresh_key (env_at t) = free_key" "e_try_send (env_at t) = (\<lambda>_. SendOk)" "e_render (env_at t) = rq_image"
  "e_new_tag (env_at t) = (\<lambda>_. ''tag'')" "e_new_branch (env_at t) = (\<lambda>_. ''fresh'')"
  "e_ack_non_2xx (env_at t) = (\<lambda>_ _. Some ''ACK'')" "e_stamp (env_at t) = (\<lambda>_ _. Unchanged)"
  "e_stamped_destination (env_at t) = (\<lambda>_ src. src)" "e_request_target (env_at t) = (\<lambda>_. Some ''hop'')"
  "e_response_target (env_at t) = (\<lambda>_. Some ''hop'')" "e_iter_branches (env_at t) = sorted_list_of_set"
  "e_parse (env_at t) = (\<lambda>_. ParseError)" "e_refuse_unparsed (env_at t) = (\<lambda>_ _. PRDropped)"
  by (simp_all add: env_at_def)

lemma cfg0_fields [simp]:
  "c_invite_initial_timeout_ms cfg0 = 180000" "c_invite_first_response_timeout_ms cfg0 = 4000"
  "c_trying_bound_ms cfg0 = 200" "c_ack_bound_ms cfg0 = 0" "c_cancel_bound_ms cfg0 = 0"
  "c_deferred_bound cfg0 = None" "\<not> c_gate cfg0" "\<not> c_on_bound cfg0" "\<not> c_keepalive_lane cfg0"
  "\<not> c_stateless_options cfg0"
  by (simp_all add: cfg0_def)

lemma free_key_free: "finite (dom w) \<Longrightarrow> free_key w \<notin> dom w"
proof -
  assume "finite (dom w)"
  then obtain k where "k \<notin> dom w" using ex_new_if_finite infinite_UNIV_nat by blast
  then have "w k = None" by auto
  then have "w (free_key w) = None" unfolding free_key_def by (rule LeastI)
  then show ?thesis by auto
qed

lemma dec_enc [simp]: "dec_key (enc_key k) = k"
  by (cases k; cases "sk_method k") (auto simp: enc_key_def dec_key_def from_wire_def)

lemma env_at_ok: "now \<le> 10 ^ 30 \<Longrightarrow> env_ok (env_at now)"
proof -
  have "set (map dec_key (sorted_list_of_set (enc_key ` K))) = K \<and>
      distinct (map dec_key (sorted_list_of_set (enc_key ` K)))" if "finite K" for K
  proof -
    have "inj_on dec_key (enc_key ` K)" by (rule inj_on_inverseI [where g = enc_key]) fastforce
    with that show ?thesis by (simp add: distinct_map image_image)
  qed
  then show "now \<le> 10 ^ 30 \<Longrightarrow> env_ok (env_at now)"
    unfolding env_ok_def by (simp add: env_at_def free_key_free)
qed

section \<open>A call's INVITE\<close>

definition invite0 :: sip_request where
  "invite0 = \<lparr>rq_method = MInvite, rq_branch = Some ''b1'', rq_sent_by = ''me'',
     rq_marks = \<lparr>vm_call_ref = Some ''call'', vm_leg_id = Some ''leg'', vm_incarnation_mark = None\<rparr>,
     rq_cseq = 1, rq_call_id = ''cid'', rq_from_tag = Some ''ft'', rq_to_tag = None,
     rq_uri_call_ref = None, rq_headers = [], rq_sdp = None, rq_image = ''INVITE''\<rparr>"

definition sent0 :: owner where
  "sent0 = turn (env_at 0) (WCommand (CSendRequest invite0 ''hop'' KInvite)) (owner_new None)"

lemma reach_sent0: "owner_reach cfg0 (10 ^ 30) sent0 0"
  unfolding sent0_def
  using reach_step [OF reach_init [of cfg0 "10 ^ 30" None 0], of "env_at 0"] env_at_ok [of 0]
  by (auto intro: owner_step.step_command)

lemma invite0_fields [simp]:
  "rq_method invite0 = MInvite" "rq_branch invite0 = Some ''b1''" "rq_to_tag invite0 = None"
  "rq_image invite0 = ''INVITE''" "rq_call_id invite0 = ''cid''" "rq_from_tag invite0 = Some ''ft''"
  "vm_call_ref (extract_via_custom_params invite0) = Some ''call''"
  by (simp_all add: invite0_def extract_via_custom_params_def)

lemma owner_new_fields [simp]:
  "clients (owner_new r) = Map.empty" "servers (owner_new r) = Map.empty" "timers (owner_new r) = Map.empty"
  "wire_out (owner_new r) = []" "txn_index (owner_new r) = Map.empty" "queue_in (owner_new r) = []"
  "deferred_events (owner_new r) = []" "pending_quiesce (owner_new r) = []" "owed_sends (owner_new r) = []"
  "self_release_watch (owner_new r) = {}" "event_retry_armed (owner_new r) = False"
  by (simp_all add: owner_new_def)

definition fresh_client :: "layer_env \<Rightarrow> sip_request \<Rightarrow> txn_kind \<Rightarrow> transaction \<Rightarrow> bool" where
  "fresh_client E msg kind t \<longleftrightarrow> t_state t = Trying \<and> t_kind t = kind \<and> t_method t = rq_method msg \<and>
     t_call_ref t = vm_call_ref (extract_via_custom_params msg) \<and> t_created_at t = e_now E \<and>
     t_held_cancel t = None \<and> t_seed_resend t = None \<and> \<not> t_orphaned t"

lemma start_retransmit_fresh:
  "clients s b = Some t \<Longrightarrow> fresh_client E msg kind t \<Longrightarrow>
   \<exists>t'. clients (start_client_retransmit E b buf dest m tk s) b = Some t' \<and> fresh_client E msg kind t'"
  by (auto simp: start_client_retransmit_def fresh_client_def Let_def case_prod_beta split: option.split)

lemma open_client_fresh:
  "\<exists>t. clients (open_client E b msg buf dest kind s) b = Some t \<and> fresh_client E msg kind t"
proof -
  define s1 where "s1 = open_txn E (client_head kind b msg dest)
    (send_buffer buf dest (note_dialog_cseq E (vm_call_ref (extract_via_custom_params msg)) msg s))"
  have "\<exists>t. clients s1 b = Some t \<and> fresh_client E msg kind t"
    unfolding s1_def open_txn_def
    by (subst clients_open_client) (simp_all add: client_head_def fresh_client_def)
  then obtain t where t: "clients s1 b = Some t" "fresh_client E msg kind t" by blast
  have "clients (open_client E b msg buf dest kind s) = clients (start_client_retransmit E b buf dest
      (fst (client_timeout E kind msg)) (snd (client_timeout E kind msg)) s1)"
    by (auto simp: open_client_def Let_def case_prod_beta s1_def)
  then show ?thesis using start_retransmit_fresh [OF t] by metis
qed

lemma sent0_fresh: "\<exists>t. clients sent0 ''b1'' = Some t \<and> fresh_client (env_at 0) invite0 KInvite t"
  using open_client_fresh [of "env_at 0" "''b1''" invite0 "''INVITE''" "''hop''" KInvite "owner_new None"]
  by (simp add: sent0_def turn_def do_send_request_def request_branch_def)

lemma sent0_client:
  "\<exists>t. clients sent0 ''b1'' = Some t \<and> t_state t = Trying \<and> t_call_ref t = Some ''call'' \<and> t_created_at t = 0"
  using sent0_fresh by (auto simp: fresh_client_def)

section \<open>A request of a call taken over\<close>

definition bye0 :: sip_request where
  "bye0 = invite0\<lparr>rq_method := MBye, rq_to_tag := Some ''tt''\<rparr>"

definition bye0_key :: server_txn_key where
  "bye0_key = \<lparr>sk_branch = ''b1'', sk_sent_by = ''me'', sk_method = MBye\<rparr>"

definition asked0 :: owner where
  "asked0 = turn (env_at 0) (WCommand (CSeed ''call'' [SServerNonInvite bye0 None])) (owner_new None)"

lemma reach_asked0: "owner_reach cfg0 (10 ^ 30) asked0 0"
  unfolding asked0_def
  using reach_step [OF reach_init [of cfg0 "10 ^ 30" None 0], of "env_at 0"] env_at_ok [of 0]
  by (auto intro: owner_step.step_command)

lemma asked0_server:
  "\<exists>t. servers asked0 bye0_key = Some t \<and> t_state t = Trying \<and> t_created_at t = 0 \<and> t_unsent_cancel t = None \<and>
     t_destination t = Some ''hop''"
proof -
  have key: "of_request bye0 = Some bye0_key"
    by (simp add: bye0_def invite0_def bye0_key_def of_request_def server_txn_id_def filed_method_def)
  show ?thesis
    by (simp add: asked0_def turn_def do_seed_def seed_server_non_invite_def key open_txn_def add_count_def
        servers_open_server seed_head_def)
qed

end
