(* ===== verification/Txn_Props.thy ===== *)
theory Txn_Props
  imports Txn_Example
begin

text \<open>
  The properties of the transaction layer's tables and timers, over every reachable owner
  (\<open>owner_reach\<close>) and every turn (\<open>owner_step\<close>).
\<close>

section \<open>Timers\<close>

lemma reach_at: "owner_reach cfg lim s now \<Longrightarrow> now \<le> now' \<Longrightarrow> lockstep now' s"
  using reach_lockstep lockstep_mono by blast

lemma reach_cleanup:
  assumes "owner_reach cfg lim s now" "txn s i = Some t"
  shows "\<exists>k. t_cleanup_key t = Some k \<and> timers s k = Some (Cleanup i, deadline_of (t_lifetime t)) \<and>
    deadline_of (t_lifetime t) \<le> now + MAX_DELAY"
proof -
  note view = lockstep_in_step [OF reach_lockstep [OF assms(1)]]
  have due: "due_of s i = Some (deadline_of (t_lifetime t))" by (simp add: due_of_def assms(2))
  from in_step_cleanup [OF view due] obtain k where k: "slot s (Cleanup i) = Some k"
    and le: "deadline_of (t_lifetime t) \<le> now + MAX_DELAY" by auto
  from in_step_key [OF view _ k] obtain d where d: "timers s k = Some (Cleanup i, d)" by auto
  from in_step_due [OF view d] due have "d = deadline_of (t_lifetime t)" by simp
  moreover have "t_cleanup_key t = Some k" using k assms(2) by simp
  ultimately show ?thesis using d le by blast
qed

lemma reach_finite:
  assumes "owner_reach cfg lim s now"
  shows "finite (dom (clients s))" "finite (dom (servers s))"
  using reach_tables [OF assms] by (simp_all add: gauges_ok_def)

lemma resident_txn:
  assumes "finite (dom (clients s))" "finite (dom (servers s))" "env_ok E" "t \<in> set (resident E s)"
  shows "\<exists>i. txn s i = Some t"
proof -
  have "(\<exists>b. clients s b = Some t) \<or> (\<exists>k. servers s k = Some t)"
    using assms by (auto simp: resident_def env_ok_def)
  then show ?thesis by (metis txn.simps)
qed

lemma expire_gone: "txn (end_turn E (expire E i s)) i = None"
proof -
  have "txn (fst (delete_txn E i s)) i = None"
    by (cases "txn s i"; cases i; simp add: delete_absent delete_client_state delete_server_state)
  then show ?thesis
    by (cases i; auto simp: expire_def drop_deferred_request_of_def Let_def split: option.split lifetime.split txn_id.split)
qed

text \<open>C1: In every reachable state of the layer the timer wheel and the transactions are in lockstep.
  A transaction keeps the key of a timer exactly while that timer of its is in the wheel, so no timer
  fires for a transaction that left or was displaced; and every resident transaction has its clean-up
  in the wheel, at its lifetime's deadline, at most one ceiling past the clock.\<close>

theorem timers_in_lockstep:
  assumes "owner_reach cfg lim s now"
  shows "(\<forall>tm k. tracked tm \<longrightarrow> (slot s tm = Some k) = (\<exists>d. timers s k = Some (tm, d))) \<and>
    (\<forall>i t. txn s i = Some t \<longrightarrow> (\<exists>k. t_cleanup_key t = Some k \<and>
      timers s k = Some (Cleanup i, deadline_of (t_lifetime t)) \<and> deadline_of (t_lifetime t) \<le> now + MAX_DELAY))"
  using reach_cleanup [OF assms] lockstep_in_step [OF reach_lockstep [OF assms]] by (auto simp: in_step_def)

theorem timers_in_lockstep_witness:
  "owner_reach cfg0 (10 ^ 30) sent0 0 \<and> (\<exists>t k. clients sent0 ''b1'' = Some t \<and> t_cleanup_key t = Some k \<and>
     timers sent0 k = Some (Cleanup (Client ''b1''), deadline_of (t_lifetime t)))"
proof -
  obtain t where "txn sent0 (Client ''b1'') = Some t" using sent0_client by auto
  with conjunct2 [OF timers_in_lockstep [OF reach_sent0]] show ?thesis using reach_sent0 by fastforce
qed

lemma after_loop_ge: "at \<le> after_loop lim at left step"
proof (induction lim at left step rule: after_loop.induct)
  case (1 lim at left step)
  show ?case
  proof (cases "left = 0 \<or> step = 0")
    case False
    show ?thesis
    proof (cases "checked_add lim at step")
      case (Some n)
      then have "at \<le> n" by (auto simp: checked_add_def split: if_splits)
      with 1(2) [OF False Some] Some False show ?thesis by (subst after_loop.simps) simp
    next
      case None
      with 1(1) [OF False None] False show ?thesis by (subst after_loop.simps) simp
    qed
  qed (subst after_loop.simps, simp)
qed

lemma deadline_after_ge: "from \<le> deadline_after lim from delay"
  by (simp add: deadline_after_def after_loop_ge)

text \<open>C31: The safety-net sweep has nothing to do. Whenever the loop takes it, with no timer of the wheel
  a tick overdue, no resident transaction is past its deadline by the sweep's slack: it reaps none and
  changes nothing, short of the last instant the clock represents.\<close>

theorem sweep_reaps_nothing:
  assumes "owner_reach cfg lim s now" "env_ok E" "e_now E < e_clock_limit E"
    and "\<And>k tm due. timers s k = Some (tm, due) \<Longrightarrow> e_now E < due + WHEEL_TICK"
  shows "reap_overdue E s = s"
proof -
  have "\<not> overdue E t" if t: "txn s i = Some t" for i t
  proof -
    obtain k where "timers s k = Some (Cleanup i, deadline_of (t_lifetime t))"
      using reach_cleanup [OF assms(1) t] by blast
    from assms(4) [OF this] assms(3) show ?thesis
      using deadline_after_ge [of "deadline_of (t_lifetime t)" "e_clock_limit E" SWEEP_SLACK]
        deadline_after_min [of "deadline_of (t_lifetime t)" "e_clock_limit E" SWEEP_SLACK]
      by (cases "deadline_of (t_lifetime t) \<le> e_clock_limit E")
        (auto simp: overdue_def SWEEP_SLACK_def WHEEL_TICK_def MAX_DELAY_def ms_def TXN_SWEEP_INTERVAL_def)
  qed
  then have "filter (overdue E) (resident E s) = []"
    unfolding filter_empty_conv using resident_txn [OF reach_finite [OF assms(1)] assms(2)] by blast
  then show ?thesis by (simp add: reap_overdue_def)
qed

theorem sweep_reaps_nothing_witness: "reap_overdue (env_at 0) sent0 = sent0"
  using sweep_reaps_nothing [OF reach_sent0 env_at_ok, of 0] by (simp add: WHEEL_TICK_def)

text \<open>C7: Every transaction leaves. A resident transaction of a reachable layer has its clean-up in the
  wheel, due at most one ceiling from now, and from that instant on the loop can take the turn that
  fires it, after which the transaction is gone.\<close>

theorem transaction_leaves:
  assumes "owner_reach cfg lim s now" "txn s i = Some t"
  shows "\<exists>k. timers s k = Some (Cleanup i, deadline_of (t_lifetime t)) \<and>
    deadline_of (t_lifetime t) \<le> now + MAX_DELAY \<and>
    (\<forall>E. deadline_of (t_lifetime t) \<le> e_now E \<longrightarrow> (\<exists>s'. owner_step E s s' \<and> txn s' i = None))"
proof -
  obtain k where k: "timers s k = Some (Cleanup i, deadline_of (t_lifetime t))"
    and le: "deadline_of (t_lifetime t) \<le> now + MAX_DELAY" using reach_cleanup [OF assms] by blast
  have "owner_step E s (turn E (WTimer (Cleanup i)) (s\<lparr>timers := (timers s)(k := None)\<rparr>))"
    if "deadline_of (t_lifetime t) \<le> e_now E" for E using step_timer [OF k that] .
  moreover have "txn (turn E (WTimer (Cleanup i)) x) i = None" for E x
    by (simp add: turn_def expire_gone)
  ultimately show ?thesis using k le by blast
qed

theorem transaction_leaves_witness:
  "\<exists>t s'. clients sent0 ''b1'' = Some t \<and> owner_step (env_at (10 ^ 30)) sent0 s' \<and> clients s' ''b1'' = None"
proof -
  obtain t where t: "txn sent0 (Client ''b1'') = Some t" using sent0_client by auto
  from transaction_leaves [OF reach_sent0 t] have "deadline_of (t_lifetime t) \<le> e_now (env_at (10 ^ 30))"
    by (auto simp: MAX_DELAY_def)
  with transaction_leaves [OF reach_sent0 t] t show ?thesis by auto
qed

section \<open>The tables\<close>

lemma total_unsent_card:
  "finite (dom m) \<Longrightarrow> total_unsent m = card {b. \<exists>t. m b = Some t \<and> never_sent (t_held_cancel t)}"
proof -
  assume fin: "finite (dom m)"
  have "{b. \<exists>t. m b = Some t \<and> never_sent (t_held_cancel t)} = {b \<in> dom m. never_sent (t_held_cancel (the (m b)))}"
    by auto
  with fin show ?thesis by (simp add: total_unsent_def unsent_def sum.If_cases of_bool_def Int_def)
qed

lemma reach_servers:
  assumes "owner_reach cfg lim s now" "servers s k = Some t"
  shows "t_id t = Server k"
  using reach_lockstep [OF assms(1)] assms(2) by (auto simp: lockstep_def server_ok_def)

lemma reach_clients:
  assumes "owner_reach cfg lim s now" "clients s b = Some t"
  shows "t_id t = Client b \<and> t_state t \<noteq> Confirmed \<and>
    (t_state t = Trying \<longrightarrow> t_held_cancel t \<noteq> None \<longrightarrow> never_sent (t_held_cancel t))"
  using reach_lockstep [OF assms(1)] assms(2) by (simp add: lockstep_def client_ok_def)

text \<open>C32: The tables of a reachable layer are well-formed: they are finite, a transaction is filed under
  its own identity, client transactions under their branch and server ones under their key, a client
  is never Confirmed, a CANCEL held by a client still in Trying has not been sent, and no server
  transaction owes a CANCEL of its own.\<close>

theorem tables_well_formed:
  assumes "owner_reach cfg lim s now"
  shows "finite (dom (clients s)) \<and> finite (dom (servers s)) \<and>
    (\<forall>i t. txn s i = Some t \<longrightarrow> t_id t = i) \<and>
    (\<forall>b t. clients s b = Some t \<longrightarrow> t_state t \<noteq> Confirmed \<and>
      (t_state t = Trying \<and> t_held_cancel t \<noteq> None \<longrightarrow> never_sent (t_held_cancel t))) \<and>
    (\<forall>k t. servers s k = Some t \<longrightarrow> \<not> never_sent (t_held_cancel t))"
proof -
  have "t_id t = i" if "txn s i = Some t" for i t
    using that reach_servers [OF assms] reach_clients [OF assms] by (cases i) auto
  then show ?thesis
    using reach_finite [OF assms] reach_clients [OF assms] reach_tables [OF assms] by (auto simp: gauges_ok_def)
qed

theorem tables_well_formed_witness:
  "\<exists>t. clients sent0 ''b1'' = Some t \<and> t_id t = Client ''b1''"
  using tables_well_formed [OF reach_sent0] sent0_client by force

text \<open>C10: The call index is exact. In a reachable layer the index entry of a call is the three sets of
  its resident transactions (clients, servers, and the clients that accepted a 2xx), it is absent
  exactly when the call has none, and the count the layer answers for a call is the number of its
  clients not yet Accepted and its servers.\<close>

theorem call_index_exact:
  assumes "owner_reach cfg lim s now"
  shows "txn_index s cr = (if holds_none (call_side s cr) then None else Some (call_side s cr)) \<and>
    handle_command E (CActiveTxnCount cr) s = (s, RCount
      (card {b. \<exists>t. clients s b = Some t \<and> t_call_ref t = Some cr \<and> t_state t \<noteq> Accepted} +
       card {k. \<exists>t. servers s k = Some t \<and> t_call_ref t = Some cr}))"
proof -
  have index: "txn_index s cr = (if holds_none (call_side s cr) then None else Some (call_side s cr))"
    using reach_tables [OF assms] by (simp add: index_ok_def exact_def)
  then have "(case txn_index s cr of None \<Rightarrow> 0 | Some c \<Rightarrow> on_books c) = on_books (call_side s cr)"
    by (simp add: on_books_def holds_none_def)
  with index show ?thesis by (simp add: on_books_def call_side_def)
qed

theorem call_index_exact_witness:
  "\<exists>c. txn_index sent0 ''call'' = Some c \<and> ''b1'' \<in> ct_client c"
proof -
  have "''b1'' \<in> ct_client (call_side sent0 ''call'')" using sent0_client by (force simp: call_side_def)
  then show ?thesis
    using call_index_exact [OF reach_sent0, of "''call''" "env_at 0"] by (auto simp: holds_none_def)
qed

text \<open>The active gauge is exact: in a reachable layer it is the number of resident client and server
  transactions.\<close>

theorem active_gauge_exact:
  assumes "owner_reach cfg lim s now"
  shows "counters s ActiveTransactions = card (dom (clients s)) + card (dom (servers s))"
  using reach_tables [OF assms] by (simp add: gauges_ok_def)

theorem active_gauge_exact_witness: "0 < counters sent0 ActiveTransactions"
  using active_gauge_exact [OF reach_sent0] reach_finite [OF reach_sent0] sent0_client
  by (auto simp: card_gt_0_iff)

text \<open>C33: No held CANCEL is lost from the books: in a reachable layer the CANCELs held so far are those
  flushed to the wire, those dropped, and those still held by a resident client transaction.\<close>

theorem cancel_books_balance:
  assumes "owner_reach cfg lim s now"
  shows "counters s CancelsHeld = counters s HeldCancelsFlushed + counters s HeldCancelsDropped +
    card {b. \<exists>t. clients s b = Some t \<and> never_sent (t_held_cancel t)}"
  using reach_tables [OF assms] total_unsent_card [of "clients s"] by (simp add: gauges_ok_def)

theorem cancel_books_balance_witness:
  "owner_reach cfg0 (10 ^ 30) sent0 0 \<and> counters sent0 CancelsHeld = counters sent0 HeldCancelsFlushed +
     counters sent0 HeldCancelsDropped + card {b. \<exists>t. clients sent0 b = Some t \<and> never_sent (t_held_cancel t)}"
  using cancel_books_balance [OF reach_sent0] reach_sent0 by simp

section \<open>The state diagrams\<close>

text \<open>C3: Every turn moves a server transaction along the server diagram. A server transaction present
  after a turn and not opened in it was there before, under the same key and identity; its state
  advanced by arcs of the diagram (never back from a final); a final it had recorded, its status and
  its To-tag are unchanged, and so is the UAS tag once drawn.\<close>

theorem server_follows_diagram:
  assumes "owner_reach cfg lim s now" "env_ok E" "now \<le> e_now E" "owner_step E s s'"
    and "servers s' k = Some t'" "t_created_at t' \<noteq> e_now E"
  shows "\<exists>t. servers s k = Some t \<and> same_head t t' \<and> server_arc\<^sup>*\<^sup>* (t_state t) (t_state t') \<and>
    (sent_final (t_state t) \<longrightarrow> sent_final (t_state t')) \<and>
    final_kept t t' \<and> (t_uas_to_tag t \<noteq> None \<longrightarrow> t_uas_to_tag t' = t_uas_to_tag t)"
proof -
  obtain t where "servers s k = Some t" "server_move t t'"
    using step_diagrams(1) [OF assms(1-4)] assms(5,6) by (auto simp: server_from_def)
  then show ?thesis using sent_final_arc by (auto simp: server_move_def)
qed

theorem server_follows_diagram_witness:
  "\<exists>t t' s'. servers asked0 bye0_key = Some t \<and> owner_step (env_at 1) asked0 s' \<and> servers s' bye0_key = Some t' \<and>
     same_head t t'"
proof -
  obtain t where t: "servers asked0 bye0_key = Some t" "t_created_at t = 0" using asked0_server by blast
  define s' where "s' = turn (env_at 1) (WCommand (CActiveTxnCount ''call'')) asked0"
  have step: "owner_step (env_at 1) asked0 s'" unfolding s'_def by (rule step_command)
  have t': "servers s' bye0_key = Some t" using t(1) by (simp add: s'_def turn_def)
  from server_follows_diagram [OF reach_asked0 env_at_ok _ step t'] t(2)
  have "\<exists>t0. servers asked0 bye0_key = Some t0 \<and> same_head t0 t" by auto
  with step t' show ?thesis by blast
qed

text \<open>C4: Every turn moves a client transaction along the client diagram: one present after a turn and
  not opened in it was there before under the same branch and identity, its state advanced by arcs of
  the diagram, and once orphaned it stays so.\<close>

theorem client_follows_diagram:
  assumes "owner_reach cfg lim s now" "env_ok E" "now \<le> e_now E" "owner_step E s s'"
    and "clients s' b = Some t'" "t_created_at t' \<noteq> e_now E"
  shows "\<exists>t. clients s b = Some t \<and> same_head t t' \<and> client_arc\<^sup>*\<^sup>* (t_state t) (t_state t') \<and>
    (t_orphaned t \<longrightarrow> t_orphaned t')"
  using step_diagrams(2) [OF assms(1-4)] assms(5,6) by (auto simp: client_from_def client_move_def)

theorem client_follows_diagram_witness:
  "\<exists>t t' s'. clients sent0 ''b1'' = Some t \<and> owner_step (env_at 1) sent0 s' \<and> clients s' ''b1'' = Some t' \<and>
     same_head t t'"
proof -
  obtain t where t: "clients sent0 ''b1'' = Some t" "t_created_at t = 0" using sent0_client by blast
  define s' where "s' = turn (env_at 1) (WCommand (CActiveTxnCount ''call'')) sent0"
  have step: "owner_step (env_at 1) sent0 s'" unfolding s'_def by (rule step_command)
  have t': "clients s' ''b1'' = Some t" using t(1) by (simp add: s'_def turn_def)
  from client_follows_diagram [OF reach_sent0 env_at_ok _ step t'] t(2)
  have "\<exists>t0. clients sent0 ''b1'' = Some t0 \<and> same_head t0 t" by auto
  with step t' show ?thesis by blast
qed

end
