(* ===== verification/Txn_Call_Props.thy ===== *)
theory Txn_Call_Props
  imports Txn_Example
begin

text \<open>
  The operations of the layer on a whole call, which reach its transactions through the call index:
  relinquishing a call's transactions and orphaning its client transactions. What they do is stated
  over the transaction maps.
\<close>

definition of_call :: "owner \<Rightarrow> string \<Rightarrow> txn_id set" where
  "of_call s cr = {i. \<exists>t. txn s i = Some t \<and> t_call_ref t = Some cr}"

definition call_ids :: "layer_env \<Rightarrow> string \<Rightarrow> owner \<Rightarrow> txn_id list" where
  "call_ids E cr s = map Client (clients_of_call E cr s) @ map Server (servers_of_call E cr s)"

lemma finite_side:
  assumes "gauges_ok s"
  shows "finite (ct_client (call_side s cr))" "finite (ct_accepted (call_side s cr))"
    "finite (ct_server (call_side s cr))"
  using assms by (auto simp: call_side_def gauges_ok_def intro: finite_subset [of _ "dom (clients s)"]
      finite_subset [of _ "dom (servers s)"])

lemma clients_of_call_side:
  assumes "owner_reach cfg lim s now" "env_ok E"
  shows "set (clients_of_call E cr s) = {b. Client b \<in> of_call s cr}" "distinct (clients_of_call E cr s)"
proof -
  let ?c = "call_side s cr"
  note fin = finite_side [OF conjunct2 [OF reach_tables [OF assms(1)]], of cr]
  have "clients_of_call E cr s = (if holds_none ?c then [] else e_iter_branches E (ct_client ?c) @ e_iter_branches E (ct_accepted ?c))"
    using reach_tables [OF assms(1)] by (simp add: clients_of_call_def index_ok_def exact_def)
  moreover have "ct_client ?c \<inter> ct_accepted ?c = {}" "ct_client ?c \<union> ct_accepted ?c = {b. Client b \<in> of_call s cr}"
    by (auto simp: call_side_def of_call_def)
  moreover from this(2) have "holds_none ?c \<longrightarrow> {b. Client b \<in> of_call s cr} = {}" by (auto simp: holds_none_def)
  ultimately show "set (clients_of_call E cr s) = {b. Client b \<in> of_call s cr}" "distinct (clients_of_call E cr s)"
    using assms(2) fin by (auto simp: env_ok_def)
qed

lemma servers_of_call_side:
  assumes "owner_reach cfg lim s now" "env_ok E"
  shows "set (servers_of_call E cr s) = {k. Server k \<in> of_call s cr}" "distinct (servers_of_call E cr s)"
proof -
  let ?c = "call_side s cr"
  note fin = finite_side [OF conjunct2 [OF reach_tables [OF assms(1)]], of cr]
  have "servers_of_call E cr s = (if holds_none ?c then [] else e_iter_servers E (ct_server ?c))"
    using reach_tables [OF assms(1)] by (simp add: servers_of_call_def index_ok_def exact_def)
  moreover have "ct_server ?c = {k. Server k \<in> of_call s cr}" by (auto simp: call_side_def of_call_def)
  moreover from this have "holds_none ?c \<longrightarrow> {k. Server k \<in> of_call s cr} = {}" by (auto simp: holds_none_def)
  ultimately show "set (servers_of_call E cr s) = {k. Server k \<in> of_call s cr}" "distinct (servers_of_call E cr s)"
    using assms(2) fin by (auto simp: env_ok_def)
qed

lemma call_ids_side:
  assumes "owner_reach cfg lim s now" "env_ok E"
  shows "set (call_ids E cr s) = of_call s cr" "distinct (call_ids E cr s)"
proof -
  have "i \<in> set (call_ids E cr s) \<longleftrightarrow> i \<in> of_call s cr" for i
    using clients_of_call_side(1) [OF assms] servers_of_call_side(1) [OF assms] by (cases i) (auto simp: call_ids_def)
  then show "set (call_ids E cr s) = of_call s cr" by blast
  show "distinct (call_ids E cr s)"
    using clients_of_call_side(2) [OF assms] servers_of_call_side(2) [OF assms]
    by (auto simp: call_ids_def distinct_map inj_on_def)
qed

section \<open>Relinquishing a call\<close>

lemma delete_txn_effect: "txn (fst (delete_txn E i s)) j = (if j = i then None else txn s j)"
    "snd (delete_txn E i s) = (txn s i \<noteq> None)"
  by (cases "txn s i"; cases i; cases j; simp add: delete_absent delete_client_state delete_server_state)
    (cases "txn s i"; simp add: delete_txn_def Let_def)

lemma delete_all_effect:
  "txn (fst (delete_all E is s)) j = (if j \<in> set is then None else txn s j)"
  "distinct is \<Longrightarrow> snd (delete_all E is s) = length (filter (\<lambda>i. txn s i \<noteq> None) is)"
proof -
  show "txn (fst (delete_all E is s)) j = (if j \<in> set is then None else txn s j)"
    by (induction "is" arbitrary: s) (auto simp: delete_txn_effect case_prod_beta)
  show "distinct is \<Longrightarrow> snd (delete_all E is s) = length (filter (\<lambda>i. txn s i \<noteq> None) is)"
  proof (induction "is" arbitrary: s)
    case (Cons i "is")
    then have "filter (\<lambda>j. txn (fst (delete_txn E i s)) j \<noteq> None) is = filter (\<lambda>j. txn s j \<noteq> None) is"
      by (intro filter_cong) (auto simp: delete_txn_effect)
    with Cons show ?case by (simp add: delete_txn_effect case_prod_beta)
  qed simp
qed

lemma delete_all_append:
  "delete_all E (is @ js) s = (let (s, n) = delete_all E is s; (s, m) = delete_all E js s in (s, n + m))"
  by (induction "is" arbitrary: s) (auto simp: case_prod_beta Let_def)

lemma send_held_ack_effect:
  "txn (fst (send_held_ack b s)) j = None \<longleftrightarrow> txn s j = None"
  "j \<noteq> Client b \<Longrightarrow> txn (fst (send_held_ack b s)) j = txn s j"
  by (cases j; auto simp: send_held_ack_def send_buffer_def clients_upd_client split: option.split)+

lemma waive_effect:
  "txn (waive_held_final k s) j = None \<longleftrightarrow> txn s j = None"
  "j \<noteq> Server k \<Longrightarrow> txn (waive_held_final k s) j = txn s j"
  by (cases j; auto simp: waive_held_final_def servers_upd_server)+

lemma fold_effect:
  assumes "\<And>x s j. txn (f x s) j = None \<longleftrightarrow> txn s j = None" "\<And>x s j. j \<noteq> g x \<Longrightarrow> txn (f x s) j = txn s j"
  shows "txn (fold f xs s) j = None \<longleftrightarrow> txn s j = None" "j \<notin> g ` set xs \<Longrightarrow> txn (fold f xs s) j = txn s j"
proof -
  show "txn (fold f xs s) j = None \<longleftrightarrow> txn s j = None" by (induction xs arbitrary: s) (auto simp: assms(1))
  show "j \<notin> g ` set xs \<Longrightarrow> txn (fold f xs s) j = txn s j" by (induction xs arbitrary: s) (auto simp: assms(2))
qed

lemmas acks_effect = fold_effect [of "\<lambda>b s. fst (send_held_ack b s)" Client, OF send_held_ack_effect]
lemmas waives_effect = fold_effect [of waive_held_final Server, OF waive_effect]

lemma relinquish_call_effect:
  assumes "owner_reach cfg lim s now" "env_ok E"
  shows "txn (fst (relinquish_call E cr s)) j = (if j \<in> of_call s cr then None else txn s j)"
    "snd (relinquish_call E cr s) = card (of_call s cr)"
proof -
  let ?s0 = "s\<lparr>self_release_watch := self_release_watch s - {cr}\<rparr>"
  define s1 where "s1 = fold waive_held_final (servers_of_call E cr s)
    (fold (\<lambda>b s. fst (send_held_ack b s)) (clients_of_call E cr s) ?s0)"
  have eq: "relinquish_call E cr s = delete_all E (call_ids E cr s) s1"
    by (simp add: relinquish_call_def call_ids_def delete_all_append s1_def clients_of_call_def servers_of_call_def Let_def)
  note ids = call_ids_side [OF assms, of cr]
  have s0: "txn ?s0 j = txn s j" for j by (cases j) simp_all
  have none: "txn s1 j = None \<longleftrightarrow> txn s j = None" for j
    unfolding s1_def by (simp add: acks_effect(1) waives_effect(1) s0 del: txn.simps)
  have other: "txn s1 j = txn s j" if "j \<notin> set (call_ids E cr s)" for j
    using that waives_effect(2) [of j] acks_effect(2) [of j] by (simp add: s1_def call_ids_def s0)
  show "txn (fst (relinquish_call E cr s)) j = (if j \<in> of_call s cr then None else txn s j)"
    unfolding eq using other [of j] ids(1) by (simp add: delete_all_effect)
  have "filter (\<lambda>i. txn s1 i \<noteq> None) (call_ids E cr s) = call_ids E cr s"
    using ids(1) by (auto simp: none of_call_def filter_id_conv)
  then show "snd (relinquish_call E cr s) = card (of_call s cr)"
    unfolding eq using ids distinct_card [OF ids(2)] by (simp add: delete_all_effect(2))
qed

text \<open>C34: Relinquishing a call is complete and touches nothing else: afterwards no transaction of either
  role belongs to the call, every other transaction is unchanged, and the count answered is the
  number of the call's transactions.\<close>

theorem relinquish_call_complete:
  assumes "owner_reach cfg lim s now" "env_ok E"
  shows "(\<forall>i. txn (fst (relinquish_call E cr s)) i = (if i \<in> of_call s cr then None else txn s i)) \<and>
    of_call (fst (relinquish_call E cr s)) cr = {} \<and> snd (relinquish_call E cr s) = card (of_call s cr)"
  using relinquish_call_effect [OF assms] by (auto simp: of_call_def split: if_splits)

theorem relinquish_call_complete_witness:
  "Client ''b1'' \<in> of_call sent0 ''call'' \<and> clients (fst (relinquish_call (env_at 1) ''call'' sent0)) ''b1'' = None"
proof -
  have b: "Client ''b1'' \<in> of_call sent0 ''call''" using sent0_client by (auto simp: of_call_def)
  moreover from b relinquish_call_complete [OF reach_sent0 env_at_ok, of 1 "''call''"]
  have "txn (fst (relinquish_call (env_at 1) ''call'' sent0)) (Client ''b1'') = None"
    by (simp del: txn.simps)
  ultimately show ?thesis by simp
qed

section \<open>Orphaning a call's client transactions\<close>

lemma orphan_branch_effect:
  "clients (orphan_branch b s) = (clients s)(b := map_option (\<lambda>t. t\<lparr>t_orphaned := True, t_call_ref := None\<rparr>) (clients s b))"
  "servers (orphan_branch b s) = servers s"
  by (auto simp: orphan_branch_def orphan_one_def detach_from_call_def Let_def clients_upd_client fun_eq_iff bump_def
      split: option.splits)

lemma orphan_all_effect:
  "clients (fold orphan_branch bs s) b =
     (if b \<in> set bs then map_option (\<lambda>t. t\<lparr>t_orphaned := True, t_call_ref := None\<rparr>) (clients s b) else clients s b)"
  "servers (fold orphan_branch bs s) = servers s"
  by (induction bs arbitrary: s) (auto simp: orphan_branch_effect option.map_comp comp_def)

text \<open>Evicting a call orphans each of its client transactions, the accepted ones included, and keeps
  it running: each stays resident, marked orphaned and detached from the call, and every other
  transaction is unchanged.\<close>

theorem cancel_txns_orphans_call:
  assumes "owner_reach cfg lim s now" "env_ok E"
  shows "clients (do_cancel_txns_for_call E cr s) b =
      (if Client b \<in> of_call s cr then map_option (\<lambda>t. t\<lparr>t_orphaned := True, t_call_ref := None\<rparr>) (clients s b)
       else clients s b) \<and>
    servers (do_cancel_txns_for_call E cr s) = servers s"
proof -
  have "do_cancel_txns_for_call E cr s = fold orphan_branch (clients_of_call E cr s) s"
    by (simp add: do_cancel_txns_for_call_def clients_of_call_def split: option.split)
  then show ?thesis
    using clients_of_call_side(1) [OF assms, of cr] by (simp add: orphan_all_effect)
qed

theorem cancel_txns_orphans_call_witness:
  "\<exists>t. clients (do_cancel_txns_for_call (env_at 1) ''call'' sent0) ''b1'' = Some t \<and> t_orphaned t"
  using cancel_txns_orphans_call [OF reach_sent0 env_at_ok, of 1 "''call''" "''b1''"] sent0_client
  by (auto simp: of_call_def)

section \<open>Packets that do not parse\<close>



end
