(* ===== verification/Txn_Event_Props.thy ===== *)
theory Txn_Event_Props
  imports Txn_Example "HOL-Library.Sublist"
begin

text \<open>
  The delivery contract of the layer's event queue (\<open>src/crates/sip-txn/src/layer/events.rs\<close>): over
  any sequence of droppable offers, critical offers and retries against a channel that may be full
  at any moment, the critical events reach it in order, each once, and what has not reached it is the
  backlog.
\<close>

datatype event_op = Droppable txn_event | Critical txn_event | Retry

text \<open>One operation on the queue; the retry is the timer's, which disarms first.\<close>

fun event_step :: "layer_env \<times> event_op \<Rightarrow> owner \<Rightarrow> owner" where
  "event_step (E, Droppable ev) s = fst (emit E ev s)"
| "event_step (E, Critical ev) s = emit_critical E ev s"
| "event_step (E, Retry) s = fire_timer E EventRetry s"

fun raised :: "(layer_env \<times> event_op) list \<Rightarrow> txn_event list" where
  "raised [] = []"
| "raised ((_, Critical ev) # ops) = ev # raised ops"
| "raised (_ # ops) = raised ops"

fun droppable :: "(layer_env \<times> event_op) list \<Rightarrow> txn_event list" where
  "droppable [] = []"
| "droppable ((_, Droppable ev) # ops) = ev # droppable ops"
| "droppable (_ # ops) = droppable ops"

definition stays_open :: "layer_env \<Rightarrow> bool" where
  "stays_open E \<longleftrightarrow> (\<forall>n. e_try_send E n \<noteq> SendClosed)"

section \<open>Single operations\<close>

lemma shuffles_more:
  assumes "q \<in> shuffles c d"
  shows "q @ p \<in> shuffles (c @ p) d" "q @ p \<in> shuffles c (d @ p)"
proof -
  have left: "q @ p \<in> shuffles (c @ p) d" if "q \<in> shuffles c d" for q c d :: "'a list"
    using that
  proof (induction q arbitrary: c d)
    case (Cons x q)
    from Cons.prems have "c \<noteq> [] \<and> hd c = x \<and> q \<in> shuffles (tl c) d \<or> d \<noteq> [] \<and> hd d = x \<and> q \<in> shuffles c (tl d)"
      by (simp only: Cons_in_shuffles_iff)
    then show ?case
      using Cons.IH [of "tl c" d] Cons.IH [of c "tl d"] unfolding append_Cons Cons_in_shuffles_iff by (cases c) auto
  qed simp
  show "q @ p \<in> shuffles (c @ p) d" by (rule left [OF assms])
  show "q @ p \<in> shuffles c (d @ p)" using left [of q d c] assms by (simp add: shuffles_commutes [of c])
qed

lemma emit_effect:
  assumes "stays_open E"
  shows "(queue_in (fst (emit E ev s)) = queue_in s @ [ev] \<or> queue_in (fst (emit E ev s)) = queue_in s) \<and>
    deferred_events (fst (emit E ev s)) = deferred_events s \<and>
    event_retry_armed (fst (emit E ev s)) = event_retry_armed s"
  using assms
  by (cases "e_try_send E (tries s)") (auto simp: emit_def offer_def channel_send_def stays_open_def bump_def)

lemma defer_effect [simp]:
  "queue_in (defer_event E ev s) = queue_in s" "deferred_events (defer_event E ev s) = deferred_events s @ [ev]"
  "event_retry_armed (defer_event E ev s)" "tries (defer_event E ev s) = tries s"
  by (simp_all add: defer_event_def arm_event_retry_def arm_def bump_def Let_def)

lemma emit_critical_effect:
  assumes "stays_open E"
  shows "queue_in (emit_critical E ev s) @ deferred_events (emit_critical E ev s) =
      queue_in s @ deferred_events s @ [ev] \<and>
    (queue_in (emit_critical E ev s) = queue_in s \<or> deferred_events (emit_critical E ev s) = [] \<and> deferred_events s = []) \<and>
    (deferred_events (emit_critical E ev s) \<noteq> [] \<longrightarrow> event_retry_armed (emit_critical E ev s))"
  using assms
  by (cases "e_try_send E (tries s)") (auto simp: emit_critical_def offer_def channel_send_def stays_open_def)

lemma flush_loop_effect:
  assumes "stays_open E"
  shows "\<exists>p. queue_in (fst (flush_loop E evs s)) = queue_in s @ p \<and>
    p @ deferred_events (fst (flush_loop E evs s)) = evs \<and> snd (flush_loop E evs s)"
proof (induction evs arbitrary: s)
  case (Cons ev evs)
  consider (sent) "e_try_send E (tries s) = SendOk" | (kept) "e_try_send E (tries s) = SendFull"
    using assms by (metis stays_open_def send_result.exhaust)
  then show ?case
  proof cases
    case sent
    with Cons [of "s\<lparr>tries := tries s + 1, queue_in := queue_in s @ [ev]\<rparr>"] show ?thesis
      by (auto simp: channel_send_def)
  next
    case kept
    then show ?thesis by (simp add: channel_send_def)
  qed
qed simp

lemma flush_effect:
  assumes "stays_open E"
  shows "\<exists>p. queue_in (flush_deferred E s) = queue_in s @ p \<and>
    deferred_events s = p @ deferred_events (flush_deferred E s) \<and>
    (deferred_events (flush_deferred E s) \<noteq> [] \<longrightarrow> event_retry_armed (flush_deferred E s))"
proof -
  obtain s1 b where fl: "flush_loop E (deferred_events s) s = (s1, b)" by fastforce
  with flush_loop_effect [OF assms, of "deferred_events s" s]
  obtain p where "queue_in s1 = queue_in s @ p" "p @ deferred_events s1 = deferred_events s" b by auto
  then show ?thesis
    by (auto simp: flush_deferred_def fl arm_event_retry_def arm_def Let_def)
qed

section \<open>Sequences\<close>

text \<open>The state of the queue after \<open>ops\<close>, from \<open>s\<close>: its contents beyond \<open>queue_in s\<close>.\<close>

definition delivered :: "owner \<Rightarrow> txn_event list \<Rightarrow> txn_event list \<Rightarrow> owner \<Rightarrow> bool" where
  "delivered s critical others s' \<longleftrightarrow> (\<exists>q c d. queue_in s' = queue_in s @ q \<and> q \<in> shuffles c d \<and>
     critical = c @ deferred_events s' \<and> subseq d others \<and>
     (deferred_events s' \<noteq> [] \<longrightarrow> event_retry_armed s'))"

lemma raised_append [simp]: "raised (xs @ ys) = raised xs @ raised ys"
  by (induction xs rule: raised.induct) auto

lemma droppable_append [simp]: "droppable (xs @ ys) = droppable xs @ droppable ys"
  by (induction xs rule: droppable.induct) auto

lemma deliveredI:
  "\<lbrakk>queue_in s' = queue_in s @ q; q \<in> shuffles c d; critical = c @ deferred_events s'; subseq d others;
    deferred_events s' \<noteq> [] \<longrightarrow> event_retry_armed s'\<rbrakk> \<Longrightarrow> delivered s critical others s'"
  unfolding delivered_def by blast

lemma delivered_step:
  assumes "delivered s critical others s'" "stays_open E"
  shows "delivered s (critical @ raised [(E, op)]) (others @ droppable [(E, op)]) (event_step (E, op) s')"
proof -
  obtain q c d where q: "queue_in s' = queue_in s @ q" "q \<in> shuffles c d" "critical = c @ deferred_events s'"
    "subseq d others" "deferred_events s' \<noteq> [] \<longrightarrow> event_retry_armed s'"
    using assms(1) by (auto simp: delivered_def)
  show ?thesis
  proof (cases op)
    case (Droppable ev)
    note effect = emit_effect [OF assms(2), of ev s']
    show ?thesis
    proof (cases "queue_in (fst (emit E ev s')) = queue_in s'")
      case True
      have "subseq d (others @ [ev])" using q(4) by (simp add: subseq_rev_drop_many)
      with True effect q show ?thesis unfolding Droppable by (intro deliveredI [of _ _ q c d]) simp_all
    next
      case False
      have "subseq (d @ [ev]) (others @ [ev])" using q(4) by simp
      with False effect q shuffles_more(2) [OF q(2), of "[ev]"] show ?thesis
        unfolding Droppable by (intro deliveredI [of _ _ "q @ [ev]" c "d @ [ev]"]) simp_all
    qed
  next
    case (Critical ev)
    note effect = emit_critical_effect [OF assms(2), of ev s']
    show ?thesis
    proof (cases "queue_in (emit_critical E ev s') = queue_in s'")
      case True
      with effect q show ?thesis unfolding Critical by (intro deliveredI [of _ _ q c d]) simp_all
    next
      case False
      with effect have "deferred_events (emit_critical E ev s') = []" "deferred_events s' = []"
        "queue_in (emit_critical E ev s') = queue_in s' @ [ev]" by auto
      with q shuffles_more(1) [OF q(2), of "[ev]"] show ?thesis
        unfolding Critical by (intro deliveredI [of _ _ "q @ [ev]" "c @ [ev]" d]) simp_all
    qed
  next
    case Retry
    let ?s = "flush_deferred E (s'\<lparr>event_retry_armed := False\<rparr>)"
    obtain p where "queue_in ?s = queue_in s' @ p" "deferred_events s' = p @ deferred_events ?s"
      "deferred_events ?s \<noteq> [] \<longrightarrow> event_retry_armed ?s"
      using flush_effect [OF assms(2), of "s'\<lparr>event_retry_armed := False\<rparr>"] by auto
    with q shuffles_more(1) [OF q(2), of p] show ?thesis
      unfolding Retry by (intro deliveredI [of _ _ "q @ p" "c @ p" d]) simp_all
  qed
qed

lemma delivered_all:
  assumes "deferred_events s = []" "\<forall>(E, op) \<in> set ops. stays_open E"
  shows "delivered s (raised ops) (droppable ops) (fold event_step ops s)"
  using assms(2)
proof (induction ops rule: rev_induct)
  case Nil
  then show ?case using assms(1) by (simp add: delivered_def)
next
  case (snoc x ops)
  then show ?case using delivered_step [of s _ _ _ "fst x" "snd x"] by (cases x) auto
qed

text \<open>C16: Critical events are neither lost, duplicated nor reordered while the channel is open, however
  often it is full. After any sequence of offers and retries the critical events raised are, in order,
  those that reached the channel followed by the backlog; the rest of what reached the channel is an
  ordered selection of the droppable events; and a backlog has its retry armed.\<close>

theorem critical_events_fifo:
  assumes "deferred_events s = []" "\<forall>(E, op) \<in> set ops. stays_open E"
  shows "\<exists>q c d. queue_in (fold event_step ops s) = queue_in s @ q \<and> q \<in> shuffles c d \<and>
     raised ops = c @ deferred_events (fold event_step ops s) \<and> subseq d (droppable ops) \<and>
     (deferred_events (fold event_step ops s) \<noteq> [] \<longrightarrow> event_retry_armed (fold event_step ops s))"
  using delivered_all [OF assms] by (simp add: delivered_def)

text \<open>A channel that is full at its first offer only.\<close>

definition full_once :: layer_env where
  "full_once = (env_at 0)\<lparr>e_try_send := (\<lambda>n. if n = 0 then SendFull else SendOk)\<rparr>"

definition ops0 :: "(layer_env \<times> event_op) list" where
  "ops0 = [(full_once, Critical (ECallQuiesced ''a'')), (full_once, Critical (ECallQuiesced ''b'')), (full_once, Retry)]"

lemma droppable_ops0: "droppable ops0 = []"
  by (simp add: ops0_def)

theorem critical_events_fifo_witness:
  "raised ops0 = [ECallQuiesced ''a'', ECallQuiesced ''b''] \<and>
   (\<exists>c. queue_in (fold event_step ops0 (owner_new None)) = c \<and>
      raised ops0 = c @ deferred_events (fold event_step ops0 (owner_new None)))"
proof -
  have "\<forall>(E, op) \<in> set ops0. stays_open E" by (simp add: ops0_def stays_open_def full_once_def)
  from critical_events_fifo [OF _ this, of "owner_new None"] have
    "\<exists>c. queue_in (fold event_step ops0 (owner_new None)) = c \<and>
      raised ops0 = c @ deferred_events (fold event_step ops0 (owner_new None))"
    by (auto simp: droppable_ops0 dest!: list_emb_Nil2)
  then show ?thesis by (simp add: ops0_def)
qed

text \<open>A retry against a channel with room drains the backlog whole, in order, and disarms itself:
  the events that waited are all delivered.\<close>

theorem retry_drains_backlog:
  assumes "\<forall>n. tries s \<le> n \<and> n < tries s + length (deferred_events s) \<longrightarrow> e_try_send E n = SendOk"
  shows "queue_in (fire_timer E EventRetry s) = queue_in s @ deferred_events s \<and>
    deferred_events (fire_timer E EventRetry s) = [] \<and> \<not> event_retry_armed (fire_timer E EventRetry s)"
proof -
  have "queue_in (fst (flush_loop E evs s)) = queue_in s @ evs \<and> deferred_events (fst (flush_loop E evs s)) = [] \<and>
      event_retry_armed (fst (flush_loop E evs s)) = event_retry_armed s \<and> snd (flush_loop E evs s)"
    if "\<forall>n. tries s \<le> n \<and> n < tries s + length evs \<longrightarrow> e_try_send E n = SendOk" for evs s
    using that
  proof (induction evs arbitrary: s)
    case (Cons ev evs)
    then have "e_try_send E (tries s) = SendOk" by auto
    with Cons.IH [of "s\<lparr>tries := tries s + 1, queue_in := queue_in s @ [ev]\<rparr>"] Cons.prems show ?case
      by (auto simp: channel_send_def)
  qed simp
  from this [of "s\<lparr>event_retry_armed := False\<rparr>" "deferred_events s"] assms show ?thesis
    by (auto simp: flush_deferred_def split: prod.split)
qed

theorem retry_drains_backlog_witness:
  "queue_in (fire_timer (env_at 0) EventRetry ((owner_new None)\<lparr>deferred_events := [ECallQuiesced ''a'']\<rparr>)) = [ECallQuiesced ''a'']"
  using retry_drains_backlog [of "(owner_new None)\<lparr>deferred_events := [ECallQuiesced ''a'']\<rparr>" "env_at 0"] by simp

end
