(* ===== verification/Txn_Message_Props.thy ===== *)
theory Txn_Message_Props
  imports Txn_Example
begin

text \<open>
  What the layer puts on the wire: a CANCEL of an INVITE with no provisional yet, the replay of a
  server transaction's answer to a retransmission, and the To-tag of a response sent in a dialog.
\<close>

section \<open>The wire\<close>

lemma wire_keeps [simp]:
  "wire_out (upd_client b f s) = wire_out s" "wire_out (upd_server k f s) = wire_out s"
  "wire_out (cancel_timer key s) = wire_out s" "wire_out (bump c s) = wire_out s"
  "wire_out (fst (arm E tm d s)) = wire_out s" "wire_out (remember_uas_tag E x y z s) = wire_out s"
  "wire_out (send_buffer buf dest s) = wire_out s @ [(buf, dest)]"
  by (auto simp: upd_client_def upd_server_def cancel_timer_def bump_def arm_def remember_uas_tag_def send_buffer_def
      Let_def split: option.split)

lemma wire_mut [simp]: "wire_out (txn_mut i f s) = wire_out s"
  by (cases i) simp_all

lemma wire_hold [simp]: "wire_out (hold_txn_for E i why d s) = wire_out s" "wire_out (hold_txn E i why s) = wire_out s"
  by (simp_all add: hold_txn_def hold_txn_for_def arm_deadline_def insert_at_def Let_def case_prod_beta split: option.split)

lemma wire_parts [simp]:
  "wire_out (rearm_invite_bound E b s) = wire_out s" "wire_out (arm_cancel_retransmit E b s) = wire_out s"
  "wire_out (record_uas_tag E k resp s) = wire_out s" "wire_out (arm_final_hold E k kind st s) = wire_out s"
  by (simp_all add: rearm_invite_bound_def arm_cancel_retransmit_def record_uas_tag_def arm_final_hold_def
      Let_def case_prod_beta split: option.split)

lemma clients_rearm:
  "clients s b = Some t \<Longrightarrow> \<exists>t'. clients (rearm_invite_bound E b s) b = Some t' \<and> t_held_cancel t' = t_held_cancel t"
  by (auto simp: rearm_invite_bound_def Let_def case_prod_beta)

lemma wire_flush_cancel:
  assumes "clients s b = Some t" "t_held_cancel t = Some h" "hc_wire h = WHeld"
  shows "wire_out (flush_cancel_on_provisional E b s) = wire_out s @ [(hc_buf h, hc_dest h)]"
  using assms by (simp add: flush_cancel_on_provisional_def Let_def)

section \<open>A CANCEL waits for a provisional\<close>

text \<open>C29: A CANCEL of an INVITE that has taken no provisional yet puts nothing on the wire, and the 100
  Trying that answers the INVITE puts exactly that CANCEL there, once, toward the address it was sent to.\<close>

theorem cancel_waits_for_provisional:
  assumes "clients s b = Some t" "t_kind t = KInvite" "t_state t = Trying" "t_seed_resend t = None" "b \<noteq> []"
    and "rq_method cancel = MCancel" "rq_branch cancel = Some b"
    and "rs_status resp = 100" "rs_branch resp = Some b" "rs_cseq_method resp = t_method t"
    and "s1 = fst (do_send_request E cancel dest kind s)"
  shows "wire_out s1 = wire_out s \<and>
    wire_out (handle_inbound_response E' resp src s1) = wire_out s @ [(e_render E cancel, dest)]"
proof -
  let ?h = "held_cancel_new (e_render E cancel) dest WHeld"
  have gate: "gate_of cancel s = GHold" using assms by (simp add: gate_of_def is_active_def)
  have s1: "clients s1 b = Some (t\<lparr>t_held_cancel := Some ?h\<rparr>)" "wire_out s1 = wire_out s"
    using assms gate by (auto simp: do_send_request_def send_cancel_or_ack_def hold_cancel_unsent_def
        release_seed_resend_def or_empty_def Let_def)
  define s2 where "s2 = rearm_invite_bound E' b (cancel_timer (t_retransmit_key t)
    (upd_client b (\<lambda>t. t\<lparr>t_retransmit_key := None\<rparr>) (upd_client b (\<lambda>t. t\<lparr>t_state := Proceeding\<rparr>) s1)))"
  have resp: "handle_inbound_response E' resp src s1 = flush_cancel_on_provisional E' b s2"
    using assms s1 by (simp add: handle_inbound_response_def inbound_response_def take_100_def or_empty_def is_active_def s2_def Let_def)
  have "\<exists>t'. clients s2 b = Some t' \<and> t_held_cancel t' = Some ?h"
    unfolding s2_def using s1(1)
      clients_rearm [of "cancel_timer (t_retransmit_key t) (upd_client b (\<lambda>t. t\<lparr>t_retransmit_key := None\<rparr>)
        (upd_client b (\<lambda>t. t\<lparr>t_state := Proceeding\<rparr>) s1))" b _ E'] by auto
  then have "wire_out (flush_cancel_on_provisional E' b s2) = wire_out s2 @ [(e_render E cancel, dest)]"
    using wire_flush_cancel [of s2 b _ ?h E'] by (auto simp: held_cancel_new_def)
  moreover have "wire_out s2 = wire_out s" using s1(2) by (simp add: s2_def)
  ultimately show ?thesis using s1(2) resp by simp
qed

definition cancel0 :: sip_request where
  "cancel0 = invite0\<lparr>rq_method := MCancel, rq_image := ''CANCEL''\<rparr>"

definition trying0 :: sip_response where
  "trying0 = \<lparr>rs_status = 100, rs_cseq_method = MInvite, rs_cseq = 1, rs_branch = Some ''b1'', rs_sent_by = ''me'',
     rs_call_id = ''cid'', rs_from_tag = Some ''ft'', rs_to_tag = None, rs_sdp = None, rs_rseq = False, rs_image = ''100''\<rparr>"

theorem cancel_waits_for_provisional_witness:
  "wire_out (handle_inbound_response (env_at 2) trying0 ''src''
     (fst (do_send_request (env_at 1) cancel0 ''hop'' KInvite sent0))) = wire_out sent0 @ [(''CANCEL'', ''hop'')]"
proof -
  obtain t where t: "clients sent0 ''b1'' = Some t" "fresh_client (env_at 0) invite0 KInvite t" using sent0_fresh by blast
  show ?thesis
    using cancel_waits_for_provisional [of sent0 "''b1''" t cancel0 trying0 _ "env_at 1" "''hop''" KInvite "env_at 2" "''src''"] t
    by (simp add: fresh_client_def cancel0_def trying0_def)
qed

section \<open>A retransmission draws the answer again\<close>

lemma bind_keeps [simp]:
  "servers (fst (bind_to_tag E resp s)) = servers s" "wire_out (fst (bind_to_tag E resp s)) = wire_out s"
  "rs_status (snd (bind_to_tag E resp s)) = rs_status resp" "rs_cseq_method (snd (bind_to_tag E resp s)) = rs_cseq_method resp"
  "of_response (snd (bind_to_tag E resp s)) = of_response resp"
  by (auto simp: bind_to_tag_def retag_or_same_def retag_response_def of_response_def bump_def Let_def
      split: tag_bound.split option.split)

definition answer_at :: "server_txn_key \<Rightarrow> owner \<Rightarrow> (bytes option \<times> nat option \<times> addr option \<times> bool) option" where
  "answer_at k s = map_option (\<lambda>t. (t_last_response t, t_last_response_status t, t_destination t, t_unsent_cancel t = None)) (servers s k)"

lemma answer_upd:
  "(\<And>t. (t_last_response (f t), t_last_response_status (f t), t_destination (f t), t_unsent_cancel (f t) = None) =
      (t_last_response t, t_last_response_status t, t_destination t, t_unsent_cancel t = None)) \<Longrightarrow>
   answer_at k (upd_server k f s) = answer_at k s"
  by (cases "servers s k") (auto simp: answer_at_def servers_upd_server)

lemma answer_hold [simp]: "answer_at k (hold_txn_for E (Server k) why d s) = answer_at k s"
  by (cases "servers s k") (simp_all add: answer_at_def hold_absent hold_server_state held_txn_def)

lemma answer_arm [simp]: "answer_at k (fst (arm E tm d s)) = answer_at k s"
  by (simp add: answer_at_def arm_def Let_def)

lemma answer_final_hold [simp]: "answer_at k (arm_final_hold E k kind st s) = answer_at k s"
  by (auto simp: arm_final_hold_def hold_txn_def answer_upd Let_def case_prod_beta split: option.split)

lemma note_response_answer:
  assumes "servers s k = Some t"
  shows "answer_at k (note_response E k resp s) =
      Some (Some (rs_image resp), Some (rs_status resp), t_destination t, t_unsent_cancel t = None)"
    "wire_out (note_response E k resp s) = wire_out s"
  using assms by (auto simp: note_response_def answer_upd Let_def) (simp_all add: answer_at_def)

lemma record_uas_server:
  "servers s k = Some t \<Longrightarrow> \<exists>t'. servers (record_uas_tag E k resp s) k = Some t' \<and> t_destination t' = t_destination t \<and>
     t_unsent_cancel t' = t_unsent_cancel t"
  by (auto simp: record_uas_tag_def remember_uas_tag_def split: option.split)

text \<open>C30: A retransmitted request draws the recorded answer again. Once a server transaction has sent a
  response, a copy of its request puts the same bytes on the wire toward the same address, once; no
  transaction changes and nothing is handed up.\<close>

theorem retransmission_replays_answer:
  assumes "servers s k = Some t" "is_active (t_state t)" "t_unsent_cancel t = None" "t_destination t = Some d"
    and "of_response resp = Some k" "rs_cseq_method resp \<noteq> MCancel"
    and "of_request req = Some k" "rq_method req \<noteq> MAck" "rq_method req \<noteq> MCancel"
    and "do_send_response E resp dest s = (s1, buf)"
  shows "wire_out s1 = wire_out s @ [(buf, d)] \<and>
    wire_out (handle_inbound_request E' req src s1) = wire_out s1 @ [(buf, d)] \<and>
    clients (handle_inbound_request E' req src s1) = clients s1 \<and> servers (handle_inbound_request E' req src s1) = servers s1 \<and>
    queue_in (handle_inbound_request E' req src s1) = queue_in s1"
proof -
  obtain s0 msg where bind: "bind_to_tag E resp s = (s0, msg)" by fastforce
  then have s0: "servers s0 = servers s" "wire_out s0 = wire_out s" "of_response msg = Some k" "rs_cseq_method msg \<noteq> MCancel"
    using bind_keeps [of E resp s] assms(5,6) by simp_all
  obtain t' where t': "servers (record_uas_tag E k msg s0) k = Some t'" "t_destination t' = Some d" "t_unsent_cancel t' = None"
    using record_uas_server [of s0 k t E msg] assms(1,3,4) s0(1) by auto
  have "\<not> drops_response resp s" using assms(1,2,5) by (auto simp: drops_response_def sent_final_def is_active_def)
  then have s1: "s1 = send_buffer buf d (note_response E k msg (record_uas_tag E k msg s0))" "buf = rs_image msg"
    using assms(1,4,10) s0 by (auto simp: do_send_response_def bind Let_def)
  have "answer_at k s1 = Some (Some buf, Some (rs_status msg), Some d, True)"
    using note_response_answer(1) [OF t'(1), of E msg] t' s1 by (simp add: answer_at_def send_buffer_def)
  then obtain u where "servers s1 k = Some u" "t_last_response u = Some buf" "t_last_response_status u = Some (rs_status msg)"
    "t_destination u = Some d" "t_unsent_cancel u = None" by (auto simp: answer_at_def)
  then have "handle_inbound_request E' req src s1 = bump (Retransmits None (t_method u) (Some (rs_status msg))) (send_buffer buf d s1)"
    using assms(7-9) by (simp add: handle_inbound_request_def replay_cached_def holds_cancel_def Let_def)
  moreover have "wire_out s1 = wire_out s @ [(buf, d)]" using note_response_answer(2) [OF t'(1), of E msg] s0(2) s1 by simp
  ultimately show ?thesis by (simp add: bump_def send_buffer_def)
qed

definition ok0 :: sip_response where
  "ok0 = trying0\<lparr>rs_status := 200, rs_cseq_method := MBye, rs_to_tag := Some ''tt'', rs_image := ''200''\<rparr>"

theorem retransmission_replays_answer_witness:
  "\<exists>buf d. wire_out (handle_inbound_request (env_at 2) bye0 ''src'' (fst (do_send_response (env_at 1) ok0 ''hop'' asked0))) =
     wire_out asked0 @ [(buf, d), (buf, d)]"
proof -
  obtain t where t: "servers asked0 bye0_key = Some t" "t_state t = Trying" "t_unsent_cancel t = None" "t_destination t = Some ''hop''"
    using asked0_server by auto
  obtain s1 buf where s1: "do_send_response (env_at 1) ok0 ''hop'' asked0 = (s1, buf)" by fastforce
  have "of_response ok0 = Some bye0_key" "of_request bye0 = Some bye0_key" "rq_method bye0 = MBye"
    by (simp_all add: ok0_def trying0_def bye0_def invite0_def bye0_key_def of_response_def of_request_def server_txn_id_def filed_method_def)
  with retransmission_replays_answer [OF t(1) _ t(3,4) _ _ _ _ _ s1, of bye0 "env_at 2" "''src''"] t(2) s1 show ?thesis
    by (auto simp: is_active_def ok0_def trying0_def)
qed

section \<open>The To-tag of a response in a dialog\<close>

text \<open>A response past 100 to a request that came with a To-tag leaves with that To-tag, whatever tag
  the consumer gave it: where the message can be re-tagged, what is recorded and sent carries it.\<close>

theorem in_dialog_response_keeps_tag:
  assumes "servers s k = Some t" "request_to_tag t = Some tag"
    and "of_response resp = Some k" "rs_cseq_method resp \<noteq> MCancel" "100 < rs_status resp" "e_retag E resp tag \<noteq> None"
  shows "rs_to_tag (snd (bind_to_tag E resp s)) = Some tag"
  using assms
  by (auto simp: bind_to_tag_def bound_for_def retag_or_same_def retag_response_def Let_def split: option.split)

definition reinvite0 :: sip_request where
  "reinvite0 = invite0\<lparr>rq_to_tag := Some ''tt''\<rparr>"

definition reinvited0 :: owner where
  "reinvited0 = turn (env_at 0) (WCommand (CSeed ''call'' [SServerInvite reinvite0 None None None])) (owner_new None)"

theorem in_dialog_response_keeps_tag_witness:
  "rs_to_tag (snd (bind_to_tag (env_at 1) (trying0\<lparr>rs_status := 180, rs_to_tag := Some ''other''\<rparr>) reinvited0)) = Some ''tt''"
proof -
  let ?k = "\<lparr>sk_branch = ''b1'', sk_sent_by = ''me'', sk_method = MInvite\<rparr>"
  have key: "of_request reinvite0 = Some ?k" "of_response (trying0\<lparr>rs_status := 180, rs_to_tag := Some ''other''\<rparr>) = Some ?k"
    by (simp_all add: reinvite0_def invite0_def trying0_def of_request_def of_response_def server_txn_id_def filed_method_def)
  have "refusals (open_txn_with (env_at 0) h f (owner_new None)) = None" for h f
    by (simp add: open_txn_with_def set_txn_def insert_at_def arm_def track_call_ref_def sync_active_def owner_new_def
        Let_def split: txn_id.split option.split)
  then have "\<exists>t. servers reinvited0 ?k = Some t \<and> request_to_tag t = Some ''tt''"
    by (simp add: reinvited0_def turn_def do_seed_def seed_server_invite_def key(1) add_count_def
        servers_open_server seed_head_def hold_seeded_identity_def request_to_tag_def) (simp add: reinvite0_def)
  then obtain t where "servers reinvited0 ?k = Some t" "request_to_tag t = Some ''tt''" by blast
  from in_dialog_response_keeps_tag [OF this key(2)] show ?thesis by (simp add: trying0_def env_at_def)
qed

end
