(* ===== verification/Txn_Divergences.thy ===== *)
theory Txn_Divergences
  imports Txn_Example
begin

text \<open>
  Where the transaction layer does not do what it, or a comment beside it, says. Each lemma states
  what the code does at the point of the divergence.
\<close>

section \<open>A rejected seed's bound\<close>

text \<open>\<open>seed_rejected\<close> first holds the transaction for a whole Timer H (\<open>arm_final_hold\<close>) and then for
  what is left of it; re-entering a running hold keeps the later deadline, so a bound shorter than
  Timer H has no effect.\<close>

definition lifetime_at :: "server_txn_key \<Rightarrow> owner \<Rightarrow> lifetime option" where
  "lifetime_at k s = map_option t_lifetime (servers s k)"

lemma lifetime_hold:
  "lifetime_at k (hold_txn_for E (Server k) why d s) = map_option (\<lambda>l. held_for l why (from_now E d)) (lifetime_at k s)"
  by (cases "servers s k") (simp_all add: lifetime_at_def hold_absent hold_server_state)

lemma lifetime_keeps [simp]:
  "lifetime_at k (record_uas_tag E k' resp s) = lifetime_at k s"
  "lifetime_at k (note_seeded_final k' st resp s) = lifetime_at k s"
  "lifetime_at k (hold_seeded_identity E k' s) = lifetime_at k s"
  "lifetime_at k (send_buffer buf dest s) = lifetime_at k s"
  by (auto simp: lifetime_at_def record_uas_tag_def remember_uas_tag_def note_seeded_final_def hold_seeded_identity_def
      send_buffer_def servers_upd_server Let_def map_option_case split: option.splits)

lemma lifetime_final_hold:
  "300 \<le> st \<Longrightarrow> lifetime_at k (arm_final_hold E k KInvite st s) =
     map_option (\<lambda>l. held_for l HTimerH (from_now E (ms TIMER_H))) (lifetime_at k s)"
  using lifetime_hold [of k E HTimerH "ms TIMER_H" s]
  by (auto simp: arm_final_hold_def hold_txn_def final_hold_def lifetime_at_def arm_def servers_upd_server Let_def
      option.map_comp comp_def split: option.split)

lemma from_now_mono: "env_ok E \<Longrightarrow> d \<le> d' \<Longrightarrow> from_now E d \<le> from_now E d'"
  by (auto simp: from_now_def env_ok_def deadline_after_min)

lemma rejected_seed_ignores_bound:
  assumes "env_ok E" "of_response resp = Some k" "servers s k = None" "300 \<le> rs_status resp" "left \<le> TIMER_H"
  shows "lifetime_at k (fst (seed_rejected E cr resp dest leg (Some left) s)) =
    Some (LHeld HTimerH (from_now E (ms TIMER_H)))"
proof -
  have le: "from_now E (ms left) \<le> from_now E (ms TIMER_H)"
    using from_now_mono [OF assms(1)] assms(5) by (simp add: ms_def)
  define d where "d = (case e_response_target E resp of Some d \<Rightarrow> d | None \<Rightarrow> dest)"
  define s1 where "s1 = open_txn E (answered_head k KInvite MInvite resp cr leg Completed (Some d)) s"
  have "lifetime_at k s1 = Some (LActive (from_now E (ms (open_budget E KInvite))))"
    by (simp add: lifetime_at_def s1_def open_txn_def servers_open_server answered_head_def)
  then show ?thesis
    using assms(2-4) le by (simp add: seed_rejected_def Let_def d_def [symmetric] s1_def [symmetric] lifetime_hold
        lifetime_final_hold max_absorb2)
qed

section \<open>An orphan's provisional\<close>

lemma queue_keeps [simp]:
  "queue_in (upd_client b f s) = queue_in s" "tries (upd_client b f s) = tries s"
  "queue_in (cancel_timer key s) = queue_in s" "tries (cancel_timer key s) = tries s"
  "queue_in (bump c s) = queue_in s" "tries (bump c s) = tries s"
  "queue_in (send_buffer buf dest s) = queue_in s" "tries (send_buffer buf dest s) = tries s"
  "queue_in (fst (arm E tm d s)) = queue_in s" "tries (fst (arm E tm d s)) = tries s"
  by (auto simp: upd_client_def cancel_timer_def bump_def send_buffer_def arm_def Let_def split: option.split)

lemma queue_server [simp]: "queue_in (upd_server k f s) = queue_in s" "tries (upd_server k f s) = tries s"
  by (auto simp: upd_server_def split: option.split)

lemma queue_mut [simp]: "queue_in (txn_mut i f s) = queue_in s" "tries (txn_mut i f s) = tries s"
  by (cases i; simp)+

lemma queue_hold [simp]: "queue_in (hold_txn E i why s) = queue_in s" "tries (hold_txn E i why s) = tries s"
  by (auto simp: hold_txn_def hold_txn_for_def arm_deadline_def insert_at_def Let_def case_prod_beta split: option.split)

lemma queue_cancel_retransmit [simp]:
  "queue_in (arm_cancel_retransmit E b s) = queue_in s" "tries (arm_cancel_retransmit E b s) = tries s"
  by (auto simp: arm_cancel_retransmit_def Let_def case_prod_beta split: option.split)

lemma queue_provisional_parts [simp]:
  "queue_in (note_reliable_offer b resp s) = queue_in s" "tries (note_reliable_offer b resp s) = tries s"
  "queue_in (rearm_invite_bound E b s) = queue_in s" "tries (rearm_invite_bound E b s) = tries s"
  "queue_in (flush_cancel_on_provisional E b s) = queue_in s" "tries (flush_cancel_on_provisional E b s) = tries s"
  by (simp_all add: note_reliable_offer_def rearm_invite_bound_def flush_cancel_on_provisional_def
      Let_def case_prod_beta split: option.split)

lemma queue_provisional [simp]:
  "queue_in (take_provisional E b resp t s) = queue_in s" "tries (take_provisional E b resp t s) = tries s"
  by (simp_all add: take_provisional_def Let_def)

text \<open>The first arrival of a provisional on an orphaned transaction is handed up as matched, though the
  consumer it would serve is gone; only its re-offer is kept back.\<close>

lemma orphan_provisional_handed_up:
  assumes "clients s b = Some t" "t_orphaned t" "t_state t = Proceeding" "b \<noteq> []" "rs_branch resp = Some b"
    and "rs_cseq_method resp = t_method t" "t_method t \<noteq> MCancel" "100 < rs_status resp" "rs_status resp < 200"
    and "e_try_send E (tries s) = SendOk"
  shows "queue_in (handle_inbound_response E resp src s) = queue_in s @ [event_response resp src True]"
  using assms
  by (auto simp: handle_inbound_response_def inbound_response_def client_match_def pass_up_def Let_def emit_def offer_def or_empty_def
      channel_send_def)

section \<open>A displaced client transaction\<close>

text \<open>A send that reuses the branch of an orphaned client transaction displaces it: one orphan less is
  resident and the gauge that counts them stays.\<close>

definition orphans :: "owner \<Rightarrow> string set" where
  "orphans s = {b. \<exists>t. clients s b = Some t \<and> t_orphaned t}"

lemma displaced_orphan_still_counted:
  assumes "clients s b = Some old" "t_orphaned old" "t_id t = Client b" "\<not> t_orphaned t"
  shows "orphans (set_txn t s) = orphans s - {b} \<and> b \<in> orphans s \<and>
    counters (set_txn t s) OrphanedTransactions = counters s OrphanedTransactions"
proof -
  have "clients (set_txn t s) = (clients s)(b \<mapsto> t)" using assms(3) by (simp add: set_client_state)
  moreover have "counters (set_txn t s) OrphanedTransactions = counters s OrphanedTransactions"
    using assms(3) by (simp add: set_txn_def sync_active_counters Let_def bump_def split: option.split)
  ultimately show ?thesis using assms by (auto simp: orphans_def)
qed

text \<open>When the displaced transaction was the last of a watched call, the call quiesces with no notice
  queued: nothing later queues it, since the call has no transaction left to leave.\<close>

lemma watch_frames [simp]:
  "pending_quiesce (cancel_timers_of t s) = pending_quiesce s" "pending_quiesce (untrack_call_ref x i s) = pending_quiesce s"
  "pending_quiesce (sync_active s) = pending_quiesce s" "pending_quiesce (bump c s) = pending_quiesce s"
  "self_release_watch (cancel_timers_of t s) = self_release_watch s"
  "self_release_watch (untrack_call_ref x i s) = self_release_watch s"
  "self_release_watch (sync_active s) = self_release_watch s" "self_release_watch (bump c s) = self_release_watch s"
  by (simp_all add: cancel_timers_of_def cancel_timer_def untrack_call_ref_def sync_active_def bump_def Let_def
      split: option.split)

lemma displaced_last_goes_unnoticed:
  assumes "clients s b = Some old" "t_call_ref old = Some cr" "txn_index s cr = Some c" "ct_client c = {b}" "ct_server c = {}"
    and "t_id t = Client b" "t_call_ref t = None"
  shows "has_txns_for cr s \<and> \<not> has_txns_for cr (set_txn t s) \<and>
    pending_quiesce (set_txn t s) = pending_quiesce s \<and> self_release_watch (set_txn t s) = self_release_watch s"
proof -
  have "txn_index (set_txn t s) = txn_index (untrack_call_ref (Some cr) (Client b) s)"
    using assms by (simp add: set_index track_call_ref_def)
  then have "\<not> has_txns_for cr (set_txn t s)"
    using assms(3-5) by (simp add: has_txns_for_def untrack_call_ref_def on_books_def Let_def)
  moreover have "has_txns_for cr s" using assms(3-5) by (simp add: has_txns_for_def on_books_def)
  ultimately show ?thesis using assms(6,7) by (simp add: set_txn_def track_call_ref_def Let_def split: option.split)
qed

section \<open>Seeds\<close>

text \<open>A rejected seed is taken over an occupant that has sent no final, as an Accepted seed is.\<close>

lemma rejected_seed_takes_occupant:
  assumes "of_response resp = Some k" "servers s k = Some t" "is_active (t_state t)"
  shows "snd (seed_rejected E cr resp dest leg bound s)"
  using assms by (simp add: seed_rejected_def Let_def split: option.split)

text \<open>A client seed that carries a CANCEL opens Proceeding when the record holds a provisional.\<close>

lemma cancelled_seed_opens_proceeding:
  assumes "seed_branch invite s = Some b"
  shows "\<exists>t. clients (fst (seed_client_invite E cr invite dest True (Some c) s)) b = Some t \<and>
    t_state t = Proceeding \<and> never_sent (t_held_cancel t)"
proof -
  let ?head = "(client_seed_head KInvite b invite cr Proceeding dest)\<lparr>t_method := MInvite\<rparr>"
  define s1 where "s1 = fst (arm E (ClientTimeout b) (ms (c_invite_initial_timeout_ms (e_cfg E))) s)"
  define s2 where "s2 = open_txn_with E ?head (\<lambda>t. t\<lparr>t_timeout_kind := TKTransaction,
    t_timeout_key := Some (snd (arm E (ClientTimeout b) (ms (c_invite_initial_timeout_ms (e_cfg E))) s)),
    t_seed_resend := None\<rparr>) s1"
  have t: "\<exists>t. clients s2 b = Some t \<and> t_state t = Proceeding \<and> t_seed_resend t = None"
    unfolding s2_def by (subst clients_open_client) (simp_all add: client_seed_head_def seed_head_def)
  have "fst (seed_client_invite E cr invite dest True (Some c) s) = release_seed_resend E b (seed_held_cancel E b c dest s2)"
    using assms by (simp add: seed_client_invite_def Let_def case_prod_beta s1_def s2_def)
  with t show ?thesis
    by (auto simp: seed_held_cancel_def release_seed_resend_def held_cancel_new_def never_sent_def Let_def)
qed

end
