(* ===== verification/Repl_Frame.thy ===== *)
theory Repl_Frame
  imports Prelude
begin

text \<open>
  The replication wire of \<open>src/crates/repl-net/src\<close>: the frames and their positions
  (\<open>frame.rs\<close>) and the length-prefixed framing of the byte stream (\<open>framing.rs\<close>).

  A \<open>String\<close> or \<open>Vec<u8>\<close> is the list of its bytes. A \<open>u64\<close>, \<open>u16\<close> or \<open>u8\<close> is a
  natural number and an \<open>i64\<close> an integer; the ranges their types give them are stated where the
  codec relies on them (\<open>Repl_Codec\<close>).
\<close>

subsection \<open>Operations, partitions and positions\<close>

record unknown_discriminant =
  ud_field :: string
  ud_value :: nat

datatype repl_op = Put | Delete

fun op_as_u8 :: "repl_op \<Rightarrow> nat" where
  "op_as_u8 Put = 0"
| "op_as_u8 Delete = 1"

definition op_from_u8 :: "nat \<Rightarrow> unknown_discriminant + repl_op" where
  "op_from_u8 v = (if v = 0 then Inr Put else if v = 1 then Inr Delete
     else Inl \<lparr>ud_field = ''Op'', ud_value = v\<rparr>)"

datatype flow_partition = Pri | Bak

fun partition_as_u8 :: "flow_partition \<Rightarrow> nat" where
  "partition_as_u8 Pri = 0"
| "partition_as_u8 Bak = 1"

definition partition_from_u8 :: "nat \<Rightarrow> unknown_discriminant + flow_partition" where
  "partition_from_u8 v = (if v = 0 then Inr Pri else if v = 1 then Inr Bak
     else Inl \<lparr>ud_field = ''Partition'', ud_value = v\<rparr>)"

lemma op_from_as_u8 [simp]: "op_from_u8 (op_as_u8 x) = Inr x"
  by (cases x) (simp_all add: op_from_u8_def)

lemma partition_from_as_u8 [simp]: "partition_from_u8 (partition_as_u8 x) = Inr x"
  by (cases x) (simp_all add: partition_from_u8_def)

lemma op_as_u8_bound [simp]: "op_as_u8 x < 256"
  by (cases x) simp_all

lemma partition_as_u8_bound [simp]: "partition_as_u8 x < 256"
  by (cases x) simp_all

text \<open>A position: the incarnation is the high word of the order.\<close>

datatype watermark = Watermark (w_gen: nat) (w_counter: nat)

instantiation watermark :: linorder
begin

definition less_eq_watermark :: "watermark \<Rightarrow> watermark \<Rightarrow> bool" where
  "less_eq_watermark a b = (w_gen a < w_gen b \<or> w_gen a = w_gen b \<and> w_counter a \<le> w_counter b)"

definition less_watermark :: "watermark \<Rightarrow> watermark \<Rightarrow> bool" where
  "less_watermark a b = (w_gen a < w_gen b \<or> w_gen a = w_gen b \<and> w_counter a < w_counter b)"

instance
proof
  fix a b c :: watermark
  show "(a < b) = (a \<le> b \<and> \<not> b \<le> a)"
    by (auto simp: less_eq_watermark_def less_watermark_def)
  show "a \<le> a" by (simp add: less_eq_watermark_def)
  show "a \<le> b \<Longrightarrow> b \<le> c \<Longrightarrow> a \<le> c" by (auto simp: less_eq_watermark_def)
  show "a \<le> b \<Longrightarrow> b \<le> a \<Longrightarrow> a = b" by (auto simp: less_eq_watermark_def intro: watermark.expand)
  show "a \<le> b \<or> b \<le> a" by (auto simp: less_eq_watermark_def)
qed

end

lemma watermark_le [simp]: "Watermark g a \<le> Watermark g b \<longleftrightarrow> a \<le> b"
  by (simp add: less_eq_watermark_def)

lemma watermark_less [simp]: "Watermark g a < Watermark g b \<longleftrightarrow> a < b"
  by (simp add: less_watermark_def)

lemma watermark_gen_mono: "a \<le> b \<Longrightarrow> w_gen a \<le> w_gen b"
  by (auto simp: less_eq_watermark_def)

lemma watermark_least [simp]: "Watermark 0 0 \<le> w"
  by (cases w) (auto simp: less_eq_watermark_def)

subsection \<open>Frames\<close>

record data_frame =
  d_at :: watermark
  d_op :: repl_op
  d_partition :: flow_partition
  d_call_ref :: bytes
  d_call_gen :: int
  d_call_bgen :: int
  d_body_ttl_ms :: int
  d_origin_now_ms :: int
  d_indexes :: "bytes list"
  d_body :: "bytes option"
  d_answered :: bool
  d_incarnation :: "bytes option"

datatype frame =
    PullRequest nat bytes "bytes option" flow_partition watermark
  | Data data_frame
  | Noop watermark
  | ResetToBootstrap bytes
  | Position watermark
  | ReplicaRefused watermark bytes "bytes option"
  | StreamRefused nat bytes

definition PROTO_VER :: nat where
  "PROTO_VER = 7"

subsection \<open>Length-prefixed framing\<close>

text \<open>The big-endian bytes of a number and back, \<open>to_be_bytes\<close> and \<open>from_be_bytes\<close>.\<close>

primrec be_bytes :: "nat \<Rightarrow> nat \<Rightarrow> bytes" where
  "be_bytes 0 n = []"
| "be_bytes (Suc k) n = char_of (n div 256 ^ k) # be_bytes k n"

fun be_value :: "bytes \<Rightarrow> nat" where
  "be_value [] = 0"
| "be_value (c # cs) = of_char c * 256 ^ length cs + be_value cs"

lemma length_be_bytes [simp]: "length (be_bytes k n) = k"
  by (induction k) simp_all

lemma be_value_be_bytes [simp]: "be_value (be_bytes k n) = n mod 256 ^ k"
proof (induction k)
  case (Suc k)
  have "n mod 256 ^ Suc k = 256 ^ k * (n div 256 ^ k mod 256) + n mod 256 ^ k"
    by (simp add: mod_mult2_eq mult.commute [of 256])
  with Suc show ?case by (simp add: mult.commute)
qed simp

definition MAX_FRAME_LEN :: nat where
  "MAX_FRAME_LEN = 64 * 1024 * 1024"

datatype repl_framing_error = Oversized nat

definition frame_with_len_prefix :: "bytes \<Rightarrow> repl_framing_error + bytes" where
  "frame_with_len_prefix payload =
     (if length payload < 2 ^ 32 \<and> length payload \<le> MAX_FRAME_LEN
      then Inr (be_bytes 4 (length payload) @ payload)
      else Inl (Oversized (length payload)))"

text \<open>The result and the buffer left behind; \<open>buf\<close> is untouched unless a payload is popped.\<close>

definition try_read_framed :: "bytes \<Rightarrow> (repl_framing_error + bytes option) \<times> bytes" where
  "try_read_framed buf =
     (if length buf < 4 then (Inr None, buf)
      else let len = be_value (take 4 buf) in
        if len > MAX_FRAME_LEN then (Inl (Oversized len), buf)
        else let total = len + 4 in
          if length buf < total then (Inr None, buf)
          else (Inr (Some (take len (drop 4 buf))), drop total buf))"

lemma frame_with_len_prefix_ok:
  "frame_with_len_prefix p = Inr b \<longleftrightarrow> length p \<le> MAX_FRAME_LEN \<and> b = be_bytes 4 (length p) @ p"
  by (auto simp: frame_with_len_prefix_def MAX_FRAME_LEN_def)

lemma try_read_framed_pop:
  assumes "frame_with_len_prefix p = Inr b"
  shows "try_read_framed (b @ rest) = (Inr (Some p), rest)"
proof -
  from assms have p: "length p \<le> MAX_FRAME_LEN" and b: "b = be_bytes 4 (length p) @ p"
    by (simp_all add: frame_with_len_prefix_ok)
  from p have "length p mod 256 ^ 4 = length p" by (simp add: MAX_FRAME_LEN_def)
  with p b show ?thesis by (simp add: try_read_framed_def Let_def)
qed

text \<open>A strict prefix of a framed payload is never taken for a frame: the reader waits.\<close>

lemma try_read_framed_wait:
  assumes "frame_with_len_prefix p = Inr (b @ c)" and "c \<noteq> []"
  shows "try_read_framed b = (Inr None, b)"
proof (cases "length b < 4")
  case False
  from assms have p: "length p \<le> MAX_FRAME_LEN" and bc: "b @ c = be_bytes 4 (length p) @ p"
    by (simp_all add: frame_with_len_prefix_ok)
  from False have "take 4 b = take 4 (b @ c)" by simp
  then have t: "take 4 b = be_bytes 4 (length p)" by (simp add: bc)
  from p have "length p mod 256 ^ 4 = length p" by (simp add: MAX_FRAME_LEN_def)
  moreover have "length b + length c = 4 + length p" using bc by (metis length_append length_be_bytes)
  with assms(2) have "length b < length p + 4" by (cases c) auto
  ultimately show ?thesis using False p by (simp add: try_read_framed_def Let_def t)
qed (simp add: try_read_framed_def)

end
