(* ===== verification/Repl_Codec.thy ===== *)
theory Repl_Codec
  imports Repl_Frame
begin

text \<open>
  The frame codec (\<open>src/crates/repl-net/src/codec.rs\<close>) and the framed connection over a byte
  stream (\<open>transport/mod.rs\<close>, \<open>transport/real.rs\<close>).

  The msgpack primitives are the third-party crate \<open>rmp\<close>: a parameter \<open>rmp_api\<close> of the
  encoder and the decoder, with what the crate documents of them as the assumptions of the locale
  \<open>rmp_codec\<close>. The human-readable detail of an error is left out, its kind and the element it
  names are kept. \<open>String::from_utf8\<close> is the check \<open>utf8_valid\<close>.
\<close>

subsection \<open>UTF-8 validity\<close>

definition cont_byte :: "nat \<Rightarrow> bool" where
  "cont_byte b \<longleftrightarrow> 128 \<le> b \<and> b < 192"

fun utf8_nats :: "nat list \<Rightarrow> bool" where
  "utf8_nats [] = True"
| "utf8_nats (a # bs) =
     (if a < 128 then utf8_nats bs
      else case bs of
        [] \<Rightarrow> False
      | b # cs \<Rightarrow>
          if 194 \<le> a \<and> a \<le> 223 then cont_byte b \<and> utf8_nats cs
          else case cs of
            [] \<Rightarrow> False
          | c # ds \<Rightarrow>
              if 224 \<le> a \<and> a \<le> 239 then
                cont_byte b \<and> (a = 224 \<longrightarrow> 160 \<le> b) \<and> (a = 237 \<longrightarrow> b < 160) \<and>
                cont_byte c \<and> utf8_nats ds
              else case ds of
                [] \<Rightarrow> False
              | d # es \<Rightarrow>
                  240 \<le> a \<and> a \<le> 244 \<and> cont_byte b \<and> (a = 240 \<longrightarrow> 144 \<le> b) \<and>
                  (a = 244 \<longrightarrow> b < 144) \<and> cont_byte c \<and> cont_byte d \<and> utf8_nats es)"

definition utf8_valid :: "bytes \<Rightarrow> bool" where
  "utf8_valid s = utf8_nats (map of_char s)"

subsection \<open>The msgpack primitives\<close>

datatype value_read_error = InvalidMarkerRead | InvalidDataRead | TypeMismatch

datatype num_value_read_error = NumInvalidMarkerRead | NumInvalidDataRead | NumTypeMismatch | OutOfRange

datatype marker = NullMarker | Bin8 | Bin16 | Bin32 | OtherMarker nat

definition NULL_BYTE :: char where
  "NULL_BYTE = char_of (0xC0 :: nat)"

record rmp_api =
  write_array_len :: "nat \<Rightarrow> bytes"
  write_uint :: "nat \<Rightarrow> bytes"
  write_sint :: "int \<Rightarrow> bytes"
  write_str :: "bytes \<Rightarrow> bytes"
  write_bin :: "bytes \<Rightarrow> bytes"
  write_nil :: bytes
  write_bool :: "bool \<Rightarrow> bytes"
  rmp_array_len :: "bytes \<Rightarrow> value_read_error + nat \<times> bytes"
  rmp_int :: "int \<Rightarrow> int \<Rightarrow> bytes \<Rightarrow> num_value_read_error + int \<times> bytes"
  rmp_bool :: "bytes \<Rightarrow> value_read_error + bool \<times> bytes"
  rmp_str_len :: "bytes \<Rightarrow> value_read_error + nat \<times> bytes"
  rmp_marker :: "bytes \<Rightarrow> (marker \<times> bytes) option"

text \<open>
  What the crate documents: a value written is read back, whatever follows it, an integer as far as
  it is in the range \<open>lo..hi\<close> of the type read; a string is a length marker, never \<open>nil\<close>, and
  its bytes; a binary is the marker of the smallest width that holds its length, the length in big
  endian and its bytes.
\<close>

locale rmp_codec =
  fixes R :: rmp_api
  assumes array_len_law: "n < 2 ^ 32 \<Longrightarrow> rmp_array_len R (write_array_len R n @ r) = Inr (n, r)"
    and uint_law: "n < 2 ^ 64 \<Longrightarrow> lo \<le> int n \<Longrightarrow> int n \<le> hi \<Longrightarrow>
      rmp_int R lo hi (write_uint R n @ r) = Inr (int n, r)"
    and sint_law: "- (2 ^ 63) \<le> v \<Longrightarrow> v < 2 ^ 63 \<Longrightarrow> lo \<le> v \<Longrightarrow> v \<le> hi \<Longrightarrow>
      rmp_int R lo hi (write_sint R v @ r) = Inr (v, r)"
    and bool_law: "rmp_bool R (write_bool R v' @ r) = Inr (v', r)"
    and str_law: "length s < 2 ^ 32 \<Longrightarrow> rmp_str_len R (write_str R s @ r) = Inr (length s, s @ r)"
    and str_marker_law: "\<exists>c m. write_str R s = c # m \<and> c \<noteq> NULL_BYTE"
    and nil_law: "write_nil R = [NULL_BYTE]"
    and null_marker_law: "rmp_marker R (NULL_BYTE # r) = Some (NullMarker, r)"
    and bin8_law: "length b < 2 ^ 8 \<Longrightarrow>
      rmp_marker R (write_bin R b @ r) = Some (Bin8, be_bytes 1 (length b) @ b @ r)"
    and bin16_law: "2 ^ 8 \<le> length b \<Longrightarrow> length b < 2 ^ 16 \<Longrightarrow>
      rmp_marker R (write_bin R b @ r) = Some (Bin16, be_bytes 2 (length b) @ b @ r)"
    and bin32_law: "2 ^ 16 \<le> length b \<Longrightarrow> length b < 2 ^ 32 \<Longrightarrow>
      rmp_marker R (write_bin R b @ r) = Some (Bin32, be_bytes 4 (length b) @ b @ r)"

subsection \<open>Encoding\<close>

datatype repl_codec_error =
    MalformedArray
  | UnknownTag nat
  | UnknownDiscriminant string nat
  | TypeError string
  | Truncated string
  | Utf8Error string
  | TooLong string nat

text \<open>Each method of \<open>Encoder\<close> is the bytes it appends, or the error it returns.\<close>

type_synonym written = "repl_codec_error + bytes"

definition enc_length :: "nat \<Rightarrow> string \<Rightarrow> repl_codec_error + nat" where
  "enc_length n at = (if n < 2 ^ 32 then Inr n else Inl (TooLong at n))"

definition enc_array :: "rmp_api \<Rightarrow> nat \<Rightarrow> string \<Rightarrow> written" where
  "enc_array R n at = (case enc_length n at of Inl e \<Rightarrow> Inl e | Inr l \<Rightarrow> Inr (write_array_len R l))"

definition enc_uint :: "rmp_api \<Rightarrow> nat \<Rightarrow> written" where
  "enc_uint R v = Inr (write_uint R v)"

definition enc_sint :: "rmp_api \<Rightarrow> int \<Rightarrow> written" where
  "enc_sint R v = Inr (write_sint R v)"

definition enc_str :: "rmp_api \<Rightarrow> bytes \<Rightarrow> string \<Rightarrow> written" where
  "enc_str R s at = (case enc_length (length s) at of Inl e \<Rightarrow> Inl e | Inr _ \<Rightarrow> Inr (write_str R s))"

definition enc_bin :: "rmp_api \<Rightarrow> bytes \<Rightarrow> string \<Rightarrow> written" where
  "enc_bin R b at = (case enc_length (length b) at of Inl e \<Rightarrow> Inl e | Inr _ \<Rightarrow> Inr (write_bin R b))"

definition enc_nil :: "rmp_api \<Rightarrow> written" where
  "enc_nil R = Inr (write_nil R)"

definition enc_opt_str :: "rmp_api \<Rightarrow> bytes option \<Rightarrow> string \<Rightarrow> written" where
  "enc_opt_str R v at = (case v of Some s \<Rightarrow> enc_str R s at | None \<Rightarrow> enc_nil R)"

definition enc_bool :: "rmp_api \<Rightarrow> bool \<Rightarrow> written" where
  "enc_bool R b = Inr (write_bool R b)"

text \<open>Writes in order, the first error ending them.\<close>

fun in_order :: "written list \<Rightarrow> written" where
  "in_order [] = Inr []"
| "in_order (Inl e # ws) = Inl e"
| "in_order (Inr b # ws) = (case in_order ws of Inl e \<Rightarrow> Inl e | Inr c \<Rightarrow> Inr (b @ c))"

fun enc_frame :: "rmp_api \<Rightarrow> frame \<Rightarrow> written" where
  "enc_frame R (PullRequest proto_ver caller identity part since) = in_order
     [enc_array R 7 ''PullRequest'', enc_uint R 0, enc_uint R proto_ver, enc_str R caller ''caller'',
      enc_opt_str R identity ''identity'', enc_uint R (partition_as_u8 part),
      enc_uint R (w_gen since), enc_uint R (w_counter since)]"
| "enc_frame R (Data d) = in_order
     ([enc_array R 14 ''Data'', enc_uint R 1, enc_uint R (w_gen (d_at d)), enc_uint R (w_counter (d_at d)),
       enc_uint R (op_as_u8 (d_op d)), enc_uint R (partition_as_u8 (d_partition d)),
       enc_str R (d_call_ref d) ''call_ref'', enc_sint R (d_call_gen d), enc_sint R (d_call_bgen d),
       enc_sint R (d_body_ttl_ms d), enc_sint R (d_origin_now_ms d),
       enc_array R (length (d_indexes d)) ''indexes''] @
      map (\<lambda>idx. enc_str R idx ''indexes[]'') (d_indexes d) @
      [case d_body d of Some b \<Rightarrow> enc_bin R b ''body'' | None \<Rightarrow> enc_nil R,
       enc_bool R (d_answered d), enc_opt_str R (d_incarnation d) ''incarnation''])"
| "enc_frame R (Noop at) = in_order
     [enc_array R 3 ''Noop'', enc_uint R 2, enc_uint R (w_gen at), enc_uint R (w_counter at)]"
| "enc_frame R (ResetToBootstrap reason) = in_order
     [enc_array R 2 ''ResetToBootstrap'', enc_uint R 3, enc_str R reason ''reason'']"
| "enc_frame R (Position at) = in_order
     [enc_array R 3 ''Position'', enc_uint R 4, enc_uint R (w_gen at), enc_uint R (w_counter at)]"
| "enc_frame R (ReplicaRefused at call_ref incarnation) = in_order
     [enc_array R 5 ''ReplicaRefused'', enc_uint R 5, enc_uint R (w_gen at), enc_uint R (w_counter at),
      enc_str R call_ref ''call_ref'', enc_opt_str R incarnation ''incarnation'']"
| "enc_frame R (StreamRefused proto_ver reason) = in_order
     [enc_array R 3 ''StreamRefused'', enc_uint R 6, enc_uint R proto_ver, enc_str R reason ''reason'']"

definition encode_frame :: "rmp_api \<Rightarrow> frame \<Rightarrow> written" where
  "encode_frame R f = enc_frame R f"

subsection \<open>Decoding\<close>

text \<open>A reader takes the bytes left to read and gives its value with those after it.\<close>

type_synonym 'a reader = "bytes \<Rightarrow> repl_codec_error + 'a \<times> bytes"

definition rbind :: "'a reader \<Rightarrow> ('a \<Rightarrow> 'b reader) \<Rightarrow> 'b reader" where
  "rbind m f rd = (case m rd of Inl e \<Rightarrow> Inl e | Inr (x, rd') \<Rightarrow> f x rd')"

definition rreturn :: "'a \<Rightarrow> 'a reader" where
  "rreturn x rd = Inr (x, rd)"

definition rthrow :: "repl_codec_error \<Rightarrow> 'a reader" where
  "rthrow e rd = Inl e"

fun map_vre :: "value_read_error \<Rightarrow> string \<Rightarrow> repl_codec_error" where
  "map_vre InvalidMarkerRead at = Truncated at"
| "map_vre InvalidDataRead at = Truncated at"
| "map_vre TypeMismatch at = TypeError at"

fun map_nvre :: "num_value_read_error \<Rightarrow> string \<Rightarrow> repl_codec_error" where
  "map_nvre NumInvalidMarkerRead at = Truncated at"
| "map_nvre NumInvalidDataRead at = Truncated at"
| "map_nvre NumTypeMismatch at = TypeError at"
| "map_nvre OutOfRange at = TypeError at"

definition read_array_len :: "rmp_api \<Rightarrow> string \<Rightarrow> nat reader" where
  "read_array_len R at rd = (case rmp_array_len R rd of Inl e \<Rightarrow> Inl (map_vre e at) | Inr x \<Rightarrow> Inr x)"

definition read_int_in :: "rmp_api \<Rightarrow> int \<Rightarrow> int \<Rightarrow> string \<Rightarrow> int reader" where
  "read_int_in R lo hi at rd = (case rmp_int R lo hi rd of Inl e \<Rightarrow> Inl (map_nvre e at) | Inr x \<Rightarrow> Inr x)"

definition read_u64 :: "rmp_api \<Rightarrow> string \<Rightarrow> nat reader" where
  "read_u64 R at = rbind (read_int_in R 0 (2 ^ 64 - 1) at) (\<lambda>v. rreturn (nat v))"

definition read_u16 :: "rmp_api \<Rightarrow> string \<Rightarrow> nat reader" where
  "read_u16 R at = rbind (read_int_in R 0 (2 ^ 16 - 1) at) (\<lambda>v. rreturn (nat v))"

definition read_u8 :: "rmp_api \<Rightarrow> string \<Rightarrow> nat reader" where
  "read_u8 R at = rbind (read_int_in R 0 (2 ^ 8 - 1) at) (\<lambda>v. rreturn (nat v))"

definition read_i64 :: "rmp_api \<Rightarrow> string \<Rightarrow> int reader" where
  "read_i64 R at = read_int_in R (- (2 ^ 63)) (2 ^ 63 - 1) at"

definition read_bool :: "rmp_api \<Rightarrow> string \<Rightarrow> bool reader" where
  "read_bool R at rd = (case rmp_bool R rd of Inl e \<Rightarrow> Inl (map_vre e at) | Inr x \<Rightarrow> Inr x)"

definition take_n :: "nat \<Rightarrow> string \<Rightarrow> bytes reader" where
  "take_n n at rd = (if length rd < n then Inl (Truncated at) else Inr (take n rd, drop n rd))"

definition read_str :: "rmp_api \<Rightarrow> string \<Rightarrow> bytes reader" where
  "read_str R at rd = (case rmp_str_len R rd of
     Inl e \<Rightarrow> Inl (map_vre e at)
   | Inr (n, rd1) \<Rightarrow>
       rbind (take_n n at) (\<lambda>raw. if utf8_valid raw then rreturn raw else rthrow (Utf8Error at)) rd1)"

definition read_opt_str :: "rmp_api \<Rightarrow> string \<Rightarrow> bytes option reader" where
  "read_opt_str R at rd =
     (if rd \<noteq> [] \<and> hd rd = NULL_BYTE then rbind (take_n 1 at) (\<lambda>_. rreturn None) rd
      else rbind (read_str R at) (\<lambda>s. rreturn (Some s)) rd)"

definition read_bin_body :: "nat \<Rightarrow> string \<Rightarrow> bytes option reader" where
  "read_bin_body n at = rbind (take_n n at) (\<lambda>raw. rreturn (Some raw))"

definition read_opt_bin :: "rmp_api \<Rightarrow> string \<Rightarrow> bytes option reader" where
  "read_opt_bin R at rd = (case rmp_marker R rd of
     None \<Rightarrow> Inl (Truncated at)
   | Some (NullMarker, rd1) \<Rightarrow> Inr (None, rd1)
   | Some (Bin8, rd1) \<Rightarrow> rbind (take_n 1 at) (\<lambda>n. read_bin_body (be_value n) at) rd1
   | Some (Bin16, rd1) \<Rightarrow> rbind (take_n 2 at) (\<lambda>n. read_bin_body (be_value n) at) rd1
   | Some (Bin32, rd1) \<Rightarrow> rbind (take_n 4 at) (\<lambda>n. read_bin_body (be_value n) at) rd1
   | Some (OtherMarker _, rd1) \<Rightarrow> Inl (TypeError at))"

definition expect_len :: "nat \<Rightarrow> nat \<Rightarrow> unit reader" where
  "expect_len got want = (if got \<noteq> want then rthrow MalformedArray else rreturn ())"

text \<open>\<open>?\<close> on a discriminant: its error converted by \<open>From<UnknownDiscriminant>\<close>.\<close>

definition discriminant :: "unknown_discriminant + 'a \<Rightarrow> 'a reader" where
  "discriminant r = (case r of Inl u \<Rightarrow> rthrow (UnknownDiscriminant (ud_field u) (ud_value u))
     | Inr x \<Rightarrow> rreturn x)"

primrec read_strs :: "rmp_api \<Rightarrow> nat \<Rightarrow> bytes list reader" where
  "read_strs R 0 = rreturn []"
| "read_strs R (Suc n) = rbind (read_str R ''indexes[]'') (\<lambda>s.
     rbind (read_strs R n) (\<lambda>ss. rreturn (s # ss)))"

definition decode_pull_request :: "rmp_api \<Rightarrow> nat \<Rightarrow> frame reader" where
  "decode_pull_request R len =
     rbind (if len \<noteq> 6 then expect_len len 7 else rreturn ()) (\<lambda>_.
     rbind (read_u16 R ''proto_ver'') (\<lambda>proto_ver.
     rbind (read_str R ''caller'') (\<lambda>caller.
     rbind (if len = 7 then read_opt_str R ''identity'' else rreturn None) (\<lambda>identity.
     rbind (rbind (read_u8 R ''partition'') (\<lambda>v. discriminant (partition_from_u8 v))) (\<lambda>part.
     rbind (read_u64 R ''since_gen'') (\<lambda>since_gen.
     rbind (read_u64 R ''since_counter'') (\<lambda>since_counter.
       rreturn (PullRequest proto_ver caller identity part
         (Watermark since_gen since_counter)))))))))"

definition decode_data :: "rmp_api \<Rightarrow> nat \<Rightarrow> frame reader" where
  "decode_data R len =
     rbind (expect_len len 14) (\<lambda>_.
     rbind (read_u64 R ''gen'') (\<lambda>gen.
     rbind (read_u64 R ''counter'') (\<lambda>counter.
     rbind (rbind (read_u8 R ''op'') (\<lambda>v. discriminant (op_from_u8 v))) (\<lambda>op.
     rbind (rbind (read_u8 R ''partition'') (\<lambda>v. discriminant (partition_from_u8 v))) (\<lambda>part.
     rbind (read_str R ''call_ref'') (\<lambda>call_ref.
     rbind (read_i64 R ''call_gen'') (\<lambda>call_gen.
     rbind (read_i64 R ''call_bgen'') (\<lambda>call_bgen.
     rbind (read_i64 R ''body_ttl_ms'') (\<lambda>body_ttl_ms.
     rbind (read_i64 R ''origin_now_ms'') (\<lambda>origin_now_ms.
     rbind (read_array_len R ''indexes'') (\<lambda>idx_len.
     rbind (read_strs R idx_len) (\<lambda>indexes.
     rbind (read_opt_bin R ''body'') (\<lambda>body.
     rbind (read_bool R ''answered'') (\<lambda>answered.
     rbind (read_opt_str R ''incarnation'') (\<lambda>incarnation.
       rreturn (Data \<lparr>d_at = Watermark gen counter, d_op = op, d_partition = part,
         d_call_ref = call_ref, d_call_gen = call_gen, d_call_bgen = call_bgen,
         d_body_ttl_ms = body_ttl_ms, d_origin_now_ms = origin_now_ms, d_indexes = indexes,
         d_body = body, d_answered = answered, d_incarnation = incarnation\<rparr>))))))))))))))))"

definition decode_noop :: "rmp_api \<Rightarrow> nat \<Rightarrow> frame reader" where
  "decode_noop R len =
     rbind (expect_len len 3) (\<lambda>_.
     rbind (read_u64 R ''gen'') (\<lambda>gen.
     rbind (read_u64 R ''counter'') (\<lambda>counter. rreturn (Noop (Watermark gen counter)))))"

definition decode_position :: "rmp_api \<Rightarrow> nat \<Rightarrow> frame reader" where
  "decode_position R len =
     rbind (expect_len len 3) (\<lambda>_.
     rbind (read_u64 R ''gen'') (\<lambda>gen.
     rbind (read_u64 R ''counter'') (\<lambda>counter. rreturn (Position (Watermark gen counter)))))"

definition decode_replica_refused :: "rmp_api \<Rightarrow> nat \<Rightarrow> frame reader" where
  "decode_replica_refused R len =
     rbind (expect_len len 5) (\<lambda>_.
     rbind (read_u64 R ''gen'') (\<lambda>gen.
     rbind (read_u64 R ''counter'') (\<lambda>counter.
     rbind (read_str R ''call_ref'') (\<lambda>call_ref.
     rbind (read_opt_str R ''incarnation'') (\<lambda>incarnation.
       rreturn (ReplicaRefused (Watermark gen counter) call_ref incarnation))))))"

definition decode_stream_refused :: "rmp_api \<Rightarrow> nat \<Rightarrow> frame reader" where
  "decode_stream_refused R len =
     rbind (expect_len len 3) (\<lambda>_.
     rbind (read_u16 R ''proto_ver'') (\<lambda>proto_ver.
     rbind (read_str R ''reason'') (\<lambda>reason. rreturn (StreamRefused proto_ver reason))))"

definition decode_reset :: "rmp_api \<Rightarrow> nat \<Rightarrow> frame reader" where
  "decode_reset R len =
     rbind (expect_len len 2) (\<lambda>_.
     rbind (read_str R ''reason'') (\<lambda>reason. rreturn (ResetToBootstrap reason)))"

definition decode_tagged :: "rmp_api \<Rightarrow> nat \<Rightarrow> nat \<Rightarrow> frame reader" where
  "decode_tagged R tag len =
     (if tag = 0 then decode_pull_request R len
      else if tag = 1 then decode_data R len
      else if tag = 2 then decode_noop R len
      else if tag = 3 then decode_reset R len
      else if tag = 4 then decode_position R len
      else if tag = 5 then decode_replica_refused R len
      else if tag = 6 then decode_stream_refused R len
      else rthrow (UnknownTag tag))"

definition decode_frame :: "rmp_api \<Rightarrow> bytes \<Rightarrow> repl_codec_error + frame" where
  "decode_frame R bs =
     (case rbind (read_array_len R ''frame'') (\<lambda>len.
        if len = 0 then rthrow MalformedArray
        else rbind (read_u64 R ''tag'') (\<lambda>tag. decode_tagged R tag len)) bs of
        Inl e \<Rightarrow> Inl e
      | Inr (f, _) \<Rightarrow> Inr f)"

subsection \<open>The framed connection\<close>

datatype send_error = SendClosed | SendIo | Unencodable

definition payload :: "rmp_api \<Rightarrow> frame \<Rightarrow> send_error + bytes" where
  "payload R f = (case encode_frame R f of
     Inl _ \<Rightarrow> Inl Unencodable
   | Inr p \<Rightarrow> if \<not> length p < 2 ^ 32 \<or> length p > MAX_FRAME_LEN then Inl Unencodable else Inr p)"

definition wire_bytes :: "rmp_api \<Rightarrow> frame \<Rightarrow> send_error + bytes" where
  "wire_bytes R f = (case payload R f of
     Inl e \<Rightarrow> Inl e
   | Inr p \<Rightarrow> (case frame_with_len_prefix p of Inl _ \<Rightarrow> Inl Unencodable | Inr b \<Rightarrow> Inr b))"

text \<open>
  The bytes a batch writes. The socket takes them whole or fails, which ends the connection; a
  frame that does not encode refuses the batch before anything is written.
\<close>

fun batch_bytes :: "rmp_api \<Rightarrow> frame list \<Rightarrow> send_error + bytes" where
  "batch_bytes R [] = Inr []"
| "batch_bytes R (f # fs) = (case wire_bytes R f of
     Inl e \<Rightarrow> Inl e
   | Inr b \<Rightarrow> (case batch_bytes R fs of Inl e \<Rightarrow> Inl e | Inr c \<Rightarrow> Inr (b @ c)))"

record read_state =
  rs_buf :: bytes
  rs_done :: bool

definition from_stream :: read_state where
  "from_stream = \<lparr>rs_buf = [], rs_done = False\<rparr>"

text \<open>What a \<open>read\<close> of the socket's half answers; no bytes are the end of the stream.\<close>

datatype socket_read = Bytes bytes | ReadFailed

text \<open>
  \<open>recv\<close> over the reads the socket will answer: the frame or the close it returns, or
  \<open>Awaiting\<close> when the reads end with the loop waiting for the next one.
\<close>

datatype 'a polled = Ready 'a | Awaiting

fun recv :: "rmp_api \<Rightarrow> read_state \<Rightarrow> socket_read list \<Rightarrow> frame option polled \<times> read_state \<times> socket_read list" where
  "recv R rs reads =
     (if rs_done rs then (Ready None, rs, reads)
      else case try_read_framed (rs_buf rs) of
        (Inr (Some p), buf) \<Rightarrow> (case decode_frame R p of
            Inr f \<Rightarrow> (Ready (Some f), rs\<lparr>rs_buf := buf\<rparr>, reads)
          | Inl _ \<Rightarrow> (Ready None, \<lparr>rs_buf = buf, rs_done = True\<rparr>, reads))
      | (Inr None, buf) \<Rightarrow> (case reads of
            [] \<Rightarrow> (Awaiting, rs, [])
          | Bytes [] # rest \<Rightarrow> (Ready None, rs\<lparr>rs_done := True\<rparr>, rest)
          | Bytes chunk # rest \<Rightarrow> recv R (rs\<lparr>rs_buf := buf @ chunk\<rparr>) rest
          | ReadFailed # rest \<Rightarrow> (Ready None, rs\<lparr>rs_done := True\<rparr>, rest))
      | (Inl _, buf) \<Rightarrow> (Ready None, rs\<lparr>rs_done := True\<rparr>, reads))"

text \<open>The frames the first \<open>n\<close> calls give, until one waits or reports the close.\<close>

fun recv_frames :: "rmp_api \<Rightarrow> nat \<Rightarrow> read_state \<Rightarrow> socket_read list \<Rightarrow> frame list \<times> read_state \<times> socket_read list" where
  "recv_frames R 0 rs reads = ([], rs, reads)"
| "recv_frames R (Suc n) rs reads = (case recv R rs reads of
     (Ready (Some f), rs', reads') \<Rightarrow>
       (case recv_frames R n rs' reads' of (fs, rs'', reads'') \<Rightarrow> (f # fs, rs'', reads''))
   | (_, rs', reads') \<Rightarrow> ([], rs', reads'))"

end
