(* ===== verification/Repl_Wire_Props.thy ===== *)
theory Repl_Wire_Props
  imports Repl_Codec
begin

text \<open>
  The replication wire is transparent: a frame that encodes decodes to itself, and a connection
  hands up exactly the frames its peer wrote, in order, however the socket cuts the byte stream.
  Everything is proved inside the locale \<open>rmp_codec\<close>, from the documented behaviour of the
  msgpack crate alone; the format itself, \<open>msgpack\<close>, is shown to behave so.
\<close>

subsection \<open>Ranges of the types\<close>

definition u64 :: "nat \<Rightarrow> bool" where
  "u64 n \<longleftrightarrow> n < 2 ^ 64"

definition i64 :: "int \<Rightarrow> bool" where
  "i64 v \<longleftrightarrow> - (2 ^ 63) \<le> v \<and> v < 2 ^ 63"

definition watermark_fits :: "watermark \<Rightarrow> bool" where
  "watermark_fits w \<longleftrightarrow> u64 (w_gen w) \<and> u64 (w_counter w)"

definition opt_utf8 :: "bytes option \<Rightarrow> bool" where
  "opt_utf8 s \<longleftrightarrow> (case s of None \<Rightarrow> True | Some s \<Rightarrow> utf8_valid s)"

fun frame_fits :: "frame \<Rightarrow> bool" where
  "frame_fits (PullRequest v caller identity _ since) =
     (v < 2 ^ 16 \<and> utf8_valid caller \<and> opt_utf8 identity \<and> watermark_fits since)"
| "frame_fits (Data d) =
     (watermark_fits (d_at d) \<and> utf8_valid (d_call_ref d) \<and> i64 (d_call_gen d) \<and> i64 (d_call_bgen d) \<and>
      i64 (d_body_ttl_ms d) \<and> i64 (d_origin_now_ms d) \<and> list_all utf8_valid (d_indexes d) \<and>
      opt_utf8 (d_incarnation d))"
| "frame_fits (Noop at) = watermark_fits at"
| "frame_fits (ResetToBootstrap reason) = utf8_valid reason"
| "frame_fits (Position at) = watermark_fits at"
| "frame_fits (ReplicaRefused at r i) = (watermark_fits at \<and> utf8_valid r \<and> opt_utf8 i)"
| "frame_fits (StreamRefused v reason) = (v < 2 ^ 16 \<and> utf8_valid reason)"

declare recv.simps [simp del]

subsection \<open>Writes in order\<close>

lemma in_order_Cons_Inr:
  "in_order (w # ws) = Inr b \<longleftrightarrow> (\<exists>c d. w = Inr c \<and> in_order ws = Inr d \<and> b = c @ d)"
  by (cases w) (auto split: sum.splits)

lemma in_order_append:
  "in_order (xs @ ys) = (case in_order xs of Inl e \<Rightarrow> Inl e | Inr b \<Rightarrow>
     (case in_order ys of Inl e \<Rightarrow> Inl e | Inr c \<Rightarrow> Inr (b @ c)))"
  by (induction xs rule: in_order.induct) (auto split: sum.splits)

lemma in_order_append_Inr:
  "in_order (xs @ ys) = Inr b \<longleftrightarrow> (\<exists>c d. in_order xs = Inr c \<and> in_order ys = Inr d \<and> b = c @ d)"
  by (auto simp: in_order_append split: sum.splits)

lemma enc_length_Inr [simp]: "enc_length n at = Inr l \<longleftrightarrow> n < 2 ^ 32 \<and> l = n"
  by (auto simp: enc_length_def)

lemma enc_array_Inr: "enc_array R n at = Inr b \<longleftrightarrow> n < 2 ^ 32 \<and> b = write_array_len R n"
  by (auto simp: enc_array_def enc_length_def split: sum.splits)

lemma enc_str_Inr: "enc_str R s at = Inr b \<longleftrightarrow> length s < 2 ^ 32 \<and> b = write_str R s"
  by (auto simp: enc_str_def enc_length_def split: sum.splits)

lemma enc_bin_Inr: "enc_bin R s at = Inr b \<longleftrightarrow> length s < 2 ^ 32 \<and> b = write_bin R s"
  by (auto simp: enc_bin_def enc_length_def split: sum.splits)

definition opt_short :: "bytes option \<Rightarrow> bool" where
  "opt_short s \<longleftrightarrow> (case s of None \<Rightarrow> True | Some s \<Rightarrow> length s < 2 ^ 32)"

definition opt_str_bytes :: "rmp_api \<Rightarrow> bytes option \<Rightarrow> bytes" where
  "opt_str_bytes R s = (case s of None \<Rightarrow> write_nil R | Some s \<Rightarrow> write_str R s)"

definition opt_bin_bytes :: "rmp_api \<Rightarrow> bytes option \<Rightarrow> bytes" where
  "opt_bin_bytes R s = (case s of None \<Rightarrow> write_nil R | Some s \<Rightarrow> write_bin R s)"

lemma enc_opt_str_Inr: "enc_opt_str R s at = Inr b \<longleftrightarrow> opt_short s \<and> b = opt_str_bytes R s"
  by (auto simp: enc_opt_str_def opt_short_def opt_str_bytes_def enc_str_Inr enc_nil_def split: option.splits)

lemma enc_opt_bin_Inr:
  "(case s of Some b \<Rightarrow> enc_bin R b at | None \<Rightarrow> enc_nil R) = Inr b \<longleftrightarrow> opt_short s \<and> b = opt_bin_bytes R s"
  by (auto simp: opt_short_def opt_bin_bytes_def enc_bin_Inr enc_nil_def split: option.splits)

lemma enc_strs_Inr:
  "in_order (map (\<lambda>s. enc_str R s at) ss) = Inr b \<longleftrightarrow>
     list_all (\<lambda>s. length s < 2 ^ 32) ss \<and> b = concat (map (write_str R) ss)"
  by (induction ss arbitrary: b) (auto simp: in_order_Cons_Inr enc_str_Inr simp del: in_order.simps(2,3))

lemmas written_simps = in_order_append_Inr in_order_Cons_Inr enc_array_Inr enc_str_Inr enc_opt_str_Inr
  enc_opt_bin_Inr enc_strs_Inr enc_uint_def enc_sint_def enc_bool_def

subsection \<open>Reading back what was written\<close>

lemma rbind_Inr: "m rd = Inr (x, rd') \<Longrightarrow> rbind m f rd = f x rd'"
  by (simp add: rbind_def)

lemma take_n_append [simp]: "length b = n \<Longrightarrow> take_n n at (b @ r) = Inr (b, r)"
  by (simp add: take_n_def)

context rmp_codec
begin

lemma read_array_len_law: "n < 2 ^ 32 \<Longrightarrow> read_array_len R at (write_array_len R n @ r) = Inr (n, r)"
  by (simp add: read_array_len_def array_len_law)

lemma read_u64_law: "u64 n \<Longrightarrow> read_u64 R at (write_uint R n @ r) = Inr (n, r)"
  by (simp add: u64_def read_u64_def read_int_in_def rbind_def rreturn_def uint_law)

lemma read_u16_law: "n < 2 ^ 16 \<Longrightarrow> read_u16 R at (write_uint R n @ r) = Inr (n, r)"
  by (simp add: read_u16_def read_int_in_def rbind_def rreturn_def uint_law)

lemma read_u8_law: "n < 2 ^ 8 \<Longrightarrow> read_u8 R at (write_uint R n @ r) = Inr (n, r)"
  by (simp add: read_u8_def read_int_in_def rbind_def rreturn_def uint_law)

lemma read_i64_law: "i64 v \<Longrightarrow> read_i64 R at (write_sint R v @ r) = Inr (v, r)"
  by (simp add: i64_def read_i64_def read_int_in_def sint_law)

lemma read_bool_law: "read_bool R at (write_bool R b @ r) = Inr (b, r)"
  by (simp add: read_bool_def bool_law)

lemma read_str_law:
  "utf8_valid s \<Longrightarrow> length s < 2 ^ 32 \<Longrightarrow> read_str R at (write_str R s @ r) = Inr (s, r)"
  by (simp add: read_str_def str_law rbind_def rreturn_def)

lemma read_opt_str_law:
  assumes "opt_utf8 s" and "opt_short s"
  shows "read_opt_str R at (opt_str_bytes R s @ r) = Inr (s, r)"
proof (cases s)
  case None
  then show ?thesis
    by (simp add: read_opt_str_def opt_str_bytes_def nil_law take_n_def rbind_def rreturn_def)
next
  case (Some t)
  obtain c m where "write_str R t = c # m" "c \<noteq> NULL_BYTE" using str_marker_law by blast
  with Some assms show ?thesis
    using read_str_law [of t at r]
    by (simp add: read_opt_str_def opt_str_bytes_def opt_utf8_def opt_short_def rbind_def rreturn_def)
qed

lemma read_bin_body_law: "length b = n \<Longrightarrow> read_bin_body n at (b @ r) = Inr (Some b, r)"
  by (simp add: read_bin_body_def rbind_def rreturn_def)

lemma read_sized_bin:
  "length b < 256 ^ k \<Longrightarrow>
     rbind (take_n k at) (\<lambda>n. read_bin_body (be_value n) at) (be_bytes k (length b) @ b @ r) = Inr (Some b, r)"
  by (simp add: rbind_def read_bin_body_law)

lemma read_opt_bin_law:
  assumes "opt_short s"
  shows "read_opt_bin R at (opt_bin_bytes R s @ r) = Inr (s, r)"
proof (cases s)
  case None
  then show ?thesis by (simp add: read_opt_bin_def opt_bin_bytes_def nil_law null_marker_law)
next
  case (Some b)
  with assms have b: "length b < 2 ^ 32" by (simp add: opt_short_def)
  consider "length b < 2 ^ 8" | "2 ^ 8 \<le> length b" "length b < 2 ^ 16" | "2 ^ 16 \<le> length b" by linarith
  then show ?thesis
  proof cases
    case 1
    then show ?thesis using bin8_law [of b r] read_sized_bin [of b 1 at r] Some
      by (simp add: read_opt_bin_def opt_bin_bytes_def)
  next
    case 2
    then show ?thesis using bin16_law [of b r] read_sized_bin [of b 2 at r] Some
      by (simp add: read_opt_bin_def opt_bin_bytes_def)
  next
    case 3
    then show ?thesis using bin32_law [of b r] read_sized_bin [of b 4 at r] Some b
      by (simp add: read_opt_bin_def opt_bin_bytes_def)
  qed
qed

lemma read_strs_law:
  "list_all utf8_valid ss \<Longrightarrow> list_all (\<lambda>s. length s < 2 ^ 32) ss \<Longrightarrow>
     read_strs R (length ss) (concat (map (write_str R) ss) @ r) = Inr (ss, r)"
  by (induction ss) (simp_all add: rreturn_def rbind_def read_str_law)

lemmas read_laws = read_array_len_law read_u64_law read_u16_law read_u8_law read_i64_law read_bool_law
  read_str_law read_opt_str_law read_opt_bin_law read_strs_law

lemmas reader_simps = rbind_def rreturn_def expect_len_def discriminant_def decode_tagged_def decode_frame_def
  watermark_fits_def

lemma decode_data_law:
  assumes "frame_fits (Data d)" and "enc_frame R (Data d) = Inr b"
  shows "decode_frame R (b @ r) = Inr (Data d)"
proof -
  from assms(2) have b: "b = write_array_len R 14 @ write_uint R 1 @ write_uint R (w_gen (d_at d)) @
      write_uint R (w_counter (d_at d)) @ write_uint R (op_as_u8 (d_op d)) @
      write_uint R (partition_as_u8 (d_partition d)) @ write_str R (d_call_ref d) @
      write_sint R (d_call_gen d) @ write_sint R (d_call_bgen d) @ write_sint R (d_body_ttl_ms d) @
      write_sint R (d_origin_now_ms d) @ write_array_len R (length (d_indexes d)) @
      concat (map (write_str R) (d_indexes d)) @ opt_bin_bytes R (d_body d) @
      write_bool R (d_answered d) @ opt_str_bytes R (d_incarnation d)"
    and short: "length (d_call_ref d) < 2 ^ 32" "length (d_indexes d) < 2 ^ 32"
      "list_all (\<lambda>s. length s < 2 ^ 32) (d_indexes d)" "opt_short (d_body d)" "opt_short (d_incarnation d)"
    by (simp_all add: written_simps del: in_order.simps(2,3))
  from assms(1) have fits: "u64 (w_gen (d_at d))" "u64 (w_counter (d_at d))" "utf8_valid (d_call_ref d)"
    "i64 (d_call_gen d)" "i64 (d_call_bgen d)" "i64 (d_body_ttl_ms d)" "i64 (d_origin_now_ms d)"
    "list_all utf8_valid (d_indexes d)" "opt_utf8 (d_incarnation d)"
    by (simp_all add: watermark_fits_def)
  have one: "u64 (Suc 0)" by (simp add: u64_def)
  have "decode_data R 14 (drop (length (write_array_len R 14 @ write_uint R 1)) (b @ r)) = Inr (Data d, r)"
    using short fits by (simp add: b decode_data_def reader_simps read_laws)
  then show ?thesis
    by (simp add: b decode_frame_def rbind_def read_array_len_law read_u64_law one decode_tagged_def)
qed

lemma decode_law:
  assumes "frame_fits f" and "enc_frame R f = Inr b"
  shows "decode_frame R (b @ r) = Inr f"
proof (cases f)
  case (Data d)
  with assms decode_data_law show ?thesis by simp
next
  case (PullRequest v caller identity part since)
  with assms read_u8_law [of "partition_as_u8 part"] show ?thesis
    by (auto simp: written_simps read_laws reader_simps decode_pull_request_def u64_def
        simp del: in_order.simps(2,3))
qed (use assms in \<open>auto simp: written_simps read_laws reader_simps decode_noop_def decode_reset_def
  decode_position_def decode_replica_refused_def decode_stream_refused_def u64_def simp del: in_order.simps(2,3)\<close>)

subsection \<open>The connection\<close>

lemma wire_bytes_Inr:
  assumes "wire_bytes R f = Inr b"
  obtains p where "enc_frame R f = Inr p" and "frame_with_len_prefix p = Inr b"
  using assms by (auto simp: wire_bytes_def payload_def encode_frame_def split: sum.splits if_splits)

lemma recv_pop:
  assumes "frame_fits f" and "wire_bytes R f = Inr b" and "\<not> rs_done rs" and "rs_buf rs = b @ rest"
  shows "recv R rs reads = (Ready (Some f), rs\<lparr>rs_buf := rest\<rparr>, reads)"
proof -
  from assms(2) obtain p where p: "enc_frame R f = Inr p" "frame_with_len_prefix p = Inr b"
    by (rule wire_bytes_Inr)
  from decode_law [OF assms(1) p(1), of "[]"] have "decode_frame R p = Inr f" by simp
  with try_read_framed_pop [OF p(2), of rest] assms(3,4) show ?thesis by (subst recv.simps) simp
qed

lemma recv_wait:
  assumes "wire_bytes R f = Inr (rs_buf rs @ missing)" and "missing \<noteq> []" and "\<not> rs_done rs"
  shows "recv R rs (Bytes chunk # reads) =
    (if chunk = [] then (Ready None, rs\<lparr>rs_done := True\<rparr>, reads)
     else recv R (rs\<lparr>rs_buf := rs_buf rs @ chunk\<rparr>) reads)"
proof -
  from assms(1) obtain p where "frame_with_len_prefix p = Inr (rs_buf rs @ missing)"
    by (rule wire_bytes_Inr)
  from try_read_framed_wait [OF this assms(2)] assms(3) show ?thesis
    by (cases chunk) (simp_all add: recv.simps [of R rs])
qed

lemma recv_next:
  assumes "frame_fits f" and "wire_bytes R f = Inr b"
  shows "\<not> rs_done rs \<Longrightarrow> [] \<notin> set chunks \<Longrightarrow> rs_buf rs @ concat chunks = b @ w \<Longrightarrow>
    \<exists>rs' chunks'. recv R rs (map Bytes chunks @ rest) = (Ready (Some f), rs', map Bytes chunks' @ rest) \<and>
      \<not> rs_done rs' \<and> [] \<notin> set chunks' \<and> rs_buf rs' @ concat chunks' = w"
proof (induction chunks arbitrary: rs)
  case Nil
  then have "recv R rs rest = (Ready (Some f), rs\<lparr>rs_buf := w\<rparr>, rest)"
    using recv_pop [OF assms, of rs w rest] by simp
  with Nil show ?case by (intro exI [of _ "rs\<lparr>rs_buf := w\<rparr>"] exI [of _ "[]"]) simp
next
  case (Cons c chunks)
  from append_eq_append_conv2 [THEN iffD1, OF Cons.prems(3)] consider
      (whole) v where "rs_buf rs = b @ v" "v @ concat (c # chunks) = w"
    | (part) v where "b = rs_buf rs @ v" "v \<noteq> []"
    by (metis append_Nil append_Nil2)
  then show ?case
  proof cases
    case whole
    then show ?thesis
      using recv_pop [OF assms Cons.prems(1), of v "map Bytes (c # chunks) @ rest"] Cons.prems
      by (intro exI [of _ "rs\<lparr>rs_buf := v\<rparr>"] exI [of _ "c # chunks"]) simp
  next
    case part
    with assms(2) have "wire_bytes R f = Inr (rs_buf rs @ v)" by simp
    from recv_wait [OF this part(2) Cons.prems(1), of c "map Bytes chunks @ rest"] Cons.prems
    have step: "recv R rs (map Bytes (c # chunks) @ rest) =
        recv R (rs\<lparr>rs_buf := rs_buf rs @ c\<rparr>) (map Bytes chunks @ rest)" by auto
    show ?thesis unfolding step using Cons.prems by (intro Cons.IH) auto
  qed
qed

lemma batch_bytes_Cons_Inr:
  "batch_bytes R (f # fs) = Inr w \<longleftrightarrow> (\<exists>b c. wire_bytes R f = Inr b \<and> batch_bytes R fs = Inr c \<and> w = b @ c)"
  by (auto split: sum.splits)

lemma recv_batch:
  assumes "list_all frame_fits fs" and "batch_bytes R fs = Inr w"
    and "\<not> rs_done rs" and "[] \<notin> set chunks" and "rs_buf rs @ concat chunks = w @ v"
  shows "\<exists>rs' chunks'. recv_frames R (length fs + n) rs (map Bytes chunks @ rest) =
      (case recv_frames R n rs' (map Bytes chunks' @ rest) of (gs, q) \<Rightarrow> (fs @ gs, q)) \<and>
      \<not> rs_done rs' \<and> [] \<notin> set chunks' \<and> rs_buf rs' @ concat chunks' = v"
  using assms
proof (induction fs arbitrary: rs chunks w)
  case Nil
  then show ?case by (intro exI [of _ rs] exI [of _ chunks]) (auto split: prod.split)
next
  case (Cons f fs)
  from Cons.prems(2) obtain b c where b: "wire_bytes R f = Inr b" "batch_bytes R fs = Inr c" "w = b @ c"
    by (auto simp: batch_bytes_Cons_Inr simp del: batch_bytes.simps)
  from Cons.prems have f: "frame_fits f" and fs: "list_all frame_fits fs" by simp_all
  from recv_next [OF f b(1) Cons.prems(3,4), of "c @ v" rest] Cons.prems(5) b(3)
  obtain rs1 chunks1 where one: "recv R rs (map Bytes chunks @ rest) = (Ready (Some f), rs1, map Bytes chunks1 @ rest)"
    and st: "\<not> rs_done rs1" "[] \<notin> set chunks1" "rs_buf rs1 @ concat chunks1 = c @ v" by auto
  from Cons.IH [OF fs b(2) st] obtain rs2 chunks2 where
    "recv_frames R (length fs + n) rs1 (map Bytes chunks1 @ rest) =
      (case recv_frames R n rs2 (map Bytes chunks2 @ rest) of (gs, q) \<Rightarrow> (fs @ gs, q))"
    and "\<not> rs_done rs2" "[] \<notin> set chunks2" "rs_buf rs2 @ concat chunks2 = v" by blast
  with one show ?case by (intro exI [of _ rs2] exI [of _ chunks2]) (auto split: prod.splits)
qed

lemma recv_idle:
  "\<not> rs_done rs \<Longrightarrow> rs_buf rs = [] \<Longrightarrow> recv R rs [] = (Awaiting, rs, [])"
  by (subst recv.simps) (simp add: try_read_framed_def)

lemma recv_cut:
  assumes "wire_bytes R f = Inr (part @ missing)" and "missing \<noteq> []"
  shows "\<not> rs_done rs \<Longrightarrow> [] \<notin> set chunks \<Longrightarrow> rs_buf rs @ concat chunks = part \<Longrightarrow>
    recv R rs (map Bytes chunks @ Bytes [] # rest) = (Ready None, \<lparr>rs_buf = part, rs_done = True\<rparr>, rest)"
proof (induction chunks arbitrary: rs)
  case Nil
  then show ?case using recv_wait [of f rs missing "[]" rest] assms by simp
next
  case (Cons c chunks)
  have "wire_bytes R f = Inr (rs_buf rs @ (concat (c # chunks) @ missing))"
    using assms(1) Cons.prems(3) by (simp flip: append_assoc)
  from recv_wait [OF this _ Cons.prems(1), of c "map Bytes chunks @ Bytes [] # rest"] assms(2) Cons.prems
  show ?case using Cons.IH [of "rs\<lparr>rs_buf := rs_buf rs @ c\<rparr>"] by auto
qed

end

subsection \<open>The msgpack format\<close>

text \<open>The primitives as the msgpack specification lays values out, each with its smallest marker.\<close>

definition mp_tagged :: "nat \<Rightarrow> nat \<Rightarrow> nat \<Rightarrow> bytes" where
  "mp_tagged tag k n = char_of tag # be_bytes k n"

definition mp_uint :: "nat \<Rightarrow> bytes" where
  "mp_uint n = (if n < 128 then [char_of n]
     else if n < 2 ^ 8 then mp_tagged 0xCC 1 n
     else if n < 2 ^ 16 then mp_tagged 0xCD 2 n
     else if n < 2 ^ 32 then mp_tagged 0xCE 4 n
     else mp_tagged 0xCF 8 n)"

definition mp_sint :: "int \<Rightarrow> bytes" where
  "mp_sint v = (if 0 \<le> v then mp_uint (nat v)
     else if - 32 \<le> v then [char_of (nat (v + 256))]
     else if - (2 ^ 7) \<le> v then mp_tagged 0xD0 1 (nat (v + 2 ^ 8))
     else if - (2 ^ 15) \<le> v then mp_tagged 0xD1 2 (nat (v + 2 ^ 16))
     else if - (2 ^ 31) \<le> v then mp_tagged 0xD2 4 (nat (v + 2 ^ 32))
     else mp_tagged 0xD3 8 (nat (v + 2 ^ 64)))"

definition mp_array_len :: "nat \<Rightarrow> bytes" where
  "mp_array_len n = (if n < 16 then [char_of (0x90 + n)]
     else if n < 2 ^ 16 then mp_tagged 0xDC 2 n else mp_tagged 0xDD 4 n)"

definition mp_str :: "bytes \<Rightarrow> bytes" where
  "mp_str s = (let n = length s in
     if n < 32 then [char_of (0xA0 + n)]
     else if n < 2 ^ 8 then mp_tagged 0xD9 1 n
     else if n < 2 ^ 16 then mp_tagged 0xDA 2 n else mp_tagged 0xDB 4 n) @ s"

definition mp_bin :: "bytes \<Rightarrow> bytes" where
  "mp_bin b = (let n = length b in
     if n < 2 ^ 8 then mp_tagged 0xC4 1 n
     else if n < 2 ^ 16 then mp_tagged 0xC5 2 n else mp_tagged 0xC6 4 n) @ b"

definition mp_num :: "nat \<Rightarrow> bytes \<Rightarrow> (nat \<times> bytes) option" where
  "mp_num k rd = (if length rd < k then None else Some (be_value (take k rd), drop k rd))"

definition mp_read_int :: "int \<Rightarrow> int \<Rightarrow> bytes \<Rightarrow> num_value_read_error + int \<times> bytes" where
  "mp_read_int lo hi rd = (case rd of [] \<Rightarrow> Inl NumInvalidMarkerRead | c # r \<Rightarrow>
     let m = of_char c;
         ranged = (\<lambda>v r. if lo \<le> v \<and> v \<le> hi then Inr (v, r) else Inl OutOfRange);
         unsigned = (\<lambda>k. case mp_num k r of None \<Rightarrow> Inl NumInvalidDataRead | Some (n, r) \<Rightarrow> ranged (int n) r);
         signed = (\<lambda>k. case mp_num k r of None \<Rightarrow> Inl NumInvalidDataRead
           | Some (n, r) \<Rightarrow> ranged (if 2 * n < 256 ^ k then int n else int n - 256 ^ k) r)
     in if m < 128 then ranged (int m) r
        else if 224 \<le> m then ranged (int m - 256) r
        else if m = 0xCC then unsigned 1 else if m = 0xCD then unsigned 2
        else if m = 0xCE then unsigned 4 else if m = 0xCF then unsigned 8
        else if m = 0xD0 then signed 1 else if m = 0xD1 then signed 2
        else if m = 0xD2 then signed 4 else if m = 0xD3 then signed 8
        else Inl NumTypeMismatch)"

definition mp_len :: "(nat \<Rightarrow> bytes \<Rightarrow> value_read_error + nat \<times> bytes)
    \<Rightarrow> bytes \<Rightarrow> value_read_error + nat \<times> bytes" where
  "mp_len f rd = (case rd of [] \<Rightarrow> Inl InvalidMarkerRead | c # r \<Rightarrow> f (of_char c) r)"

definition mp_sized :: "nat \<Rightarrow> bytes \<Rightarrow> value_read_error + nat \<times> bytes" where
  "mp_sized k r = (case mp_num k r of None \<Rightarrow> Inl InvalidDataRead | Some x \<Rightarrow> Inr x)"

definition mp_read_array_len :: "bytes \<Rightarrow> value_read_error + nat \<times> bytes" where
  "mp_read_array_len = mp_len (\<lambda>m r.
     if 0x90 \<le> m \<and> m < 0xA0 then Inr (m - 0x90, r)
     else if m = 0xDC then mp_sized 2 r else if m = 0xDD then mp_sized 4 r else Inl TypeMismatch)"

definition mp_read_str_len :: "bytes \<Rightarrow> value_read_error + nat \<times> bytes" where
  "mp_read_str_len = mp_len (\<lambda>m r.
     if 0xA0 \<le> m \<and> m < 0xC0 then Inr (m - 0xA0, r)
     else if m = 0xD9 then mp_sized 1 r else if m = 0xDA then mp_sized 2 r
     else if m = 0xDB then mp_sized 4 r else Inl TypeMismatch)"

definition mp_read_bool :: "bytes \<Rightarrow> value_read_error + bool \<times> bytes" where
  "mp_read_bool rd = (case rd of [] \<Rightarrow> Inl InvalidMarkerRead | c # r \<Rightarrow>
     let m = of_char c in
     if m = (0xC2 :: nat) then Inr (False, r) else if m = 0xC3 then Inr (True, r) else Inl TypeMismatch)"

definition mp_read_marker :: "bytes \<Rightarrow> (marker \<times> bytes) option" where
  "mp_read_marker rd = (case rd of [] \<Rightarrow> None | c # r \<Rightarrow>
     let m = of_char c in
     Some (if m = 0xC0 then NullMarker else if m = 0xC4 then Bin8 else if m = 0xC5 then Bin16
       else if m = 0xC6 then Bin32 else OtherMarker m, r))"

definition msgpack :: rmp_api where
  "msgpack = \<lparr>write_array_len = mp_array_len, write_uint = mp_uint, write_sint = mp_sint,
     write_str = mp_str, write_bin = mp_bin, write_nil = [NULL_BYTE],
     write_bool = (\<lambda>b. [char_of (if b then 0xC3 else 0xC2 :: nat)]),
     rmp_array_len = mp_read_array_len, rmp_int = mp_read_int, rmp_bool = mp_read_bool,
     rmp_str_len = mp_read_str_len, rmp_marker = mp_read_marker\<rparr>"

lemma mp_num_be [simp]: "n < 256 ^ k \<Longrightarrow> mp_num k (be_bytes k n @ r) = Some (n, r)"
  by (simp add: mp_num_def)

lemma mp_read_uint:
  assumes "n < 2 ^ 64" and "lo \<le> int n" and "int n \<le> hi"
  shows "mp_read_int lo hi (mp_uint n @ r) = Inr (int n, r)"
  using assms mp_num_be [of n 1 r] mp_num_be [of n 2 r] mp_num_be [of n 4 r] mp_num_be [of n 8 r]
  by (simp add: mp_uint_def mp_read_int_def mp_tagged_def Let_def)

definition mp_signed_tag :: "nat \<Rightarrow> nat" where
  "mp_signed_tag k = (if k = 1 then 0xD0 else if k = 2 then 0xD1 else if k = 4 then 0xD2 else 0xD3)"

lemma mp_read_signed:
  assumes "lo \<le> v" and "v \<le> hi" and "v < 0" and "- (256 ^ k) \<le> 2 * v" and "k \<in> {1, 2, 4, 8}"
  shows "mp_read_int lo hi (mp_tagged (mp_signed_tag k) k (nat (v + 256 ^ k)) @ r) = Inr (v, r)"
proof -
  define n where "n = nat (v + 256 ^ k)"
  have n: "n < 256 ^ k" "int n = v + 256 ^ k" using assms(3,4) by (auto simp: n_def nat_less_iff)
  from n(2) assms(4) have "int (256 ^ k) \<le> int (2 * n)" by simp
  then have h: "\<not> 2 * n < 256 ^ k" by (simp only: of_nat_le_iff not_less)
  note num = mp_num_be [OF n(1), of r]
  from assms(5) consider "k = 1" | "k = 2" | "k = 4" | "k = 8" by auto
  then have "mp_read_int lo hi (mp_tagged (mp_signed_tag k) k n @ r) = Inr (v, r)"
  proof cases
    case 1
    with n h num assms(1,2) show ?thesis by (simp add: mp_read_int_def mp_tagged_def mp_signed_tag_def)
  next
    case 2
    with n h num assms(1,2) show ?thesis by (simp add: mp_read_int_def mp_tagged_def mp_signed_tag_def)
  next
    case 3
    with n h num assms(1,2) show ?thesis by (simp add: mp_read_int_def mp_tagged_def mp_signed_tag_def)
  next
    case 4
    with n h num assms(1,2) show ?thesis by (simp add: mp_read_int_def mp_tagged_def mp_signed_tag_def)
  qed
  then show ?thesis by (simp add: n_def)
qed

lemma mp_read_sint:
  assumes "- (2 ^ 63) \<le> v" and "v < 2 ^ 63" and "lo \<le> v" and "v \<le> hi"
  shows "mp_read_int lo hi (mp_sint v @ r) = Inr (v, r)"
proof -
  consider "0 \<le> v" | "- 32 \<le> v" "v < 0" | "- (2 ^ 7) \<le> v" "v < - 32" | "- (2 ^ 15) \<le> v" "v < - (2 ^ 7)"
    | "- (2 ^ 31) \<le> v" "v < - (2 ^ 15)" | "v < - (2 ^ 31)" by linarith
  then show ?thesis
  proof cases
    case 1
    with assms mp_read_uint [of "nat v" lo hi r] show ?thesis by (simp add: mp_sint_def)
  next
    case 2
    with assms show ?thesis by (simp add: mp_sint_def mp_read_int_def Let_def)
  next
    case 3
    with assms mp_read_signed [of lo v hi 1 r] show ?thesis by (simp add: mp_sint_def mp_signed_tag_def)
  next
    case 4
    with assms mp_read_signed [of lo v hi 2 r] show ?thesis by (simp add: mp_sint_def mp_signed_tag_def)
  next
    case 5
    with assms mp_read_signed [of lo v hi 4 r] show ?thesis by (simp add: mp_sint_def mp_signed_tag_def)
  next
    case 6
    with assms mp_read_signed [of lo v hi 8 r] show ?thesis by (simp add: mp_sint_def mp_signed_tag_def)
  qed
qed

lemma mp_sized_be [simp]: "n < 256 ^ k \<Longrightarrow> mp_sized k (be_bytes k n @ r) = Inr (n, r)"
  by (simp add: mp_sized_def)

lemma mp_array_len_read: "n < 2 ^ 32 \<Longrightarrow> mp_read_array_len (mp_array_len n @ r) = Inr (n, r)"
  using mp_sized_be [of n 2 r] mp_sized_be [of n 4 r]
  by (simp add: mp_array_len_def mp_read_array_len_def mp_len_def mp_tagged_def)

lemma mp_str_read: "length s < 2 ^ 32 \<Longrightarrow> mp_read_str_len (mp_str s @ r) = Inr (length s, s @ r)"
  using mp_sized_be [of "length s" 1 "s @ r"] mp_sized_be [of "length s" 2 "s @ r"]
    mp_sized_be [of "length s" 4 "s @ r"]
  by (simp add: mp_str_def mp_read_str_len_def mp_len_def mp_tagged_def Let_def)

lemma char_of_neq: "a mod 256 \<noteq> b mod 256 \<Longrightarrow> char_of a \<noteq> char_of (b :: nat)"
  by (metis of_char_of)

interpretation mp: rmp_codec msgpack
proof
  fix n :: nat and r s b :: bytes and v lo hi :: int and v' :: bool
  show "n < 2 ^ 32 \<Longrightarrow> rmp_array_len msgpack (write_array_len msgpack n @ r) = Inr (n, r)"
    by (simp add: msgpack_def mp_array_len_read)
  show "n < 2 ^ 64 \<Longrightarrow> lo \<le> int n \<Longrightarrow> int n \<le> hi \<Longrightarrow>
      rmp_int msgpack lo hi (write_uint msgpack n @ r) = Inr (int n, r)"
    by (simp add: msgpack_def mp_read_uint)
  show "- (2 ^ 63) \<le> v \<Longrightarrow> v < 2 ^ 63 \<Longrightarrow> lo \<le> v \<Longrightarrow> v \<le> hi \<Longrightarrow>
      rmp_int msgpack lo hi (write_sint msgpack v @ r) = Inr (v, r)"
    by (simp add: msgpack_def mp_read_sint)
  show "rmp_bool msgpack (write_bool msgpack v' @ r) = Inr (v', r)"
    by (simp add: msgpack_def mp_read_bool_def)
  show "length s < 2 ^ 32 \<Longrightarrow> rmp_str_len msgpack (write_str msgpack s @ r) = Inr (length s, s @ r)"
    by (simp add: msgpack_def mp_str_read)
  show "\<exists>c m. write_str msgpack s = c # m \<and> c \<noteq> NULL_BYTE"
    by (auto simp: msgpack_def mp_str_def Let_def mp_tagged_def NULL_BYTE_def intro!: char_of_neq)
  show "write_nil msgpack = [NULL_BYTE]" by (simp add: msgpack_def)
  show "rmp_marker msgpack (NULL_BYTE # r) = Some (NullMarker, r)"
    by (simp add: msgpack_def mp_read_marker_def NULL_BYTE_def)
  show "length b < 2 ^ 8 \<Longrightarrow>
      rmp_marker msgpack (write_bin msgpack b @ r) = Some (Bin8, be_bytes 1 (length b) @ b @ r)"
    by (simp add: msgpack_def mp_bin_def mp_tagged_def mp_read_marker_def)
  show "2 ^ 8 \<le> length b \<Longrightarrow> length b < 2 ^ 16 \<Longrightarrow>
      rmp_marker msgpack (write_bin msgpack b @ r) = Some (Bin16, be_bytes 2 (length b) @ b @ r)"
    by (simp add: msgpack_def mp_bin_def mp_tagged_def mp_read_marker_def)
  show "2 ^ 16 \<le> length b \<Longrightarrow> length b < 2 ^ 32 \<Longrightarrow>
      rmp_marker msgpack (write_bin msgpack b @ r) = Some (Bin32, be_bytes 4 (length b) @ b @ r)"
    by (simp add: msgpack_def mp_bin_def mp_tagged_def mp_read_marker_def)
qed

subsection \<open>The properties\<close>

text \<open>
  C21: whatever the frames (their fields within their types), if the batch encodes, then a fresh
  connection that reads the bytes it wrote, cut by the socket in any way, hands up exactly those
  frames in order, and is left empty and open with what follows unread.
\<close>

theorem wire_transparent:
  assumes "rmp_codec R" and "list_all frame_fits fs" and "batch_bytes R fs = Inr w"
    and "concat chunks = w" and "[] \<notin> set chunks"
  shows "recv_frames R (length fs) from_stream (map Bytes chunks @ rest) = (fs, from_stream, rest)"
proof -
  from rmp_codec.recv_batch [OF assms(1-3), of from_stream chunks "[]" 0 rest] assms(4,5)
  obtain rs chunks' where r: "recv_frames R (length fs) from_stream (map Bytes chunks @ rest) =
      (fs, rs, map Bytes chunks' @ rest)"
    and st: "\<not> rs_done rs" "[] \<notin> set chunks'" "rs_buf rs @ concat chunks' = []"
    by (auto simp: from_stream_def)
  from st(2,3) have "chunks' = []" by (cases chunks') auto
  with st have "rs = from_stream" by (simp add: from_stream_def)
  with r \<open>chunks' = []\<close> show ?thesis by simp
qed

definition frames0 :: "frame list" where
  "frames0 = [PullRequest PROTO_VER ''w1'' None Bak (Watermark 3 9),
     Data \<lparr>d_at = Watermark 3 10, d_op = Put, d_partition = Bak, d_call_ref = ''w0|c1|t1'', d_call_gen = 2,
       d_call_bgen = - 1, d_body_ttl_ms = - 40, d_origin_now_ms = 300, d_indexes = [''leg:a'', ''leg:b''],
       d_body = Some ''body'', d_answered = False, d_incarnation = Some ''i1''\<rparr>]"

definition wire0 :: bytes where
  "wire0 = projr (batch_bytes msgpack frames0)"

lemma wire0_batch: "batch_bytes msgpack frames0 = Inr wire0"
  by (simp add: wire0_def frames0_def PROTO_VER_def wire_bytes_def payload_def encode_frame_def
      enc_array_def enc_length_def enc_uint_def enc_sint_def enc_str_def enc_bin_def enc_opt_str_def enc_nil_def
      enc_bool_def msgpack_def mp_array_len_def mp_uint_def mp_sint_def mp_str_def mp_bin_def mp_tagged_def
      frame_with_len_prefix_def MAX_FRAME_LEN_def)

lemma frames0_fit: "list_all frame_fits frames0"
  by (simp add: frames0_def PROTO_VER_def utf8_valid_def opt_utf8_def watermark_fits_def u64_def i64_def)

lemma wire0_first: "\<exists>b c. wire_bytes msgpack (hd frames0) = Inr b \<and> wire0 = b @ c \<and> 4 \<le> length b"
proof -
  have "frames0 = hd frames0 # tl frames0" by (simp add: frames0_def)
  then obtain b c where b: "wire_bytes msgpack (hd frames0) = Inr b" "wire0 = b @ c"
    using wire0_batch mp.batch_bytes_Cons_Inr by metis
  from b(1) obtain p where "frame_with_len_prefix p = Inr b" by (rule mp.wire_bytes_Inr)
  then have "4 \<le> length b" by (simp add: frame_with_len_prefix_ok)
  with b show ?thesis by blast
qed

lemma wire0_length: "4 \<le> length wire0" and wire0_nonempty: "wire0 \<noteq> []"
proof -
  obtain b c where b: "wire0 = b @ c" "4 \<le> length b" using wire0_first by blast
  have "length b \<le> length wire0" unfolding b(1) by simp
  with b(2) show "4 \<le> length wire0" by simp
  then show "wire0 \<noteq> []" by auto
qed

lemma frames0_length: "length frames0 = 2"
  by (simp add: frames0_def)

theorem wire_transparent_witness:
  "recv_frames msgpack 2 from_stream (map Bytes [take 3 wire0, drop 3 wire0] @ [ReadFailed]) =
    (frames0, from_stream, [ReadFailed])"
  using wire_transparent [OF mp.rmp_codec_axioms frames0_fit wire0_batch, of "[take 3 wire0, drop 3 wire0]" "[ReadFailed]"]
    wire0_length wire0_nonempty
  by (simp add: frames0_length del: recv_frames.simps)

text \<open>
  C39: a stream cut inside a frame hands up every frame before it and then reports the close; no
  part of the cut frame is ever handed up.
\<close>

theorem wire_cut_hands_up_whole_frames:
  assumes "rmp_codec R" and "list_all frame_fits fs" and "batch_bytes R fs = Inr w"
    and "wire_bytes R f = Inr (part @ missing)" and "missing \<noteq> []"
    and "concat chunks = w @ part" and "[] \<notin> set chunks"
  shows "recv_frames R (length fs + Suc n) from_stream (map Bytes chunks @ Bytes [] # rest) =
    (fs, \<lparr>rs_buf = part, rs_done = True\<rparr>, rest)"
proof -
  from rmp_codec.recv_batch [OF assms(1-3), of from_stream chunks part "Suc n" "Bytes [] # rest"] assms(6,7)
  obtain rs chunks' where r: "recv_frames R (length fs + Suc n) from_stream (map Bytes chunks @ Bytes [] # rest) =
      (case recv_frames R (Suc n) rs (map Bytes chunks' @ Bytes [] # rest) of (gs, q) \<Rightarrow> (fs @ gs, q))"
    and st: "\<not> rs_done rs" "[] \<notin> set chunks'" "rs_buf rs @ concat chunks' = part"
    by (auto simp: from_stream_def simp del: recv_frames.simps)
  with rmp_codec.recv_cut [OF assms(1,4,5) st, of rest] show ?thesis by simp
qed

theorem wire_cut_witness:
  "recv_frames msgpack 3 from_stream [Bytes wire0, Bytes (take 2 wire0), Bytes []] =
    (frames0, \<lparr>rs_buf = take 2 wire0, rs_done = True\<rparr>, [])"
proof -
  obtain b c where b: "wire_bytes msgpack (hd frames0) = Inr b" "wire0 = b @ c" "4 \<le> length b"
    using wire0_first by blast
  from b(3) have "take 2 wire0 = take 2 b" unfolding b(2) by simp
  with b(1) have "wire_bytes msgpack (hd frames0) = Inr (take 2 wire0 @ drop 2 b)" by simp
  from wire_cut_hands_up_whole_frames [OF mp.rmp_codec_axioms frames0_fit wire0_batch this, of "[wire0, take 2 wire0]" 0 "[]"] b(3)
  show ?thesis by (simp add: frames0_length wire0_nonempty wire0_nonempty [symmetric] numeral_3_eq_3 numeral_2_eq_2 del: recv_frames.simps)
qed

end
