(* ===== verification/Changelog.thy ===== *)
theory Changelog
  imports Repl_Frame
begin

text \<open>
  The per-peer compacted changelog of \<open>src/crates/b2bua/src/repl/changelog.rs\<close> and its parts
  (\<open>changelog/progress.rs\<close>, \<open>backlog.rs\<close>, \<open>drain.rs\<close>, \<open>held.rs\<close>, \<open>serving.rs\<close>,
  \<open>source.rs\<close>): per peer and partition the log of the last write of each call, the position the
  peer reported applying, and the streams open on it.

  Every method is one critical section on the changelog's lock and one definition here; the drain,
  which drops its lock between the snapshot and the body reads, is two. A \<open>BTreeMap\<close> is its
  list of entries in ascending key order, a \<open>HashMap\<close> a map. The wall clock \<open>now_ms\<close> and the
  monotonic clock \<open>inst\<close> are arguments. A \<open>watch\<close> channel is its value, with a version for the
  one a serve task waits on. Counters do not overflow.
\<close>

subsection \<open>The log of one flow\<close>

record ref_state =
  rf_counter :: nat
  first_sent :: "nat option"
  rf_op :: repl_op
  written_ms :: int
  rf_answered :: bool
  rf_incarnation :: "bytes option"

record due_entry =
  du_counter :: nat
  du_call_ref :: bytes
  du_op :: repl_op
  du_answered :: bool
  du_incarnation :: "bytes option"

record claim =
  cm_at :: watermark
  cm_made :: instant

record sub_log =
  sl_entries :: "(nat \<times> bytes) list"
  sl_by_ref :: "bytes \<rightharpoonup> ref_state"
  sl_retained_floor :: nat
  sl_opened :: nat
  sl_head :: nat
  sl_applied :: "claim option"
  sl_streams :: nat
  sl_acked :: watermark
  sl_unbound :: "(bytes \<times> watermark) option"
  sl_flow_started :: "instant option"
  sl_written :: nat
  sl_written_version :: nat

definition sub_log_new :: "nat \<Rightarrow> sub_log" where
  "sub_log_new retained_floor =
     \<lparr>sl_entries = [], sl_by_ref = Map.empty, sl_retained_floor = retained_floor,
      sl_opened = retained_floor, sl_head = 0, sl_applied = None, sl_streams = 0,
      sl_acked = Watermark 0 0, sl_unbound = None, sl_flow_started = None,
      sl_written = 0, sl_written_version = 0\<rparr>"

record stated =
  st_answered :: bool
  st_incarnation :: "bytes option"

definition stated_default :: stated where
  "stated_default = \<lparr>st_answered = False, st_incarnation = None\<rparr>"

text \<open>The new state of a ref written over \<open>prev\<close>, \<open>acked\<close> being the position the peer holds.\<close>

definition put_state :: "ref_state option \<Rightarrow> nat \<Rightarrow> nat \<Rightarrow> repl_op \<Rightarrow> int \<Rightarrow> stated \<Rightarrow> ref_state" where
  "put_state prev acked c op now_ms s =
     \<lparr>rf_counter = c,
      first_sent = (case prev of
          None \<Rightarrow> None
        | Some p \<Rightarrow> if op = Delete \<or> rf_op p = Put
            then (case first_sent p of Some sent \<Rightarrow> if sent \<le> acked then Some sent else None | None \<Rightarrow> None)
            else None),
      rf_op = op, written_ms = now_ms,
      rf_answered = (st_answered s \<or>
        (case prev of None \<Rightarrow> False | Some p \<Rightarrow> op = Delete \<and> rf_op p = Delete \<and> rf_answered p)),
      rf_incarnation = st_incarnation s\<rparr>"

definition sub_put :: "nat \<Rightarrow> bytes \<Rightarrow> repl_op \<Rightarrow> int \<Rightarrow> stated \<Rightarrow> sub_log \<Rightarrow> sub_log" where
  "sub_put c call_ref op now_ms s sl =
     (let prev = sl_by_ref sl call_ref;
          es = (case prev of None \<Rightarrow> sl_entries sl | Some p \<Rightarrow> bt_remove (rf_counter p) (sl_entries sl));
          hd' = max (sl_head sl) c
      in sl\<lparr>sl_entries := bt_insert c call_ref es,
            sl_by_ref := (sl_by_ref sl)(call_ref \<mapsto>
              put_state prev (w_counter (sl_acked sl)) c op now_ms s),
            sl_head := hd', sl_written := hd',
            sl_written_version := Suc (sl_written_version sl)\<rparr>)"

definition sub_forget :: "bytes \<Rightarrow> sub_log \<Rightarrow> sub_log" where
  "sub_forget call_ref sl = (case sl_by_ref sl call_ref of
     None \<Rightarrow> sl
   | Some st \<Rightarrow> sl\<lparr>sl_by_ref := (sl_by_ref sl)(call_ref := None),
       sl_entries := bt_remove (rf_counter st) (sl_entries sl)\<rparr>)"

definition mark_sent :: "nat \<Rightarrow> bytes \<Rightarrow> (bytes \<rightharpoonup> ref_state) \<Rightarrow> (bytes \<rightharpoonup> ref_state)" where
  "mark_sent c call_ref m = (case m call_ref of
     None \<Rightarrow> m
   | Some st \<Rightarrow> m(call_ref \<mapsto> st\<lparr>first_sent := Some (case first_sent st of None \<Rightarrow> c | Some x \<Rightarrow> x)\<rparr>))"

definition due_entries :: "nat \<Rightarrow> bool \<Rightarrow> nat \<Rightarrow> sub_log \<Rightarrow> (nat \<times> bytes) list" where
  "due_entries since cold limit sl = take limit (filter (\<lambda>(c, _). cold \<or> since < c) (sl_entries sl))"

definition due_of :: "sub_log \<Rightarrow> nat \<times> bytes \<Rightarrow> due_entry option" where
  "due_of sl e = (case e of (c, r) \<Rightarrow> map_option (\<lambda>st.
     \<lparr>du_counter = c, du_call_ref = r, du_op = rf_op st, du_answered = rf_answered st,
      du_incarnation = rf_incarnation st\<rparr>) (sl_by_ref sl r))"

definition sub_due :: "nat \<Rightarrow> bool \<Rightarrow> nat \<Rightarrow> sub_log \<Rightarrow> sub_log \<times> due_entry list" where
  "sub_due since cold limit sl =
     (let es = due_entries since cold limit sl
      in (sl\<lparr>sl_by_ref := fold (\<lambda>(c, r). mark_sent c r) es (sl_by_ref sl)\<rparr>,
          List.map_filter (due_of sl) es))"

text \<open>\<open>reap_sublog\<close>: the deletes the peer reported applying go, the floor rises over them.\<close>

definition reapable :: "sub_log \<Rightarrow> bytes list" where
  "reapable sl = map snd (filter (\<lambda>(c, r). c \<le> w_counter (sl_acked sl) \<and>
     (case sl_by_ref sl r of Some st \<Rightarrow> rf_op st = Delete | None \<Rightarrow> False)) (sl_entries sl))"

definition reap_one :: "bytes \<Rightarrow> sub_log \<Rightarrow> sub_log" where
  "reap_one r sl = (case sl_by_ref sl r of
     None \<Rightarrow> sl
   | Some st \<Rightarrow> sl\<lparr>sl_by_ref := (sl_by_ref sl)(r := None),
       sl_entries := bt_remove (rf_counter st) (sl_entries sl),
       sl_retained_floor := max (sl_retained_floor sl) (rf_counter st)\<rparr>)"

definition reap_sublog :: "nat \<Rightarrow> sub_log \<Rightarrow> sub_log" where
  "reap_sublog gen sl = (if w_gen (sl_acked sl) \<noteq> gen then sl else fold reap_one (reapable sl) sl)"

subsection \<open>The logs of the peers\<close>

record peer_log =
  pl_pri :: sub_log
  pl_bak :: sub_log
  pl_last_active_ms :: int
  pl_serving :: nat
  pl_over_high_water :: bool

definition peer_log_new :: "int \<Rightarrow> nat \<Rightarrow> peer_log" where
  "peer_log_new now_ms c = \<lparr>pl_pri = sub_log_new c, pl_bak = sub_log_new c,
     pl_last_active_ms = now_ms, pl_serving = 0, pl_over_high_water = False\<rparr>"

fun pl_sub :: "flow_partition \<Rightarrow> peer_log \<Rightarrow> sub_log" where
  "pl_sub Pri log = pl_pri log"
| "pl_sub Bak log = pl_bak log"

fun pl_sub_mut :: "flow_partition \<Rightarrow> (sub_log \<Rightarrow> sub_log) \<Rightarrow> peer_log \<Rightarrow> peer_log" where
  "pl_sub_mut Pri f log = log\<lparr>pl_pri := f (pl_pri log)\<rparr>"
| "pl_sub_mut Bak f log = log\<lparr>pl_bak := f (pl_bak log)\<rparr>"

record backlog_marks =
  high_entries :: nat
  low_entries :: nat
  high_age :: duration
  low_age :: duration

definition backlog_marks_default :: backlog_marks where
  "backlog_marks_default = \<lparr>high_entries = 10000, low_entries = 1000,
     high_age = ms 5000, low_age = ms 1000\<rparr>"

datatype marks_error = EntriesOutOfOrder | AgesOutOfOrder

definition marks_validate :: "backlog_marks \<Rightarrow> marks_error + unit" where
  "marks_validate m =
     (if low_entries m \<ge> high_entries m then Inl EntriesOutOfOrder
      else if low_age m \<ge> high_age m then Inl AgesOutOfOrder
      else Inr ())"

definition DEFAULT_DEAD_PEER_TTL_MS :: int where
  "DEFAULT_DEAD_PEER_TTL_MS = 60000"

definition DEFAULT_CLAIM_TTL :: duration where
  "DEFAULT_CLAIM_TTL = ms 1000"

definition DEFAULT_BOOTSTRAP_HARD_TIMEOUT_MS :: nat where
  "DEFAULT_BOOTSTRAP_HARD_TIMEOUT_MS = 10000"

record changelog =
  cl_gen :: nat
  cl_dead_peer_ttl_ms :: int
  cl_bootstrap_hard_timeout :: duration
  cl_counter :: nat
  cl_peers :: "bytes \<rightharpoonup> peer_log"
  cl_claim_ttl :: duration
  cl_bound :: "bytes \<rightharpoonup> bytes"
  cl_marks :: backlog_marks

definition changelog_new :: "nat \<Rightarrow> changelog" where
  "changelog_new gen = \<lparr>cl_gen = gen, cl_dead_peer_ttl_ms = DEFAULT_DEAD_PEER_TTL_MS,
     cl_bootstrap_hard_timeout = ms DEFAULT_BOOTSTRAP_HARD_TIMEOUT_MS, cl_counter = 0,
     cl_peers = Map.empty, cl_claim_ttl = DEFAULT_CLAIM_TTL, cl_bound = Map.empty,
     cl_marks = backlog_marks_default\<rparr>"

definition with_dead_peer_ttl :: "int \<Rightarrow> changelog \<Rightarrow> changelog" where
  "with_dead_peer_ttl t c = c\<lparr>cl_dead_peer_ttl_ms := t\<rparr>"

definition with_bootstrap_hard_timeout :: "duration \<Rightarrow> changelog \<Rightarrow> changelog" where
  "with_bootstrap_hard_timeout t c = c\<lparr>cl_bootstrap_hard_timeout := t\<rparr>"

definition set_claim_ttl :: "duration \<Rightarrow> changelog \<Rightarrow> changelog" where
  "set_claim_ttl t c = c\<lparr>cl_claim_ttl := t\<rparr>"

definition set_backlog_marks :: "backlog_marks \<Rightarrow> changelog \<Rightarrow> changelog" where
  "set_backlog_marks m c = c\<lparr>cl_marks := m\<rparr>"

definition cl_head :: "changelog \<Rightarrow> watermark" where
  "cl_head c = Watermark (cl_gen c) (cl_counter c)"

text \<open>The flow's sub-log, and an update of it; neither where the peer has no log.\<close>

definition sub_of :: "changelog \<Rightarrow> bytes \<Rightarrow> flow_partition \<Rightarrow> sub_log option" where
  "sub_of c peer part = map_option (pl_sub part) (cl_peers c peer)"

definition upd_log :: "bytes \<Rightarrow> (peer_log \<Rightarrow> peer_log) \<Rightarrow> changelog \<Rightarrow> changelog" where
  "upd_log peer f c = (case cl_peers c peer of
     None \<Rightarrow> c
   | Some log \<Rightarrow> c\<lparr>cl_peers := (cl_peers c)(peer \<mapsto> f log)\<rparr>)"

definition ensure_log :: "bytes \<Rightarrow> int \<Rightarrow> nat \<Rightarrow> changelog \<Rightarrow> changelog" where
  "ensure_log peer now_ms n c = (case cl_peers c peer of
     None \<Rightarrow> c\<lparr>cl_peers := (cl_peers c)(peer \<mapsto> peer_log_new now_ms n)\<rparr>
   | Some _ \<Rightarrow> c)"

definition needs_reset :: "changelog \<Rightarrow> bytes \<Rightarrow> flow_partition \<Rightarrow> watermark \<Rightarrow> bool" where
  "needs_reset c peer part since =
     (if w_gen since > cl_gen c then True
      else if w_gen since < cl_gen c then False
      else if w_counter since > cl_counter c then True
      else case sub_of c peer part of
          Some sl \<Rightarrow> w_counter since < sl_retained_floor sl
        | None \<Rightarrow> False)"

definition bump :: "bytes \<Rightarrow> bytes \<Rightarrow> repl_op \<Rightarrow> flow_partition \<Rightarrow> stated \<Rightarrow> int \<Rightarrow> changelog
    \<Rightarrow> changelog \<times> watermark" where
  "bump peer call_ref op part s now_ms c =
     (let n = Suc (cl_counter c);
          c1 = ensure_log peer now_ms (n - 1) (c\<lparr>cl_counter := n\<rparr>)
      in (upd_log peer (pl_sub_mut part (sub_put n call_ref op now_ms s)) c1, Watermark (cl_gen c) n))"

definition bump_put :: "bytes \<Rightarrow> bytes \<Rightarrow> flow_partition \<Rightarrow> int \<Rightarrow> changelog \<Rightarrow> changelog \<times> watermark" where
  "bump_put peer call_ref part = bump peer call_ref Put part stated_default"

definition bump_delete :: "bytes \<Rightarrow> bytes \<Rightarrow> flow_partition \<Rightarrow> bool \<Rightarrow> bytes option \<Rightarrow> int \<Rightarrow> changelog
    \<Rightarrow> changelog \<times> watermark" where
  "bump_delete peer call_ref part answered incarnation =
     bump peer call_ref Delete part \<lparr>st_answered = answered, st_incarnation = incarnation\<rparr>"

definition forget :: "bytes \<Rightarrow> flow_partition \<Rightarrow> bytes \<Rightarrow> changelog \<Rightarrow> changelog" where
  "forget peer part call_ref = upd_log peer (pl_sub_mut part (sub_forget call_ref))"

definition position_of :: "changelog \<Rightarrow> bytes \<Rightarrow> flow_partition \<Rightarrow> bytes \<Rightarrow> watermark option" where
  "position_of c peer part call_ref = (case sub_of c peer part of
     None \<Rightarrow> None
   | Some sl \<Rightarrow> map_option (\<lambda>st. Watermark (cl_gen c) (rf_counter st)) (sl_by_ref sl call_ref))"

definition depth :: "changelog \<Rightarrow> nat \<times> nat" where
  "depth c = (map_sum (\<lambda>p. length (sl_entries (pl_pri p)) + length (sl_entries (pl_bak p))) (cl_peers c),
     card (dom (cl_peers c)))"

definition log_lives :: "changelog \<Rightarrow> int \<Rightarrow> peer_log \<Rightarrow> bool" where
  "log_lives c now_ms log \<longleftrightarrow>
     0 < pl_serving log \<or> now_ms - pl_last_active_ms log < cl_dead_peer_ttl_ms c"

definition reap_log :: "nat \<Rightarrow> peer_log \<Rightarrow> peer_log" where
  "reap_log gen log = log\<lparr>pl_pri := reap_sublog gen (pl_pri log), pl_bak := reap_sublog gen (pl_bak log)\<rparr>"

definition cl_reap :: "int \<Rightarrow> changelog \<Rightarrow> changelog" where
  "cl_reap now_ms c = c\<lparr>cl_peers := (\<lambda>peer. case cl_peers c peer of
     None \<Rightarrow> None
   | Some log \<Rightarrow> if log_lives c now_ms log then Some (reap_log (cl_gen c) log) else None)\<rparr>"

subsection \<open>Flow progress\<close>

text \<open>Whether membership binds the ordinal to another identity than the one given.\<close>

definition other_bound :: "changelog \<Rightarrow> bytes \<Rightarrow> bytes option \<Rightarrow> bool" where
  "other_bound c peer identity = (case cl_bound c peer of None \<Rightarrow> False | Some b \<Rightarrow> Some b \<noteq> identity)"

definition note_unbound :: "nat \<Rightarrow> bytes \<Rightarrow> watermark \<Rightarrow> sub_log \<Rightarrow> sub_log" where
  "note_unbound gen identity at sl =
     (let higher = (case sl_unbound sl of None \<Rightarrow> True | Some (i, w) \<Rightarrow> i \<noteq> identity \<or> at > w)
      in if w_gen at = gen \<and> higher then sl\<lparr>sl_unbound := Some (identity, at)\<rparr> else sl)"

definition note_claim :: "nat \<Rightarrow> watermark \<Rightarrow> instant \<Rightarrow> sub_log \<Rightarrow> sub_log" where
  "note_claim gen at inst sl =
     (let sl1 = sl\<lparr>sl_applied := Some \<lparr>cm_at = at, cm_made = inst\<rparr>, sl_flow_started := None\<rparr>
      in if w_gen at = gen \<and> at > sl_acked sl1 then sl1\<lparr>sl_acked := at\<rparr> else sl1)"

definition note_applied :: "bytes \<Rightarrow> bytes option \<Rightarrow> flow_partition \<Rightarrow> watermark \<Rightarrow> int \<Rightarrow> instant \<Rightarrow> changelog
    \<Rightarrow> changelog" where
  "note_applied peer identity part at now_ms inst c =
     (if other_bound c peer identity then
        (case identity of
           None \<Rightarrow> c
         | Some i \<Rightarrow> upd_log peer (pl_sub_mut part (note_unbound (cl_gen c) i at)) c)
      else upd_log peer (\<lambda>log. pl_sub_mut part (note_claim (cl_gen c) at inst)
        (log\<lparr>pl_last_active_ms := now_ms\<rparr>)) c)"

definition rebind :: "bytes \<Rightarrow> sub_log \<Rightarrow> sub_log" where
  "rebind identity sl = sl\<lparr>sl_unbound := None,
     sl_acked := (case sl_unbound sl of
        Some (i, at) \<Rightarrow> if i = identity then at else Watermark 0 0
      | None \<Rightarrow> Watermark 0 0)\<rparr>"

definition bind_identity :: "bytes \<Rightarrow> bytes option \<Rightarrow> changelog \<Rightarrow> changelog" where
  "bind_identity peer identity c = (case identity of
     None \<Rightarrow> c\<lparr>cl_bound := (cl_bound c)(peer := None)\<rparr>
   | Some i \<Rightarrow>
       if cl_bound c peer = Some i then c
       else upd_log peer (\<lambda>log. pl_sub_mut Bak (rebind i) (pl_sub_mut Pri (rebind i) log))
         (c\<lparr>cl_bound := (cl_bound c)(peer \<mapsto> i)\<rparr>))"

definition claim_fresh :: "changelog \<Rightarrow> instant \<Rightarrow> claim \<Rightarrow> bool" where
  "claim_fresh c inst cm \<longleftrightarrow> inst - cm_made cm \<le> cl_claim_ttl c"

definition flow_live :: "changelog \<Rightarrow> bytes \<Rightarrow> flow_partition \<Rightarrow> instant \<Rightarrow> bool" where
  "flow_live c peer part inst = (case sub_of c peer part of
     None \<Rightarrow> False
   | Some sl \<Rightarrow> 0 < sl_streams sl \<and>
       (case sl_applied sl of None \<Rightarrow> False | Some cm \<Rightarrow> claim_fresh c inst cm))"

datatype flow_liveness = LiveFlow | StaleFlow | DownFlow

definition sub_liveness :: "changelog \<Rightarrow> instant \<Rightarrow> sub_log \<Rightarrow> flow_liveness" where
  "sub_liveness c inst sl =
     (if sl_streams sl = 0 then DownFlow
      else case sl_applied sl of
          Some cm \<Rightarrow> if claim_fresh c inst cm then LiveFlow else StaleFlow
        | None \<Rightarrow> StaleFlow)"

text \<open>How many flows stand in each state, two per peer log.\<close>

definition flow_liveness_counts :: "changelog \<Rightarrow> instant \<Rightarrow> flow_liveness \<Rightarrow> nat" where
  "flow_liveness_counts c inst state =
     map_sum (\<lambda>log. (if sub_liveness c inst (pl_pri log) = state then 1 else 0) +
       (if sub_liveness c inst (pl_bak log) = state then 1 else 0)) (cl_peers c)"

definition flow_open :: "changelog \<Rightarrow> bytes \<Rightarrow> flow_partition \<Rightarrow> bool" where
  "flow_open c peer part = (case sub_of c peer part of None \<Rightarrow> False | Some sl \<Rightarrow> 0 < sl_streams sl)"

definition has_applied :: "changelog \<Rightarrow> bytes \<Rightarrow> flow_partition \<Rightarrow> watermark \<Rightarrow> bool" where
  "has_applied c peer part at = (case sub_of c peer part of None \<Rightarrow> False | Some sl \<Rightarrow> sl_acked sl \<ge> at)"

datatype reach = Applied | Lost

text \<open>
  One pass of the loop of \<open>applied_reaches\<close> over the channel it subscribed to: how the wait ended,
  or \<open>None\<close> when it waits for the channel to change. \<open>acked\<close> is the channel's value, \<open>None\<close> once
  the log that owned it is gone.
\<close>

definition reaches_pass :: "changelog \<Rightarrow> bytes \<Rightarrow> flow_partition \<Rightarrow> watermark \<Rightarrow> watermark option \<Rightarrow> reach option" where
  "reaches_pass c peer part at acked = (case acked of
     None \<Rightarrow> Some Lost
   | Some a \<Rightarrow> if a \<ge> at then Some Applied else if \<not> flow_open c peer part then Some Lost else None)"

definition flow_caught_up :: "changelog \<Rightarrow> bytes \<Rightarrow> flow_partition \<Rightarrow> instant \<Rightarrow> bool" where
  "flow_caught_up c peer part inst = (case sub_of c peer part of
     None \<Rightarrow> False
   | Some sl \<Rightarrow> sl_streams sl \<noteq> 0 \<and>
       (case sl_applied sl of
          None \<Rightarrow> False
        | Some cm \<Rightarrow> cm_at cm \<ge> Watermark (cl_gen c) (sl_head sl) \<and> claim_fresh c inst cm))"

subsection \<open>The backlog toward a backup\<close>

record backlog =
  bl_entries :: nat
  bl_oldest_age :: duration

definition pending :: "nat \<Rightarrow> sub_log \<Rightarrow> (nat \<times> bytes) list" where
  "pending gen sl =
     filter (\<lambda>(c, _). w_gen (sl_acked sl) = gen \<longrightarrow> w_counter (sl_acked sl) < c) (sl_entries sl)"

definition age_ms :: "int \<Rightarrow> int \<Rightarrow> duration" where
  "age_ms now_ms since_ms = ms (nat (now_ms - since_ms))"

definition measure_backlog :: "sub_log \<Rightarrow> nat \<Rightarrow> int \<Rightarrow> nat \<Rightarrow> backlog" where
  "measure_backlog sl gen now_ms cap = (case pending gen sl of
     [] \<Rightarrow> \<lparr>bl_entries = 0, bl_oldest_age = 0\<rparr>
   | (_, r) # more_entries \<Rightarrow> (case sl_by_ref sl r of
       None \<Rightarrow> \<lparr>bl_entries = min (cap - 1) (length more_entries), bl_oldest_age = 0\<rparr>
     | Some st \<Rightarrow> \<lparr>bl_entries = 1 + min (cap - 1) (length more_entries),
         bl_oldest_age = age_ms now_ms (written_ms st)\<rparr>))"

definition bootstrapping :: "changelog \<Rightarrow> instant \<Rightarrow> sub_log \<Rightarrow> bool" where
  "bootstrapping c inst sl \<longleftrightarrow> sl_applied sl = None \<and>
     (case sl_flow_started sl of None \<Rightarrow> False | Some t \<Rightarrow> inst - t < cl_bootstrap_hard_timeout c)"

definition over_mark :: "backlog_marks \<Rightarrow> bool \<Rightarrow> backlog \<Rightarrow> bool" where
  "over_mark m over b =
     (if over then bl_entries b \<ge> low_entries m \<or> bl_oldest_age b \<ge> low_age m
      else bl_entries b \<ge> high_entries m \<or> bl_oldest_age b \<ge> high_age m)"

definition admits_backup :: "bytes \<Rightarrow> int \<Rightarrow> instant \<Rightarrow> changelog \<Rightarrow> changelog \<times> bool" where
  "admits_backup peer now_ms inst c = (case cl_peers c peer of
     None \<Rightarrow> (c, True)
   | Some log \<Rightarrow>
       if sl_streams (pl_bak log) = 0 \<or> bootstrapping c inst (pl_bak log) then (c, True)
       else let b = measure_backlog (pl_bak log) (cl_gen c) now_ms (high_entries (cl_marks c));
                over = over_mark (cl_marks c) (pl_over_high_water log) b
            in (upd_log peer (\<lambda>log. log\<lparr>pl_over_high_water := over\<rparr>) c, \<not> over))"

subsection \<open>Whether a peer holds a call\<close>

definition applied_any :: "changelog \<Rightarrow> bytes \<Rightarrow> flow_partition \<Rightarrow> bytes \<Rightarrow> bool" where
  "applied_any c peer part call_ref = (case sub_of c peer part of
     None \<Rightarrow> False
   | Some sl \<Rightarrow>
       if w_gen (sl_acked sl) \<noteq> cl_gen c then False
       else case sl_by_ref sl call_ref of
           Some st \<Rightarrow> (case first_sent st of None \<Rightarrow> False | Some sent \<Rightarrow> sent \<le> w_counter (sl_acked sl))
         | None \<Rightarrow> sl_opened sl \<le> w_counter (sl_acked sl))"

definition note_cold_pull :: "bytes \<Rightarrow> bytes option \<Rightarrow> changelog \<Rightarrow> changelog" where
  "note_cold_pull peer identity c =
     (if other_bound c peer identity then c
      else upd_log peer (\<lambda>log. pl_sub_mut Bak (sl_acked_update (\<lambda>_. Watermark 0 0))
        (pl_sub_mut Pri (sl_acked_update (\<lambda>_. Watermark 0 0)) log)) c)"

definition sub_scanned :: "nat \<Rightarrow> sub_log \<Rightarrow> sub_log" where
  "sub_scanned w sl = sl\<lparr>sl_by_ref :=
     fold (\<lambda>(c, r). mark_sent w r) (filter (\<lambda>(c, _). c \<le> w) (sl_entries sl)) (sl_by_ref sl)\<rparr>"

definition note_scanned :: "bytes \<Rightarrow> flow_partition \<Rightarrow> watermark \<Rightarrow> changelog \<Rightarrow> changelog" where
  "note_scanned peer part w = upd_log peer (pl_sub_mut part (sub_scanned (w_counter w)))"

definition opened_at :: "changelog \<Rightarrow> bytes \<Rightarrow> flow_partition \<Rightarrow> watermark option" where
  "opened_at c peer part = map_option (\<lambda>sl. Watermark (cl_gen c) (sl_opened sl)) (sub_of c peer part)"

subsection \<open>The drain\<close>

datatype partition_role = Primary | Backup

record ref_meta =
  rm_call_gen :: int
  rm_call_bgen :: int
  rm_body_ttl_ms :: int
  rm_indexes :: "bytes list"
  rm_incarnation :: "bytes option"
  rm_skew_offset_ms :: "int option"

definition i64_saturating_sub :: "int \<Rightarrow> int \<Rightarrow> int" where
  "i64_saturating_sub a b = max (- (2 ^ 63)) (min (a - b) (2 ^ 63 - 1))"

definition origin_now_ms :: "ref_meta \<Rightarrow> int \<Rightarrow> int" where
  "origin_now_ms m now_ms =
     i64_saturating_sub now_ms (case rm_skew_offset_ms m of None \<Rightarrow> 0 | Some d \<Rightarrow> d)"

text \<open>The live bodies a drain reads: \<open>BodySource::read_entry\<close>.\<close>

type_synonym body_source = "partition_role \<Rightarrow> bytes \<Rightarrow> bytes \<Rightarrow> (bytes \<times> ref_meta) option"

definition delete_frame :: "watermark \<Rightarrow> flow_partition \<Rightarrow> bytes \<Rightarrow> bool \<Rightarrow> bytes option \<Rightarrow> frame" where
  "delete_frame at part call_ref answered incarnation = Data
     \<lparr>d_at = at, d_op = Delete, d_partition = part, d_call_ref = call_ref, d_call_gen = 0, d_call_bgen = 0,
      d_body_ttl_ms = 0, d_origin_now_ms = 0, d_indexes = [], d_body = None, d_answered = answered,
      d_incarnation = incarnation\<rparr>"

definition put_frame :: "watermark \<Rightarrow> flow_partition \<Rightarrow> bytes \<Rightarrow> int \<Rightarrow> bytes \<times> ref_meta \<Rightarrow> frame" where
  "put_frame at part call_ref now_ms e = (case e of (body, m) \<Rightarrow> Data
     \<lparr>d_at = at, d_op = Put, d_partition = part, d_call_ref = call_ref, d_call_gen = rm_call_gen m,
      d_call_bgen = rm_call_bgen m, d_body_ttl_ms = rm_body_ttl_ms m,
      d_origin_now_ms = origin_now_ms m now_ms, d_indexes = rm_indexes m, d_body = Some body,
      d_answered = False, d_incarnation = rm_incarnation m\<rparr>)"

definition current_entry :: "changelog \<Rightarrow> bytes \<Rightarrow> flow_partition \<Rightarrow> bytes \<Rightarrow> (repl_op \<times> bool) option" where
  "current_entry c peer part call_ref = (case sub_of c peer part of
     None \<Rightarrow> None
   | Some sl \<Rightarrow> map_option (\<lambda>st. (rf_op st, rf_answered st)) (sl_by_ref sl call_ref))"

text \<open>The snapshot under the lock.\<close>

definition drain_snapshot :: "bytes \<Rightarrow> flow_partition \<Rightarrow> watermark \<Rightarrow> nat \<Rightarrow> changelog
    \<Rightarrow> changelog \<times> due_entry list" where
  "drain_snapshot peer part since limit c = (case sub_of c peer part of
     None \<Rightarrow> (c, [])
   | Some sl \<Rightarrow>
       let (sl', ds) = sub_due (w_counter since) (w_gen since < cl_gen c) limit sl
       in (upd_log peer (pl_sub_mut part (\<lambda>_. sl')) c, ds))"

text \<open>The frame of one entry, built with the lock dropped: \<open>c\<close> and \<open>src\<close> as they stand at that moment.\<close>

definition due_frame :: "changelog \<Rightarrow> body_source \<Rightarrow> bytes \<Rightarrow> flow_partition \<Rightarrow> partition_role \<Rightarrow> bytes \<Rightarrow> int
    \<Rightarrow> due_entry \<Rightarrow> frame option" where
  "due_frame c src peer part role primary now_ms d =
     (let at = Watermark (cl_gen c) (du_counter d); r = du_call_ref d in
      if du_op d = Delete then Some (delete_frame at part r (du_answered d) (du_incarnation d))
      else case src role primary r of
          Some e \<Rightarrow> Some (put_frame at part r now_ms e)
        | None \<Rightarrow> (case current_entry c peer part r of
            Some (Delete, _) \<Rightarrow> None
          | Some (Put, answered) \<Rightarrow> Some (delete_frame at part r answered None)
          | None \<Rightarrow> Some (delete_frame at part r False None)))"

text \<open>\<open>drain_since\<close> with nothing happening between its steps.\<close>

definition drain_since :: "bytes \<Rightarrow> flow_partition \<Rightarrow> watermark \<Rightarrow> nat \<Rightarrow> body_source \<Rightarrow> partition_role \<Rightarrow> bytes
    \<Rightarrow> int \<Rightarrow> changelog \<Rightarrow> changelog \<times> frame list" where
  "drain_since peer part since limit src role primary now_ms c =
     (let (c', ds) = drain_snapshot peer part since limit c
      in (c', List.map_filter (due_frame c' src peer part role primary now_ms) ds))"

subsection \<open>Serving a flow\<close>

text \<open>What a serve task holds: its receiver of \<open>written\<close>, known by the version it last saw.\<close>

record serve_guard =
  sg_peer :: bytes
  sg_partition :: flow_partition
  sg_seen :: nat

definition open_stream :: "instant \<Rightarrow> sub_log \<Rightarrow> sub_log" where
  "open_stream inst sl = sl\<lparr>sl_streams := Suc (sl_streams sl), sl_applied := None,
     sl_flow_started := Some (case sl_flow_started sl of None \<Rightarrow> inst | Some t \<Rightarrow> t)\<rparr>"

definition serving :: "bytes \<Rightarrow> flow_partition \<Rightarrow> int \<Rightarrow> instant \<Rightarrow> changelog \<Rightarrow> changelog \<times> serve_guard" where
  "serving peer part now_ms inst c =
     (let c1 = ensure_log peer now_ms (cl_counter c) c;
          c2 = upd_log peer (\<lambda>log. pl_sub_mut part (open_stream inst)
            (log\<lparr>pl_serving := Suc (pl_serving log)\<rparr>)) c1
      in (c2, \<lparr>sg_peer = peer, sg_partition = part,
            sg_seen = (case sub_of c2 peer part of Some sl \<Rightarrow> sl_written_version sl | None \<Rightarrow> 0)\<rparr>))"

text \<open>\<open>ServeGuard::written\<close>: the guard once a write landed since it last looked, \<open>None\<close> while it waits.\<close>

definition guard_written :: "changelog \<Rightarrow> serve_guard \<Rightarrow> serve_guard option" where
  "guard_written c g = (case sub_of c (sg_peer g) (sg_partition g) of
     None \<Rightarrow> None
   | Some sl \<Rightarrow> if sl_written_version sl \<noteq> sg_seen g then Some (g\<lparr>sg_seen := sl_written_version sl\<rparr>) else None)"

definition close_stream :: "sub_log \<Rightarrow> sub_log" where
  "close_stream sl =
     (let n = sl_streams sl - 1
      in if n = 0 then sl\<lparr>sl_streams := n, sl_applied := None\<rparr> else sl\<lparr>sl_streams := n\<rparr>)"

definition guard_drop :: "serve_guard \<Rightarrow> changelog \<Rightarrow> changelog" where
  "guard_drop g = upd_log (sg_peer g) (\<lambda>log. pl_sub_mut (sg_partition g) close_stream
     (log\<lparr>pl_serving := pl_serving log - 1\<rparr>))"

end
