(* ===== verification/Changelog_History.thy ===== *)
theory Changelog_History
  imports Changelog
begin

text \<open>
  Histories of the changelog: any sequence of its operations, by the local writers, the serve tasks
  and whatever the peers report. One operation moves one flow's sub-log in one of the ways of
  \<open>sub_move\<close>; the locale \<open>sub_invariant\<close> turns an invariant of those moves into a fact of every
  history. Its first interpretation is the well-formedness of the sub-logs.
\<close>

subsection \<open>Operations and histories\<close>

datatype cl_op =
    OpBump bytes bytes repl_op flow_partition stated int
  | OpForget bytes flow_partition bytes
  | OpReap int
  | OpNote bytes "bytes option" flow_partition watermark int instant
  | OpBind bytes "bytes option"
  | OpAdmits bytes int instant
  | OpCold bytes "bytes option"
  | OpScanned bytes flow_partition watermark
  | OpDrain bytes flow_partition watermark nat
  | OpServing bytes flow_partition int instant
  | OpDrop serve_guard
  | OpClaimTtl duration
  | OpMarks backlog_marks

fun cl_apply :: "cl_op \<Rightarrow> changelog \<Rightarrow> changelog" where
  "cl_apply (OpBump p r op part s now) c = fst (bump p r op part s now c)"
| "cl_apply (OpForget p part r) c = forget p part r c"
| "cl_apply (OpReap now) c = cl_reap now c"
| "cl_apply (OpNote p i part at now inst) c = note_applied p i part at now inst c"
| "cl_apply (OpBind p i) c = bind_identity p i c"
| "cl_apply (OpAdmits p now inst) c = fst (admits_backup p now inst c)"
| "cl_apply (OpCold p i) c = note_cold_pull p i c"
| "cl_apply (OpScanned p part w) c = note_scanned p part w c"
| "cl_apply (OpDrain p part since limit) c = fst (drain_snapshot p part since limit c)"
| "cl_apply (OpServing p part now inst) c = fst (serving p part now inst c)"
| "cl_apply (OpDrop g) c = guard_drop g c"
| "cl_apply (OpClaimTtl t) c = set_claim_ttl t c"
| "cl_apply (OpMarks m) c = set_backlog_marks m c"

definition cl_run :: "nat \<Rightarrow> cl_op list \<Rightarrow> changelog" where
  "cl_run gen h = fold cl_apply h (changelog_new gen)"

lemma cl_run_Nil [simp]: "cl_run gen [] = changelog_new gen"
  by (simp add: cl_run_def)

lemma cl_run_snoc [simp]: "cl_run gen (h @ [x]) = cl_apply x (cl_run gen h)"
  by (simp add: cl_run_def)

subsection \<open>What an operation does to a flow\<close>

lemma pl_sub_mut_sub [simp]:
  "pl_sub part (pl_sub_mut part' f log) = (if part = part' then f (pl_sub part log) else pl_sub part log)"
  by (cases part; cases part') simp_all

lemma pl_sub_upd [simp]:
  "pl_sub part (log\<lparr>pl_last_active_ms := x\<rparr>) = pl_sub part log"
  "pl_sub part (log\<lparr>pl_serving := n\<rparr>) = pl_sub part log"
  "pl_sub part (log\<lparr>pl_over_high_water := b\<rparr>) = pl_sub part log"
  "pl_sub part (peer_log_new now n) = sub_log_new n"
  "pl_sub part (reap_log g log) = reap_sublog g (pl_sub part log)"
  by (cases part; simp add: peer_log_new_def reap_log_def)+

lemma upd_log_frame [simp]:
  "cl_gen (upd_log p f c) = cl_gen c" "cl_counter (upd_log p f c) = cl_counter c"
  "cl_bound (upd_log p f c) = cl_bound c" "cl_claim_ttl (upd_log p f c) = cl_claim_ttl c"
  "cl_marks (upd_log p f c) = cl_marks c"
  "cl_peers (upd_log p f c) q = (if q = p then map_option f (cl_peers c p) else cl_peers c q)"
  by (auto simp: upd_log_def split: option.splits)

lemma ensure_log_frame [simp]:
  "cl_gen (ensure_log p now n c) = cl_gen c" "cl_counter (ensure_log p now n c) = cl_counter c"
  "cl_bound (ensure_log p now n c) = cl_bound c"
  "cl_peers (ensure_log p now n c) q = (if q = p then
     Some (case cl_peers c p of None \<Rightarrow> peer_log_new now n | Some log \<Rightarrow> log) else cl_peers c q)"
  by (auto simp: ensure_log_def split: option.splits)

fun untouched :: "changelog \<Rightarrow> cl_op \<Rightarrow> bytes \<Rightarrow> flow_partition \<Rightarrow> bool" where
  "untouched c (OpBump q r op part' s now) p part = ((q, part') \<noteq> (p, part))"
| "untouched c (OpForget q part' r) p part = ((q, part') \<noteq> (p, part))"
| "untouched c (OpReap now) p part = False"
| "untouched c (OpNote q i part' at now inst) p part =
     ((q, part') \<noteq> (p, part) \<or> other_bound c q i \<and> i = None)"
| "untouched c (OpBind q i) p part = (q \<noteq> p \<or> i = None \<or> cl_bound c q = i)"
| "untouched c (OpAdmits q now inst) p part = True"
| "untouched c (OpCold q i) p part = (q \<noteq> p \<or> other_bound c q i)"
| "untouched c (OpScanned q part' w) p part = ((q, part') \<noteq> (p, part))"
| "untouched c (OpDrain q part' since limit) p part = ((q, part') \<noteq> (p, part))"
| "untouched c (OpServing q part' now inst) p part = ((q, part') \<noteq> (p, part))"
| "untouched c (OpDrop g) p part = ((sg_peer g, sg_partition g) \<noteq> (p, part))"
| "untouched c (OpClaimTtl t) p part = True"
| "untouched c (OpMarks m) p part = True"

inductive sub_move :: "changelog \<Rightarrow> cl_op \<Rightarrow> bytes \<Rightarrow> flow_partition \<Rightarrow> sub_log \<Rightarrow> sub_log \<Rightarrow> bool"
  for c :: changelog where
  keep: "untouched c x p part \<Longrightarrow> sub_move c x p part sl sl"
| put: "sub_move c (OpBump p r op part s now) p part sl (sub_put (Suc (cl_counter c)) r op now s sl)"
| forget: "sub_move c (OpForget p part r) p part sl (sub_forget r sl)"
| reap: "sub_move c (OpReap now) p part sl (reap_sublog (cl_gen c) sl)"
| unbound: "other_bound c p (Some i) \<Longrightarrow>
    sub_move c (OpNote p (Some i) part at now inst) p part sl (note_unbound (cl_gen c) i at sl)"
| claimed: "\<not> other_bound c p i \<Longrightarrow>
    sub_move c (OpNote p i part at now inst) p part sl (note_claim (cl_gen c) at inst sl)"
| bound: "cl_bound c p \<noteq> Some i \<Longrightarrow> sub_move c (OpBind p (Some i)) p part sl (rebind i sl)"
| cold: "\<not> other_bound c p i \<Longrightarrow>
    sub_move c (OpCold p i) p part sl (sl\<lparr>sl_acked := Watermark 0 0\<rparr>)"
| scanned: "sub_move c (OpScanned p part w) p part sl (sub_scanned (w_counter w) sl)"
| drained: "sub_move c (OpDrain p part since limit) p part sl
    (fst (sub_due (w_counter since) (w_gen since < cl_gen c) limit sl))"
| served: "sub_move c (OpServing p part now inst) p part sl (open_stream inst sl)"
| dropped: "sg_peer g = p \<Longrightarrow> sg_partition g = part \<Longrightarrow> sub_move c (OpDrop g) p part sl (close_stream sl)"

lemma sub_of_upd:
  "sub_of (upd_log q (pl_sub_mut part' f) c) p part =
     (if p = q \<and> part = part' then map_option f (sub_of c p part) else sub_of c p part)"
  by (auto simp: sub_of_def option.map_comp o_def)

lemma sub_of_bump:
  "sub_of (fst (bump q r op part' s now c)) p part =
     (if p = q then
        (let sl = (case sub_of c p part of Some sl \<Rightarrow> sl | None \<Rightarrow> sub_log_new (cl_counter c))
         in Some (if part = part' then sub_put (Suc (cl_counter c)) r op now s sl else sl))
      else sub_of c p part)"
  by (auto simp: bump_def Let_def sub_of_def split: option.splits)

lemma sub_of_serving:
  "sub_of (fst (serving q part' now inst c)) p part =
     (if p = q then
        (let sl = (case sub_of c p part of Some sl \<Rightarrow> sl | None \<Rightarrow> sub_log_new (cl_counter c))
         in Some (if part = part' then open_stream inst sl else sl))
      else sub_of c p part)"
  by (auto simp: serving_def Let_def sub_of_def split: option.splits)

lemma sub_of_reap:
  "sub_of (cl_reap now c) p part = Some sl' \<Longrightarrow>
     \<exists>sl. sub_of c p part = Some sl \<and> sl' = reap_sublog (cl_gen c) sl"
  by (auto simp: cl_reap_def sub_of_def split: option.splits if_splits)

lemma sub_of_note:
  "sub_of (note_applied q i part' at now inst c) p part =
     (if p = q \<and> part = part' then
        (if other_bound c q i then
           (case i of None \<Rightarrow> sub_of c p part | Some j \<Rightarrow> map_option (note_unbound (cl_gen c) j at) (sub_of c p part))
         else map_option (note_claim (cl_gen c) at inst) (sub_of c p part))
      else sub_of c p part)"
  by (auto simp: note_applied_def sub_of_def option.map_comp o_def split: option.splits)

lemma sub_of_bind:
  "sub_of (bind_identity q i c) p part =
     (case i of None \<Rightarrow> sub_of c p part
      | Some j \<Rightarrow> if p = q \<and> cl_bound c q \<noteq> i then map_option (rebind j) (sub_of c p part) else sub_of c p part)"
  by (cases part) (auto simp: bind_identity_def sub_of_def option.map_comp o_def split: option.splits)

lemma sub_of_cold:
  "sub_of (note_cold_pull q i c) p part =
     (if p = q \<and> \<not> other_bound c q i then map_option (sl_acked_update (\<lambda>_. Watermark 0 0)) (sub_of c p part)
      else sub_of c p part)"
  by (cases part) (auto simp: note_cold_pull_def sub_of_def option.map_comp o_def)

lemma sub_of_admits: "sub_of (fst (admits_backup q now inst c)) p part = sub_of c p part"
  by (auto simp: admits_backup_def sub_of_def Let_def split: option.splits)

lemma sub_of_drain:
  "sub_of (fst (drain_snapshot q part' since limit c)) p part =
     (if p = q \<and> part = part'
      then map_option (\<lambda>sl. fst (sub_due (w_counter since) (w_gen since < cl_gen c) limit sl)) (sub_of c p part)
      else sub_of c p part)"
proof (cases "sub_of c q part'")
  case (Some sl)
  then show ?thesis by (auto simp: drain_snapshot_def sub_of_upd split: prod.split)
qed (auto simp: drain_snapshot_def)

lemma sub_of_drop:
  "sub_of (guard_drop g c) p part =
     (if p = sg_peer g \<and> part = sg_partition g then map_option close_stream (sub_of c p part) else sub_of c p part)"
  by (auto simp: guard_drop_def sub_of_def option.map_comp o_def)

lemma sub_of_settings [simp]:
  "sub_of (set_claim_ttl t c) p part = sub_of c p part"
  "sub_of (set_backlog_marks m c) p part = sub_of c p part"
  "sub_of (changelog_new gen) p part = None"
  by (simp_all add: set_claim_ttl_def set_backlog_marks_def changelog_new_def sub_of_def)

lemmas sub_of_ops = sub_of_upd forget_def note_scanned_def sub_of_note sub_of_bind sub_of_cold sub_of_admits
  sub_of_drain sub_of_drop

text \<open>Every sub-log after an operation is one from before it, or a new one, moved.\<close>

definition moved_from :: "changelog \<Rightarrow> cl_op \<Rightarrow> bytes \<Rightarrow> flow_partition \<Rightarrow> sub_log \<Rightarrow> bool" where
  "moved_from c x p part sl' \<longleftrightarrow>
     (\<exists>sl. (sub_of c p part = Some sl \<or> sub_of c p part = None \<and> sl = sub_log_new (cl_counter c)) \<and>
       sub_move c x p part sl sl')"

lemma moved_old: "sub_of c p part = Some sl \<Longrightarrow> sub_move c x p part sl sl' \<Longrightarrow> moved_from c x p part sl'"
  by (auto simp: moved_from_def)

lemma moved_new:
  "sub_of c p part = None \<Longrightarrow> sub_move c x p part (sub_log_new (cl_counter c)) sl' \<Longrightarrow> moved_from c x p part sl'"
  by (auto simp: moved_from_def)

lemma moved_keep:
  "untouched c x p part \<Longrightarrow> sub_of c p part = Some sl \<Longrightarrow> moved_from c x p part sl"
  "untouched c x p part \<Longrightarrow> sub_of c p part = None \<Longrightarrow> moved_from c x p part (sub_log_new (cl_counter c))"
  by (auto intro: moved_old moved_new sub_move.keep)

lemma op_moves:
  assumes "sub_of (cl_apply x c) p part = Some sl'"
  shows "moved_from c x p part sl'"
  using assms
  by (cases x) (auto simp: sub_of_ops sub_of_bump sub_of_serving Let_def moved_keep dest!: sub_of_reap
      split: if_splits option.splits intro: moved_old moved_new sub_move.intros)

lemma cl_gen_apply [simp]: "cl_gen (cl_apply x c) = cl_gen c"
  by (cases x) (auto simp: bump_def Let_def forget_def cl_reap_def note_applied_def bind_identity_def
      admits_backup_def note_cold_pull_def note_scanned_def drain_snapshot_def serving_def guard_drop_def
      set_claim_ttl_def set_backlog_marks_def split: option.splits prod.splits)

lemma cl_counter_apply:
  "cl_counter (cl_apply x c) = (case x of OpBump _ _ _ _ _ _ \<Rightarrow> Suc (cl_counter c) | _ \<Rightarrow> cl_counter c)"
  by (cases x) (auto simp: bump_def Let_def forget_def cl_reap_def note_applied_def bind_identity_def
      admits_backup_def note_cold_pull_def note_scanned_def drain_snapshot_def serving_def guard_drop_def
      set_claim_ttl_def set_backlog_marks_def split: option.splits prod.splits)

lemma cl_bound_apply:
  "cl_bound (cl_apply x c) = (case x of OpBind p i \<Rightarrow> (cl_bound c)(p := i) | _ \<Rightarrow> cl_bound c)"
  by (cases x) (auto simp: bump_def Let_def forget_def cl_reap_def note_applied_def bind_identity_def
      admits_backup_def note_cold_pull_def note_scanned_def drain_snapshot_def serving_def guard_drop_def
      set_claim_ttl_def set_backlog_marks_def split: option.splits prod.splits)

lemma cl_counter_mono: "cl_counter c \<le> cl_counter (cl_apply x c)"
  unfolding cl_counter_apply by (simp split: cl_op.split)

lemma cl_gen_run [simp]: "cl_gen (cl_run gen h) = gen"
  by (induction h rule: rev_induct) (simp_all add: changelog_new_def)

subsection \<open>Invariants of a flow's log over histories\<close>

text \<open>
  \<open>P h c p part sl\<close> holds of every sub-log \<open>sl\<close> after the history \<open>h\<close>, which led to \<open>c\<close>, when it
  holds of a new one and every move keeps it.
\<close>

locale sub_invariant =
  fixes P :: "cl_op list \<Rightarrow> changelog \<Rightarrow> bytes \<Rightarrow> flow_partition \<Rightarrow> sub_log \<Rightarrow> bool"
  assumes fresh: "c = cl_run gen h \<Longrightarrow> P h c p part (sub_log_new (cl_counter c))"
    and moved: "c = cl_run gen h \<Longrightarrow> P h c p part sl \<Longrightarrow> sub_move c x p part sl sl' \<Longrightarrow>
      P (h @ [x]) (cl_apply x c) p part sl'"
begin

lemma invariant: "sub_of (cl_run gen h) p part = Some sl \<Longrightarrow> P h (cl_run gen h) p part sl"
proof (induction h arbitrary: sl rule: rev_induct)
  case (snoc x h)
  from snoc.prems have "moved_from (cl_run gen h) x p part sl" by (simp add: op_moves)
  then obtain sl0 where "sub_of (cl_run gen h) p part = Some sl0 \<or> sl0 = sub_log_new (cl_counter (cl_run gen h))"
    and mv: "sub_move (cl_run gen h) x p part sl0 sl" by (auto simp: moved_from_def)
  then have "P h (cl_run gen h) p part sl0" using snoc.IH fresh by blast
  from moved [OF refl this mv] show ?case by simp
qed simp

end

subsection \<open>Well-formed logs\<close>

text \<open>
  The drain order and the per-ref states name the same entries, one counter per ref; each was
  assigned after the log opened and is no higher than the log's head, itself a counter of the node.
\<close>

definition entries_match :: "(nat \<times> bytes) list \<Rightarrow> (bytes \<rightharpoonup> ref_state) \<Rightarrow> bool" where
  "entries_match es m \<longleftrightarrow> bt_wf es \<and>
     (\<forall>c r. (c, r) \<in> set es \<longleftrightarrow> (\<exists>st. m r = Some st \<and> rf_counter st = c))"

definition sub_ok :: "nat \<Rightarrow> sub_log \<Rightarrow> bool" where
  "sub_ok n sl \<longleftrightarrow> entries_match (sl_entries sl) (sl_by_ref sl) \<and>
     (\<forall>r st. sl_by_ref sl r = Some st \<longrightarrow> sl_opened sl < rf_counter st \<and> rf_counter st \<le> sl_head sl) \<and>
     sl_head sl \<le> n \<and> sl_opened sl \<le> sl_retained_floor sl \<and> sl_retained_floor sl \<le> n"

lemma entries_match_remove:
  assumes "entries_match es m" and "m r = Some st"
  shows "entries_match (bt_remove (rf_counter st) es) (m(r := None))"
proof -
  from assms have wf: "bt_wf es" and iff: "\<And>c r. (c, r) \<in> set es \<longleftrightarrow> (\<exists>st. m r = Some st \<and> rf_counter st = c)"
    by (auto simp: entries_match_def)
  have only: "(rf_counter st, r') \<in> set es \<longleftrightarrow> r' = r" for r'
    using bt_wf_unique [OF wf] iff assms(2) by blast
  have "((c, r') \<in> set es \<and> c \<noteq> rf_counter st) \<longleftrightarrow> (\<exists>st. (m(r := None)) r' = Some st \<and> rf_counter st = c)" for c r'
  proof (cases "r' = r")
    case True
    with iff [of c r] assms(2) show ?thesis by simp
  next
    case False
    with iff [of c r'] only [of r'] show ?thesis by (auto simp: iff)
  qed
  with wf show ?thesis by (simp add: entries_match_def)
qed

lemma entries_match_insert:
  assumes "entries_match es m" and "m r = None" and "\<forall>r st. m r = Some st \<longrightarrow> rf_counter st \<noteq> rf_counter s"
  shows "entries_match (bt_insert (rf_counter s) r es) (m(r \<mapsto> s))"
  using assms by (auto simp: entries_match_def set_bt_insert)

lemma entries_match_put:
  assumes "entries_match es m" and "\<forall>r st. m r = Some st \<longrightarrow> rf_counter st < rf_counter s"
  shows "entries_match (bt_insert (rf_counter s) r
    (case m r of None \<Rightarrow> es | Some st \<Rightarrow> bt_remove (rf_counter st) es)) (m(r \<mapsto> s))"
proof (cases "m r")
  case None
  with assms entries_match_insert [of es m r s] show ?thesis by fastforce
next
  case (Some st)
  from assms(2) have "\<forall>r' st'. (m(r := None)) r' = Some st' \<longrightarrow> rf_counter st' \<noteq> rf_counter s"
    by (auto dest: less_imp_neq)
  from entries_match_insert [OF entries_match_remove [OF assms(1) Some], of r s, OF _ this] Some
  show ?thesis by (simp only: fun_upd_upd fun_upd_same option.case)
qed

text \<open>Two ref maps that differ in what was sent only.\<close>

definition ref_core :: "ref_state \<Rightarrow> nat \<times> repl_op \<times> bool \<times> bytes option" where
  "ref_core st = (rf_counter st, rf_op st, rf_answered st, rf_incarnation st)"

definition same_refs :: "(bytes \<rightharpoonup> ref_state) \<Rightarrow> (bytes \<rightharpoonup> ref_state) \<Rightarrow> bool" where
  "same_refs m m' \<longleftrightarrow> (\<forall>r. map_option ref_core (m' r) = map_option ref_core (m r))"

lemma ref_core_mark: "map_option ref_core (mark_sent c r m q) = map_option ref_core (m q)"
  by (auto simp: mark_sent_def ref_core_def split: option.split)

lemma same_refs_marks: "same_refs m (fold (\<lambda>(c, r). mark_sent (f c) r) es m)"
proof -
  have "map_option ref_core (fold (\<lambda>(c, r). mark_sent (f c) r) es m q) = map_option ref_core (m q)" for q
    by (induction es arbitrary: m) (simp_all add: case_prod_beta ref_core_mark)
  then show ?thesis by (simp add: same_refs_def)
qed

lemma same_refs_Some:
  "same_refs m m' \<Longrightarrow> m' r = Some st' \<Longrightarrow> \<exists>st. m r = Some st \<and> ref_core st = ref_core st'"
  by (metis map_option_eq_Some same_refs_def)

lemma same_refs_sym: "same_refs m m' \<Longrightarrow> same_refs m' m"
  by (simp add: same_refs_def)

lemma ref_core_eq:
  "ref_core a = ref_core b \<longleftrightarrow> rf_counter a = rf_counter b \<and> rf_op a = rf_op b \<and>
     rf_answered a = rf_answered b \<and> rf_incarnation a = rf_incarnation b"
  by (auto simp: ref_core_def)

lemma sub_ok_same:
  assumes "sub_ok n sl" and "same_refs (sl_by_ref sl) m"
  shows "sub_ok n (sl\<lparr>sl_by_ref := m\<rparr>)"
proof -
  have fwd: "\<exists>st. sl_by_ref sl r = Some st \<and> rf_counter st = rf_counter st'" if "m r = Some st'" for r st'
    using same_refs_Some [OF assms(2) that] by (auto simp: ref_core_eq)
  have bwd: "\<exists>st. m r = Some st \<and> rf_counter st = rf_counter st'" if "sl_by_ref sl r = Some st'" for r st'
    using same_refs_Some [OF same_refs_sym [OF assms(2)] that] by (auto simp: ref_core_eq)
  have "(\<exists>st. m r = Some st \<and> rf_counter st = c) \<longleftrightarrow> (\<exists>st. sl_by_ref sl r = Some st \<and> rf_counter st = c)" for c r
    using fwd bwd by metis
  then have "entries_match (sl_entries sl) m" using assms(1) by (simp add: sub_ok_def entries_match_def)
  moreover have "sl_opened sl < rf_counter st \<and> rf_counter st \<le> sl_head sl" if "m r = Some st" for r st
    using fwd [OF that] assms(1) unfolding sub_ok_def by metis
  ultimately show ?thesis using assms(1) by (simp add: sub_ok_def)
qed

lemma sub_ok_put:
  assumes "sub_ok n sl"
  shows "sub_ok (Suc n) (sub_put (Suc n) r op now s sl)"
proof -
  define st where "st = put_state (sl_by_ref sl r) (w_counter (sl_acked sl)) (Suc n) op now s"
  have c: "rf_counter st = Suc n" by (simp add: st_def put_state_def)
  from assms have "\<forall>r st'. sl_by_ref sl r = Some st' \<longrightarrow> rf_counter st' < rf_counter st"
    unfolding sub_ok_def c by fastforce
  moreover have "rf_counter st' \<le> Suc n" if "sl_by_ref sl r' = Some st'" for r' st'
    using assms that unfolding sub_ok_def by fastforce
  ultimately show ?thesis using entries_match_put [of "sl_entries sl" "sl_by_ref sl" st r] assms c
    by (auto simp: sub_ok_def sub_put_def Let_def st_def [symmetric] max_def)
qed

lemma sub_ok_mono: "sub_ok n sl \<Longrightarrow> n \<le> n' \<Longrightarrow> sub_ok n' sl"
  by (auto simp: sub_ok_def)

lemma sub_ok_forget: "sub_ok n sl \<Longrightarrow> sub_ok n (sub_forget r sl)"
  by (auto simp: sub_ok_def sub_forget_def entries_match_remove split: option.splits)

lemma sub_ok_reap_one: "sub_ok n sl \<Longrightarrow> sub_ok n (reap_one r sl)"
  by (fastforce simp: sub_ok_def reap_one_def entries_match_remove split: option.splits)

lemma sub_ok_reap: "sub_ok n sl \<Longrightarrow> sub_ok n (reap_sublog g sl)"
proof -
  have "sub_ok n sl \<Longrightarrow> sub_ok n (fold reap_one rs sl)" for rs sl
    by (induction rs arbitrary: sl) (simp_all add: sub_ok_reap_one)
  then show "sub_ok n sl \<Longrightarrow> sub_ok n (reap_sublog g sl)" by (simp add: reap_sublog_def)
qed

lemma sub_ok_frames:
  assumes "sub_ok n sl"
  shows "sub_ok n (note_unbound g i at sl)" "sub_ok n (note_claim g at inst sl)" "sub_ok n (rebind i sl)"
    "sub_ok n (sl\<lparr>sl_acked := w\<rparr>)" "sub_ok n (open_stream inst sl)" "sub_ok n (close_stream sl)"
  using assms by (auto simp: sub_ok_def note_unbound_def note_claim_def rebind_def open_stream_def
      close_stream_def Let_def)

lemma sub_ok_scanned: "sub_ok n sl \<Longrightarrow> sub_ok n (sub_scanned w sl)"
  unfolding sub_scanned_def by (rule sub_ok_same [OF _ same_refs_marks [where f = "\<lambda>_. w"]])

lemma sub_ok_due: "sub_ok n sl \<Longrightarrow> sub_ok n (fst (sub_due k cold lim sl))"
  unfolding sub_due_def Let_def fst_conv by (rule sub_ok_same [OF _ same_refs_marks [where f = "\<lambda>c. c"]])

interpretation well_formed: sub_invariant "\<lambda>h c p part sl. sub_ok (cl_counter c) sl"
proof
  show "sub_ok (cl_counter c) (sub_log_new (cl_counter c))" for c
    by (simp add: sub_ok_def sub_log_new_def entries_match_def bt_wf_def)
next
  fix c sl x p part sl'
  assume ok: "sub_ok (cl_counter c) sl" and "sub_move c x p part sl sl'"
  from this(2) have "sub_ok (case x of OpBump _ _ _ _ _ _ \<Rightarrow> Suc (cl_counter c) | _ \<Rightarrow> cl_counter c) sl'"
  proof cases
    case keep
    with ok show ?thesis by (auto intro: sub_ok_mono split: cl_op.split)
  qed (simp_all add: ok sub_ok_put sub_ok_forget sub_ok_reap sub_ok_frames sub_ok_scanned sub_ok_due)
  then show "sub_ok (cl_counter (cl_apply x c)) sl'" by (simp only: cl_counter_apply)
qed

end
