(* ===== verification/Changelog_Props.thy ===== *)
theory Changelog_Props
  imports Changelog_History
begin

text \<open>
  The properties of the changelog: what a drain hands to a puller against the uncompacted log of
  the writes, what reaping removes, whose reports count, and when a backup is admitted.
\<close>

subsection \<open>Compaction against the uncompacted log\<close>

text \<open>The last write of each ref toward a flow, read off the history; a refused replica's is forgotten.\<close>

type_synonym last_writes = "bytes \<times> flow_partition \<times> bytes \<rightharpoonup> nat \<times> repl_op \<times> bool \<times> bytes option"

fun track :: "cl_op \<Rightarrow> nat \<times> last_writes \<Rightarrow> nat \<times> last_writes" where
  "track (OpBump p r op part s now) (n, W) =
     (Suc n, W((p, part, r) \<mapsto> (Suc n, op, st_answered s, st_incarnation s)))"
| "track (OpForget p part r) (n, W) = (n, W((p, part, r) := None))"
| "track _ nW = nW"

definition tracked :: "cl_op list \<Rightarrow> nat \<times> last_writes" where
  "tracked h = fold track h (0, Map.empty)"

definition last_write :: "cl_op list \<Rightarrow> last_writes" where
  "last_write h = snd (tracked h)"

lemma tracked_snoc [simp]: "tracked (h @ [x]) = track x (tracked h)"
  by (simp add: tracked_def)

lemma tracked_counter: "fst (tracked h) = cl_counter (cl_run gen h)"
proof (induction h rule: rev_induct)
  case (snoc x h)
  then show ?case by (cases "tracked h"; cases x) (simp_all add: cl_counter_apply del: cl_apply.simps)
qed (simp add: tracked_def changelog_new_def)

lemma last_write_snoc:
  "last_write (h @ [x]) = (case x of
     OpBump p r op part s now \<Rightarrow>
       (last_write h)((p, part, r) \<mapsto> (Suc (cl_counter (cl_run gen h)), op, st_answered s, st_incarnation s))
   | OpForget p part r \<Rightarrow> (last_write h)((p, part, r) := None)
   | _ \<Rightarrow> last_write h)"
  using tracked_counter [of h gen] unfolding last_write_def
  by (cases "tracked h"; cases x) simp_all

lemma last_write_le: "last_write h key = Some (k, w) \<Longrightarrow> k \<le> cl_counter (cl_run gen h)"
proof (induction h arbitrary: k w rule: rev_induct)
  case Nil
  then show ?case by (simp add: last_write_def tracked_def)
next
  case (snoc x h)
  have "k \<le> Suc (cl_counter (cl_run gen h))" if "last_write h key = Some (k, w)" for k w
    using snoc.IH [OF that] by simp
  with snoc show ?case
    by (cases x) (auto simp: last_write_snoc [where gen = gen] cl_counter_apply simp del: cl_apply.simps split: if_splits)
qed

definition agrees :: "ref_state \<Rightarrow> nat \<times> repl_op \<times> bool \<times> bytes option \<Rightarrow> bool" where
  "agrees st w = (case w of (k, op, answered, i) \<Rightarrow> rf_counter st = k \<and> rf_op st = op \<and> rf_incarnation st = i \<and>
     (answered \<longrightarrow> rf_answered st))"

definition holds_writes :: "cl_op list \<Rightarrow> bytes \<Rightarrow> flow_partition \<Rightarrow> sub_log \<Rightarrow> bool" where
  "holds_writes h p part sl \<longleftrightarrow> (\<forall>r.
     (\<forall>w. last_write h (p, part, r) = Some w \<longrightarrow>
        (\<exists>st. sl_by_ref sl r = Some st \<and> agrees st w) \<or> fst w \<le> sl_retained_floor sl) \<and>
     (\<forall>st. sl_by_ref sl r = Some st \<longrightarrow> (\<exists>w. last_write h (p, part, r) = Some w \<and> agrees st w)))"

lemma agrees_core: "ref_core st = ref_core st' \<Longrightarrow> agrees st w = agrees st' w"
  by (auto simp: agrees_def ref_core_eq split: prod.split)

lemma holds_writes_frame:
  assumes "holds_writes h p part sl" and "same_refs (sl_by_ref sl) (sl_by_ref sl')"
    and "sl_retained_floor sl' = sl_retained_floor sl"
    and "\<And>r. last_write h' (p, part, r) = last_write h (p, part, r)"
  shows "holds_writes h' p part sl'"
proof -
  note old = assms(1)[unfolded holds_writes_def, rule_format]
  have "(\<exists>st'. sl_by_ref sl' r = Some st' \<and> agrees st' w) \<or> fst w \<le> sl_retained_floor sl'"
    if "last_write h (p, part, r) = Some w" for r w
    using old [of r] that same_refs_Some [OF same_refs_sym [OF assms(2)], of r] agrees_core assms(3) by metis
  moreover have "\<exists>w. last_write h (p, part, r) = Some w \<and> agrees st' w" if "sl_by_ref sl' r = Some st'" for r st'
    using old [of r] that same_refs_Some [OF assms(2) that] agrees_core by metis
  ultimately show ?thesis by (simp add: holds_writes_def assms(4))
qed

lemma holds_writes_put:
  assumes "holds_writes h p part sl"
  shows "holds_writes (h @ [OpBump p r op part s now]) p part
    (sub_put (Suc (cl_counter (cl_run gen h))) r op now s sl)"
  using assms
  by (auto simp: holds_writes_def last_write_snoc [where gen = gen] sub_put_def Let_def agrees_def put_state_def)

lemma holds_writes_forget:
  "holds_writes h p part sl \<Longrightarrow> holds_writes (h @ [OpForget p part r]) p part (sub_forget r sl)"
  by (auto simp: holds_writes_def last_write_snoc [where gen = 0] sub_forget_def split: option.splits)

lemma holds_writes_reap_one:
  assumes "holds_writes h p part sl"
  shows "holds_writes h p part (reap_one r sl)"
proof (cases "sl_by_ref sl r")
  case (Some st)
  note old = assms[unfolded holds_writes_def, rule_format]
  from old [of r] Some obtain w where w: "last_write h (p, part, r) = Some w" "fst w = rf_counter st"
    by (auto simp: agrees_def)
  let ?sl = "reap_one r sl"
  have by_ref: "sl_by_ref ?sl q = (if q = r then None else sl_by_ref sl q)" for q
    using Some by (simp add: reap_one_def)
  have floor: "sl_retained_floor ?sl = max (sl_retained_floor sl) (rf_counter st)"
    using Some by (simp add: reap_one_def)
  have "(\<exists>st. sl_by_ref ?sl q = Some st \<and> agrees st v) \<or> fst v \<le> sl_retained_floor ?sl"
    if "last_write h (p, part, q) = Some v" for q v
    using old [of q] that w by (cases "q = r") (auto simp: by_ref floor max.coboundedI1)
  moreover have "\<exists>v. last_write h (p, part, q) = Some v \<and> agrees st' v" if "sl_by_ref ?sl q = Some st'" for q st'
    using old [of q] that by (simp add: by_ref split: if_splits)
  ultimately show ?thesis by (simp add: holds_writes_def)
qed (use assms in \<open>simp add: reap_one_def\<close>)

lemma holds_writes_reap: "holds_writes h p part sl \<Longrightarrow> holds_writes h p part (reap_sublog g sl)"
proof -
  have "holds_writes h p part sl \<Longrightarrow> holds_writes h p part (fold reap_one rs sl)" for rs sl
    by (induction rs arbitrary: sl) (simp_all add: holds_writes_reap_one)
  then show "holds_writes h p part sl \<Longrightarrow> holds_writes h p part (reap_sublog g sl)" by (simp add: reap_sublog_def)
qed

lemma last_write_other:
  "untouched c x p part \<Longrightarrow> last_write (h @ [x]) (p, part, r) = last_write h (p, part, r)"
  by (cases x) (auto simp: last_write_snoc [where gen = 0])

lemma same_refs_refl [simp]: "same_refs m m"
  by (simp add: same_refs_def)

lemma holds_writes_fresh: "c = cl_run gen h \<Longrightarrow> holds_writes h p part (sub_log_new (cl_counter c))"
  unfolding holds_writes_def sub_log_new_def using last_write_le [of h _ _ _ gen] by fastforce

lemma holds_writes_same:
  assumes "holds_writes h p part sl" and "sl_by_ref sl' = sl_by_ref sl"
    and "sl_retained_floor sl' = sl_retained_floor sl" and "last_write h' = last_write h"
  shows "holds_writes h' p part sl'"
  using assms by (intro holds_writes_frame [OF assms(1)]) simp_all

lemma unwritten_fields:
  "sl_by_ref (note_unbound g i at sl) = sl_by_ref sl" "sl_retained_floor (note_unbound g i at sl) = sl_retained_floor sl"
  "sl_by_ref (note_claim g at inst sl) = sl_by_ref sl" "sl_retained_floor (note_claim g at inst sl) = sl_retained_floor sl"
  "sl_by_ref (rebind j sl) = sl_by_ref sl" "sl_retained_floor (rebind j sl) = sl_retained_floor sl"
  "sl_by_ref (open_stream inst sl) = sl_by_ref sl" "sl_retained_floor (open_stream inst sl) = sl_retained_floor sl"
  "sl_by_ref (close_stream sl) = sl_by_ref sl" "sl_retained_floor (close_stream sl) = sl_retained_floor sl"
  by (simp_all add: note_unbound_def note_claim_def rebind_def open_stream_def close_stream_def Let_def)

interpretation compaction: sub_invariant "\<lambda>h c p part sl. holds_writes h p part sl"
proof
  show "holds_writes h p part (sub_log_new (cl_counter c))" if "c = cl_run gen h" for c gen h p part
    using that by (rule holds_writes_fresh)
next
  fix c gen h p part sl x sl'
  assume c: "c = cl_run gen h" and ok: "holds_writes h p part sl" and mv: "sub_move c x p part sl sl'"
  note same = holds_writes_same [OF ok] and lw = last_write_snoc [where gen = 0]
  from mv show "holds_writes (h @ [x]) p part sl'"
  proof cases
    case keep
    with ok show ?thesis by (intro holds_writes_frame [OF ok]) (simp_all add: last_write_other)
  next
    case put
    with c holds_writes_put [OF ok] show ?thesis by simp
  next
    case forget
    with holds_writes_forget [OF ok] show ?thesis by simp
  next
    case (reap now)
    then show ?thesis using holds_writes_same [OF holds_writes_reap [OF ok, of "cl_gen c"] refl refl] by (simp add: lw)
  next
    case (scanned w)
    then show ?thesis using same_refs_marks [where f = "\<lambda>_. w_counter w"]
      by (intro holds_writes_frame [OF ok]) (simp_all add: lw sub_scanned_def)
  next
    case (drained since limit)
    then show ?thesis using same_refs_marks [where f = "\<lambda>c. c"]
      by (intro holds_writes_frame [OF ok]) (simp_all add: lw sub_due_def Let_def)
  qed (simp_all add: lw same unwritten_fields)
qed

lemma map_filter_set: "y \<in> set (List.map_filter f xs) \<longleftrightarrow> (\<exists>x\<in>set xs. f x = Some y)"
  by (induction xs) (auto simp: map_filter_simps split: option.splits)

lemma due_of_Some:
  "due_of sl (c, r) = Some d \<longleftrightarrow> (\<exists>st. sl_by_ref sl r = Some st \<and> d = \<lparr>du_counter = c, du_call_ref = r,
     du_op = rf_op st, du_answered = rf_answered st, du_incarnation = rf_incarnation st\<rparr>)"
  by (auto simp: due_of_def)

lemma due_counters: "map du_counter (List.map_filter (due_of sl) es) = map fst (filter (\<lambda>(c, r). sl_by_ref sl r \<noteq> None) es)"
  by (induction es) (auto simp: map_filter_simps due_of_def)

lemma snapshot_due:
  "sub_of c p part = Some sl \<Longrightarrow>
     snd (drain_snapshot p part since limit c) =
     List.map_filter (due_of sl) (due_entries (w_counter since) (w_gen since < cl_gen c) limit sl)"
  by (simp add: drain_snapshot_def sub_due_def Let_def split: prod.split)

lemma sorted_filter_fst: "sorted_wrt (<) (map fst es) \<Longrightarrow> sorted_wrt (<) (map fst (filter P es))"
  by (induction es) auto

text \<open>The entries above a position, of a well-formed log that holds its writes.\<close>

definition due_above :: "nat \<Rightarrow> sub_log \<Rightarrow> due_entry list" where
  "due_above since sl = List.map_filter (due_of sl) (filter (\<lambda>(c, _). since < c) (sl_entries sl))"

lemma above_complete:
  assumes "sub_ok n sl" and "holds_writes h p part sl" and "sl_retained_floor sl \<le> since"
    and "last_write h (p, part, r) = Some (k, op, answered, i)" and "since < k"
  shows "\<exists>d\<in>set (due_above since sl). du_call_ref d = r \<and> du_counter d = k \<and> du_op d = op \<and>
    du_incarnation d = i \<and> (answered \<longrightarrow> du_answered d)"
proof -
  from assms(2-5) obtain st where st: "sl_by_ref sl r = Some st" "agrees st (k, op, answered, i)"
    unfolding holds_writes_def by fastforce
  with assms(1) have e: "(k, r) \<in> set (sl_entries sl)" by (auto simp: agrees_def sub_ok_def entries_match_def)
  let ?d = "\<lparr>du_counter = k, du_call_ref = r, du_op = rf_op st, du_answered = rf_answered st,
    du_incarnation = rf_incarnation st\<rparr>"
  from st(1) have "due_of sl (k, r) = Some ?d" by (simp add: due_of_Some)
  with e assms(5) have "?d \<in> set (due_above since sl)" unfolding due_above_def map_filter_set by force
  with st(2) show ?thesis by (intro bexI [of _ ?d]) (simp_all add: agrees_def)
qed

lemma above_sound:
  assumes "sub_ok n sl" and "holds_writes h p part sl" and "d \<in> set (due_above since sl)"
  shows "since < du_counter d \<and>
    (\<exists>answered. last_write h (p, part, du_call_ref d) = Some (du_counter d, du_op d, answered, du_incarnation d))"
proof -
  from assms(3) obtain c r st where e: "(c, r) \<in> set (sl_entries sl)" "since < c" "sl_by_ref sl r = Some st"
    and d: "d = \<lparr>du_counter = c, du_call_ref = r, du_op = rf_op st, du_answered = rf_answered st,
      du_incarnation = rf_incarnation st\<rparr>"
    unfolding due_above_def map_filter_set by (auto simp: due_of_Some)
  from e(3) assms(2) obtain w where w: "last_write h (p, part, r) = Some w" "agrees st w"
    unfolding holds_writes_def by blast
  from e(1,3) assms(1) have "rf_counter st = c" by (auto simp: sub_ok_def entries_match_def)
  with e w d show ?thesis by (cases w) (simp add: agrees_def)
qed

lemma above_sorted: "sub_ok n sl \<Longrightarrow> sorted_wrt (<) (map du_counter (due_above since sl))"
  by (simp add: due_above_def due_counters sorted_filter_fst sub_ok_def entries_match_def bt_wf_def)

lemma snapshot_above:
  assumes "sub_of c p part = Some sl" and "w_gen since = cl_gen c" and "length (sl_entries sl) \<le> limit"
  shows "snd (drain_snapshot p part since limit c) = due_above (w_counter since) sl"
proof -
  from assms(3) have "length (filter (\<lambda>(c, _). w_counter since < c) (sl_entries sl)) \<le> limit"
    using le_trans length_filter_le by blast
  then show ?thesis unfolding snapshot_due [OF assms(1)] by (simp add: due_above_def due_entries_def assms(2))
qed


definition hist0 :: "cl_op list" where
  "hist0 = [OpServing ''w1'' Bak 0 0, OpBump ''w1'' ''a'' Put Bak stated_default 1,
     OpBump ''w1'' ''b'' Put Bak stated_default 2, OpBump ''w1'' ''a'' Put Bak stated_default 3,
     OpBump ''w1'' ''b'' Delete Bak \<lparr>st_answered = True, st_incarnation = Some ''i1''\<rparr> 4,
     OpNote ''w1'' (Some ''pod'') Bak (Watermark 7 2) 5 5, OpReap 6]"

lemmas cl_op_defs = bump_def forget_def cl_reap_def note_applied_def bind_identity_def admits_backup_def
  note_cold_pull_def note_scanned_def drain_snapshot_def serving_def guard_drop_def set_claim_ttl_def
  set_backlog_marks_def ensure_log_def upd_log_def sub_of_def changelog_new_def peer_log_new_def
  sub_log_new_def open_stream_def close_stream_def sub_put_def put_state_def sub_forget_def stated_default_def
  bt_remove_def note_claim_def note_unbound_def other_bound_def log_lives_def reap_log_def reap_sublog_def
  reapable_def reap_one_def sub_due_def due_entries_def mark_sent_def needs_reset_def Let_def

lemma hist0_sub: "\<exists>sl. sub_of (cl_run 7 hist0) ''w1'' Bak = Some sl \<and> length (sl_entries sl) = 2 \<and> sl_retained_floor sl = 0"
  by (simp add: hist0_def cl_run_def cl_op_defs less_watermark_def)


subsection \<open>Reaping\<close>

lemma reap_one_by_ref: "sl_by_ref (reap_one r sl) q = (if q = r then None else sl_by_ref sl q)"
  by (auto simp: reap_one_def split: option.split)

lemma fold_reap_by_ref: "sl_by_ref (fold reap_one rs sl) q = (if q \<in> set rs then None else sl_by_ref sl q)"
  by (induction rs arbitrary: sl) (simp_all add: reap_one_by_ref)

lemma reapable_set:
  assumes "sub_ok n sl"
  shows "q \<in> set (reapable sl) \<longleftrightarrow>
    (\<exists>st. sl_by_ref sl q = Some st \<and> rf_op st = Delete \<and> rf_counter st \<le> w_counter (sl_acked sl))"
proof -
  from assms have iff: "\<And>c r. (c, r) \<in> set (sl_entries sl) \<longleftrightarrow> (\<exists>st. sl_by_ref sl r = Some st \<and> rf_counter st = c)"
    by (auto simp: sub_ok_def entries_match_def)
  show ?thesis unfolding reapable_def by (auto simp: iff image_iff split: option.splits)
qed

text \<open>
  C24: reaping drops from a log that stays exactly the deletes its peer reported applying under this
  incarnation, never a put and never an unapplied delete; a log with a flow open stays.
\<close>

theorem reap_exact:
  assumes "cl_peers (cl_run gen h) p = Some log"
  shows "(0 < pl_serving log \<longrightarrow> cl_peers (cl_reap now (cl_run gen h)) p \<noteq> None) \<and>
    (\<forall>log' part r. cl_peers (cl_reap now (cl_run gen h)) p = Some log' \<longrightarrow>
      sl_by_ref (pl_sub part log') r = (case sl_by_ref (pl_sub part log) r of
          None \<Rightarrow> None
        | Some st \<Rightarrow> if rf_op st = Delete \<and> w_gen (sl_acked (pl_sub part log)) = gen \<and>
              Watermark gen (rf_counter st) \<le> sl_acked (pl_sub part log) then None else Some st))"
proof -
  have "sl_by_ref (reap_sublog gen (pl_sub part log)) r = (case sl_by_ref (pl_sub part log) r of
      None \<Rightarrow> None
    | Some st \<Rightarrow> if rf_op st = Delete \<and> w_gen (sl_acked (pl_sub part log)) = gen \<and>
          Watermark gen (rf_counter st) \<le> sl_acked (pl_sub part log) then None else Some st)" for part r
  proof -
    have "sub_of (cl_run gen h) p part = Some (pl_sub part log)" using assms by (simp add: sub_of_def)
    from reapable_set [OF well_formed.invariant [OF this], of r] show ?thesis
      by (auto simp: reap_sublog_def fold_reap_by_ref less_eq_watermark_def split: option.split)
  qed
  with assms show ?thesis by (auto simp: cl_reap_def log_lives_def split: if_splits)
qed

theorem reap_exact_witness:
  "\<exists>log log'. cl_peers (cl_run 7 hist0) ''w1'' = Some log \<and> 0 < pl_serving log \<and>
    cl_peers (cl_reap 99 (cl_run 7 hist0)) ''w1'' = Some log' \<and>
    sl_by_ref (pl_bak log') ''b'' = sl_by_ref (pl_bak log) ''b'' \<and> sl_by_ref (pl_bak log) ''b'' \<noteq> None"
proof -
  obtain log where log: "cl_peers (cl_run 7 hist0) ''w1'' = Some log" "pl_serving log = 1"
    and st: "\<exists>st. sl_by_ref (pl_bak log) ''b'' = Some st \<and> rf_counter st = 4" "sl_acked (pl_bak log) = Watermark 7 2"
    by (simp add: hist0_def cl_run_def cl_op_defs less_watermark_def)
  from reap_exact [OF log(1), of 99] log(2) obtain log' where
    "cl_peers (cl_reap 99 (cl_run 7 hist0)) ''w1'' = Some log'" by auto
  with reap_exact [OF log(1), of 99] st log show ?thesis
    by (auto dest!: spec [of _ log'] spec [of _ Bak] spec [of _ "''b''"] simp: less_eq_watermark_def)
qed

subsection \<open>Whose reports count\<close>

definition reported :: "cl_op list \<Rightarrow> bytes \<Rightarrow> bytes \<Rightarrow> flow_partition \<Rightarrow> watermark \<Rightarrow> bool" where
  "reported h p i part w \<longleftrightarrow> (\<exists>now inst. OpNote p (Some i) part w now inst \<in> set h)"

definition vouched :: "cl_op list \<Rightarrow> changelog \<Rightarrow> bytes \<Rightarrow> flow_partition \<Rightarrow> sub_log \<Rightarrow> bool" where
  "vouched h c p part sl \<longleftrightarrow>
     (\<forall>i. cl_bound c p = Some i \<longrightarrow> sl_acked sl = Watermark 0 0 \<or> reported h p i part (sl_acked sl)) \<and>
     (\<forall>i w. sl_unbound sl = Some (i, w) \<longrightarrow> reported h p i part w)"

lemma reported_snoc: "reported h p i part w \<Longrightarrow> reported (h @ [x]) p i part w"
  by (auto simp: reported_def)

lemma vouched_same:
  assumes "vouched h c p part sl" and "sl_acked sl' = sl_acked sl" and "sl_unbound sl' = sl_unbound sl"
    and "cl_bound c' p = cl_bound c p"
  shows "vouched (h @ [x]) c' p part sl'"
  using assms reported_snoc unfolding vouched_def by metis

lemma bind_same: "untouched c x p part \<Longrightarrow> cl_bound (cl_apply x c) p = Some i \<Longrightarrow> cl_bound c p = Some i"
  by (cases x) (auto simp: cl_bound_apply simp del: cl_apply.simps split: if_splits)

lemma reap_sublog_acked [simp]:
  "sl_acked (reap_sublog g sl) = sl_acked sl" "sl_unbound (reap_sublog g sl) = sl_unbound sl"
proof -
  have "sl_acked (fold reap_one rs sl) = sl_acked sl \<and> sl_unbound (fold reap_one rs sl) = sl_unbound sl" for rs sl
    by (induction rs arbitrary: sl) (auto simp: reap_one_def split: option.splits)
  then show "sl_acked (reap_sublog g sl) = sl_acked sl" "sl_unbound (reap_sublog g sl) = sl_unbound sl"
    by (simp_all add: reap_sublog_def)
qed

lemma vouched_keep:
  assumes "vouched h c p part sl" and "untouched c x p part"
  shows "vouched (h @ [x]) (cl_apply x c) p part sl"
  using assms(1) bind_same [OF assms(2)] reported_snoc unfolding vouched_def by metis

lemma vouched_claim:
  assumes "vouched h c p part sl" and "\<not> other_bound c p i"
  shows "vouched (h @ [OpNote p i part at now inst]) c p part (note_claim g at inst sl)"
proof -
  have "reported (h @ [OpNote p i part at now inst]) p j part at" if "cl_bound c p = Some j" for j
    using assms(2) that by (auto simp: other_bound_def reported_def)
  moreover have "sl_acked (note_claim g at inst sl) \<in> {sl_acked sl, at}" "sl_unbound (note_claim g at inst sl) = sl_unbound sl"
    by (auto simp: note_claim_def Let_def)
  ultimately show ?thesis using assms(1) reported_snoc unfolding vouched_def by (metis insert_iff singletonD)
qed

lemma vouched_unbound:
  assumes "vouched h c p part sl"
  shows "vouched (h @ [OpNote p (Some i) part at now inst]) c p part (note_unbound g i at sl)"
proof -
  have "reported (h @ [OpNote p (Some i) part at now inst]) p i part at" by (auto simp: reported_def)
  then show ?thesis using assms reported_snoc unfolding vouched_def note_unbound_def Let_def
    by (auto split: if_splits)
qed

lemma vouched_rebind:
  "vouched h c p part sl \<Longrightarrow> vouched (h @ [OpBind p (Some i)]) (c\<lparr>cl_bound := (cl_bound c)(p \<mapsto> i)\<rparr>) p part (rebind i sl)"
  by (auto simp: vouched_def rebind_def reported_def split: option.splits)

lemma vouched_bound: "cl_bound c' p = cl_bound c p \<Longrightarrow> vouched h c' p part sl = vouched h c p part sl"
  by (simp add: vouched_def)

interpretation identity: sub_invariant vouched
proof
  show "vouched h c p part (sub_log_new (cl_counter c))" for h c p part
    by (simp add: vouched_def sub_log_new_def)
next
  fix c gen h p part sl x sl'
  assume ok: "vouched h c p part sl" and mv: "sub_move c x p part sl sl'"
  from mv show "vouched (h @ [x]) (cl_apply x c) p part sl'"
  proof cases
    case keep
    with vouched_keep [OF ok] show ?thesis by simp
  next
    case (unbound i at now inst)
    then have "cl_bound (cl_apply x c) p = cl_bound c p" by (simp add: cl_bound_apply del: cl_apply.simps)
    from vouched_bound [OF this] vouched_unbound [OF ok] show ?thesis by (simp add: unbound del: cl_apply.simps)
  next
    case (claimed i at now inst)
    then have "cl_bound (cl_apply x c) p = cl_bound c p" by (simp add: cl_bound_apply del: cl_apply.simps)
    from vouched_bound [OF this] vouched_claim [OF ok claimed(3)] show ?thesis
      by (simp add: claimed del: cl_apply.simps)
  next
    case (bound i)
    have "cl_bound (cl_apply x c) p = cl_bound (c\<lparr>cl_bound := (cl_bound c)(p \<mapsto> i)\<rparr>) p"
      by (simp add: bound cl_bound_apply del: cl_apply.simps)
    from vouched_bound [OF this] vouched_rebind [OF ok, of i] show ?thesis by (simp add: bound del: cl_apply.simps)
  next
    case (cold i)
    with ok show ?thesis
      by (auto simp: vouched_def cl_bound_apply reported_snoc simp del: cl_apply.simps)
  next
    case (dropped g)
    show ?thesis by (rule vouched_same [OF ok])
        (simp_all add: dropped close_stream_def Let_def cl_bound_apply del: cl_apply.simps)
  qed (auto intro!: vouched_same [OF ok] simp: cl_bound_apply sub_put_def sub_forget_def sub_scanned_def sub_due_def
      open_stream_def close_stream_def Let_def simp del: cl_apply.simps split: option.split)
qed

text \<open>
  C25: while membership binds a peer's ordinal to a worker, a position counts as applied there only
  if that very worker reported it or one past it, whatever other workers on the ordinal reported
  before or since.
\<close>

theorem applied_by_bound_worker:
  assumes "cl_bound (cl_run gen h) p = Some i" and "has_applied (cl_run gen h) p part at" and "Watermark 0 0 < at"
  shows "\<exists>w. at \<le> w \<and> reported h p i part w"
proof -
  from assms(2) obtain sl where sl: "sub_of (cl_run gen h) p part = Some sl" "at \<le> sl_acked sl"
    by (auto simp: has_applied_def split: option.splits)
  with assms(3) have "sl_acked sl \<noteq> Watermark 0 0" by (metis leD)
  with identity.invariant [OF sl(1)] assms(1) have "reported h p i part (sl_acked sl)"
    by (simp add: vouched_def)
  with sl(2) show ?thesis by blast
qed

definition hist1 :: "cl_op list" where
  "hist1 = [OpServing ''w1'' Bak 0 0, OpBump ''w1'' ''a'' Put Bak stated_default 1, OpBind ''w1'' (Some ''old''),
     OpNote ''w1'' (Some ''new'') Bak (Watermark 7 1) 2 2, OpNote ''w1'' (Some ''old'') Bak (Watermark 7 9) 3 3,
     OpBind ''w1'' (Some ''new'')]"

theorem applied_by_bound_worker_witness:
  "cl_bound (cl_run 7 hist1) ''w1'' = Some ''new'' \<and> has_applied (cl_run 7 hist1) ''w1'' Bak (Watermark 7 1) \<and>
   (\<exists>w. Watermark 7 1 \<le> w \<and> reported hist1 ''w1'' ''new'' Bak w)"
proof -
  have "cl_bound (cl_run 7 hist1) ''w1'' = Some ''new''" "has_applied (cl_run 7 hist1) ''w1'' Bak (Watermark 7 1)"
    by (simp_all add: hist1_def cl_run_def cl_op_defs rebind_def has_applied_def less_watermark_def)
  with applied_by_bound_worker [OF this] show ?thesis by (simp add: less_watermark_def)
qed

subsection \<open>A delete's stated answer\<close>

text \<open>
  Once the log of a flow holds a delete that states the call was answered, every later delete it
  holds of that call states it too, whatever the delete that replaced it said, until a put starts
  the call afresh; and the frame drained for it carries the statement.
\<close>

theorem delete_keeps_answer:
  assumes "sub_of (cl_run gen h) p part = Some sl" and "sl_by_ref sl r = Some st"
    and "rf_op st = Delete" and "rf_answered st"
    and "sub_of (cl_run gen (h @ [x])) p part = Some sl'" and "sl_by_ref sl' r = Some st'" and "rf_op st' = Delete"
  shows "rf_answered st' \<and>
    (\<forall>d src role primary now. due_of sl' (rf_counter st', r) = Some d \<longrightarrow>
      due_frame (cl_run gen (h @ [x])) src p part role primary now d =
      Some (delete_frame (Watermark gen (rf_counter st')) part r True (rf_incarnation st')))"
proof -
  from op_moves [of x "cl_run gen h" p part sl'] assms(1,5) have mv: "sub_move (cl_run gen h) x p part sl sl'"
    by (simp add: moved_from_def)
  have same: "rf_answered st'" if "same_refs (sl_by_ref sl) (sl_by_ref sl')"
    using same_refs_Some [OF that assms(6)] assms(2,4) by (auto simp: ref_core_eq)
  from mv have "rf_answered st'"
  proof cases
    case (put r' op s now)
    with assms show ?thesis by (auto simp: sub_put_def Let_def put_state_def split: if_splits)
  next
    case (reap now)
    with assms show ?thesis by (auto simp: reap_sublog_def fold_reap_by_ref split: if_splits)
  next
    case (forget r')
    with assms show ?thesis by (auto simp: sub_forget_def split: option.splits if_splits)
  next
    case (scanned w)
    then show ?thesis using same_refs_marks [where f = "\<lambda>_. w_counter w"] by (intro same) (simp add: sub_scanned_def)
  next
    case (drained since limit)
    then show ?thesis using same_refs_marks [where f = "\<lambda>c. c"] by (intro same) (simp add: sub_due_def Let_def)
  qed (use assms in \<open>simp_all add: unwritten_fields\<close>)
  with assms(6,7) show ?thesis by (auto simp: due_of_Some due_frame_def)
qed

theorem delete_keeps_answer_witness:
  "\<exists>sl st. sub_of (cl_run 7 (hist0 @ [OpBump ''w1'' ''b'' Delete Bak stated_default 9])) ''w1'' Bak = Some sl \<and>
    sl_by_ref sl ''b'' = Some st \<and> rf_counter st = 5 \<and> rf_answered st"
proof -
  obtain sl st where 1: "sub_of (cl_run 7 hist0) ''w1'' Bak = Some sl" "sl_by_ref sl ''b'' = Some st"
    "rf_op st = Delete" "rf_answered st"
    by (simp add: hist0_def cl_run_def cl_op_defs less_watermark_def)
  let ?h = "hist0 @ [OpBump ''w1'' ''b'' Delete Bak stated_default 9]"
  obtain sl' st' where 2: "sub_of (cl_run 7 ?h) ''w1'' Bak = Some sl'" "sl_by_ref sl' ''b'' = Some st'"
    "rf_op st' = Delete" "rf_counter st' = 5"
    by (simp add: hist0_def cl_run_def cl_op_defs less_watermark_def)
  from delete_keeps_answer [OF 1 2(1-3)] 2 show ?thesis by blast
qed

subsection \<open>The backlog toward a backup\<close>

definition oldest_age :: "sub_log \<Rightarrow> nat \<Rightarrow> int \<Rightarrow> duration" where
  "oldest_age sl gen now_ms = (case pending gen sl of
     [] \<Rightarrow> 0
   | (_, r) # _ \<Rightarrow> age_ms now_ms (written_ms (the (sl_by_ref sl r))))"

lemma measure_backlog_exact:
  assumes "sub_ok n sl"
  shows "measure_backlog sl gen now_ms cap =
    \<lparr>bl_entries = (if pending gen sl = [] then 0 else 1 + min (cap - 1) (length (pending gen sl) - 1)),
     bl_oldest_age = oldest_age sl gen now_ms\<rparr>"
proof (cases "pending gen sl")
  case (Cons e es)
  obtain c r where e: "e = (c, r)" by (cases e)
  have "e \<in> set (pending gen sl)" by (simp add: Cons)
  then have "(c, r) \<in> set (sl_entries sl)" by (auto simp: pending_def e)
  with assms obtain st where "sl_by_ref sl r = Some st" by (auto simp: sub_ok_def entries_match_def)
  with Cons e show ?thesis by (simp add: measure_backlog_def oldest_age_def)
qed (simp add: measure_backlog_def oldest_age_def)

lemma capped_count:
  "0 < cap \<Longrightarrow> k \<le> cap \<Longrightarrow> k \<le> (if xs = [] then 0 else 1 + min (cap - 1) (length xs - 1)) \<longleftrightarrow> k \<le> length xs"
  by (cases xs) auto

text \<open>
  toward a peer whose open flow is past its bootstrap, a new call gets its backup exactly while
  fewer writes are pending, and the oldest is younger, than the marks in force: the high-water ones,
  or the low-water ones from the moment a high one was reached until both are met again.
\<close>

theorem admits_backup_exact:
  assumes "cl_peers (cl_run gen h) p = Some log" and "0 < sl_streams (pl_bak log)"
    and "\<not> bootstrapping (cl_run gen h) inst (pl_bak log)"
    and "m = cl_marks (cl_run gen h)" and "marks_validate m = Inr ()"
    and "admits_backup p now_ms inst (cl_run gen h) = (c', ok)"
  shows "(ok \<longleftrightarrow>
      length (pending gen (pl_bak log)) < (if pl_over_high_water log then low_entries m else high_entries m) \<and>
      oldest_age (pl_bak log) gen now_ms < (if pl_over_high_water log then low_age m else high_age m)) \<and>
    map_option pl_over_high_water (cl_peers c' p) = Some (\<not> ok)"
proof -
  have "sub_of (cl_run gen h) p Bak = Some (pl_bak log)" using assms(1) by (simp add: sub_of_def)
  note ms = measure_backlog_exact [OF well_formed.invariant [OF this]]
  from assms(5) have m: "low_entries m < high_entries m" by (auto simp: marks_validate_def split: if_splits)
  then have "low_entries m \<le> high_entries m" "0 < high_entries m" by simp_all
  note cap = capped_count [OF this(2,1), unfolded assms(4)] capped_count [OF this(2) order_refl, unfolded assms(4)]
  show ?thesis using assms(1-3,6) unfolding assms(4)
    by (auto simp: admits_backup_def Let_def ms over_mark_def cap)
qed

theorem admits_backup_exact_witness:
  "\<exists>log. cl_peers (cl_run 7 hist0) ''w1'' = Some log \<and> length (pending 7 (pl_bak log)) = 2 \<and>
    snd (admits_backup ''w1'' 9 9 (cl_run 7 hist0))"
proof -
  obtain log where log: "cl_peers (cl_run 7 hist0) ''w1'' = Some log" "0 < sl_streams (pl_bak log)"
      "\<not> bootstrapping (cl_run 7 hist0) 9 (pl_bak log)"
    and l: "length (pending 7 (pl_bak log)) = 2" "oldest_age (pl_bak log) 7 9 = ms 6" "\<not> pl_over_high_water log"
    by (simp add: hist0_def cl_run_def cl_op_defs less_watermark_def bootstrapping_def pending_def oldest_age_def age_ms_def)
  have m: "cl_marks (cl_run 7 hist0) = backlog_marks_default"
    by (simp add: hist0_def cl_run_def cl_op_defs less_watermark_def)
  then have v: "marks_validate (cl_marks (cl_run 7 hist0)) = Inr ()"
    by (simp add: backlog_marks_default_def marks_validate_def)
  from admits_backup_exact [OF log refl v prod.collapse [symmetric]] l m log(1) show ?thesis
    by (simp add: backlog_marks_default_def)
qed

end
