(* ===== verification/Repl_Serve.thy ===== *)
theory Repl_Serve
  imports Changelog_Props
begin

text \<open>
  The serve loop of one replication flow (\<open>src/crates/b2bua/src/repl/server.rs\<close>,
  \<open>server/bootstrap.rs\<close>): the opening request, the bootstrap scan of a cold puller and the tail,
  drained on write. The loop runs beside the writers of the changelog and of the store; it is a step
  relation in which every point where the task awaits, or drops the changelog's lock, is a step of
  its own, with any other operation of the changelog in between. The bodies the store holds at that
  moment, the clocks and the transport's answer are free in each step.
\<close>

subsection \<open>Configuration and the opening request\<close>

definition BATCH :: nat where
  "BATCH = 500"

definition BOOTSTRAP_CHUNK :: nat where
  "BOOTSTRAP_CHUNK = 128"

record serve_config =
  sc_noop_interval :: duration
  sc_send_stall :: duration
  sc_open_timeout :: duration
  sc_max_connections :: nat

definition serve_config_default :: serve_config where
  "serve_config_default = \<lparr>sc_noop_interval = ms 500, sc_send_stall = ms 15000,
     sc_open_timeout = ms 4000, sc_max_connections = 64\<rparr>"

definition serve_claim_ttl :: "serve_config \<Rightarrow> duration" where
  "serve_claim_ttl cfg = sc_noop_interval cfg * 2"

definition with_config :: "serve_config \<Rightarrow> changelog \<Rightarrow> changelog" where
  "with_config cfg c = set_claim_ttl (serve_claim_ttl cfg) c"

text \<open>
  What \<open>serve_connection\<close> does with the opening frame, \<open>None\<close> a close or none within the open timeout: serve the flow it asks
  for, refuse a peer of another protocol version, or nothing.
\<close>

datatype open_request = ServeFlow bytes "bytes option" flow_partition watermark | RefuseStream frame | Leave

definition proto_reason :: bytes where
  "proto_reason = ''this node speaks replication protocol 7''"

fun serve_connection :: "frame option \<Rightarrow> open_request" where
  "serve_connection (Some (PullRequest proto_ver caller identity part since)) =
     (if proto_ver = PROTO_VER then ServeFlow caller identity part since
      else RefuseStream (StreamRefused PROTO_VER proto_reason))"
| "serve_connection _ = Leave"

fun keyspace :: "bytes \<Rightarrow> flow_partition \<Rightarrow> bytes \<Rightarrow> partition_role \<times> bytes" where
  "keyspace self_ordinal Pri caller = (Backup, caller)"
| "keyspace self_ordinal Bak caller = (Primary, self_ordinal)"

subsection \<open>The bootstrap scan\<close>

text \<open>The frames of a group of keys, each a put at the scan's head; a vanished body is left out.\<close>

definition bootstrap_frames :: "body_source \<Rightarrow> watermark \<Rightarrow> flow_partition \<Rightarrow> partition_role \<Rightarrow> bytes \<Rightarrow> int
    \<Rightarrow> bytes list \<Rightarrow> frame list" where
  "bootstrap_frames src w part role primary now_ms ks =
     List.map_filter (\<lambda>key. map_option (put_frame w part key now_ms) (src role primary key)) ks"

subsection \<open>The stream of one flow\<close>

text \<open>Where the serve task stands; \<open>Building\<close> has the entries still to read and the frames built.\<close>

datatype serve_phase =
    Scanning "bytes list"
  | Draining
  | Building "due_entry list" "frame list"
  | Sending "frame list" nat
  | Waiting
  | Ended

text \<open>The task's locals, with the frames it handed to the transport and whether they went out.\<close>

record stream =
  sm_guard :: serve_guard
  sm_role :: partition_role
  sm_primary :: bytes
  sm_w :: watermark
  sm_phase :: serve_phase
  sm_ever_caught_up :: bool
  sm_streamed_full_batch :: bool
  sm_next_noop :: instant
  sm_out :: "(frame \<times> bool) list"

definition stream_new :: "serve_config \<Rightarrow> bytes \<Rightarrow> serve_guard \<Rightarrow> instant \<Rightarrow> watermark \<Rightarrow> serve_phase \<Rightarrow> stream" where
  "stream_new cfg self_ordinal g inst w ph =
     \<lparr>sm_guard = g, sm_role = fst (keyspace self_ordinal (sg_partition g) (sg_peer g)),
      sm_primary = snd (keyspace self_ordinal (sg_partition g) (sg_peer g)), sm_w = w, sm_phase = ph,
      sm_ever_caught_up = False, sm_streamed_full_batch = False,
      sm_next_noop = inst + sc_noop_interval cfg, sm_out = []\<rparr>"

text \<open>
  The start of \<open>serve_flow\<close>: the flow registered and a cold pull noted; then a puller below the
  compacted tail told to reset (the frame, after which the task ends), otherwise the position the tail
  starts from.
  \<open>keys\<close> is the keyset a cold flow's scan snapshots. These critical sections, between which the task
  awaits nothing, are taken as one step.
\<close>

definition open_flow :: "bytes \<Rightarrow> bytes option \<Rightarrow> flow_partition \<Rightarrow> watermark \<Rightarrow> int \<Rightarrow> instant \<Rightarrow> changelog
    \<Rightarrow> changelog \<times> serve_guard" where
  "open_flow caller identity part since now_ms inst c =
     (let (c1, g) = serving caller part now_ms inst c
      in (if since = Watermark 0 0 then note_cold_pull caller identity c1 else c1, g))"

definition reset_reason :: bytes where
  "reset_reason = ''since fell below the compacted tail''"

definition serve_flow_start :: "serve_config \<Rightarrow> bytes \<Rightarrow> bytes \<Rightarrow> bytes option \<Rightarrow> flow_partition \<Rightarrow> watermark
    \<Rightarrow> bytes list \<Rightarrow> int \<Rightarrow> instant \<Rightarrow> changelog \<Rightarrow> changelog \<times> (frame + stream)" where
  "serve_flow_start cfg self_ordinal caller identity part since keys now_ms inst c =
     (let (c2, g) = open_flow caller identity part since now_ms inst c
      in if needs_reset c2 caller part since then (guard_drop g c2, Inl (ResetToBootstrap reset_reason))
         else if since = Watermark 0 0 then
           (note_scanned caller part (cl_head c2) c2,
            Inr (stream_new cfg self_ordinal g inst (cl_head c2) (Scanning keys)))
         else if w_gen since < cl_gen c2 then
           (c2, Inr (stream_new cfg self_ordinal g inst
             (case opened_at c2 caller part of Some w \<Rightarrow> w | None \<Rightarrow> since) Draining))
         else (c2, Inr (stream_new cfg self_ordinal g inst since Draining)))"

definition sm_drain :: "stream \<Rightarrow> changelog \<Rightarrow> changelog \<times> stream" where
  "sm_drain s c =
     (let (c', ds) = drain_snapshot (sg_peer (sm_guard s)) (sg_partition (sm_guard s)) (sm_w s) BATCH c
      in (c', s\<lparr>sm_phase := Building ds []\<rparr>))"

definition sm_frame :: "changelog \<Rightarrow> body_source \<Rightarrow> int \<Rightarrow> stream \<Rightarrow> due_entry \<Rightarrow> frame option" where
  "sm_frame c src now_ms s d =
     due_frame c src (sg_peer (sm_guard s)) (sg_partition (sm_guard s)) (sm_role s) (sm_primary s) now_ms d"

fun frame_at :: "frame \<Rightarrow> watermark option" where
  "frame_at (Data d) = Some (d_at d)"
| "frame_at _ = None"

text \<open>
  \<open>send_or_skip\<close> of one frame: sent, or refused unsent by the transport and skipped. What the
  call store does with a refused backup put (\<open>abandon_backup\<close>) is no part of this state.
\<close>

definition sm_send :: "frame \<Rightarrow> bool \<Rightarrow> stream \<Rightarrow> stream" where
  "sm_send f sent s = s\<lparr>sm_out := sm_out s @ [(f, sent)],
     sm_w := (case frame_at f of Some at \<Rightarrow> at | None \<Rightarrow> sm_w s)\<rparr>"

definition sm_caught_up :: "serve_config \<Rightarrow> instant \<Rightarrow> stream \<Rightarrow> stream" where
  "sm_caught_up cfg inst s =
     (if \<not> sm_ever_caught_up s \<or> sm_streamed_full_batch s \<or> sm_next_noop s \<le> inst
      then s\<lparr>sm_out := sm_out s @ [(Noop (sm_w s), True)], sm_ever_caught_up := True,
             sm_streamed_full_batch := False, sm_next_noop := inst + sc_noop_interval cfg, sm_phase := Waiting\<rparr>
      else s\<lparr>sm_phase := Waiting\<rparr>)"

text \<open>
  In a scan step the chunk goes out whole, or, refused as a batch, frame by frame with the refused
  ones skipped; a failed or stalled send and the peer's close end the task at any step.
\<close>

inductive serve_step :: "serve_config \<Rightarrow> changelog \<times> stream \<Rightarrow> changelog \<times> stream \<Rightarrow> bool"
  for cfg :: serve_config where
  scan: "sm_phase s = Scanning (k # ks) \<Longrightarrow>
    fs = bootstrap_frames src (sm_w s) (sg_partition (sm_guard s)) (sm_role s) (sm_primary s) now_ms
      (take BOOTSTRAP_CHUNK (k # ks)) \<Longrightarrow> length oks = length fs \<Longrightarrow>
    serve_step cfg (c, s) (c, s\<lparr>sm_out := sm_out s @ zip fs oks, sm_phase := Scanning (drop BOOTSTRAP_CHUNK (k # ks))\<rparr>)"
| scanned: "sm_phase s = Scanning [] \<Longrightarrow> serve_step cfg (c, s) (c, s\<lparr>sm_phase := Draining\<rparr>)"
| drain: "sm_phase s = Draining \<Longrightarrow> serve_step cfg (c, s) (sm_drain s c)"
| build: "sm_phase s = Building (d # ds) fs \<Longrightarrow>
    serve_step cfg (c, s) (c, s\<lparr>sm_phase :=
      Building ds (fs @ (case sm_frame c src now_ms s d of None \<Rightarrow> [] | Some f \<Rightarrow> [f]))\<rparr>)"
| built: "sm_phase s = Building [] fs \<Longrightarrow> serve_step cfg (c, s) (c, s\<lparr>sm_phase := Sending fs (length fs)\<rparr>)"
| send: "sm_phase s = Sending (f # fs) n \<Longrightarrow>
    serve_step cfg (c, s) (c, (sm_send f sent s)\<lparr>sm_phase := Sending fs n\<rparr>)"
| full: "sm_phase s = Sending [] n \<Longrightarrow> n = BATCH \<Longrightarrow>
    serve_step cfg (c, s) (c, s\<lparr>sm_streamed_full_batch := True, sm_phase := Draining\<rparr>)"
| caught_up: "sm_phase s = Sending [] n \<Longrightarrow> n \<noteq> BATCH \<Longrightarrow> serve_step cfg (c, s) (c, sm_caught_up cfg inst s)"
| woken: "sm_phase s = Waiting \<Longrightarrow> guard_written c (sm_guard s) = Some g \<Longrightarrow>
    serve_step cfg (c, s) (c, s\<lparr>sm_guard := g, sm_phase := Draining\<rparr>)"
| timer: "sm_phase s = Waiting \<Longrightarrow> sm_next_noop s \<le> inst \<Longrightarrow> serve_step cfg (c, s) (c, s\<lparr>sm_phase := Draining\<rparr>)"
| closed: "sm_phase s \<noteq> Ended \<Longrightarrow> serve_step cfg (c, s) (guard_drop (sm_guard s) c, s\<lparr>sm_phase := Ended\<rparr>)"

end
