(* ===== verification/Repl_Serve_Inv.thy ===== *)
theory Repl_Serve_Inv
  imports Repl_Serve
begin

text \<open>
  The system of one replication stream and the other users of the changelog, and the invariant of
  the stream's tail: every entry of its log is sent, in the batch at hand, or above everything
  drained so far; and when nothing was written since the task last looked, a batch that is not full
  leaves nothing above it. Each step of the task and each operation of the others keeps it.
\<close>

subsection \<open>The system around one stream\<close>

text \<open>
  The changelog, the stream, and how many other serve tasks hold the peer's log; another task's
  guard is dropped only while it is held.
\<close>

type_synonym sys = "changelog \<times> stream \<times> nat"

fun others_after :: "bytes \<Rightarrow> cl_op \<Rightarrow> nat \<Rightarrow> nat option" where
  "others_after p (OpServing q part now inst) n = Some (if q = p then Suc n else n)"
| "others_after p (OpDrop g) n = (if sg_peer g = p then (if n = 0 then None else Some (n - 1)) else Some n)"
| "others_after p _ n = Some n"

inductive sys_step :: "serve_config \<Rightarrow> sys \<Rightarrow> sys \<Rightarrow> bool" for cfg where
  own: "serve_step cfg (c, s) (c', s') \<Longrightarrow> sys_step cfg (c, s, n) (c', s', n)"
| other: "others_after (sg_peer (sm_guard s)) x n = Some n' \<Longrightarrow> sys_step cfg (c, s, n) (cl_apply x c, s, n')"

text \<open>The runs of a stream opened on a changelog with any history.\<close>

inductive stream_reach :: "serve_config \<Rightarrow> nat \<Rightarrow> watermark \<Rightarrow> sys \<Rightarrow> bool" for cfg gen where
  start: "serve_flow_start cfg self p identity part since keys now_ms inst (cl_run gen h) = (c, Inr s) \<Longrightarrow>
    n = (case cl_peers (cl_run gen h) p of None \<Rightarrow> 0 | Some log \<Rightarrow> pl_serving log) \<Longrightarrow>
    stream_reach cfg gen (sm_w s) (c, s, n)"
| step: "stream_reach cfg gen w0 a \<Longrightarrow> sys_step cfg a b \<Longrightarrow> stream_reach cfg gen w0 b"

subsection \<open>What the other operations do to the log\<close>

definition shrunk :: "sub_log \<Rightarrow> sub_log \<Rightarrow> bool" where
  "shrunk sl sl' \<longleftrightarrow> sl_written_version sl' = sl_written_version sl \<and>
     set (sl_entries sl') \<subseteq> set (sl_entries sl) \<and>
     (\<forall>r st'. sl_by_ref sl' r = Some st' \<longrightarrow> (\<exists>st. sl_by_ref sl r = Some st \<and> ref_core st = ref_core st'))"

lemma shrunk_refl: "sl_entries sl' = sl_entries sl \<Longrightarrow> sl_by_ref sl' = sl_by_ref sl \<Longrightarrow>
    sl_written_version sl' = sl_written_version sl \<Longrightarrow> shrunk sl sl'"
  by (auto simp: shrunk_def)

lemma shrunk_trans: "shrunk a b \<Longrightarrow> shrunk b c \<Longrightarrow> shrunk a c"
  unfolding shrunk_def by (metis subset_trans)

lemma shrunk_same:
  "same_refs (sl_by_ref sl) m \<Longrightarrow> shrunk sl (sl\<lparr>sl_by_ref := m\<rparr>)"
  using same_refs_Some by (auto simp: shrunk_def)

lemma shrunk_reap_one: "shrunk sl (reap_one r sl)"
  by (auto simp: shrunk_def reap_one_def split: option.split)

lemma shrunk_reap: "shrunk sl (reap_sublog g sl)"
proof -
  have "shrunk sl (fold reap_one rs sl)" for rs
    by (induction rs arbitrary: sl) (auto intro: shrunk_refl shrunk_trans shrunk_reap_one)
  then show ?thesis by (simp add: reap_sublog_def shrunk_refl)
qed

lemma shrunk_forget: "shrunk sl (sub_forget r sl)"
  by (auto simp: shrunk_def sub_forget_def split: option.split)

lemma move_shrinks:
  assumes "sub_move c x p part sl sl'" and "\<And>r op s now. x \<noteq> OpBump p r op part s now"
  shows "shrunk sl sl'"
  using assms(1)
proof cases
  case (scanned w)
  then show ?thesis using shrunk_same [OF same_refs_marks [where f = "\<lambda>_. w_counter w"]] by (simp add: sub_scanned_def)
next
  case (drained since limit)
  then show ?thesis using shrunk_same [OF same_refs_marks [where f = "\<lambda>c. c"]] by (simp add: sub_due_def Let_def)
qed (use assms(2) in \<open>auto simp: shrunk_reap shrunk_forget note_unbound_def note_claim_def rebind_def open_stream_def
  close_stream_def Let_def intro!: shrunk_refl\<close>)

lemma serving_apply:
  assumes "cl_peers c p = Some log" and "0 < pl_serving log"
  shows "\<exists>log'. cl_peers (cl_apply x c) p = Some log' \<and>
    pl_serving log' = (case x of
       OpServing q _ _ _ \<Rightarrow> if q = p then Suc (pl_serving log) else pl_serving log
     | OpDrop g \<Rightarrow> if sg_peer g = p then pl_serving log - 1 else pl_serving log
     | _ \<Rightarrow> pl_serving log)"
proof -
  have sub: "pl_serving (pl_sub_mut part f l) = pl_serving l" for part f l by (cases part) simp_all
  show ?thesis using assms
    by (cases x) (auto simp: bump_def forget_def cl_reap_def log_lives_def reap_log_def note_applied_def bind_identity_def
        admits_backup_def note_cold_pull_def note_scanned_def drain_snapshot_def serving_def guard_drop_def
        set_claim_ttl_def set_backlog_marks_def sub_of_def sub Let_def split: option.splits prod.splits)
qed

subsection \<open>The invariant of the tail\<close>

definition keys_of :: "frame set \<Rightarrow> (nat \<times> bytes) set" where
  "keys_of fs = {(w_counter (d_at d), d_call_ref d) |d. Data d \<in> fs}"

definition sent_keys :: "nat \<Rightarrow> stream \<Rightarrow> (nat \<times> bytes) set" where
  "sent_keys gen s = {(k, r). \<exists>d ok. (Data d, ok) \<in> set (sm_out s) \<and> d_at d = Watermark gen k \<and> d_call_ref d = r}"

fun in_flight :: "serve_phase \<Rightarrow> (nat \<times> bytes) set" where
  "in_flight (Building ds fs) = (\<lambda>d. (du_counter d, du_call_ref d)) ` set ds \<union> keys_of (set fs)"
| "in_flight (Sending fs n) = keys_of (set fs)"
| "in_flight _ = {}"

fun frames_of :: "serve_phase \<Rightarrow> frame set" where
  "frames_of (Building ds fs) = set fs"
| "frames_of (Sending fs n) = set fs"
| "frames_of _ = {}"

fun entries_of :: "serve_phase \<Rightarrow> due_entry set" where
  "entries_of (Building ds fs) = set ds"
| "entries_of _ = {}"

text \<open>How many entries of a batch are drained so far, unless the loop is not in a batch.\<close>

fun batch_size :: "serve_phase \<Rightarrow> nat option" where
  "batch_size (Building ds fs) = Some (length ds + length fs)"
| "batch_size (Sending fs n) = Some n"
| "batch_size Waiting = Some 0"
| "batch_size _ = None"

definition covered :: "nat \<Rightarrow> nat \<Rightarrow> sub_log \<Rightarrow> stream \<Rightarrow> bool" where
  "covered gen w0 sl s \<longleftrightarrow> (\<forall>(k, r)\<in>set (sl_entries sl). w0 < k \<longrightarrow> (k, r) \<in> sent_keys gen s \<union> in_flight (sm_phase s))"

definition accounted :: "nat \<Rightarrow> nat \<Rightarrow> sub_log \<Rightarrow> stream \<Rightarrow> bool" where
  "accounted gen w0 sl s \<longleftrightarrow> (\<forall>(k, r)\<in>set (sl_entries sl). w0 < k \<longrightarrow>
     (k, r) \<in> sent_keys gen s \<union> in_flight (sm_phase s) \<or>
     w_counter (sm_w s) < k \<and> (\<forall>(k', r')\<in>in_flight (sm_phase s). k' < k))"

definition same_write :: "sub_log \<Rightarrow> due_entry \<Rightarrow> bool" where
  "same_write sl d \<longleftrightarrow> (\<forall>st. sl_by_ref sl (du_call_ref d) = Some st \<and> rf_counter st = du_counter d \<longrightarrow> rf_op st = du_op d)"

definition not_rewritten :: "sub_log \<Rightarrow> due_entry \<Rightarrow> bool" where
  "not_rewritten sl d \<longleftrightarrow> (\<forall>st. sl_by_ref sl (du_call_ref d) = Some st \<longrightarrow> rf_counter st = du_counter d)"

definition bounded :: "nat \<Rightarrow> nat \<Rightarrow> stream \<Rightarrow> bool" where
  "bounded gen n s \<longleftrightarrow> w_gen (sm_w s) = gen \<and> w_counter (sm_w s) \<le> n \<and>
     (\<forall>(k, r)\<in>in_flight (sm_phase s). k \<le> n) \<and>
     (\<forall>f\<in>frames_of (sm_phase s). \<exists>d. f = Data d \<and> w_gen (d_at d) = gen) \<and>
     (\<forall>m. batch_size (sm_phase s) = Some m \<longrightarrow> m \<le> BATCH)"

definition tail_inv :: "nat \<Rightarrow> nat \<Rightarrow> nat \<Rightarrow> sub_log \<Rightarrow> stream \<Rightarrow> bool" where
  "tail_inv gen w0 n sl s \<longleftrightarrow> bounded gen n s \<and> sg_seen (sm_guard s) \<le> sl_written_version sl \<and>
     accounted gen w0 sl s \<and> (\<forall>d\<in>entries_of (sm_phase s). same_write sl d) \<and>
     (sl_written_version sl = sg_seen (sm_guard s) \<longrightarrow>
        (\<forall>d\<in>entries_of (sm_phase s). not_rewritten sl d) \<and>
        (\<forall>m. batch_size (sm_phase s) = Some m \<and> m < BATCH \<longrightarrow> covered gen w0 sl s))"

lemma bounded_mono: "bounded gen n s \<Longrightarrow> n \<le> n' \<Longrightarrow> bounded gen n' s"
  unfolding bounded_def by fastforce

lemma shrunk_parts:
  assumes "shrunk sl sl'"
  shows "accounted gen w0 sl s \<Longrightarrow> accounted gen w0 sl' s" "covered gen w0 sl s \<Longrightarrow> covered gen w0 sl' s"
    "same_write sl d \<Longrightarrow> same_write sl' d" "not_rewritten sl d \<Longrightarrow> not_rewritten sl' d"
proof -
  from assms have e: "set (sl_entries sl') \<subseteq> set (sl_entries sl)"
    and b: "\<And>r st'. sl_by_ref sl' r = Some st' \<Longrightarrow> \<exists>st. sl_by_ref sl r = Some st \<and> ref_core st = ref_core st'"
    by (auto simp: shrunk_def)
  show "accounted gen w0 sl s \<Longrightarrow> accounted gen w0 sl' s" "covered gen w0 sl s \<Longrightarrow> covered gen w0 sl' s"
    using e unfolding accounted_def covered_def by blast+
  show "same_write sl d \<Longrightarrow> same_write sl' d" "not_rewritten sl d \<Longrightarrow> not_rewritten sl' d"
    using b unfolding same_write_def not_rewritten_def ref_core_eq by metis+
qed

lemma tail_inv_shrunk:
  assumes "tail_inv gen w0 n sl s" and "shrunk sl sl'" and "n \<le> n'"
  shows "tail_inv gen w0 n' sl' s"
  using assms(1) bounded_mono [OF _ assms(3)] shrunk_parts [OF assms(2)] assms(2)
  unfolding tail_inv_def shrunk_def by auto

lemma tail_inv_put:
  assumes inv: "tail_inv gen w0 n sl s" and ok: "sub_ok n sl"
  shows "tail_inv gen w0 (Suc n) (sub_put (Suc n) r op now st sl) s"
proof -
  let ?sl = "sub_put (Suc n) r op now st sl"
  from inv have b: "bounded gen n s" by (simp add: tail_inv_def)
  have wf: "bt_wf (sl_entries sl)" using ok by (simp add: sub_ok_def entries_match_def)
  have ent: "set (sl_entries ?sl) \<subseteq> insert (Suc n, r) (set (sl_entries sl))"
    using wf by (auto simp: sub_put_def Let_def set_bt_insert split: option.splits)
  have "w_counter (sm_w s) < Suc n \<and> (\<forall>(k', r')\<in>in_flight (sm_phase s). k' < Suc n)"
    using b unfolding bounded_def by fastforce
  then have "accounted gen w0 ?sl s" using inv ent unfolding tail_inv_def accounted_def by blast
  moreover have "same_write ?sl d" if d: "d \<in> entries_of (sm_phase s)" for d
  proof -
    have "(du_counter d, du_call_ref d) \<in> in_flight (sm_phase s)" using d by (cases "sm_phase s") auto
    with b have "du_counter d \<le> n" unfolding bounded_def by blast
    with d inv show ?thesis by (auto simp: tail_inv_def same_write_def sub_put_def Let_def put_state_def)
  qed
  moreover have "sl_written_version ?sl = Suc (sl_written_version sl)" by (simp add: sub_put_def Let_def)
  ultimately show ?thesis using inv bounded_mono [OF b] unfolding tail_inv_def by auto
qed

subsection \<open>The steps of the serve task\<close>

lemma beyond_take:
  assumes "sorted_wrt (<) (map fst xs)" and "x \<in> set xs" and "x \<notin> set (take m xs)" and "y \<in> set (take m xs)"
  shows "fst y < fst (x :: 'a::linorder \<times> 'b)"
proof -
  have "x \<in> set (drop m xs)" using assms(2,3) by (metis Un_iff append_take_drop_id set_append)
  moreover have "sorted_wrt (<) (map fst (take m xs) @ map fst (drop m xs))"
    using assms(1) by (metis append_take_drop_id map_append)
  ultimately show ?thesis using assms(4) by (auto simp: sorted_wrt_append)
qed

lemma due_keys:
  assumes "set es \<subseteq> set (sl_entries sl)" and "sub_ok n sl"
  shows "(\<lambda>d. (du_counter d, du_call_ref d)) ` set (List.map_filter (due_of sl) es) = set es"
    and "length (List.map_filter (due_of sl) es) = length es"
    and "d \<in> set (List.map_filter (due_of sl) es) \<Longrightarrow> \<exists>st. sl_by_ref sl (du_call_ref d) = Some st \<and>
      rf_counter st = du_counter d \<and> rf_op st = du_op d"
proof -
  have held: "\<exists>st. sl_by_ref sl r = Some st \<and> rf_counter st = k" if "(k, r) \<in> set es" for k r
    using assms that by (auto simp: sub_ok_def entries_match_def)
  show "(\<lambda>d. (du_counter d, du_call_ref d)) ` set (List.map_filter (due_of sl) es) = set es"
    using held by (induction es) (fastforce simp: map_filter_simps due_of_def split: option.splits)+
  show "length (List.map_filter (due_of sl) es) = length es"
    using held by (induction es) (fastforce simp: map_filter_simps due_of_def split: option.splits)+
  show "d \<in> set (List.map_filter (due_of sl) es) \<Longrightarrow> \<exists>st. sl_by_ref sl (du_call_ref d) = Some st \<and>
      rf_counter st = du_counter d \<and> rf_op st = du_op d"
    using held unfolding map_filter_set by (force simp: due_of_Some)
qed

lemma entry_le:
  assumes "sub_ok n sl" and "(k, r) \<in> set (sl_entries sl)"
  shows "k \<le> n"
proof -
  from assms obtain st where "sl_by_ref sl r = Some st" "rf_counter st = k" by (auto simp: sub_ok_def entries_match_def)
  with assms(1) show ?thesis unfolding sub_ok_def by (metis le_trans)
qed

lemma tail_inv_drain:
  assumes inv: "tail_inv gen w0 n sl s" and ok: "sub_ok n sl" and ph: "sm_phase s = Draining"
  shows "tail_inv gen w0 n (fst (sub_due (w_counter (sm_w s)) False BATCH sl))
    (s\<lparr>sm_phase := Building (List.map_filter (due_of sl) (due_entries (w_counter (sm_w s)) False BATCH sl)) []\<rparr>)"
    (is "tail_inv gen w0 n ?sl ?s")
proof -
  let ?w = "w_counter (sm_w s)"
  define F where "F = filter (\<lambda>(c, _). ?w < c) (sl_entries sl)"
  have es: "due_entries ?w False BATCH sl = take BATCH F" by (simp add: due_entries_def F_def)
  have sub: "set (take BATCH F) \<subseteq> set (sl_entries sl)" using set_take_subset [of BATCH F] by (auto simp: F_def)
  note keys = due_keys [OF sub ok]
  have sorted: "sorted_wrt (<) (map fst F)"
    using ok sorted_filter_fst unfolding F_def by (auto simp: sub_ok_def entries_match_def bt_wf_def)
  have fl: "in_flight (sm_phase ?s) = set (take BATCH F)"
    by (simp add: es keys(1) keys_of_def)
  have acc: "(k, r) \<in> sent_keys gen s \<or> (k, r) \<in> set F" if "(k, r) \<in> set (sl_entries sl)" "w0 < k" for k r
    using inv that ph by (auto simp: tail_inv_def accounted_def F_def)
  have "accounted gen w0 sl ?s"
    using acc beyond_take [OF sorted] unfolding accounted_def fl by (fastforce simp: F_def sent_keys_def)
  moreover have "covered gen w0 sl ?s" if "length (take BATCH F) < BATCH"
    using acc that unfolding covered_def fl by (fastforce simp: sent_keys_def)
  moreover have "same_write sl d \<and> not_rewritten sl d" if "d \<in> entries_of (sm_phase ?s)" for d
    using keys(3) [of d] that by (auto simp: es same_write_def not_rewritten_def)
  moreover have "bounded gen n ?s"
    using inv sub entry_le [OF ok] unfolding bounded_def fl by (auto simp: tail_inv_def bounded_def es keys(2))
  ultimately have "tail_inv gen w0 n sl ?s" using inv by (auto simp: tail_inv_def es keys(2))
  moreover have "shrunk sl ?sl"
    using shrunk_same [OF same_refs_marks [where f = "\<lambda>c. c"]] by (simp add: sub_due_def Let_def)
  ultimately show ?thesis by (rule tail_inv_shrunk) simp
qed

lemma keys_of_Un [simp]: "keys_of (A \<union> B) = keys_of A \<union> keys_of B"
  by (auto simp: keys_of_def)

lemma keys_of_insert_Data [simp]: "keys_of (insert (Data d) A) = insert (w_counter (d_at d), d_call_ref d) (keys_of A)"
  by (auto simp: keys_of_def)

lemma keys_of_empty [simp]: "keys_of {} = {}"
  by (auto simp: keys_of_def)

text \<open>A frame is built at its entry's position, or its call was deleted since the snapshot.\<close>

lemma due_frame_some:
  "due_frame c src p part role primary now d = Some f \<Longrightarrow>
     \<exists>e. f = Data e \<and> d_at e = Watermark (cl_gen c) (du_counter d) \<and> d_call_ref e = du_call_ref d"
  by (auto simp: due_frame_def Let_def delete_frame_def put_frame_def split: if_splits option.splits prod.splits
      repl_op.splits)

lemma due_frame_none:
  "due_frame c src p part role primary now d = None \<Longrightarrow> sub_of c p part = Some sl \<Longrightarrow>
     du_op d = Put \<and> (\<exists>st. sl_by_ref sl (du_call_ref d) = Some st \<and> rf_op st = Delete)"
  by (cases "du_op d") (auto simp: due_frame_def Let_def current_entry_def split: if_splits option.splits repl_op.splits)

lemma tail_inv_build_some:
  assumes "tail_inv gen w0 n sl s" and "sm_phase s = Building (d # ds) fs"
    and "f = Data e" and "d_at e = Watermark gen (du_counter d)" and "d_call_ref e = du_call_ref d"
  shows "tail_inv gen w0 n sl (s\<lparr>sm_phase := Building ds (fs @ [f])\<rparr>)"
proof -
  have fl: "in_flight (Building ds (fs @ [f])) = in_flight (sm_phase s)"
    using assms(2-5) by (simp add: insert_commute)
  have "batch_size (Building ds (fs @ [f])) = batch_size (sm_phase s)" using assms(2) by simp
  with assms(1) fl assms(2-5) show ?thesis
    by (auto simp: tail_inv_def bounded_def accounted_def covered_def sent_keys_def)
qed

lemma tail_inv_build_none:
  assumes inv: "tail_inv gen w0 n sl s" and ok: "sub_ok n sl" and ph: "sm_phase s = Building (d # ds) fs"
    and op: "du_op d = Put" and st: "sl_by_ref sl (du_call_ref d) = Some st" "rf_op st = Delete"
  shows "tail_inv gen w0 n sl (s\<lparr>sm_phase := Building ds fs\<rparr>)"
proof -
  let ?key = "(du_counter d, du_call_ref d)"
  have "same_write sl d" using inv ph by (auto simp: tail_inv_def)
  with op st have ne: "rf_counter st \<noteq> du_counter d" by (auto simp: same_write_def)
  with st(1) ok have gone: "?key \<notin> set (sl_entries sl)" by (auto simp: sub_ok_def entries_match_def)
  from ne st(1) have "\<not> not_rewritten sl d" by (auto simp: not_rewritten_def)
  with inv ph have ver: "sl_written_version sl \<noteq> sg_seen (sm_guard s)" by (auto simp: tail_inv_def)
  have fl: "in_flight (sm_phase s) = insert ?key (in_flight (Building ds fs))" using ph by simp
  have "accounted gen w0 sl (s\<lparr>sm_phase := Building ds fs\<rparr>)"
    using inv gone unfolding tail_inv_def accounted_def sent_keys_def fl by fastforce
  with inv ver show ?thesis unfolding tail_inv_def bounded_def fl using ph by auto
qed

lemma tail_inv_send:
  assumes inv: "tail_inv gen w0 n sl s" and ph: "sm_phase s = Sending (f # fs) m"
  shows "tail_inv gen w0 n sl ((sm_send f sent s)\<lparr>sm_phase := Sending fs m\<rparr>)" (is "tail_inv _ _ _ _ ?s")
proof -
  obtain e where e: "f = Data e" "w_gen (d_at e) = gen" using inv ph by (auto simp: tail_inv_def bounded_def)
  let ?key = "(w_counter (d_at e), d_call_ref e)"
  have fl: "in_flight (sm_phase s) = insert ?key (in_flight (sm_phase ?s))" by (simp add: ph e sm_send_def)
  from e(2) have "d_at e = Watermark gen k \<longleftrightarrow> k = w_counter (d_at e)" for k by (cases "d_at e") auto
  then have out: "sent_keys gen ?s = insert ?key (sent_keys gen s)"
    by (auto simp: sent_keys_def sm_send_def e(1))
  have w: "sm_w ?s = d_at e" "sm_guard ?s = sm_guard s" by (simp_all add: sm_send_def e)
  have "accounted gen w0 sl ?s" using inv unfolding tail_inv_def accounted_def out fl w by fastforce
  moreover have "covered gen w0 sl ?s" if "covered gen w0 sl s"
    using that unfolding covered_def out fl by fastforce
  moreover have "bounded gen n ?s"
    using inv e unfolding tail_inv_def bounded_def fl w by (auto simp: ph sm_send_def)
  ultimately show ?thesis using inv ph unfolding tail_inv_def w(2) by auto
qed

lemma tail_inv_frame:
  assumes "tail_inv gen w0 n sl s" and "in_flight (sm_phase s') = {}" and "in_flight (sm_phase s) = {}"
    and "sent_keys gen s \<subseteq> sent_keys gen s'" and "sm_w s' = sm_w s"
    and "sg_seen (sm_guard s') \<le> sl_written_version sl"
    and "frames_of (sm_phase s') = {}" and "entries_of (sm_phase s') = {}"
    and "\<And>m. batch_size (sm_phase s') = Some m \<Longrightarrow> m \<le> BATCH \<and>
      (sl_written_version sl = sg_seen (sm_guard s') \<longrightarrow> covered gen w0 sl s)"
  shows "tail_inv gen w0 n sl s'"
proof -
  have cov: "covered gen w0 sl s'" if "covered gen w0 sl s"
    using that assms(2-4) unfolding covered_def by fastforce
  have "accounted gen w0 sl s'" using assms(1-5) unfolding tail_inv_def accounted_def by fastforce
  moreover have "bounded gen n s'" using assms(1,2,5,7,9) unfolding tail_inv_def bounded_def by auto
  ultimately show ?thesis using assms(6,8,9) cov unfolding tail_inv_def by blast
qed

lemma sm_caught_up_frame:
  "sm_phase (sm_caught_up cfg inst s) = Waiting" "sm_w (sm_caught_up cfg inst s) = sm_w s"
  "sm_guard (sm_caught_up cfg inst s) = sm_guard s" "sent_keys gen (sm_caught_up cfg inst s) = sent_keys gen s"
  by (auto simp: sm_caught_up_def sent_keys_def keys_of_def)

text \<open>Every step of the task keeps the invariant, on the flow's log as the step leaves it.\<close>

lemma tail_inv_own:
  assumes "serve_step cfg (c, s) (c', s')" and "sm_phase s' \<noteq> Ended" and "cl_gen c = gen"
    and "sub_of c (sg_peer (sm_guard s)) (sg_partition (sm_guard s)) = Some sl" and "sub_ok (cl_counter c) sl"
    and inv: "tail_inv gen w0 (cl_counter c) sl s"
  shows "\<exists>sl'. sub_of c' (sg_peer (sm_guard s')) (sg_partition (sm_guard s')) = Some sl' \<and>
    tail_inv gen w0 (cl_counter c') sl' s'"
  using assms(1)
proof cases
  case (scan k ks fs src now_ms oks)
  then have "sent_keys gen s \<subseteq> sent_keys gen s'" by (auto simp: sent_keys_def keys_of_def)
  with scan inv have "tail_inv gen w0 (cl_counter c) sl s'"
    by (intro tail_inv_frame [OF inv]) (auto simp: tail_inv_def)
  with scan assms(4) show ?thesis by auto
next
  case scanned
  with inv have "tail_inv gen w0 (cl_counter c) sl s'"
    by (intro tail_inv_frame [OF inv]) (auto simp: sent_keys_def tail_inv_def)
  with scanned assms(4) show ?thesis by auto
next
  case drain
  let ?p = "sg_peer (sm_guard s)" and ?part = "sg_partition (sm_guard s)"
  from inv assms(3) have w: "w_gen (sm_w s) = cl_gen c" by (simp add: tail_inv_def bounded_def)
  have c': "c' = cl_apply (OpDrain ?p ?part (sm_w s) BATCH) c"
    and s': "s' = s\<lparr>sm_phase := Building (snd (drain_snapshot ?p ?part (sm_w s) BATCH c)) []\<rparr>"
    using drain by (auto simp: sm_drain_def Let_def split: prod.splits)
  have "cl_counter c' = cl_counter c" unfolding c' by (simp add: cl_counter_apply del: cl_apply.simps)
  moreover have "sub_of c' ?p ?part = Some (fst (sub_due (w_counter (sm_w s)) False BATCH sl))"
    using assms(4) w unfolding c' by (simp add: sub_of_drain)
  ultimately show ?thesis
    using tail_inv_drain [OF inv assms(5)] drain w unfolding s' by (simp add: snapshot_due [OF assms(4)])
next
  case (build d ds fs src now_ms)
  show ?thesis
  proof (cases "sm_frame c src now_ms s d")
    case None
    from due_frame_none [OF None [unfolded sm_frame_def] assms(4)] obtain st where
      "du_op d = Put" "sl_by_ref sl (du_call_ref d) = Some st" "rf_op st = Delete" by blast
    from tail_inv_build_none [OF inv assms(5) build(3) this] build None assms(4) show ?thesis by simp
  next
    case (Some f)
    from due_frame_some [OF Some [unfolded sm_frame_def]] assms(3) obtain e where
      "f = Data e" "d_at e = Watermark gen (du_counter d)" "d_call_ref e = du_call_ref d" by blast
    from tail_inv_build_some [OF inv build(3) this] build Some assms(4) show ?thesis by simp
  qed
next
  case (built fs)
  with inv assms(4) show ?thesis by (auto simp: tail_inv_def bounded_def accounted_def covered_def sent_keys_def)
next
  case (send f fs n sent)
  with tail_inv_send [OF inv send(3)] assms(4) show ?thesis by (simp add: sm_send_def)
next
  case (full n)
  with inv have "tail_inv gen w0 (cl_counter c) sl s'"
    by (intro tail_inv_frame [OF inv]) (auto simp: sent_keys_def tail_inv_def)
  with full assms(4) show ?thesis by auto
next
  case (caught_up n inst)
  have "n < BATCH" using caught_up inv by (auto simp: tail_inv_def bounded_def)
  with caught_up inv have "tail_inv gen w0 (cl_counter c) sl s'"
    by (intro tail_inv_frame [OF inv]) (auto simp: sm_caught_up_frame tail_inv_def)
  with caught_up assms(4) show ?thesis by (auto simp: sm_caught_up_frame)
next
  case (woken g)
  then have "sg_peer g = sg_peer (sm_guard s)" "sg_partition g = sg_partition (sm_guard s)"
    "sg_seen g = sl_written_version sl"
    using assms(4) by (auto simp: guard_written_def split: if_splits)
  moreover from this woken inv have "tail_inv gen w0 (cl_counter c) sl s'"
    by (intro tail_inv_frame [OF inv]) (auto simp: sent_keys_def)
  ultimately show ?thesis using woken assms(4) by auto
next
  case (timer inst)
  with inv have "tail_inv gen w0 (cl_counter c) sl s'"
    by (intro tail_inv_frame [OF inv]) (auto simp: sent_keys_def tail_inv_def)
  with timer assms(4) show ?thesis by auto
qed (use assms(2) in simp)

end
