(* ===== verification/Repl_Serve_Props.thy ===== *)
theory Repl_Serve_Props
  imports Repl_Serve_Inv
begin

text \<open>
  A replication stream leaves nothing unsent. The serve task reads the changelog only at its drains
  and sleeps on a channel in between; whatever the other tasks do at any point of its loop, when it
  sleeps with nothing to wake it, every entry of its log above the position it started from has been
  handed to the transport.
\<close>

subsection \<open>Reachable streams\<close>

fun sys_ok :: "nat \<Rightarrow> watermark \<Rightarrow> sys \<Rightarrow> bool" where
  "sys_ok gen w0 (c, s, n) \<longleftrightarrow> (\<exists>h. c = cl_run gen h) \<and> (sm_phase s \<noteq> Ended \<longrightarrow>
     (\<exists>log. cl_peers c (sg_peer (sm_guard s)) = Some log \<and> pl_serving log = Suc n) \<and>
     (\<exists>sl. sub_of c (sg_peer (sm_guard s)) (sg_partition (sm_guard s)) = Some sl \<and>
       tail_inv gen (w_counter w0) (cl_counter c) sl s))"

lemma run_apply: "\<exists>h. c = cl_run gen h \<Longrightarrow> \<exists>h. cl_apply x c = cl_run gen h"
  by (metis cl_run_snoc)

lemma own_is_op: "serve_step cfg (c, s) (c', s') \<Longrightarrow> c' = c \<or> (\<exists>p part w k. c' = cl_apply (OpDrain p part w k) c) \<or>
    (\<exists>g. c' = cl_apply (OpDrop g) c \<and> sm_phase s' = Ended)"
  by (erule serve_step.cases) (auto simp: sm_drain_def Let_def split: prod.splits, metis fst_conv)

lemma own_guard: "serve_step cfg (c, s) (c', s') \<Longrightarrow> sg_peer (sm_guard s') = sg_peer (sm_guard s) \<and>
    sg_partition (sm_guard s') = sg_partition (sm_guard s) \<and> sm_phase s \<noteq> Ended"
  by (erule serve_step.cases) (auto simp: sm_drain_def sm_send_def sm_caught_up_frame guard_written_def Let_def
      split: prod.splits option.splits if_splits)

lemma sys_ok_own:
  assumes "sys_ok gen w0 (c, s, n)" and "serve_step cfg (c, s) (c', s')"
  shows "sys_ok gen w0 (c', s', n)"
proof -
  from assms(1) have "\<exists>h. c = cl_run gen h" by simp
  with own_is_op [OF assms(2)] run_apply have run: "\<exists>h. c' = cl_run gen h" by metis
  moreover have "(\<exists>log. cl_peers c' (sg_peer (sm_guard s')) = Some log \<and> pl_serving log = Suc n) \<and>
     (\<exists>sl. sub_of c' (sg_peer (sm_guard s')) (sg_partition (sm_guard s')) = Some sl \<and>
       tail_inv gen (w_counter w0) (cl_counter c') sl s')" if live: "sm_phase s' \<noteq> Ended"
  proof -
    from own_guard [OF assms(2)] assms(1) obtain h log sl where c: "c = cl_run gen h"
      and log: "cl_peers c (sg_peer (sm_guard s)) = Some log" "pl_serving log = Suc n"
      and sl: "sub_of c (sg_peer (sm_guard s)) (sg_partition (sm_guard s)) = Some sl"
        "tail_inv gen (w_counter w0) (cl_counter c) sl s"
      and g: "sg_peer (sm_guard s') = sg_peer (sm_guard s)" by auto
    from own_is_op [OF assms(2)] live consider "c' = c" | p part w k where "c' = cl_apply (OpDrain p part w k) c"
      by blast
    then have "\<exists>log. cl_peers c' (sg_peer (sm_guard s')) = Some log \<and> pl_serving log = Suc n"
    proof cases
      case 2
      with serving_apply [OF log(1), of "OpDrain p part w k" for p part w k] log(2) show ?thesis
        unfolding g by (simp del: cl_apply.simps)
    qed (use log g in simp)
    moreover have "sub_ok (cl_counter c) sl" using well_formed.invariant sl(1) unfolding c by blast
    ultimately show ?thesis using tail_inv_own [OF assms(2) live _ sl(1) _ sl(2)] c by simp
  qed
  ultimately show ?thesis by simp
qed

lemma sys_ok_other:
  assumes "sys_ok gen w0 (c, s, n)" and "others_after (sg_peer (sm_guard s)) x n = Some n'"
  shows "sys_ok gen w0 (cl_apply x c, s, n')"
proof -
  let ?p = "sg_peer (sm_guard s)" and ?part = "sg_partition (sm_guard s)"
  have "(\<exists>log. cl_peers (cl_apply x c) ?p = Some log \<and> pl_serving log = Suc n') \<and>
     (\<exists>sl. sub_of (cl_apply x c) ?p ?part = Some sl \<and> tail_inv gen (w_counter w0) (cl_counter (cl_apply x c)) sl s)"
    if live: "sm_phase s \<noteq> Ended"
  proof -
    from assms(1) live obtain h log sl where c: "c = cl_run gen h"
      and log: "cl_peers c ?p = Some log" "pl_serving log = Suc n"
      and sl: "sub_of c ?p ?part = Some sl" "tail_inv gen (w_counter w0) (cl_counter c) sl s" by auto
    from serving_apply [OF log(1), of x] log(2) obtain log' where log': "cl_peers (cl_apply x c) ?p = Some log'"
      and n: "pl_serving log' = Suc n'" using assms(2) by (cases x) (auto split: if_splits)
    then obtain sl' where sl': "sub_of (cl_apply x c) ?p ?part = Some sl'" by (simp add: sub_of_def)
    from op_moves [OF sl'] sl(1) have mv: "sub_move c x ?p ?part sl sl'" by (simp add: moved_from_def)
    have ok: "sub_ok (cl_counter c) sl" using well_formed.invariant sl(1) unfolding c by blast
    have "tail_inv gen (w_counter w0) (cl_counter (cl_apply x c)) sl' s"
    proof (cases "\<exists>r op st now. x = OpBump ?p r op ?part st now")
      case True
      then obtain r op st now where x: "x = OpBump ?p r op ?part st now" by blast
      with mv have "sl' = sub_put (Suc (cl_counter c)) r op now st sl" by (auto elim: sub_move.cases)
      with tail_inv_put [OF sl(2) ok] x show ?thesis by (simp add: cl_counter_apply del: cl_apply.simps)
    next
      case False
      with move_shrinks [OF mv] show ?thesis by (intro tail_inv_shrunk [OF sl(2) _ cl_counter_mono]) blast
    qed
    with log' n sl' show ?thesis by blast
  qed
  with assms(1) run_apply show ?thesis by fastforce
qed

lemma tail_inv_start:
  assumes "w_gen w = gen" and "w_counter w \<le> n" and "sm_w s = w" and "sm_phase s \<in> {Draining, Scanning ks}"
    and "sg_seen (sm_guard s) = sl_written_version sl"
  shows "tail_inv gen (w_counter w) n sl s"
  using assms by (auto simp: tail_inv_def bounded_def accounted_def)

lemma serving_run: "fst (serving p part now inst (cl_run gen h)) = cl_run gen (h @ [OpServing p part now inst])"
  by simp

lemma serving_guard:
  "snd (serving p part now inst c) = \<lparr>sg_peer = p, sg_partition = part,
     sg_seen = (case sub_of (fst (serving p part now inst c)) p part of Some sl \<Rightarrow> sl_written_version sl | None \<Rightarrow> 0)\<rparr>"
  by (simp add: serving_def Let_def)

lemma serving_held:
  "\<exists>log. cl_peers (fst (serving p part now inst c)) p = Some log \<and>
     pl_serving log = Suc (case cl_peers c p of None \<Rightarrow> 0 | Some log \<Rightarrow> pl_serving log)"
  by (cases part) (auto simp: serving_def Let_def peer_log_new_def split: option.split)

text \<open>The log a started stream stands on: registered, with nothing written since the guard looked.\<close>

definition started_on :: "nat \<Rightarrow> bytes \<Rightarrow> flow_partition \<Rightarrow> nat \<Rightarrow> nat \<Rightarrow> changelog \<Rightarrow> bool" where
  "started_on gen p part seen n c \<longleftrightarrow> (\<exists>h. c = cl_run gen h) \<and>
     (\<exists>log. cl_peers c p = Some log \<and> pl_serving log = Suc n) \<and>
     (\<exists>sl. sub_of c p part = Some sl \<and> sl_written_version sl = seen)"

lemma started_apply:
  assumes "started_on gen p part seen n c" and "x = OpCold p i \<or> x = OpScanned p part w"
  shows "started_on gen p part seen n (cl_apply x c)"
proof -
  from assms(1) obtain h log sl where c: "c = cl_run gen h" "cl_peers c p = Some log" "pl_serving log = Suc n"
    and sl: "sub_of c p part = Some sl" "sl_written_version sl = seen" by (auto simp: started_on_def)
  from serving_apply [OF c(2), of x] c(3) assms(2) obtain log' where
    log': "cl_peers (cl_apply x c) p = Some log'" "pl_serving log' = Suc n" by auto
  then obtain sl' where sl': "sub_of (cl_apply x c) p part = Some sl'" by (simp add: sub_of_def)
  from op_moves [OF sl'] sl(1) have "sub_move c x p part sl sl'" by (simp add: moved_from_def)
  from move_shrinks [OF this] assms(2) sl(2) have "sl_written_version sl' = seen" by (auto simp: shrunk_def)
  with c(1) log' sl' run_apply show ?thesis unfolding started_on_def by blast
qed

lemma open_flow_started:
  assumes "open_flow p identity part since now_ms inst (cl_run gen h) = (c2, g)"
    and "n = (case cl_peers (cl_run gen h) p of None \<Rightarrow> 0 | Some log \<Rightarrow> pl_serving log)"
  shows "started_on gen p part (sg_seen g) n c2 \<and> sg_peer g = p \<and> sg_partition g = part"
proof -
  define c1 where "c1 = fst (serving p part now_ms inst (cl_run gen h))"
  obtain sl1 where sl1: "sub_of c1 p part = Some sl1" by (simp add: c1_def sub_of_serving Let_def)
  have sv: "serving p part now_ms inst (cl_run gen h) =
      (c1, \<lparr>sg_peer = p, sg_partition = part, sg_seen = sl_written_version sl1\<rparr>)"
    using serving_guard [of p part now_ms inst "cl_run gen h"] sl1 by (simp add: c1_def prod_eq_iff)
  have "\<exists>h'. c1 = cl_run gen h'" unfolding c1_def serving_run by blast
  with serving_held [of p part now_ms inst "cl_run gen h"] sl1 assms(2)
  have "started_on gen p part (sl_written_version sl1) n c1" by (simp add: started_on_def c1_def)
  with started_apply [OF this, of "OpCold p identity" identity] assms(1) sv show ?thesis
    by (auto simp: open_flow_def split: if_splits)
qed

lemma started_sys_ok:
  assumes "started_on gen p part (sg_seen g) n c" and "sg_peer g = p" and "sg_partition g = part"
    and "w_gen w = gen" and "w_counter w \<le> cl_counter c" and "ph \<in> {Draining, Scanning ks}"
  shows "sys_ok gen w (c, stream_new cfg self g inst w ph, n)"
  using assms tail_inv_start [OF assms(4,5), of "stream_new cfg self g inst w ph" ks]
  by (auto simp: started_on_def stream_new_def)

lemma start_ok:
  assumes "serve_flow_start cfg self p identity part since keys now_ms inst (cl_run gen h) = (c, Inr s)"
    and "n = (case cl_peers (cl_run gen h) p of None \<Rightarrow> 0 | Some log \<Rightarrow> pl_serving log)"
  shows "sys_ok gen (sm_w s) (c, s, n)"
proof -
  obtain c2 g where op: "open_flow p identity part since now_ms inst (cl_run gen h) = (c2, g)" by fastforce
  note start = assms(1)[unfolded serve_flow_start_def op prod.case Let_def]
  from open_flow_started [OF op assms(2)] have c2: "started_on gen p part (sg_seen g) n c2"
    and g: "sg_peer g = p" "sg_partition g = part" by simp_all
  from start have reset: "\<not> needs_reset c2 p part since" by (auto split: if_splits)
  from c2 obtain sl2 where sl2: "sub_of c2 p part = Some sl2" "\<exists>h. c2 = cl_run gen h" by (auto simp: started_on_def)
  then have "sub_ok (cl_counter c2) sl2" using well_formed.invariant by blast
  then have opened: "sl_opened sl2 \<le> cl_counter c2" by (auto simp: sub_ok_def)
  from sl2(2) have gen: "cl_gen c2 = gen" by auto
  consider "since = Watermark 0 0" | "since \<noteq> Watermark 0 0" "w_gen since < gen"
    | "since \<noteq> Watermark 0 0" "w_gen since = gen" "w_counter since \<le> cl_counter c2"
    using reset gen by (fastforce simp: needs_reset_def split: if_splits)
  then show ?thesis
  proof cases
    case 1
    with start reset have c: "c = cl_apply (OpScanned p part (cl_head c2)) c2"
      and s: "s = stream_new cfg self g inst (cl_head c2) (Scanning keys)" by auto
    from started_apply [OF c2, of "OpScanned p part (cl_head c2)"] gen show ?thesis unfolding s c
      using started_sys_ok [OF _ g, of gen n _ "cl_head c2"]
      by (simp add: stream_new_def cl_head_def cl_counter_apply del: cl_apply.simps sys_ok.simps)
  next
    case 2
    with start reset gen sl2(1) have "c = c2" and s: "s = stream_new cfg self g inst (Watermark gen (sl_opened sl2)) Draining"
      by (auto simp: opened_at_def)
    with started_sys_ok [OF c2 g, of "Watermark gen (sl_opened sl2)"] opened show ?thesis
      by (simp add: stream_new_def del: sys_ok.simps)
  next
    case 3
    with start reset gen have "c = c2" and s: "s = stream_new cfg self g inst since Draining" by auto
    with started_sys_ok [OF c2 g 3(2,3)] show ?thesis by (simp add: stream_new_def del: sys_ok.simps)
  qed
qed

lemma reach_ok: "stream_reach cfg gen w0 a \<Longrightarrow> sys_ok gen w0 a"
proof (induction rule: stream_reach.induct)
  case (start self p identity part since keys now_ms inst h c s n)
  then show ?case by (rule start_ok)
next
  case (step w0 a b)
  from step(2) show ?case
  proof cases
    case (own c s c' s' n)
    with step.IH sys_ok_own show ?thesis by blast
  next
    case (other s x n n' c)
    with step.IH sys_ok_other show ?thesis by blast
  qed
qed

text \<open>
  C6: whenever a stream waits, whatever the writers, reapers and other streams did at any point of
  its loop, every entry of its log between the position it started from and the one it stands at
  (the one its \<open>Noop\<close> announces) has been handed to the transport at its own position; and when the
  log holds nothing to wake it, so has every later entry.
\<close>

theorem waiting_stream_sent:
  assumes "stream_reach cfg gen w0 (c, s, n)" and "sm_phase s = Waiting"
  shows "\<exists>sl. sub_of c (sg_peer (sm_guard s)) (sg_partition (sm_guard s)) = Some sl \<and>
    (\<forall>k r. (k, r) \<in> set (sl_entries sl) \<and> w_counter w0 < k \<and>
      (k \<le> w_counter (sm_w s) \<or> guard_written c (sm_guard s) = None) \<longrightarrow>
      (\<exists>d ok. (Data d, ok) \<in> set (sm_out s) \<and> d_at d = Watermark gen k \<and> d_call_ref d = r))"
proof -
  from reach_ok [OF assms(1)] assms(2) obtain sl where
    sl: "sub_of c (sg_peer (sm_guard s)) (sg_partition (sm_guard s)) = Some sl"
    and inv: "tail_inv gen (w_counter w0) (cl_counter c) sl s" by auto
  have "(k, r) \<in> sent_keys gen s" if "(k, r) \<in> set (sl_entries sl)" "w_counter w0 < k" "k \<le> w_counter (sm_w s)" for k r
    using inv that assms(2) by (fastforce simp: tail_inv_def accounted_def)
  moreover have "(k, r) \<in> sent_keys gen s"
    if "(k, r) \<in> set (sl_entries sl)" "w_counter w0 < k" "guard_written c (sm_guard s) = None" for k r
  proof -
    from that(3) sl have "sl_written_version sl = sg_seen (sm_guard s)" by (simp add: guard_written_def split: if_splits)
    with inv assms(2) have "covered gen (w_counter w0) sl s" by (simp add: tail_inv_def BATCH_def)
    with that assms(2) show ?thesis by (fastforce simp: covered_def)
  qed
  ultimately show ?thesis using sl by (auto simp: sent_keys_def)
qed

definition log0 :: changelog where
  "log0 = cl_run 7 [OpServing ''w1'' Bak 0 0, OpBump ''w1'' ''a'' Put Bak stated_default 1]"

definition meta0 :: ref_meta where
  "meta0 = \<lparr>rm_call_gen = 1, rm_call_bgen = 0, rm_body_ttl_ms = 1000, rm_indexes = [], rm_incarnation = None,
     rm_skew_offset_ms = None\<rparr>"

definition body0 :: body_source where
  "body0 = (\<lambda>role primary r. Some (''body'', meta0))"

definition stream0 :: stream where
  "stream0 = stream_new serve_config_default ''w0'' \<lparr>sg_peer = ''w1'', sg_partition = Bak, sg_seen = 1\<rparr> 2
     (Watermark 7 0) Draining"

definition log1 :: changelog where
  "log1 = fst (serving ''w1'' Bak 2 2 log0)"

definition due0 :: due_entry where
  "due0 = \<lparr>du_counter = 1, du_call_ref = ''a'', du_op = Put, du_answered = False, du_incarnation = None\<rparr>"

lemmas run_simps = log1_def log0_def cl_run_def cl_op_defs

lemma start0: "serve_flow_start serve_config_default ''w0'' ''w1'' None Bak (Watermark 7 0) [] 2 2 log0 = (log1, Inr stream0)"
proof -
  have "snd (serving ''w1'' Bak 2 2 log0) = \<lparr>sg_peer = ''w1'', sg_partition = Bak, sg_seen = 1\<rparr>"
    by (simp add: run_simps)
  then have sv: "serving ''w1'' Bak 2 2 log0 = (log1, \<lparr>sg_peer = ''w1'', sg_partition = Bak, sg_seen = 1\<rparr>)"
    by (simp add: log1_def prod_eq_iff)
  have "\<not> needs_reset log1 ''w1'' Bak (Watermark 7 0)" "cl_gen log1 = 7" by (simp_all add: run_simps)
  with sv show ?thesis by (simp add: serve_flow_start_def open_flow_def stream0_def)
qed

lemma drain0:
  "snd (drain_snapshot ''w1'' Bak (Watermark 7 0) BATCH log1) = [due0]"
  "\<exists>sl. sub_of (fst (drain_snapshot ''w1'' Bak (Watermark 7 0) BATCH log1)) ''w1'' Bak = Some sl \<and>
     sl_entries sl = [(1, ''a'')] \<and> sl_written_version sl = 1"
  by (simp_all add: run_simps BATCH_def map_filter_simps due_of_def due0_def)

theorem waiting_stream_sent_witness:
  "\<exists>c s. stream_reach serve_config_default 7 (Watermark 7 0) (c, s, 1) \<and> sm_phase s = Waiting \<and>
     guard_written c (sm_guard s) = None \<and>
     (\<exists>d ok. (Data d, ok) \<in> set (sm_out s) \<and> d_at d = Watermark 7 1 \<and> d_call_ref d = ''a'')"
proof -
  let ?R = "stream_reach serve_config_default 7 (Watermark 7 0)" and ?c = "fst (sm_drain stream0 log1)"
    and ?f = "put_frame (Watermark 7 1) Bak ''a'' 5 (''body'', meta0)"
  let ?s = "sm_caught_up serve_config_default 5
    ((sm_send ?f True (stream0\<lparr>sm_phase := Sending [?f] 1\<rparr>))\<lparr>sm_phase := Sending [] 1\<rparr>)"
  note go = stream_reach.step [OF _ sys_step.own]
  have one: "(1 :: nat) = (case cl_peers log0 ''w1'' of None \<Rightarrow> 0 | Some log \<Rightarrow> pl_serving log)"
    by (simp add: run_simps)
  have "?R (log1, stream0, 1)"
    using stream_reach.start [OF start0 [unfolded log0_def] one [unfolded log0_def]] by (simp add: stream0_def stream_new_def)
  moreover have "sm_drain stream0 log1 = (?c, stream0\<lparr>sm_phase := Building [due0] []\<rparr>)"
    using drain0(1) by (auto simp: sm_drain_def stream0_def stream_new_def split: prod.splits)
  ultimately have "?R (?c, stream0\<lparr>sm_phase := Building [due0] []\<rparr>, 1)"
    using go [of serve_config_default 7 "Watermark 7 0" log1 stream0 1]
      serve_step.drain [of stream0 serve_config_default log1] by (simp add: stream0_def stream_new_def)
  moreover have c: "?c = fst (drain_snapshot ''w1'' Bak (Watermark 7 0) BATCH log1)"
    by (simp add: sm_drain_def stream0_def stream_new_def split: prod.split)
  then have "cl_gen ?c = 7" using cl_gen_apply [of "OpDrain ''w1'' Bak (Watermark 7 0) BATCH" log1]
    by (simp add: run_simps)
  then have "sm_frame ?c body0 5 (stream0\<lparr>sm_phase := Building [due0] []\<rparr>) due0 = Some ?f"
    by (simp add: sm_frame_def due_frame_def due0_def body0_def stream0_def stream_new_def)
  ultimately have "?R (?c, stream0\<lparr>sm_phase := Building [] [?f]\<rparr>, 1)"
    using go [OF _ serve_step.build [where src = body0 and now_ms = 5]] by fastforce
  then have "?R (?c, stream0\<lparr>sm_phase := Sending [?f] 1\<rparr>, 1)" using go [OF _ serve_step.built] by fastforce
  then have "?R (?c, (sm_send ?f True (stream0\<lparr>sm_phase := Sending [?f] 1\<rparr>))\<lparr>sm_phase := Sending [] 1\<rparr>, 1)"
    by (rule go [OF _ serve_step.send]) simp
  then have "?R (?c, ?s, 1)" by (rule go [OF _ serve_step.caught_up]) (simp, simp add: BATCH_def)
  then obtain s where s: "s = ?s" and r: "?R (?c, s, 1)" by blast
  have w: "sm_phase s = Waiting" by (simp add: s sm_caught_up_frame)
  have g: "sm_guard s = \<lparr>sg_peer = ''w1'', sg_partition = Bak, sg_seen = 1\<rparr>"
    by (simp add: s sm_caught_up_frame sm_send_def stream0_def stream_new_def)
  have "guard_written ?c (sm_guard s) = None" using drain0(2) by (auto simp: c g guard_written_def)
  with r w show ?thesis using waiting_stream_sent [OF r w] drain0(2) by (fastforce simp: c g)
qed

end
