(* ===== verification/Repl_Store.thy ===== *)
theory Repl_Store
  imports Changelog
begin

text \<open>
  The replicating call store of a worker: call references (\<open>src/crates/call/src/callref.rs\<close>), the
  in-memory bodies and index
  (\<open>src/crates/b2bua/src/store/memory.rs\<close>, \<open>call_store.rs\<close>), the resurrection tombstones
  (\<open>repl/resurrection.rs\<close>), the replica refusals (\<open>repl/store/refusals.rs\<close>) and the store over
  them with its write path and its reap (\<open>repl/store.rs\<close>, \<open>store/write.rs\<close>, \<open>admission.rs\<close>,
  \<open>backing.rs\<close>). Every operation is synchronous under its locks and takes its clock reading; a hash
  map iterated by the source is iterated in an order given as an argument.
\<close>

subsection \<open>Call references and their partition\<close>

text \<open>\<open>str::split_once\<close> of the standard library.\<close>

definition split_once :: "char \<Rightarrow> bytes \<Rightarrow> (bytes \<times> bytes) option" where
  "split_once c s = (case dropWhile (\<lambda>x. x \<noteq> c) s of
     [] \<Rightarrow> None
   | _ # rest \<Rightarrow> Some (takeWhile (\<lambda>x. x \<noteq> c) s, rest))"

record parsed_call_ref =
  pr_primary :: bytes
  pr_call_id :: bytes
  pr_from_tag :: bytes

definition derive_call_ref :: "bytes \<Rightarrow> bytes \<Rightarrow> bytes \<Rightarrow> bytes" where
  "derive_call_ref primary call_id from_tag = primary @ ''|'' @ call_id @ ''|'' @ from_tag"

definition split_call_ref :: "bytes \<Rightarrow> (bytes \<times> bytes \<times> bytes) option" where
  "split_call_ref r = (case split_once CHR ''|'' r of
     None \<Rightarrow> None
   | Some (primary, rest) \<Rightarrow> (case split_once CHR ''|'' rest of
       None \<Rightarrow> None
     | Some (call_id, from_tag) \<Rightarrow>
         if primary = [] \<or> call_id = [] \<or> from_tag = [] then None else Some (primary, call_id, from_tag)))"

definition parse_call_ref :: "bytes \<Rightarrow> parsed_call_ref option" where
  "parse_call_ref r = map_option (\<lambda>(p, i, t). \<lparr>pr_primary = p, pr_call_id = i, pr_from_tag = t\<rparr>) (split_call_ref r)"

definition call_ref_primary :: "bytes \<Rightarrow> bytes option" where
  "call_ref_primary r = map_option fst (split_call_ref r)"

definition partition_of :: "bytes \<Rightarrow> bytes \<Rightarrow> partition_role \<times> bytes" where
  "partition_of self_ordinal r = (case parse_call_ref r of
     Some p \<Rightarrow> if pr_primary p = self_ordinal then (Primary, pr_primary p) else (Backup, pr_primary p)
   | None \<Rightarrow> (Primary, self_ordinal))"

definition role_of :: "bytes \<Rightarrow> bytes \<Rightarrow> partition_role" where
  "role_of self_ordinal r = (case call_ref_primary r of
     Some p \<Rightarrow> if p = self_ordinal then Primary else Backup
   | None \<Rightarrow> Primary)"

subsection \<open>Bodies and the SIP index\<close>

fun role_str :: "partition_role \<Rightarrow> bytes" where
  "role_str Primary = ''pri''"
| "role_str Backup = ''bak''"

definition body_key :: "partition_role \<Rightarrow> bytes \<Rightarrow> bytes \<Rightarrow> bytes" where
  "body_key role primary call_ref = role_str role @ '':'' @ primary @ '':call:'' @ call_ref"

definition idx_key :: "bytes \<Rightarrow> bytes" where
  "idx_key i = ''idx:'' @ i"

record mem_store =
  ms_bodies :: "bytes \<rightharpoonup> bytes"
  ms_indexes :: "bytes \<rightharpoonup> bytes"
  ms_idx_by_ref :: "bytes \<rightharpoonup> bytes list"

definition mem_store_new :: mem_store where
  "mem_store_new = \<lparr>ms_bodies = Map.empty, ms_indexes = Map.empty, ms_idx_by_ref = Map.empty\<rparr>"

text \<open>A key leaves the index only while it still points at the call.\<close>

definition drop_key :: "bytes \<Rightarrow> bytes \<Rightarrow> (bytes \<rightharpoonup> bytes) \<Rightarrow> (bytes \<rightharpoonup> bytes)" where
  "drop_key call_ref k ix = (if ix k = Some call_ref then ix(k := None) else ix)"

definition own_keys :: "bytes \<Rightarrow> mem_store \<Rightarrow> bytes list" where
  "own_keys call_ref m = (case ms_idx_by_ref m call_ref of None \<Rightarrow> [] | Some ks \<Rightarrow> ks)"

definition store_body :: "partition_role \<Rightarrow> bytes \<Rightarrow> bytes \<Rightarrow> bytes \<Rightarrow> bytes list \<Rightarrow> mem_store \<Rightarrow> mem_store" where
  "store_body role primary call_ref b indexes m =
     (let m1 = m\<lparr>ms_bodies := (ms_bodies m)(body_key role primary call_ref \<mapsto> b)\<rparr>
      in if indexes = [] then m1
         else let new_keys = map idx_key indexes;
                  stale = filter (\<lambda>k. k \<notin> set new_keys) (own_keys call_ref m);
                  ix = fold (drop_key call_ref) stale (ms_indexes m)
              in m1\<lparr>ms_indexes := fold (\<lambda>k ix. ix(k \<mapsto> call_ref)) new_keys ix,
                    ms_idx_by_ref := (ms_idx_by_ref m)(call_ref \<mapsto> new_keys)\<rparr>)"

definition mem_body :: "partition_role \<Rightarrow> bytes \<Rightarrow> bytes \<Rightarrow> mem_store \<Rightarrow> bytes option" where
  "mem_body role primary call_ref m = ms_bodies m (body_key role primary call_ref)"

definition remove_body :: "partition_role \<Rightarrow> bytes \<Rightarrow> bytes \<Rightarrow> bytes list \<Rightarrow> mem_store
    \<Rightarrow> mem_store \<times> bytes option" where
  "remove_body role primary call_ref indexes m =
     (m\<lparr>ms_bodies := (ms_bodies m)(body_key role primary call_ref := None),
        ms_indexes := fold (drop_key call_ref) (map idx_key indexes)
          (fold (drop_key call_ref) (own_keys call_ref m) (ms_indexes m)),
        ms_idx_by_ref := (ms_idx_by_ref m)(call_ref := None)\<rparr>,
      ms_bodies m (body_key role primary call_ref))"

definition mem_get_index :: "bytes \<Rightarrow> mem_store \<Rightarrow> bytes option" where
  "mem_get_index index_key m = ms_indexes m (idx_key index_key)"

definition mem_scan_calls :: "bytes list \<Rightarrow> partition_role \<Rightarrow> bytes \<Rightarrow> mem_store \<Rightarrow> bytes list" where
  "mem_scan_calls order role primary m =
     List.map_filter (ms_bodies m) (filter (\<lambda>k. take (length (body_key role primary [])) k = body_key role primary []) order)"

subsection \<open>Call incarnations and resurrection tombstones\<close>

definition is_another_call :: "bytes option \<Rightarrow> bytes option \<Rightarrow> bool" where
  "is_another_call held incoming = (case (held, incoming) of (Some h, Some i) \<Rightarrow> h \<noteq> i | _ \<Rightarrow> False)"

definition RESURRECTION_TOMBSTONE_MS :: int where
  "RESURRECTION_TOMBSTONE_MS = 300000"

datatype burial = Deleted | Replaced

record tombstone =
  tb_buried_at_ms :: int
  tb_incarnation :: "bytes option"
  tb_burial :: burial

type_synonym tombstones = "bytes \<rightharpoonup> tombstone list"

definition buried_of :: "bytes \<Rightarrow> tombstones \<Rightarrow> tombstone list" where
  "buried_of call_ref t = (case t call_ref of None \<Rightarrow> [] | Some ts \<Rightarrow> ts)"

definition bury :: "bytes \<Rightarrow> bytes option \<Rightarrow> burial \<Rightarrow> int \<Rightarrow> tombstones \<Rightarrow> tombstones" where
  "bury call_ref incarnation how at_ms t = t(call_ref \<mapsto>
     filter (\<lambda>x. tb_incarnation x \<noteq> incarnation) (buried_of call_ref t)
       @ [\<lparr>tb_buried_at_ms = at_ms, tb_incarnation = incarnation, tb_burial = how\<rparr>])"

definition in_window :: "int \<Rightarrow> tombstone \<Rightarrow> bool" where
  "in_window now_ms x \<longleftrightarrow> now_ms - tb_buried_at_ms x < RESURRECTION_TOMBSTONE_MS"

text \<open>\<open>burial\<close>: a deleted call answers before a replaced one.\<close>

definition burial_of :: "bytes \<Rightarrow> bytes option \<Rightarrow> int \<Rightarrow> tombstones \<Rightarrow> burial option" where
  "burial_of call_ref incarnation now_ms t =
     (let hit = map tb_burial (filter (\<lambda>x. in_window now_ms x \<and> (incarnation = None \<or> tb_incarnation x = incarnation))
            (buried_of call_ref t))
      in if hit = [] then None else if Deleted \<in> set hit then Some Deleted else Some Replaced)"

definition prune :: "int \<Rightarrow> tombstones \<Rightarrow> tombstones" where
  "prune now_ms t = (\<lambda>r. case t r of
     None \<Rightarrow> None
   | Some ts \<Rightarrow> let ts' = filter (in_window now_ms) ts in if ts' = [] then None else Some ts')"

subsection \<open>Replica refusals\<close>

definition REFUSAL_TTL_MS :: int where
  "REFUSAL_TTL_MS = 10000"

definition REFUSALS_MAX :: nat where
  "REFUSALS_MAX = 65536"

record refusal =
  rfl_incarnation :: "bytes option"
  rfl_primary :: bytes
  rfl_expiry_at_ms :: int
  rfl_seq :: nat

record refused_replicas =
  rr_by_ref :: "bytes \<rightharpoonup> refusal"
  rr_order :: "(nat \<times> bytes) list"
  rr_next_seq :: nat

definition refused_replicas_new :: refused_replicas where
  "refused_replicas_new = \<lparr>rr_by_ref = Map.empty, rr_order = [], rr_next_seq = 0\<rparr>"

definition rr_clear :: "bytes \<Rightarrow> refused_replicas \<Rightarrow> refused_replicas" where
  "rr_clear call_ref rr = (case rr_by_ref rr call_ref of
     None \<Rightarrow> rr
   | Some x \<Rightarrow> rr\<lparr>rr_by_ref := (rr_by_ref rr)(call_ref := None), rr_order := bt_remove (rfl_seq x) (rr_order rr)\<rparr>)"

text \<open>The loop of \<open>refuse\<close>: the oldest go while the cap is reached.\<close>

fun rr_make_room :: "(nat \<times> bytes) list \<Rightarrow> (bytes \<rightharpoonup> refusal) \<Rightarrow> (nat \<times> bytes) list \<times> (bytes \<rightharpoonup> refusal)" where
  "rr_make_room [] m = ([], m)"
| "rr_make_room (e # es) m =
     (if REFUSALS_MAX \<le> card (dom m) then rr_make_room es (m(snd e := None)) else (e # es, m))"

definition i64_saturating_add :: "int \<Rightarrow> int \<Rightarrow> int" where
  "i64_saturating_add a b = max (- (2 ^ 63)) (min (a + b) (2 ^ 63 - 1))"

definition rr_refuse :: "bytes \<Rightarrow> bytes option \<Rightarrow> bytes \<Rightarrow> int \<Rightarrow> refused_replicas \<Rightarrow> refused_replicas" where
  "rr_refuse call_ref incarnation primary now_ms rr =
     (let rr = rr_clear call_ref rr;
          (es, m) = rr_make_room (rr_order rr) (rr_by_ref rr);
          seq = rr_next_seq rr
      in \<lparr>rr_by_ref = m(call_ref \<mapsto> \<lparr>rfl_incarnation = incarnation, rfl_primary = primary,
            rfl_expiry_at_ms = i64_saturating_add now_ms REFUSAL_TTL_MS, rfl_seq = seq\<rparr>),
          rr_order = bt_insert seq call_ref es, rr_next_seq = Suc seq\<rparr>)"

definition rr_refuses :: "bytes \<Rightarrow> bytes option \<Rightarrow> refused_replicas \<Rightarrow> bool" where
  "rr_refuses call_ref incarnation rr = (case rr_by_ref rr call_ref of
     None \<Rightarrow> False
   | Some x \<Rightarrow> incarnation = None \<or> rfl_incarnation x = None \<or> rfl_incarnation x = incarnation)"

text \<open>The calls with a refusal that satisfies \<open>P\<close> are cleared, one by one.\<close>

definition rr_clear_where :: "(refusal \<Rightarrow> bool) \<Rightarrow> refused_replicas \<Rightarrow> refused_replicas" where
  "rr_clear_where P rr = fold rr_clear
     (filter (\<lambda>r. case rr_by_ref rr r of None \<Rightarrow> False | Some x \<Rightarrow> P x) (map snd (rr_order rr))) rr"

definition rr_clear_primary :: "bytes \<Rightarrow> refused_replicas \<Rightarrow> refused_replicas" where
  "rr_clear_primary primary = rr_clear_where (\<lambda>x. rfl_primary x = primary)"

definition rr_reap :: "int \<Rightarrow> refused_replicas \<Rightarrow> refused_replicas" where
  "rr_reap now_ms = rr_clear_where (\<lambda>x. rfl_expiry_at_ms x \<le> now_ms)"

subsection \<open>The replicating store\<close>

definition DEFAULT_REPLICATED_TTL_MS :: int where
  "DEFAULT_REPLICATED_TTL_MS = 3600000"

datatype propagate_direction = ForwardTo | ReverseTo

record put_opts =
  po_peer :: "bytes option"
  po_direction :: "propagate_direction option"
  po_origin_now_ms :: "int option"
  po_incarnation :: "bytes option"

definition put_opts_default :: put_opts where
  "put_opts_default = \<lparr>po_peer = None, po_direction = None, po_origin_now_ms = None, po_incarnation = None\<rparr>"

record call_meta =
  cm_meta :: ref_meta
  cm_role :: partition_role
  cm_primary :: bytes
  cm_backup :: "bytes option"
  cm_expiry_at_ms :: "int option"
  cm_authority_answered :: bool

record repl_store =
  rs_inner :: mem_store
  rs_changelog :: changelog
  rs_meta :: "bytes \<rightharpoonup> call_meta"
  rs_backups :: nat
  rs_replicas :: refused_replicas
  rs_unbacked :: "bytes set"
  rs_tombstones :: tombstones
  rs_displaced :: "bytes \<rightharpoonup> bytes"
  rs_default_ttl_ms :: int

definition repl_store_new :: "nat \<Rightarrow> repl_store" where
  "repl_store_new gen = \<lparr>rs_inner = mem_store_new, rs_changelog = changelog_new gen, rs_meta = Map.empty,
     rs_backups = 0, rs_replicas = refused_replicas_new, rs_unbacked = {}, rs_tombstones = Map.empty,
     rs_displaced = Map.empty, rs_default_ttl_ms = DEFAULT_REPLICATED_TTL_MS\<rparr>"

definition with_default_ttl_ms :: "int \<Rightarrow> repl_store \<Rightarrow> repl_store" where
  "with_default_ttl_ms t st = st\<lparr>rs_default_ttl_ms := t\<rparr>"

definition expiry_for :: "repl_store \<Rightarrow> int \<Rightarrow> int \<Rightarrow> int option" where
  "expiry_for st now ttl_ms =
     (let effective = (if 0 < ttl_ms then ttl_ms else rs_default_ttl_ms st)
      in if 0 < effective then Some (now + effective) else None)"

definition meta_expired :: "int \<Rightarrow> call_meta \<Rightarrow> bool" where
  "meta_expired now m = (case cm_expiry_at_ms m of Some e \<Rightarrow> e \<le> now | None \<Rightarrow> False)"

definition is_expired :: "repl_store \<Rightarrow> int \<Rightarrow> bytes \<Rightarrow> bool" where
  "is_expired st now call_ref = (case rs_meta st call_ref of Some m \<Rightarrow> meta_expired now m | None \<Rightarrow> False)"

definition current_cv :: "repl_store \<Rightarrow> int \<Rightarrow> bytes \<Rightarrow> (int \<times> int) option" where
  "current_cv st now call_ref =
     (if is_expired st now call_ref then None
      else map_option (\<lambda>m. (rm_call_gen (cm_meta m), rm_call_bgen (cm_meta m))) (rs_meta st call_ref))"

definition skew_offset_ms :: "repl_store \<Rightarrow> bytes \<Rightarrow> int option" where
  "skew_offset_ms st call_ref = Option.bind (rs_meta st call_ref) (\<lambda>m. rm_skew_offset_ms (cm_meta m))"

text \<open>The incarnation the record of a ref names, expired or not, and as \<open>incarnation\<close> reads it.\<close>

definition held_incarnation :: "repl_store \<Rightarrow> bytes \<Rightarrow> bytes option" where
  "held_incarnation st call_ref = Option.bind (rs_meta st call_ref) (\<lambda>m. rm_incarnation (cm_meta m))"

definition store_incarnation :: "repl_store \<Rightarrow> int \<Rightarrow> bytes \<Rightarrow> bytes option" where
  "store_incarnation st now call_ref =
     (if is_expired st now call_ref then None else held_incarnation st call_ref)"

definition scan_call_refs :: "bytes list \<Rightarrow> repl_store \<Rightarrow> int \<Rightarrow> partition_role \<Rightarrow> bytes \<Rightarrow> bytes list" where
  "scan_call_refs order st now role primary = filter (\<lambda>r. case rs_meta st r of
     None \<Rightarrow> False
   | Some m \<Rightarrow> cm_role m = role \<and> cm_primary m = primary \<and> \<not> meta_expired now m) order"

definition scan_refs_backed_by :: "bytes list \<Rightarrow> repl_store \<Rightarrow> int \<Rightarrow> bytes \<Rightarrow> bytes \<Rightarrow> bytes list" where
  "scan_refs_backed_by order st now primary backup = filter (\<lambda>r. case rs_meta st r of
     None \<Rightarrow> False
   | Some m \<Rightarrow> cm_role m = Primary \<and> cm_primary m = primary \<and> cm_backup m = Some backup \<and>
       \<not> meta_expired now m) order"

definition peek_body_raw :: "repl_store \<Rightarrow> partition_role \<Rightarrow> bytes \<Rightarrow> bytes \<Rightarrow> bytes option" where
  "peek_body_raw st role primary call_ref = mem_body role primary call_ref (rs_inner st)"

definition get_call :: "repl_store \<Rightarrow> int \<Rightarrow> partition_role \<Rightarrow> bytes \<Rightarrow> bytes \<Rightarrow> bytes option" where
  "get_call st now role primary call_ref =
     (if is_expired st now call_ref then None else mem_body role primary call_ref (rs_inner st))"

definition get_index :: "repl_store \<Rightarrow> int \<Rightarrow> bytes \<Rightarrow> bytes option" where
  "get_index st now index_key = (case mem_get_index index_key (rs_inner st) of
     None \<Rightarrow> None
   | Some r \<Rightarrow> if is_expired st now r then None else Some r)"

definition read_entry :: "repl_store \<Rightarrow> int \<Rightarrow> body_source" where
  "read_entry st now role primary call_ref = (case rs_meta st call_ref of
     None \<Rightarrow> None
   | Some m \<Rightarrow> if meta_expired now m then None
       else map_option (\<lambda>b. (b, cm_meta m)) (mem_body role primary call_ref (rs_inner st)))"

definition set_meta :: "bytes \<Rightarrow> (call_meta \<Rightarrow> call_meta) \<Rightarrow> repl_store \<Rightarrow> repl_store" where
  "set_meta call_ref f st = (case rs_meta st call_ref of
     None \<Rightarrow> st
   | Some m \<Rightarrow> st\<lparr>rs_meta := (rs_meta st)(call_ref \<mapsto> f m)\<rparr>)"

definition reestablish_backup :: "bytes \<Rightarrow> bytes \<Rightarrow> repl_store \<Rightarrow> repl_store" where
  "reestablish_backup call_ref backup = set_meta call_ref (\<lambda>m. m\<lparr>cm_backup := Some backup\<rparr>)"

definition note_authority_answer :: "bytes \<Rightarrow> repl_store \<Rightarrow> repl_store" where
  "note_authority_answer call_ref = set_meta call_ref (\<lambda>m. m\<lparr>cm_authority_answered := True\<rparr>)"

definition authority_answered :: "repl_store \<Rightarrow> bytes \<Rightarrow> bool" where
  "authority_answered st call_ref = (case rs_meta st call_ref of None \<Rightarrow> False | Some m \<Rightarrow> cm_authority_answered m)"

definition meta_counts :: "repl_store \<Rightarrow> nat \<times> nat" where
  "meta_counts st = (card (dom (rs_meta st)), rs_backups st)"

definition buries :: "repl_store \<Rightarrow> int \<Rightarrow> bytes \<Rightarrow> bytes option \<Rightarrow> bool" where
  "buries st now call_ref incarnation \<longleftrightarrow> burial_of call_ref incarnation now (rs_tombstones st) \<noteq> None"

definition take_displaced :: "bytes list \<Rightarrow> repl_store \<Rightarrow> repl_store \<times> bytes list" where
  "take_displaced order st = (st\<lparr>rs_displaced := Map.empty\<rparr>, List.map_filter (rs_displaced st) order)"

fun account_role :: "partition_role option \<Rightarrow> partition_role option \<Rightarrow> nat \<Rightarrow> nat" where
  "account_role old new n =
     (let was = (old = Some Backup); is = (new = Some Backup)
      in if is \<and> \<not> was then n + 1 else if was \<and> \<not> is then n - 1 else n)"

fun partition_for :: "propagate_direction option \<Rightarrow> flow_partition" where
  "partition_for (Some ReverseTo) = Pri"
| "partition_for _ = Bak"

subsection \<open>Which write is taken\<close>

definition keep_for_reap :: "bytes option \<Rightarrow> bytes \<Rightarrow> repl_store \<Rightarrow> repl_store" where
  "keep_for_reap incarnation b st = (case incarnation of
     None \<Rightarrow> st
   | Some i \<Rightarrow> st\<lparr>rs_displaced := (rs_displaced st)(i \<mapsto> b)\<rparr>)"

definition bury_in :: "bytes \<Rightarrow> bytes option \<Rightarrow> burial \<Rightarrow> int \<Rightarrow> repl_store \<Rightarrow> repl_store" where
  "bury_in call_ref incarnation how at_ms st =
     st\<lparr>rs_tombstones := bury call_ref incarnation how at_ms (rs_tombstones st)\<rparr>"

text \<open>The record, the body and the index keys of a ref go together.\<close>

definition take_out :: "bytes \<Rightarrow> repl_store \<Rightarrow> repl_store \<times> (call_meta \<times> bytes option) option" where
  "take_out call_ref st = (case rs_meta st call_ref of
     None \<Rightarrow> (st, None)
   | Some gone \<Rightarrow>
       let (inner, removed) = remove_body (cm_role gone) (cm_primary gone) call_ref (rm_indexes (cm_meta gone)) (rs_inner st)
       in (st\<lparr>rs_meta := (rs_meta st)(call_ref := None),
              rs_backups := account_role (Some (cm_role gone)) None (rs_backups st), rs_inner := inner\<rparr>,
           Some (gone, removed)))"

record write_req =
  wr_role :: partition_role
  wr_direction :: "propagate_direction option"
  wr_now :: int

definition displace :: "bytes \<Rightarrow> int \<Rightarrow> repl_store \<Rightarrow> repl_store" where
  "displace call_ref now st = (case take_out call_ref st of
     (st1, None) \<Rightarrow> st1
   | (st1, Some (gone, removed)) \<Rightarrow>
       let st2 = bury_in call_ref (rm_incarnation (cm_meta gone)) Replaced now st1
       in case removed of
            Some b \<Rightarrow> if cm_role gone = Backup \<and> 0 < rm_call_bgen (cm_meta gone)
              then keep_for_reap (rm_incarnation (cm_meta gone)) b st2 else st2
          | None \<Rightarrow> st2)"

definition admits :: "bytes \<Rightarrow> bytes option \<Rightarrow> bytes \<Rightarrow> write_req \<Rightarrow> repl_store \<Rightarrow> repl_store \<times> bool" where
  "admits call_ref incarnation b w st = (case burial_of call_ref incarnation (wr_now w) (rs_tombstones st) of
     Some Deleted \<Rightarrow> (st, False)
   | Some Replaced \<Rightarrow>
       let st1 = (if incarnation = None then st else bury_in call_ref incarnation Replaced (wr_now w) st)
       in (if wr_role w = Backup then keep_for_reap incarnation b st1 else st1, False)
   | None \<Rightarrow>
       if \<not> is_another_call (held_incarnation st call_ref) incarnation then (st, True)
       else if wr_direction w = Some ReverseTo then
         let st1 = bury_in call_ref incarnation Replaced (wr_now w) st
         in (if wr_role w = Backup then keep_for_reap incarnation b st1 else st1, False)
       else (displace call_ref (wr_now w) st, True))"

subsection \<open>The write path\<close>

definition held_origin_now_ms :: "repl_store \<Rightarrow> int \<Rightarrow> bytes \<Rightarrow> int option" where
  "held_origin_now_ms st now call_ref = Option.bind (rs_meta st call_ref)
     (\<lambda>m. map_option (\<lambda>_. origin_now_ms (cm_meta m) now) (rm_skew_offset_ms (cm_meta m)))"

definition skew_of :: "int \<Rightarrow> int \<Rightarrow> int" where
  "skew_of now origin = i64_saturating_sub now origin"

definition flushed_backup :: "put_opts \<Rightarrow> bytes option" where
  "flushed_backup opts = (if po_direction opts = Some ForwardTo then po_peer opts else None)"

definition put_meta :: "ref_meta \<Rightarrow> partition_role \<Rightarrow> bytes \<Rightarrow> int option \<Rightarrow> bytes option \<Rightarrow> call_meta option \<Rightarrow> call_meta" where
  "put_meta rm role primary expiry backup held = (case held of
     Some m \<Rightarrow> m\<lparr>cm_meta := rm, cm_role := role, cm_primary := primary, cm_expiry_at_ms := expiry,
       cm_backup := (if backup = None then cm_backup m else backup)\<rparr>
   | None \<Rightarrow> \<lparr>cm_meta = rm, cm_role = role, cm_primary = primary, cm_backup = backup,
       cm_expiry_at_ms = expiry, cm_authority_answered = False\<rparr>)"

definition insert_call :: "partition_role \<Rightarrow> bytes \<Rightarrow> bytes \<Rightarrow> bytes \<Rightarrow> ref_meta \<Rightarrow> int option \<Rightarrow> bytes option
    \<Rightarrow> repl_store \<Rightarrow> repl_store" where
  "insert_call role primary call_ref b rm expiry backup st =
     (let held = rs_meta st call_ref
      in st\<lparr>rs_inner := store_body role primary call_ref b (rm_indexes rm) (rs_inner st),
            rs_backups := account_role (map_option cm_role held) (Some role) (rs_backups st),
            rs_meta := (rs_meta st)(call_ref \<mapsto> put_meta rm role primary expiry backup held)\<rparr>)"

definition write_incarnation :: "repl_store \<Rightarrow> bytes \<Rightarrow> put_opts \<Rightarrow> bytes option" where
  "write_incarnation st call_ref opts = (case po_incarnation opts of
     Some i \<Rightarrow> Some i | None \<Rightarrow> held_incarnation st call_ref)"

definition write_put :: "partition_role \<Rightarrow> bytes \<Rightarrow> bytes \<Rightarrow> bytes \<Rightarrow> bytes list \<Rightarrow> int \<Rightarrow> int \<Rightarrow> int \<Rightarrow> put_opts \<Rightarrow> int
    \<Rightarrow> repl_store \<Rightarrow> repl_store" where
  "write_put role primary call_ref b indexes ttl_ms call_gen call_bgen opts now st =
     (let expiry = expiry_for st now ttl_ms;
          incarnation = write_incarnation st call_ref opts;
          rm = \<lparr>rm_call_gen = call_gen, rm_call_bgen = call_bgen, rm_body_ttl_ms = ttl_ms, rm_indexes = indexes,
            rm_incarnation = incarnation, rm_skew_offset_ms = map_option (i64_saturating_sub now) (po_origin_now_ms opts)\<rparr>
      in case admits call_ref incarnation b \<lparr>wr_role = role, wr_direction = po_direction opts, wr_now = now\<rparr> st of
           (st1, False) \<Rightarrow> st1
         | (st1, True) \<Rightarrow>
             let st2 = insert_call role primary call_ref b rm expiry (flushed_backup opts) st1;
                 st3 = st2\<lparr>rs_replicas := rr_clear call_ref (rs_replicas st2)\<rparr>
             in case po_peer opts of
                  None \<Rightarrow> st3
                | Some peer \<Rightarrow> st3\<lparr>rs_changelog :=
                    fst (bump_put peer call_ref (partition_for (po_direction opts)) now (rs_changelog st3))\<rparr>)"

text \<open>A delete removes the body where it says; the record of the ref goes with it.\<close>

definition delete_held :: "partition_role \<Rightarrow> bytes \<Rightarrow> bytes \<Rightarrow> bytes list \<Rightarrow> repl_store \<Rightarrow> repl_store" where
  "delete_held role primary call_ref indexes st =
     st\<lparr>rs_inner := fst (remove_body role primary call_ref indexes (rs_inner st)),
        rs_backups := account_role (map_option cm_role (rs_meta st call_ref)) None (rs_backups st),
        rs_meta := (rs_meta st)(call_ref := None)\<rparr>"

definition write_delete :: "partition_role \<Rightarrow> bytes \<Rightarrow> bytes \<Rightarrow> bytes list \<Rightarrow> bool \<Rightarrow> put_opts \<Rightarrow> int \<Rightarrow> repl_store
    \<Rightarrow> repl_store" where
  "write_delete role primary call_ref indexes answered opts now st =
     (if rs_meta st call_ref \<noteq> None \<and> is_another_call (held_incarnation st call_ref) (po_incarnation opts)
      then bury_in call_ref (po_incarnation opts) Deleted now st
      else let incarnation = write_incarnation st call_ref opts;
               st1 = bury_in call_ref incarnation Deleted now (delete_held role primary call_ref indexes st);
               st2 = st1\<lparr>rs_replicas := rr_clear call_ref (rs_replicas st1), rs_unbacked := rs_unbacked st1 - {call_ref}\<rparr>
           in case po_peer opts of
                None \<Rightarrow> st2
              | Some peer \<Rightarrow> st2\<lparr>rs_changelog := fst (bump_delete peer call_ref (partition_for (po_direction opts))
                  answered incarnation now (rs_changelog st2))\<rparr>)"

subsection \<open>Which calls have a backup\<close>

definition refuse_replica :: "bytes \<Rightarrow> bytes \<Rightarrow> bytes option \<Rightarrow> int \<Rightarrow> repl_store \<Rightarrow> repl_store" where
  "refuse_replica call_ref primary incarnation now st =
     st\<lparr>rs_replicas := rr_refuse call_ref incarnation primary now (rs_replicas st)\<rparr>"

definition refused_replica :: "repl_store \<Rightarrow> bytes \<Rightarrow> bytes option \<Rightarrow> bool" where
  "refused_replica st call_ref incarnation = rr_refuses call_ref incarnation (rs_replicas st)"

definition clear_refusals_of :: "bytes \<Rightarrow> repl_store \<Rightarrow> repl_store" where
  "clear_refusals_of primary st = st\<lparr>rs_replicas := rr_clear_primary primary (rs_replicas st)\<rparr>"

definition leave_unbacked :: "bytes \<Rightarrow> repl_store \<Rightarrow> repl_store" where
  "leave_unbacked call_ref st = st\<lparr>rs_unbacked := insert call_ref (rs_unbacked st)\<rparr>"

definition admit_backed :: "bytes \<Rightarrow> repl_store \<Rightarrow> repl_store" where
  "admit_backed call_ref st = st\<lparr>rs_unbacked := rs_unbacked st - {call_ref}\<rparr>"

definition backup_refused :: "bytes \<Rightarrow> bytes \<Rightarrow> bytes option \<Rightarrow> repl_store \<Rightarrow> repl_store" where
  "backup_refused backup call_ref incarnation st = (case rs_meta st call_ref of
     None \<Rightarrow> st
   | Some m \<Rightarrow>
       if cm_role m \<noteq> Primary \<or> cm_backup m \<noteq> Some backup then st
       else if incarnation \<noteq> None \<and> rm_incarnation (cm_meta m) \<noteq> incarnation then st
       else st\<lparr>rs_meta := (rs_meta st)(call_ref \<mapsto> m\<lparr>cm_backup := None\<rparr>),
              rs_unbacked := insert call_ref (rs_unbacked st),
              rs_changelog := forget backup Bak call_ref (rs_changelog st)\<rparr>)"

definition abandon_backup :: "bytes \<Rightarrow> bytes \<Rightarrow> int \<Rightarrow> repl_store \<Rightarrow> repl_store" where
  "abandon_backup backup call_ref now st =
     (let ours = (case rs_meta st call_ref of None \<Rightarrow> None | Some m \<Rightarrow> if cm_role m = Primary then Some m else None);
          st1 = st\<lparr>rs_unbacked := insert call_ref (rs_unbacked st)\<rparr>;
          st2 = (case ours of None \<Rightarrow> st1
            | Some m \<Rightarrow> st1\<lparr>rs_meta := (rs_meta st1)(call_ref \<mapsto> m\<lparr>cm_backup := None\<rparr>)\<rparr>)
      in st2\<lparr>rs_changelog := fst (bump_delete backup call_ref Bak False
           (case ours of None \<Rightarrow> None | Some m \<Rightarrow> rm_incarnation (cm_meta m)) now (rs_changelog st2))\<rparr>)"

subsection \<open>The reap\<close>

definition expired_snapshot :: "bytes list \<Rightarrow> int \<Rightarrow> repl_store \<Rightarrow> bytes list" where
  "expired_snapshot order now_ms st = filter (is_expired st now_ms) order"

text \<open>Each snapshotted ref still expired is evicted; the bodies evicted come back in order.\<close>

fun evict_snapshot :: "bytes list \<Rightarrow> int \<Rightarrow> repl_store \<Rightarrow> repl_store \<times> bytes list" where
  "evict_snapshot [] now_ms st = (st, [])"
| "evict_snapshot (r # rs) now_ms st =
     (if is_expired st now_ms r then
        (case take_out r st of
           (st1, Some (gone, Some b)) \<Rightarrow> (let (st2, bs) = evict_snapshot rs now_ms st1 in (st2, b # bs))
         | (st1, _) \<Rightarrow> evict_snapshot rs now_ms st1)
      else evict_snapshot rs now_ms st)"

definition reap_upkeep :: "int \<Rightarrow> repl_store \<Rightarrow> repl_store" where
  "reap_upkeep now_ms st = st\<lparr>rs_tombstones := prune now_ms (rs_tombstones st),
     rs_replicas := rr_reap now_ms (rs_replicas st), rs_changelog := cl_reap now_ms (rs_changelog st)\<rparr>"

definition store_reap :: "bytes list \<Rightarrow> int \<Rightarrow> repl_store \<Rightarrow> repl_store \<times> bytes list" where
  "store_reap order now_ms st =
     (let st1 = reap_upkeep now_ms st in evict_snapshot (expired_snapshot order now_ms st1) now_ms st1)"

end
