(* ===== verification/Repl_Apply.thy ===== *)
theory Repl_Apply
  imports Repl_Store
begin

text \<open>
  How a puller reconciles a frame into its store (\<open>src/crates/b2bua/src/repl/puller/apply.rs\<close>,
  \<open>apply/store_meeting.rs\<close>) under the version vector and the state stamp of the store envelope
  (\<open>store/envelope.rs\<close>, \<open>store/containment.rs\<close>), with the backup ceilings of the memory gate
  (\<open>capacity/gate.rs\<close>). What is read of a decoded call (its codec, whether its caller was answered,
  its exempt fields, its instants) is the parameter \<open>call_api\<close>: the call record itself is not
  modelled. A frame is applied in one step, its clock read once.
\<close>

subsection \<open>The store envelope\<close>

record call_topology =
  ct_pri :: bytes
  ct_bak :: bytes
  ct_gen :: int
  ct_bak_gen :: int
  ct_stamp_gen :: int
  ct_stamp_bak_gen :: int

definition topology_new :: "bytes \<Rightarrow> bytes \<Rightarrow> int \<Rightarrow> int \<Rightarrow> call_topology" where
  "topology_new pri bak g bg = \<lparr>ct_pri = pri, ct_bak = bak, ct_gen = g, ct_bak_gen = bg,
     ct_stamp_gen = g, ct_stamp_bak_gen = bg\<rparr>"

definition vector :: "call_topology \<Rightarrow> int \<times> int" where
  "vector t = (ct_gen t, ct_bak_gen t)"

definition stamp :: "call_topology \<Rightarrow> int \<times> int" where
  "stamp t = (ct_stamp_gen t, ct_stamp_bak_gen t)"

definition stamp_vector :: "call_topology \<Rightarrow> call_topology" where
  "stamp_vector t = t\<lparr>ct_stamp_gen := ct_gen t, ct_stamp_bak_gen := ct_bak_gen t\<rparr>"

definition raise_vector :: "call_topology \<Rightarrow> call_topology \<Rightarrow> call_topology" where
  "raise_vector other t = t\<lparr>ct_gen := max (ct_gen t) (ct_gen other), ct_bak_gen := max (ct_bak_gen t) (ct_bak_gen other)\<rparr>"

definition other_owner :: "call_topology \<Rightarrow> bytes \<Rightarrow> bytes option" where
  "other_owner t node = (let other = (if node = ct_bak t then ct_pri t else ct_bak t)
     in if other \<noteq> [] \<and> other \<noteq> node then Some other else None)"

definition copy_served :: "call_topology \<Rightarrow> bytes \<Rightarrow> bool" where
  "copy_served t node \<longleftrightarrow> ct_bak t = node \<or> 0 < ct_bak_gen t"

record 'c enveloped =
  ev_call :: 'c
  ev_topology :: "call_topology option"

text \<open>What the store path reads and makes of a call.\<close>

record 'c call_api =
  a_decode :: "bytes \<Rightarrow> 'c enveloped option"
  a_encode :: "call_topology option \<Rightarrow> 'c \<Rightarrow> bytes option"
  a_active :: "'c \<Rightarrow> bool"
  a_caller_answered :: "'c \<Rightarrow> bool"
  a_merge_exempt :: "'c \<Rightarrow> 'c \<Rightarrow> 'c"
  a_shift_instants :: "int \<Rightarrow> 'c \<Rightarrow> 'c"
  a_index_keys :: "'c \<Rightarrow> bytes list"

definition merge_exempt :: "'c call_api \<Rightarrow> 'c enveloped \<Rightarrow> 'c enveloped \<Rightarrow> 'c enveloped" where
  "merge_exempt A e other = \<lparr>ev_call = a_merge_exempt A (ev_call e) (ev_call other),
     ev_topology = (case (ev_topology e, ev_topology other) of
         (Some m, Some t) \<Rightarrow> Some (raise_vector t m)
       | (m, _) \<Rightarrow> m)\<rparr>"

subsection \<open>Containment and the meeting of two copies\<close>

datatype containment = BothContain | HeldContains | IncomingContains | NeitherContains

definition contains :: "call_topology \<Rightarrow> call_topology \<Rightarrow> bool" where
  "contains r l \<longleftrightarrow> fst (stamp l) \<le> fst (vector r) \<and> snd (stamp l) \<le> snd (vector r)"

definition containment_of :: "call_topology \<Rightarrow> call_topology \<Rightarrow> containment" where
  "containment_of held incoming = (case (contains held incoming, contains incoming held) of
     (True, True) \<Rightarrow> BothContain
   | (True, False) \<Rightarrow> HeldContains
   | (False, True) \<Rightarrow> IncomingContains
   | (False, False) \<Rightarrow> NeitherContains)"

datatype 'c met = MetHeld "'c enveloped" | MetIncoming "'c enveloped" | Diverged

definition meet :: "'c call_api \<Rightarrow> 'c enveloped \<Rightarrow> 'c enveloped \<Rightarrow> bool \<Rightarrow> 'c met" where
  "meet A held incoming incoming_is_primary = (case (ev_topology held, ev_topology incoming) of
     (Some h, Some i) \<Rightarrow> (case containment_of h i of
         HeldContains \<Rightarrow> MetHeld (merge_exempt A held incoming)
       | IncomingContains \<Rightarrow> MetIncoming (merge_exempt A incoming held)
       | BothContain \<Rightarrow> if incoming_is_primary then MetIncoming (merge_exempt A incoming held)
           else MetHeld (merge_exempt A held incoming)
       | NeitherContains \<Rightarrow> Diverged)
   | _ \<Rightarrow> MetHeld held)"

definition REANCHOR_DEADBAND_MS :: int where
  "REANCHOR_DEADBAND_MS = 1000"

definition reanchor_offset :: "int \<Rightarrow> int" where
  "reanchor_offset skew = (if \<bar>skew\<bar> < REANCHOR_DEADBAND_MS then 0 else skew)"

definition frame_gap :: "repl_store \<Rightarrow> int \<Rightarrow> bytes \<Rightarrow> int \<Rightarrow> int" where
  "frame_gap st now r origin =
     reanchor_offset (case skew_offset_ms st r of None \<Rightarrow> 0 | Some s \<Rightarrow> s) - reanchor_offset (skew_of now origin)"

text \<open>\<open>shift_instants\<close> of a zero offset changes nothing.\<close>

definition shift_call :: "'c call_api \<Rightarrow> int \<Rightarrow> 'c enveloped \<Rightarrow> 'c enveloped" where
  "shift_call A offset e = (if offset = 0 then e else e\<lparr>ev_call := a_shift_instants A offset (ev_call e)\<rparr>)"

definition stored_copy :: "'c call_api \<Rightarrow> repl_store \<Rightarrow> partition_role \<Rightarrow> bytes \<Rightarrow> bytes \<Rightarrow> 'c enveloped option" where
  "stored_copy A st role primary r = Option.bind (peek_body_raw st role primary r) (a_decode A)"

record kept_copy =
  kc_body_ttl_ms :: int
  kc_incarnation :: "bytes option"

record taken =
  tk_body :: "bytes option"
  tk_version :: "(int \<times> int) option"

definition keep_merged :: "'c call_api \<Rightarrow> partition_role \<Rightarrow> bytes \<Rightarrow> bytes \<Rightarrow> 'c enveloped \<Rightarrow> kept_copy \<Rightarrow> int
    \<Rightarrow> repl_store \<Rightarrow> repl_store" where
  "keep_merged A role primary r merged kept now st =
     (case (a_encode A (ev_topology merged) (ev_call merged), ev_topology merged) of
        (Some body, Some t) \<Rightarrow> write_put role primary r body (a_index_keys A (ev_call merged)) (kc_body_ttl_ms kept)
            (fst (vector t)) (snd (vector t))
            (put_opts_default\<lparr>po_origin_now_ms := held_origin_now_ms st now r, po_incarnation := kc_incarnation kept\<rparr>)
            now st
      | _ \<Rightarrow> st)"

definition meet_stored :: "'c call_api \<Rightarrow> partition_role \<Rightarrow> bytes \<Rightarrow> bytes \<Rightarrow> 'c enveloped option \<Rightarrow> bool \<Rightarrow> int \<Rightarrow> kept_copy
    \<Rightarrow> int \<Rightarrow> repl_store \<Rightarrow> repl_store \<times> taken option" where
  "meet_stored A role primary r incoming primary_incoming origin kept now st =
     (case stored_copy A st role primary r of
        None \<Rightarrow> (st, None)
      | Some held0 \<Rightarrow>
          let gap = frame_gap st now r origin; held = shift_call A gap held0
          in case incoming of
               None \<Rightarrow> (st, None)
             | Some i \<Rightarrow> (case meet A held i primary_incoming of
                   MetIncoming merged \<Rightarrow> (st, Some \<lparr>tk_body = a_encode A (ev_topology merged) (ev_call merged),
                     tk_version = map_option vector (ev_topology merged)\<rparr>)
                 | MetHeld merged \<Rightarrow>
                     (keep_merged A role primary r (shift_call A (- gap) merged) kept now st, None)
                 | Diverged \<Rightarrow> (st, None)))"

subsection \<open>The backup ceilings\<close>

record backup_ceilings =
  bc_calls :: "nat option"
  bc_rss_bytes :: "nat option"

datatype backup_bound = BoundCalls | BoundRss

definition ceiling_reached :: "nat option \<Rightarrow> nat option \<Rightarrow> bool" where
  "ceiling_reached ceil v = (case (ceil, v) of (Some c, Some v) \<Rightarrow> c \<le> v | _ \<Rightarrow> False)"

definition refuses_backup :: "backup_ceilings \<Rightarrow> nat option \<Rightarrow> nat \<Rightarrow> backup_bound option" where
  "refuses_backup g rss held =
     (if (case bc_calls g of Some mx \<Rightarrow> mx \<le> held | None \<Rightarrow> False) then Some BoundCalls
      else if ceiling_reached (bc_rss_bytes g) rss then Some BoundRss
      else None)"

subsection \<open>Applying a frame\<close>

datatype apply_mode = BootstrapMode | ForwardMode | ReverseMode

datatype apply_outcome = AppliedFrame | Dominated | RefusedFrame | ShedFrame | Superseded

fun role_for :: "flow_partition \<Rightarrow> partition_role" where
  "role_for Bak = Backup"
| "role_for Pri = Primary"

text \<open>The puller's node and its gate, whose ceilings and reading of the memory in use may change.\<close>

record 'c apply_env =
  ae_api :: "'c call_api"
  ae_self :: bytes
  ae_capacity :: "(backup_ceilings \<times> nat option) option"

definition dominates :: "int \<times> int \<Rightarrow> int \<times> int \<Rightarrow> bool" where
  "dominates s v \<longleftrightarrow> fst v \<le> fst s \<and> snd v \<le> snd s"

definition frame_version :: "data_frame \<Rightarrow> int \<times> int" where
  "frame_version d = (d_call_gen d, d_call_bgen d)"

definition another_call :: "repl_store \<Rightarrow> int \<Rightarrow> data_frame \<Rightarrow> bool" where
  "another_call st now d \<longleftrightarrow> current_cv st now (d_call_ref d) \<noteq> None \<and>
     is_another_call (store_incarnation st now (d_call_ref d)) (d_incarnation d)"

definition incoming_copy :: "'c apply_env \<Rightarrow> apply_mode \<Rightarrow> data_frame \<Rightarrow> 'c enveloped option" where
  "incoming_copy E mode d =
     (if mode = BootstrapMode then None else Option.bind (d_body d) (a_decode (ae_api E)))"

text \<open>
  The verdict on a put: the store (a kept copy may have been merged into it), the outcome, and the
  body and version to store when it applies.
\<close>

definition put_verdict :: "'c apply_env \<Rightarrow> apply_mode \<Rightarrow> data_frame \<Rightarrow> int \<Rightarrow> repl_store
    \<Rightarrow> repl_store \<times> apply_outcome \<times> bytes option \<times> (int \<times> int)" where
  "put_verdict E mode d now st =
     (let r = d_call_ref d; v = frame_version d; stored = current_cv st now r;
          primary = snd (partition_of (ae_self E) r); role = role_for (d_partition d)
      in case mode of
           BootstrapMode \<Rightarrow> (case stored of
               Some s \<Rightarrow> if \<not> another_call st now d \<and> dominates s v then (st, Dominated, d_body d, v)
                 else (st, AppliedFrame, d_body d, v)
             | None \<Rightarrow> (st, AppliedFrame, d_body d, v))
         | _ \<Rightarrow>
             if another_call st now d then
               (st, if mode = ForwardMode then AppliedFrame else Superseded, d_body d, v)
             else case stored of
                 None \<Rightarrow> (st, AppliedFrame, d_body d, v)
               | Some s \<Rightarrow>
                   if dominates s v then (st, Dominated, d_body d, v)
                   else if dominates v s then (st, AppliedFrame, d_body d, v)
                   else (case meet_stored (ae_api E) role primary r (incoming_copy E mode d) (mode = ForwardMode)
                       (d_origin_now_ms d) \<lparr>kc_body_ttl_ms = d_body_ttl_ms d, kc_incarnation = d_incarnation d\<rparr> now st of
                     (st1, Some t) \<Rightarrow> (st1, AppliedFrame,
                       (case tk_body t of Some b \<Rightarrow> Some b | None \<Rightarrow> d_body d),
                       (case tk_version t of Some w \<Rightarrow> w | None \<Rightarrow> v))
                   | (st1, None) \<Rightarrow> (st1, RefusedFrame, d_body d, v)))"

definition sheds :: "'c apply_env \<Rightarrow> data_frame \<Rightarrow> int \<Rightarrow> repl_store \<Rightarrow> bool" where
  "sheds E d now st \<longleftrightarrow> current_cv st now (d_call_ref d) = None \<and> role_for (d_partition d) = Backup \<and>
     \<not> buries st now (d_call_ref d) (d_incarnation d) \<and>
     (refused_replica st (d_call_ref d) (d_incarnation d) \<or>
      (case ae_capacity E of None \<Rightarrow> False | Some (g, rss) \<Rightarrow> refuses_backup g rss (rs_backups st) \<noteq> None))"

definition apply_put :: "'c apply_env \<Rightarrow> apply_mode \<Rightarrow> data_frame \<Rightarrow> int \<Rightarrow> repl_store \<Rightarrow> repl_store \<times> apply_outcome" where
  "apply_put E mode d now st =
     (let r = d_call_ref d; (st1, outcome0, body, version) = put_verdict E mode d now st;
          outcome = (if outcome0 = AppliedFrame \<and> sheds E d now st then ShedFrame else outcome0);
          st2 = (if outcome = AppliedFrame then
              write_put (role_for (d_partition d)) (snd (partition_of (ae_self E) r)) r
                (case body of Some b \<Rightarrow> b | None \<Rightarrow> []) (d_indexes d) (d_body_ttl_ms d) (fst version) (snd version)
                (put_opts_default\<lparr>po_origin_now_ms := Some (d_origin_now_ms d), po_incarnation := d_incarnation d\<rparr>) now st1
            else st1);
          st3 = (case incoming_copy E mode d of
              Some copy \<Rightarrow> if a_caller_answered (ae_api E) (ev_call copy) then note_authority_answer r st2 else st2
            | None \<Rightarrow> st2)
      in (st3, outcome))"

definition element_outlives_the_delete :: "'c apply_env \<Rightarrow> data_frame \<Rightarrow> int \<Rightarrow> repl_store \<Rightarrow> bool" where
  "element_outlives_the_delete E d now st =
     (if d_answered d \<or> current_cv st now (d_call_ref d) = None \<or> authority_answered st (d_call_ref d) then False
      else case stored_copy (ae_api E) st (role_for (d_partition d)) (snd (partition_of (ae_self E) (d_call_ref d))) (d_call_ref d) of
          Some copy \<Rightarrow> a_active (ae_api E) (ev_call copy) \<and> a_caller_answered (ae_api E) (ev_call copy)
        | None \<Rightarrow> False)"

definition apply_delete :: "'c apply_env \<Rightarrow> apply_mode \<Rightarrow> data_frame \<Rightarrow> int \<Rightarrow> repl_store \<Rightarrow> repl_store \<times> apply_outcome" where
  "apply_delete E mode d now st =
     (if mode = ForwardMode \<and> \<not> is_another_call (store_incarnation st now (d_call_ref d)) (d_incarnation d) \<and>
         element_outlives_the_delete E d now st
      then (st, RefusedFrame)
      else (write_delete (role_for (d_partition d)) (snd (partition_of (ae_self E) (d_call_ref d))) (d_call_ref d)
              (d_indexes d) False (put_opts_default\<lparr>po_incarnation := d_incarnation d\<rparr>) now st, AppliedFrame))"

definition apply_to_store :: "'c apply_env \<Rightarrow> apply_mode \<Rightarrow> data_frame \<Rightarrow> int \<Rightarrow> repl_store \<Rightarrow> repl_store \<times> apply_outcome" where
  "apply_to_store E mode d = (if d_op d = Put then apply_put E mode d else apply_delete E mode d)"

end
