(* ===== verification/Repl_Store_History.thy ===== *)
theory Repl_Store_History
  imports Repl_Store Changelog_History
begin

text \<open>
  Histories of a replicating store: every operation that changes it, in any order and by any task,
  from an empty store. What an operation does to the bodies, the records and the backup count is a
  sequence of a few moves, so an invariant of those three is proved once per move
  (\<open>store_invariant\<close>).
\<close>

subsection \<open>Where the body of a call is kept\<close>

lemma split_once_Some:
  "split_once c s = Some (a, b) \<longleftrightarrow> s = a @ c # b \<and> c \<notin> set a"
proof
  assume "split_once c s = Some (a, b)"
  then obtain x where x: "dropWhile (\<lambda>y. y \<noteq> c) s = x # b" "a = takeWhile (\<lambda>y. y \<noteq> c) s"
    by (auto simp: split_once_def split: list.splits)
  then have "x = c" by (metis (full_types) hd_dropWhile list.distinct(1) list.sel(1))
  with x show "s = a @ c # b \<and> c \<notin> set a"
    by (metis set_takeWhileD takeWhile_dropWhile_id)
next
  assume "s = a @ c # b \<and> c \<notin> set a"
  then show "split_once c s = Some (a, b)"
    by (auto simp: split_once_def dropWhile_append takeWhile_append dropWhile_eq_Nil_conv)
qed

lemma split_call_ref_Some:
  "split_call_ref r = Some (p, i, t) \<longleftrightarrow>
     r = derive_call_ref p i t \<and> CHR ''|'' \<notin> set p \<and> CHR ''|'' \<notin> set i \<and> p \<noteq> [] \<and> i \<noteq> [] \<and> t \<noteq> []"
proof
  assume "split_call_ref r = Some (p, i, t)"
  then show "r = derive_call_ref p i t \<and> CHR ''|'' \<notin> set p \<and> CHR ''|'' \<notin> set i \<and> p \<noteq> [] \<and> i \<noteq> [] \<and> t \<noteq> []"
    by (auto simp: split_call_ref_def derive_call_ref_def split_once_Some split: option.splits if_splits)
next
  assume a: "r = derive_call_ref p i t \<and> CHR ''|'' \<notin> set p \<and> CHR ''|'' \<notin> set i \<and> p \<noteq> [] \<and> i \<noteq> [] \<and> t \<noteq> []"
  then have "split_once CHR ''|'' r = Some (p, i @ CHR ''|'' # t)" "split_once CHR ''|'' (i @ CHR ''|'' # t) = Some (i, t)"
    by (simp_all add: split_once_Some derive_call_ref_def)
  with a show "split_call_ref r = Some (p, i, t)" by (simp add: split_call_ref_def)
qed

lemma role_of_partition_of: "role_of self r = fst (partition_of self r)"
  by (auto simp: role_of_def partition_of_def call_ref_primary_def parse_call_ref_def split: option.splits prod.splits)

lemma body_key_same_place: "body_key role p r = body_key role p r' \<Longrightarrow> r = r'"
  by (simp add: body_key_def)

lemma role_str_inj [simp]: "role_str a = role_str b \<longleftrightarrow> a = b"
  by (cases a; cases b) simp_all

lemma body_key_role: "body_key role p r = body_key role' p' r' \<Longrightarrow> role = role'"
  by (cases role; cases role') (simp_all add: body_key_def)

text \<open>A call's place is a function of its reference, and no two calls share a place.\<close>

lemma body_key_inj:
  assumes "partition_of self r = (role, p)" "partition_of self r' = (role', p')"
    and "body_key role p r = body_key role' p' r'"
  shows "r = r'"
proof -
  have role: "role' = role" using body_key_role [OF assms(3)] by simp
  show ?thesis
  proof (cases "p = p'")
    case True
    with assms(3) role show ?thesis by (simp add: body_key_same_place)
  next
    case False
    have "\<exists>q t. r = q @ CHR ''|'' # t \<and> p = q \<and> CHR ''|'' \<notin> set q" "\<exists>q t. r' = q @ CHR ''|'' # t \<and> p' = q \<and> CHR ''|'' \<notin> set q"
      using False assms(1,2) role
      by (auto simp: partition_of_def parse_call_ref_def split_call_ref_Some derive_call_ref_def
          split: option.splits if_splits)
    then obtain t t' where t: "r = p @ CHR ''|'' # t" "r' = p' @ CHR ''|'' # t'"
      and no: "CHR ''|'' \<notin> set p" "CHR ''|'' \<notin> set p'" by blast
    have "split_once CHR ''|'' (p @ '':call:'' @ r) = Some (p @ '':call:'' @ p, t)"
      "split_once CHR ''|'' (p' @ '':call:'' @ r') = Some (p' @ '':call:'' @ p', t')"
      using no by (simp_all add: split_once_Some t)
    moreover have "p @ '':call:'' @ r = p' @ '':call:'' @ r'" using assms(3) role by (simp add: body_key_def)
    ultimately have eq: "p @ '':call:'' @ p = p' @ '':call:'' @ p'" by simp
    from arg_cong [OF eq, of length] have "length p = length p'" by simp
    with eq False show ?thesis by simp
  qed
qed

subsection \<open>Operations and moves\<close>

datatype store_op =
    SPut partition_role bytes bytes bytes "bytes list" int int int put_opts int
  | SDelete partition_role bytes bytes "bytes list" bool put_opts int
  | SReestablish bytes bytes
  | SNoteAnswer bytes
  | STakeDisplaced "bytes list"
  | SRefuse bytes bytes "bytes option" int
  | SClearRefusals bytes
  | SLeaveUnbacked bytes
  | SAdmitBacked bytes
  | SBackupRefused bytes bytes "bytes option"
  | SAbandon bytes bytes int
  | SUpkeep int
  | SEvict "bytes list" int
  | SLog cl_op

fun store_apply :: "store_op \<Rightarrow> repl_store \<Rightarrow> repl_store" where
  "store_apply (SPut role primary r b ix ttl g bg opts now) st = write_put role primary r b ix ttl g bg opts now st"
| "store_apply (SDelete role primary r ix answered opts now) st = write_delete role primary r ix answered opts now st"
| "store_apply (SReestablish r backup) st = reestablish_backup r backup st"
| "store_apply (SNoteAnswer r) st = note_authority_answer r st"
| "store_apply (STakeDisplaced order) st = fst (take_displaced order st)"
| "store_apply (SRefuse r primary i now) st = refuse_replica r primary i now st"
| "store_apply (SClearRefusals primary) st = clear_refusals_of primary st"
| "store_apply (SLeaveUnbacked r) st = leave_unbacked r st"
| "store_apply (SAdmitBacked r) st = admit_backed r st"
| "store_apply (SBackupRefused backup r i) st = backup_refused backup r i st"
| "store_apply (SAbandon backup r now) st = abandon_backup backup r now st"
| "store_apply (SUpkeep now) st = reap_upkeep now st"
| "store_apply (SEvict rs now) st = fst (evict_snapshot rs now st)"
| "store_apply (SLog x) st = st\<lparr>rs_changelog := cl_apply x (rs_changelog st)\<rparr>"

definition store_run :: "nat \<Rightarrow> store_op list \<Rightarrow> repl_store" where
  "store_run gen h = fold store_apply h (repl_store_new gen)"

text \<open>An operation that writes or deletes does so at the place of its call on the node \<open>self\<close>.\<close>

fun op_placed :: "bytes \<Rightarrow> store_op \<Rightarrow> bool" where
  "op_placed self (SPut role primary r _ _ _ _ _ _ _) \<longleftrightarrow> partition_of self r = (role, primary)"
| "op_placed self (SDelete role primary r _ _ _ _) \<longleftrightarrow> partition_of self r = (role, primary)"
| "op_placed self _ \<longleftrightarrow> True"

definition core :: "repl_store \<Rightarrow> mem_store \<times> (bytes \<rightharpoonup> call_meta) \<times> nat" where
  "core st = (rs_inner st, rs_meta st, rs_backups st)"

inductive core_move :: "bytes \<Rightarrow> repl_store \<Rightarrow> repl_store \<Rightarrow> bool" for self where
  frame: "core st' = core st \<Longrightarrow> core_move self st st'"
| touch: "rs_meta st r = Some m \<Longrightarrow> cm_meta m' = cm_meta m \<Longrightarrow> cm_role m' = cm_role m \<Longrightarrow>
    cm_primary m' = cm_primary m \<Longrightarrow> core st' = (rs_inner st, (rs_meta st)(r \<mapsto> m'), rs_backups st) \<Longrightarrow>
    core_move self st st'"
| insert: "partition_of self r = (role, primary) \<Longrightarrow>
    core_move self st (insert_call role primary r b rm expiry backup st)"
| take: "core_move self st (fst (take_out r st))"
| delete: "partition_of self r = (role, primary) \<Longrightarrow> core_move self st (delete_held role primary r ix st)"

abbreviation core_moves :: "bytes \<Rightarrow> repl_store \<Rightarrow> repl_store \<Rightarrow> bool" where
  "core_moves self \<equiv> (core_move self)\<^sup>*\<^sup>*"

lemma moves_frame: "core_moves self st st1 \<Longrightarrow> core st' = core st1 \<Longrightarrow> core_moves self st st'"
  by (meson core_move.frame rtranclp.rtrancl_into_rtrancl)

lemma core_simps [simp]:
  "core (bury_in r i how t st) = core st" "core (keep_for_reap i b st) = core st"
  "core (st\<lparr>rs_changelog := c\<rparr>) = core st" "core (st\<lparr>rs_replicas := rr\<rparr>) = core st"
  "core (st\<lparr>rs_unbacked := u\<rparr>) = core st" "core (st\<lparr>rs_displaced := d\<rparr>) = core st"
  "core (st\<lparr>rs_tombstones := tb\<rparr>) = core st"
  by (simp_all add: core_def bury_in_def keep_for_reap_def split: option.split)

lemma displace_moves: "core_moves self st (displace r now st)"
  by (rule moves_frame [of self st "fst (take_out r st)"])
    (auto simp: displace_def Let_def core_move.take split: prod.splits option.splits)

lemma admits_moves: "core_moves self st (fst (admits r i b w st))"
proof (cases "fst (admits r i b w st) = displace r (wr_now w) st")
  case True
  then show ?thesis by (simp add: displace_moves)
next
  case False
  then have "core (fst (admits r i b w st)) = core st"
    by (auto simp: admits_def Let_def split: option.splits burial.splits if_splits)
  then show ?thesis by (rule moves_frame [OF rtranclp.rtrancl_refl])
qed

lemma write_put_moves:
  assumes "partition_of self r = (role, primary)"
  shows "core_moves self st (write_put role primary r b ix ttl g bg opts now st)"
proof -
  obtain st1 ok where a: "admits r (write_incarnation st r opts) b \<lparr>wr_role = role, wr_direction = po_direction opts, wr_now = now\<rparr> st
      = (st1, ok)" by fastforce
  from admits_moves [of self st r] a have m: "core_moves self st st1" by (metis fst_conv)
  show ?thesis
  proof (cases ok)
    case False
    with a m show ?thesis by (simp add: write_put_def Let_def)
  next
    case True
    define st2 where "st2 = insert_call role primary r b \<lparr>rm_call_gen = g, rm_call_bgen = bg, rm_body_ttl_ms = ttl,
      rm_indexes = ix, rm_incarnation = write_incarnation st r opts,
      rm_skew_offset_ms = map_option (i64_saturating_sub now) (po_origin_now_ms opts)\<rparr> (expiry_for st now ttl)
      (flushed_backup opts) st1"
    have "core_moves self st st2"
      using m core_move.insert [OF assms] by (auto simp: st2_def intro: rtranclp.rtrancl_into_rtrancl)
    moreover have "core (write_put role primary r b ix ttl g bg opts now st) = core st2"
      using a True by (simp add: write_put_def Let_def st2_def [symmetric] split: option.split)
    ultimately show ?thesis by (rule moves_frame)
  qed
qed

lemma write_delete_moves:
  assumes "partition_of self r = (role, primary)"
  shows "core_moves self st (write_delete role primary r ix answered opts now st)"
proof (cases "rs_meta st r \<noteq> None \<and> is_another_call (held_incarnation st r) (po_incarnation opts)")
  case True
  then show ?thesis by (auto simp: write_delete_def intro: moves_frame [OF rtranclp.rtrancl_refl])
next
  case False
  then have "core (write_delete role primary r ix answered opts now st) = core (delete_held role primary r ix st)"
    by (auto simp: write_delete_def Let_def split: option.split)
  moreover have "core_moves self st (delete_held role primary r ix st)" using core_move.delete [OF assms] by blast
  ultimately show ?thesis by (blast intro: moves_frame)
qed

lemma evict_moves: "core_moves self st (fst (evict_snapshot rs now st))"
proof (induction rs arbitrary: st)
  case (Cons r rs)
  have "core_moves self st (fst (evict_snapshot rs now (fst (take_out r st))))"
    using Cons.IH core_move.take by (meson converse_rtranclp_into_rtranclp)
  with Cons.IH show ?case by (auto split: prod.splits option.splits)
qed simp

lemma touch_moves:
  assumes "rs_meta st r = Some m" "cm_meta m' = cm_meta m" "cm_role m' = cm_role m" "cm_primary m' = cm_primary m"
    and "core st' = (rs_inner st, (rs_meta st)(r \<mapsto> m'), rs_backups st)"
  shows "core_moves self st st'"
  using core_move.touch [OF assms] by blast

lemma set_meta_moves:
  assumes "\<And>m. cm_meta (f m) = cm_meta m" "\<And>m. cm_role (f m) = cm_role m" "\<And>m. cm_primary (f m) = cm_primary m"
  shows "core_moves self st (set_meta r f st)"
proof (cases "rs_meta st r")
  case (Some m)
  then show ?thesis by (rule touch_moves) (simp_all add: assms set_meta_def Some core_def)
qed (simp add: set_meta_def)

lemma backup_refused_moves: "core_moves self st (backup_refused backup r i st)"
proof (cases "backup_refused backup r i st = st")
  case False
  then obtain m where m: "rs_meta st r = Some m" by (auto simp: backup_refused_def split: option.splits)
  with False have "core (backup_refused backup r i st) = (rs_inner st, (rs_meta st)(r \<mapsto> m\<lparr>cm_backup := None\<rparr>), rs_backups st)"
    by (auto simp: backup_refused_def core_def split: if_splits)
  with m show ?thesis by (rule_tac touch_moves [where m' = "m\<lparr>cm_backup := None\<rparr>"]) simp_all
qed simp

lemma abandon_backup_moves: "core_moves self st (abandon_backup backup r now st)"
proof (cases "\<exists>m. rs_meta st r = Some m \<and> cm_role m = Primary")
  case True
  then obtain m where m: "rs_meta st r = Some m" "cm_role m = Primary" by blast
  then have "core (abandon_backup backup r now st) = (rs_inner st, (rs_meta st)(r \<mapsto> m\<lparr>cm_backup := None\<rparr>), rs_backups st)"
    by (simp add: abandon_backup_def Let_def) (simp add: core_def)
  with m show ?thesis by (rule_tac touch_moves [where m' = "m\<lparr>cm_backup := None\<rparr>"]) simp_all
next
  case False
  then have "core (abandon_backup backup r now st) = core st"
    by (auto simp: abandon_backup_def Let_def split: option.split)
  then show ?thesis by (rule moves_frame [OF rtranclp.rtrancl_refl])
qed

lemma apply_moves: "op_placed self x \<Longrightarrow> core_moves self st (store_apply x st)"
  by (cases x) (auto simp: write_put_moves write_delete_moves evict_moves backup_refused_moves abandon_backup_moves
      reestablish_backup_def note_authority_answer_def take_displaced_def refuse_replica_def clear_refusals_of_def
      leave_unbacked_def admit_backed_def reap_upkeep_def
      intro!: set_meta_moves intro: moves_frame [OF rtranclp.rtrancl_refl])

locale store_invariant =
  fixes self :: bytes and I :: "repl_store \<Rightarrow> bool"
  assumes initially: "I (repl_store_new gen)"
    and moved: "I st \<Longrightarrow> core_move self st st' \<Longrightarrow> I st'"
begin

lemma applied:
  assumes "op_placed self x" and "I st"
  shows "I (store_apply x st)"
  using apply_moves [OF assms(1), of st] assms(2) by (induction rule: rtranclp_induct) (auto intro: moved)

lemma always: "list_all (op_placed self) h \<Longrightarrow> I (store_run gen h)"
proof (induction h rule: rev_induct)
  case (snoc x h)
  then show ?case by (simp add: store_run_def applied)
qed (simp add: store_run_def initially)

end

end
