(* ===== verification/Repl_Store_Props.thy ===== *)
theory Repl_Store_Props
  imports Repl_Store_History
begin

text \<open>
  Properties of the replicating store after any history whose writes stand at the place of their
  call: the bodies, the records, the index and the backup count agree, a deleted call stays deleted,
  and the reap hands back exactly what lapsed.
\<close>

subsection \<open>Bodies and records\<close>

definition place_key :: "bytes \<Rightarrow> bytes \<Rightarrow> bytes" where
  "place_key self r = body_key (fst (partition_of self r)) (snd (partition_of self r)) r"

lemma place_key_inj [simp]: "place_key self r = place_key self r' \<longleftrightarrow> r = r'"
  using body_key_inj [OF prod.collapse [symmetric] prod.collapse [symmetric], of self r r']
  by (auto simp: place_key_def)

lemma place_key_eq: "partition_of self r = (role, primary) \<Longrightarrow> body_key role primary r = place_key self r"
  by (simp add: place_key_def)

definition placed_meta :: "bytes \<Rightarrow> repl_store \<Rightarrow> bool" where
  "placed_meta self st \<longleftrightarrow> (\<forall>r m. rs_meta st r = Some m \<longrightarrow> partition_of self r = (cm_role m, cm_primary m))"

definition bodies_ok :: "bytes \<Rightarrow> repl_store \<Rightarrow> bool" where
  "bodies_ok self st \<longleftrightarrow> placed_meta self st \<and> dom (ms_bodies (rs_inner st)) = place_key self ` dom (rs_meta st)"

lemma put_meta_sels [simp]:
  "cm_role (put_meta rm role primary expiry backup held) = role"
  "cm_primary (put_meta rm role primary expiry backup held) = primary"
  "cm_meta (put_meta rm role primary expiry backup held) = rm"
  "cm_expiry_at_ms (put_meta rm role primary expiry backup held) = expiry"
  by (simp_all add: put_meta_def split: option.split)

lemma store_body_bodies [simp]:
  "ms_bodies (store_body role primary r b ix m) = (ms_bodies m)(body_key role primary r \<mapsto> b)"
  by (simp add: store_body_def Let_def)

lemma take_out_core:
  "core (fst (take_out r st)) = (case rs_meta st r of
     None \<Rightarrow> core st
   | Some m \<Rightarrow> (fst (remove_body (cm_role m) (cm_primary m) r (rm_indexes (cm_meta m)) (rs_inner st)),
       (rs_meta st)(r := None), account_role (Some (cm_role m)) None (rs_backups st)))"
  by (auto simp: take_out_def core_def split: option.splits prod.splits)

lemma remove_body_bodies [simp]:
  "ms_bodies (fst (remove_body role primary r ix m)) = (ms_bodies m)(body_key role primary r := None)"
  by (simp add: remove_body_def)

lemma bodies_ok_core: "core st = core st' \<Longrightarrow> bodies_ok self st \<longleftrightarrow> bodies_ok self st'"
  by (simp add: bodies_ok_def placed_meta_def core_def)

lemma bodies_ok_removed:
  assumes "bodies_ok self st" and "partition_of self r = (role, primary)"
    and "core st' = (fst (remove_body role primary r ix (rs_inner st)), (rs_meta st)(r := None), n)"
  shows "bodies_ok self st'"
proof -
  have "ms_bodies (rs_inner st') = (ms_bodies (rs_inner st))(place_key self r := None)" "rs_meta st' = (rs_meta st)(r := None)"
    using assms(2,3) by (auto simp: core_def place_key_eq)
  with assms(1) show ?thesis by (auto simp: bodies_ok_def placed_meta_def)
qed

lemma bodies_ok_inserted:
  assumes "bodies_ok self st" and "partition_of self r = (role, primary)"
  shows "bodies_ok self (insert_call role primary r b rm expiry backup st)"
proof -
  let ?st = "insert_call role primary r b rm expiry backup st"
  have m: "rs_meta ?st = (rs_meta st)(r \<mapsto> put_meta rm role primary expiry backup (rs_meta st r))"
    and "ms_bodies (rs_inner ?st) = (ms_bodies (rs_inner st))(place_key self r \<mapsto> b)"
    by (simp_all add: insert_call_def Let_def place_key_eq [OF assms(2)])
  then have "dom (ms_bodies (rs_inner ?st)) = place_key self ` dom (rs_meta ?st)"
    using assms(1) by (simp add: bodies_ok_def)
  moreover have "placed_meta self ?st" using assms by (simp add: bodies_ok_def placed_meta_def m)
  ultimately show ?thesis by (simp add: bodies_ok_def)
qed

interpretation bodies: store_invariant self "bodies_ok self" for self
proof
  show "bodies_ok self (repl_store_new gen)" for gen
    by (simp add: bodies_ok_def placed_meta_def repl_store_new_def mem_store_new_def)
next
  fix st st' assume ok: "bodies_ok self st" and "core_move self st st'"
  from this(2) show "bodies_ok self st'"
  proof cases
    case frame then show ?thesis using ok bodies_ok_core [of st' st self] by simp
  next
    case (touch r m m')
    then have "rs_meta st' = (rs_meta st)(r \<mapsto> m')" "rs_inner st' = rs_inner st" by (simp_all add: core_def)
    moreover have "dom ((rs_meta st)(r \<mapsto> m')) = dom (rs_meta st)" using touch(1) by auto
    ultimately show ?thesis using ok touch(1-4) by (auto simp: bodies_ok_def placed_meta_def)
  next
    case (insert r role primary b rm expiry backup)
    then show ?thesis using bodies_ok_inserted [OF ok] by simp
  next
    case (take r)
    show ?thesis
    proof (cases "rs_meta st r")
      case None then show ?thesis using ok bodies_ok_core [of st' st self] by (simp add: take take_out_core)
    next
      case (Some m)
      then have "partition_of self r = (cm_role m, cm_primary m)" using ok by (simp add: bodies_ok_def placed_meta_def)
      then show ?thesis by (rule bodies_ok_removed [OF ok]) (simp add: take take_out_core Some)
    qed
  next
    case (delete r role primary ix)
    show ?thesis by (rule bodies_ok_removed [OF ok delete(2)]) (simp add: delete(1) core_def delete_held_def)
  qed
qed

subsection \<open>The index\<close>

definition index_ok :: "repl_store \<Rightarrow> bool" where
  "index_ok st \<longleftrightarrow> (\<forall>k r. ms_indexes (rs_inner st) k = Some r \<longrightarrow> k \<in> set (own_keys r (rs_inner st))) \<and>
     dom (ms_idx_by_ref (rs_inner st)) \<subseteq> dom (rs_meta st)"

lemma fold_drop_key: "fold (drop_key r) ks ix k = (if k \<in> set ks \<and> ix k = Some r then None else ix k)"
  by (induction ks arbitrary: ix) (auto simp: drop_key_def)

lemma fold_point: "fold (\<lambda>k ix. ix(k \<mapsto> r)) ks ix k = (if k \<in> set ks then Some r else ix k)"
  by (induction ks arbitrary: ix) auto

lemma remove_body_index:
  "ms_indexes (fst (remove_body role primary r ix m)) k =
     (if k \<in> set (own_keys r m) \<union> idx_key ` set ix \<and> ms_indexes m k = Some r then None else ms_indexes m k)"
  "ms_idx_by_ref (fst (remove_body role primary r ix m)) = (ms_idx_by_ref m)(r := None)"
  by (auto simp: remove_body_def fold_drop_key)

lemma own_keys_upd:
  "ms_idx_by_ref m' = (ms_idx_by_ref m)(r := v) \<Longrightarrow>
    own_keys r' m' = (if r' = r then (case v of None \<Rightarrow> [] | Some ks \<Rightarrow> ks) else own_keys r' m)"
  by (simp add: own_keys_def)

lemma index_ok_removed:
  assumes "index_ok st" and "core st' = (fst (remove_body role primary r ix (rs_inner st)), (rs_meta st)(r := None), n)"
  shows "index_ok st'"
proof -
  have i: "rs_inner st' = fst (remove_body role primary r ix (rs_inner st))" and m: "rs_meta st' = (rs_meta st)(r := None)"
    using assms(2) by (simp_all add: core_def)
  have "k \<in> set (own_keys r' (rs_inner st'))" if "ms_indexes (rs_inner st') k = Some r'" for k r'
    using that assms(1) by (auto simp: i remove_body_index own_keys_upd [OF remove_body_index(2)] index_ok_def split: if_splits)
  then show ?thesis using assms(1) by (auto simp: index_ok_def i m remove_body_index)
qed

lemma index_ok_inserted:
  assumes "index_ok st"
  shows "index_ok (insert_call role primary r b rm expiry backup st)"
proof (cases "rm_indexes rm = []")
  case True
  then show ?thesis using assms
    by (auto simp: index_ok_def insert_call_def Let_def store_body_def own_keys_def)
next
  case False
  define m where "m = store_body role primary r b (rm_indexes rm) (rs_inner st)"
  have by_ref: "ms_idx_by_ref m = (ms_idx_by_ref (rs_inner st))(r \<mapsto> map idx_key (rm_indexes rm))"
    using False by (simp add: m_def store_body_def Let_def)
  have ix: "ms_indexes m k = (if k \<in> idx_key ` set (rm_indexes rm) then Some r
      else if k \<in> set (own_keys r (rs_inner st)) \<and> ms_indexes (rs_inner st) k = Some r then None
      else ms_indexes (rs_inner st) k)" for k
    using False by (simp add: m_def store_body_def Let_def fold_drop_key fold_point)
  have "k \<in> set (own_keys r' m)" if "ms_indexes m k = Some r'" for k r'
    using that assms by (auto simp: ix own_keys_upd [OF by_ref] index_ok_def split: if_splits)
  then show ?thesis using assms
    by (auto simp: index_ok_def insert_call_def Let_def m_def [symmetric] by_ref)
qed

interpretation index: store_invariant self index_ok for self
proof
  show "index_ok (repl_store_new gen)" for gen by (simp add: index_ok_def repl_store_new_def mem_store_new_def)
next
  fix st st' assume ok: "index_ok st" and "core_move self st st'"
  from this(2) show "index_ok st'"
  proof cases
    case frame then show ?thesis using ok by (simp add: index_ok_def core_def)
  next
    case (touch r m m') then show ?thesis using ok by (auto simp: index_ok_def core_def)
  next
    case (insert r role primary b rm expiry backup) then show ?thesis using ok by (simp add: index_ok_inserted)
  next
    case (take r)
    show ?thesis
    proof (cases "rs_meta st r")
      case None then show ?thesis using ok take take_out_core [of r st] by (simp add: index_ok_def core_def)
    next
      case (Some m)
      show ?thesis by (rule index_ok_removed [OF ok]) (simp add: take take_out_core Some)
    qed
  next
    case (delete r role primary ix)
    show ?thesis by (rule index_ok_removed [OF ok]) (simp add: delete(1) core_def delete_held_def)
  qed
qed

subsection \<open>The backup count\<close>

definition backups_of :: "repl_store \<Rightarrow> bytes set" where
  "backups_of st = {r. map_option cm_role (rs_meta st r) = Some Backup}"

definition backups_ok :: "repl_store \<Rightarrow> bool" where
  "backups_ok st \<longleftrightarrow> finite (dom (rs_meta st)) \<and> rs_backups st = card (backups_of st)"

lemma finite_backups: "finite (dom (rs_meta st)) \<Longrightarrow> finite (backups_of st)"
  by (rule finite_subset [of _ "dom (rs_meta st)"]) (auto simp: backups_of_def)

lemma backups_ok_upd:
  assumes "backups_ok st" and "rs_meta st' = (rs_meta st)(r := v)"
    and "rs_backups st' = account_role (map_option cm_role (rs_meta st r)) (map_option cm_role v) (rs_backups st)"
  shows "backups_ok st'"
proof -
  have fin: "finite (backups_of st)" using assms(1) finite_backups by (simp add: backups_ok_def)
  have "backups_of st' = (if map_option cm_role v = Some Backup then insert r (backups_of st) else backups_of st - {r})"
    using assms(2) by (auto simp: backups_of_def split: if_splits)
  moreover have "r \<in> backups_of st \<longleftrightarrow> map_option cm_role (rs_meta st r) = Some Backup" by (simp add: backups_of_def)
  ultimately have "rs_backups st' = card (backups_of st')"
    using assms(1,3) fin by (auto simp: backups_ok_def Let_def insert_absorb card_insert_if)
  then show ?thesis using assms(1,2) by (simp add: backups_ok_def)
qed

interpretation counted: store_invariant self backups_ok for self
proof
  show "backups_ok (repl_store_new gen)" for gen by (simp add: backups_ok_def backups_of_def repl_store_new_def)
next
  fix st st' assume ok: "backups_ok st" and "core_move self st st'"
  from this(2) show "backups_ok st'"
  proof cases
    case frame then show ?thesis using ok by (simp add: backups_ok_def backups_of_def core_def)
  next
    case (touch r m m')
    then show ?thesis by (intro backups_ok_upd [OF ok, of _ r "Some m'"]) (auto simp: core_def Let_def)
  next
    case (insert r role primary b rm expiry backup)
    then show ?thesis
      by (intro backups_ok_upd [OF ok, of _ r "Some (put_meta rm role primary expiry backup (rs_meta st r))"])
        (simp_all add: insert_call_def Let_def)
  next
    case (take r)
    show ?thesis
    proof (cases "rs_meta st r")
      case None then show ?thesis using ok take take_out_core [of r st] by (simp add: backups_ok_def backups_of_def core_def)
    next
      case (Some m)
      then show ?thesis using take_out_core [of r st]
        by (intro backups_ok_upd [OF ok, of _ r None]) (simp_all add: take core_def)
    qed
  next
    case (delete r role primary ix)
    then show ?thesis by (intro backups_ok_upd [OF ok, of _ r None]) (simp_all add: delete_held_def)
  qed
qed

text \<open>
  C8: after any history of writes, deletes, refusals, reaps and replaced calls, the maps of the store
  agree: each record has its body at its place and no other body is kept, an index key leads only to
  a call that is held and owns the key, and the count of backups is the number of backup records.
\<close>

theorem store_lockstep:
  assumes "list_all (op_placed self) h" and "st = store_run gen h"
  shows "dom (ms_bodies (rs_inner st)) = place_key self ` dom (rs_meta st) \<and>
    (\<forall>r m. rs_meta st r = Some m \<longrightarrow> peek_body_raw st (cm_role m) (cm_primary m) r \<noteq> None) \<and>
    (\<forall>now k r. get_index st now k = Some r \<longrightarrow>
      (\<exists>m. rs_meta st r = Some m \<and> get_call st now (cm_role m) (cm_primary m) r \<noteq> None \<and>
        idx_key k \<in> set (own_keys r (rs_inner st)))) \<and>
    snd (meta_counts st) = card {r. \<exists>m. rs_meta st r = Some m \<and> cm_role m = Backup}"
proof -
  have b: "bodies_ok self st" and i: "index_ok st" and c: "backups_ok st"
    using assms bodies.always index.always counted.always by auto
  have body: "mem_body (cm_role m) (cm_primary m) r (rs_inner st) \<noteq> None" if "rs_meta st r = Some m" for r m
  proof -
    from b that have "body_key (cm_role m) (cm_primary m) r = place_key self r"
      by (auto simp: bodies_ok_def placed_meta_def intro!: place_key_eq)
    moreover from b that have "place_key self r \<in> dom (ms_bodies (rs_inner st))" by (auto simp: bodies_ok_def)
    ultimately show ?thesis by (simp add: mem_body_def dom_def)
  qed
  have "\<exists>m. rs_meta st r = Some m \<and> get_call st now (cm_role m) (cm_primary m) r \<noteq> None \<and> idx_key k \<in> set (own_keys r (rs_inner st))"
    if "get_index st now k = Some r" for now k r
  proof -
    from that have live: "\<not> is_expired st now r" and "ms_indexes (rs_inner st) (idx_key k) = Some r"
      by (auto simp: get_index_def mem_get_index_def split: option.splits if_splits)
    with i have own: "idx_key k \<in> set (own_keys r (rs_inner st))" by (simp add: index_ok_def)
    then have "r \<in> dom (ms_idx_by_ref (rs_inner st))"
      by (cases "ms_idx_by_ref (rs_inner st) r") (auto simp: own_keys_def)
    with i obtain m where "rs_meta st r = Some m" by (auto simp: index_ok_def)
    with live own body show ?thesis by (simp add: get_call_def)
  qed
  moreover have "{r. \<exists>m. rs_meta st r = Some m \<and> cm_role m = Backup} = backups_of st" by (auto simp: backups_of_def)
  ultimately show ?thesis using b c body by (simp add: bodies_ok_def backups_ok_def peek_body_raw_def meta_counts_def)
qed

subsection \<open>A deleted call stays deleted\<close>

fun op_time :: "store_op \<Rightarrow> int option" where
  "op_time (SPut _ _ _ _ _ _ _ _ _ now) = Some now"
| "op_time (SDelete _ _ _ _ _ _ now) = Some now"
| "op_time (SUpkeep now) = Some now"
| "op_time _ = None"

definition op_within :: "int \<Rightarrow> store_op \<Rightarrow> bool" where
  "op_within t x \<longleftrightarrow> (\<forall>now. op_time x = Some now \<longrightarrow> t \<le> now \<and> now < t + RESURRECTION_TOMBSTONE_MS)"

definition tombed :: "int \<Rightarrow> bytes \<Rightarrow> bytes \<Rightarrow> tombstones \<Rightarrow> bool" where
  "tombed t r i tb \<longleftrightarrow> (\<exists>x\<in>set (buried_of r tb). tb_incarnation x = Some i \<and> t \<le> tb_buried_at_ms x)"

lemma tombed_bury: "tombed t r i (bury r' j how at tb) \<longleftrightarrow>
    (if r' = r \<and> j = Some i then t \<le> at else tombed t r i tb)"
  by (auto simp: tombed_def bury_def buried_of_def)

lemma buried_of_prune: "buried_of r (prune now tb) = filter (in_window now) (buried_of r tb)"
  by (cases "tb r") (simp_all add: buried_of_def prune_def Let_def)

lemma tombed_prune:
  "tombed t r i tb \<Longrightarrow> now < t + RESURRECTION_TOMBSTONE_MS \<Longrightarrow> tombed t r i (prune now tb)"
  by (fastforce simp: tombed_def buried_of_prune in_window_def)

lemma tombed_buries:
  assumes "tombed t r i tb" "now < t + RESURRECTION_TOMBSTONE_MS" "j = None \<or> j = Some i"
  shows "burial_of r j now tb \<noteq> None"
  using assms by (force simp: tombed_def burial_of_def in_window_def Let_def filter_empty_conv)

definition dead :: "int \<Rightarrow> bytes \<Rightarrow> bytes \<Rightarrow> repl_store \<Rightarrow> bool" where
  "dead t r i st \<longleftrightarrow> tombed t r i (rs_tombstones st) \<and> held_incarnation st r \<noteq> Some i"

lemma deadI: "tombed t r i (rs_tombstones st) \<Longrightarrow> held_incarnation st r \<noteq> Some i \<Longrightarrow> dead t r i st"
  by (simp add: dead_def)

lemma dead_frame:
  assumes "dead t r i st" "rs_tombstones st' = rs_tombstones st" "rs_meta st' r = None \<or> rs_meta st' r = rs_meta st r"
  shows "dead t r i st'"
  using assms by (auto simp: dead_def held_incarnation_def)

lemma side_sels [simp]:
  "rs_tombstones (bury_in r i how t st) = bury r i how t (rs_tombstones st)"
  "rs_meta (bury_in r i how t st) = rs_meta st"
  "rs_displaced (bury_in r i how t st) = rs_displaced st"
  "rs_tombstones (keep_for_reap j b st) = rs_tombstones st" "rs_meta (keep_for_reap j b st) = rs_meta st"
  by (simp_all add: bury_in_def keep_for_reap_def split: option.split)

lemma take_out_sels [simp]:
  "rs_meta (fst (take_out r st)) = (rs_meta st)(r := None)"
  "rs_tombstones (fst (take_out r st)) = rs_tombstones st"
  "rs_displaced (fst (take_out r st)) = rs_displaced st"
  by (auto simp: take_out_def split: option.splits prod.splits)

lemma displace_sels:
  "rs_meta (displace r now st) = (rs_meta st)(r := None)"
  "rs_tombstones (displace r now st) = (case rs_meta st r of None \<Rightarrow> rs_tombstones st
     | Some m \<Rightarrow> bury r (rm_incarnation (cm_meta m)) Replaced now (rs_tombstones st))"
  using take_out_sels [of r st] by (auto simp: displace_def take_out_def Let_def split: option.splits prod.splits)

lemma insert_call_sels [simp]:
  "rs_meta (insert_call role primary r b rm expiry backup st) =
     (rs_meta st)(r \<mapsto> put_meta rm role primary expiry backup (rs_meta st r))"
  "rs_tombstones (insert_call role primary r b rm expiry backup st) = rs_tombstones st"
  "rs_displaced (insert_call role primary r b rm expiry backup st) = rs_displaced st"
  by (simp_all add: insert_call_def Let_def)

text \<open>What an admission leaves of another ref, and of a call that stands buried.\<close>

lemma admits_other:
  assumes "r' \<noteq> r"
  shows "rs_meta (fst (admits r' j b w st)) r = rs_meta st r"
    and "tombed t r i (rs_tombstones (fst (admits r' j b w st))) = tombed t r i (rs_tombstones st)"
  using assms
  by (auto simp: admits_def Let_def displace_sels tombed_bury split: option.splits burial.splits if_splits)

lemma admits_dead:
  assumes "dead t r i st" and "t \<le> wr_now w" and "wr_now w < t + RESURRECTION_TOMBSTONE_MS"
  shows "dead t r i (fst (admits r j b w st))" and "j = None \<or> j = Some i \<Longrightarrow> \<not> snd (admits r j b w st)"
proof -
  have bur: "burial_of r j (wr_now w) (rs_tombstones st) \<noteq> None" if "j = None \<or> j = Some i"
    using assms(1,3) that by (intro tombed_buries) (auto simp: dead_def)
  then show "j = None \<or> j = Some i \<Longrightarrow> \<not> snd (admits r j b w st)"
    by (auto simp: admits_def Let_def split: option.splits burial.splits)
  have "tombed t r i (rs_tombstones (fst (admits r j b w st)))"
    using assms(1,2) by (auto simp: dead_def admits_def Let_def displace_sels tombed_bury held_incarnation_def is_another_call_def
        split: option.splits burial.splits if_splits)
  moreover have "rs_meta (fst (admits r j b w st)) r = None \<or> rs_meta (fst (admits r j b w st)) r = rs_meta st r"
    by (auto simp: admits_def Let_def displace_sels split: option.splits burial.splits if_splits)
  ultimately show "dead t r i (fst (admits r j b w st))" using assms(1) by (auto simp: dead_def held_incarnation_def)
qed

lemma write_put_dead:
  assumes "dead t r i st" and "t \<le> now" and "now < t + RESURRECTION_TOMBSTONE_MS"
  shows "dead t r i (write_put role primary r' b ix ttl g bg opts now st)"
proof -
  let ?w = "\<lparr>wr_role = role, wr_direction = po_direction opts, wr_now = now\<rparr>"
  let ?j = "write_incarnation st r' opts"
  obtain st1 ok where a: "admits r' ?j b ?w st = (st1, ok)" by fastforce
  have d: "dead t r i st1"
  proof (cases "r' = r")
    case True
    with admits_dead(1) [OF assms(1), of ?w ?j b] assms a show ?thesis by simp
  next
    case False
    with admits_other [OF False, where j = ?j and b = b and w = ?w and st = st] a assms(1) show ?thesis
      by (simp add: dead_def held_incarnation_def)
  qed
  show ?thesis
  proof (cases ok)
    case False
    with a d show ?thesis by (simp add: write_put_def Let_def)
  next
    case True
    have "r' = r \<Longrightarrow> ?j \<noteq> Some i" using admits_dead(2) [OF assms(1), of ?w ?j b] assms(2,3) a True by auto
    with a d True show ?thesis
      by (auto simp: write_put_def Let_def dead_def held_incarnation_def split: option.split)
  qed
qed

lemma write_delete_dead:
  assumes "dead t r i st" and "t \<le> now"
  shows "dead t r i (write_delete role primary r' ix answered opts now st)"
  using assms by (auto simp: write_delete_def dead_def tombed_bury held_incarnation_def delete_held_def Let_def split: option.split)

lemma evict_sels:
  "rs_meta (fst (evict_snapshot rs now st)) = (\<lambda>r. if r \<in> set rs \<and> is_expired st now r then None else rs_meta st r)"
  "rs_tombstones (fst (evict_snapshot rs now st)) = rs_tombstones st"
proof (induction rs arbitrary: st)
  case (Cons r rs)
  have other: "is_expired (fst (take_out r st)) now r' \<longleftrightarrow> r' \<noteq> r \<and> is_expired st now r'" for r' st
    by (simp add: is_expired_def)
  have step: "fst (evict_snapshot (r # rs) now st) =
      fst (evict_snapshot rs now (if is_expired st now r then fst (take_out r st) else st))" for st
    by (auto split: prod.splits option.splits)
  {
    case 1 show ?case by (rule ext) (auto simp: step Cons.IH other simp del: evict_snapshot.simps)
  next
    case 2 show ?case by (simp add: step Cons.IH del: evict_snapshot.simps)
  }
qed simp_all

lemma store_apply_dead:
  assumes "dead t r i st" and "op_within t x"
  shows "dead t r i (store_apply x st)"
proof (cases x)
  case (SPut role primary r' b ix ttl g bg opts now)
  with assms write_put_dead show ?thesis by (simp add: op_within_def)
next
  case (SDelete role primary r' ix answered opts now)
  with assms write_delete_dead show ?thesis by (simp add: op_within_def)
next
  case (SUpkeep now)
  with assms tombed_prune show ?thesis by (auto simp: op_within_def dead_def reap_upkeep_def held_incarnation_def)
next
  case (SEvict rs now)
  have "dead t r i (fst (evict_snapshot rs now st))" by (rule dead_frame [OF assms(1)]) (simp_all add: evict_sels)
  with SEvict show ?thesis by simp
qed (use assms(1) in \<open>auto simp: dead_def held_incarnation_def reestablish_backup_def note_authority_answer_def set_meta_def
    take_displaced_def refuse_replica_def clear_refusals_of_def leave_unbacked_def admit_backed_def backup_refused_def
    abandon_backup_def Let_def split: option.splits if_splits\<close>)

text \<open>
  C12: once a delete names a call, or finds it, no write of that call brings it back for the whole
  resurrection window, whatever other writes, deletes of other calls on the reference, reaps and
  replicated frames come in between.
\<close>

theorem deleted_stays_dead:
  assumes "write_incarnation st r opts = Some i"
    and "list_all (op_within t) later" and "t \<le> now" and "now < t + RESURRECTION_TOMBSTONE_MS"
    and "st' = fold store_apply later (write_delete role primary r ix answered opts t st)"
  shows "held_incarnation st' r \<noteq> Some i \<and> buries st' now r (Some i)"
proof -
  have "dead t r i (write_delete role primary r ix answered opts t st)"
    using assms(1) by (auto simp: write_delete_def dead_def tombed_bury held_incarnation_def delete_held_def Let_def
        write_incarnation_def is_another_call_def split: option.splits)
  then have "dead t r i st'" unfolding assms(5) using assms(2)
    by (induction later rule: rev_induct) (auto simp: store_apply_dead)
  moreover from this have "burial_of r (Some i) now (rs_tombstones st') \<noteq> None"
    using assms(4) by (intro tombed_buries) (auto simp: dead_def)
  ultimately show ?thesis by (simp add: dead_def buries_def)
qed

subsection \<open>Lapsed and displaced bodies\<close>

text \<open>The body a placed record stands for.\<close>

definition held_body :: "bytes \<Rightarrow> repl_store \<Rightarrow> bytes \<Rightarrow> bytes option" where
  "held_body self st r = ms_bodies (rs_inner st) (place_key self r)"

lemma take_out_body:
  assumes "bodies_ok self st" and "rs_meta st r = Some m"
  shows "\<exists>b. held_body self st r = Some b \<and> snd (take_out r st) = Some (m, Some b)"
    and "held_body self (fst (take_out r st)) r' = (if r' = r then None else held_body self st r')"
proof -
  from assms have k: "body_key (cm_role m) (cm_primary m) r = place_key self r"
    by (auto simp: bodies_ok_def placed_meta_def intro!: place_key_eq)
  from assms have "place_key self r \<in> dom (ms_bodies (rs_inner st))" by (auto simp: bodies_ok_def)
  with k assms(2) show "\<exists>b. held_body self st r = Some b \<and> snd (take_out r st) = Some (m, Some b)"
    by (auto simp: take_out_def held_body_def remove_body_def)
  from k assms(2) show "held_body self (fst (take_out r st)) r' = (if r' = r then None else held_body self st r')"
    by (simp add: take_out_def held_body_def remove_body_def)
qed

lemma evict_bodies:
  assumes "bodies_ok self st" and "distinct rs"
  shows "snd (evict_snapshot rs now st) = map (\<lambda>r. the (held_body self st r)) (filter (is_expired st now) rs)"
  using assms
proof (induction rs arbitrary: st)
  case (Cons r rs)
  show ?case
  proof (cases "is_expired st now r")
    case True
    then obtain m where m: "rs_meta st r = Some m" by (auto simp: is_expired_def split: option.splits)
    obtain b where b: "held_body self st r = Some b" "snd (take_out r st) = Some (m, Some b)"
      using take_out_body(1) [OF Cons.prems(1) m] by blast
    define st1 where "st1 = fst (take_out r st)"
    then have t: "take_out r st = (st1, Some (m, Some b))" using b(2) by (simp add: prod_eq_iff)
    have ok: "bodies_ok self st1" unfolding st1_def by (rule bodies.moved [OF Cons.prems(1) core_move.take])
    have same: "is_expired st1 now r' = is_expired st now r'" "held_body self st1 r' = held_body self st r'"
      if "r' \<in> set rs" for r'
      using that Cons.prems(2) take_out_body(2) [OF Cons.prems(1) m, of r'] by (auto simp: is_expired_def st1_def)
    have "snd (evict_snapshot rs now st1) = map (\<lambda>r. the (held_body self st1 r)) (filter (is_expired st1 now) rs)"
      using Cons.IH [OF ok] Cons.prems(2) by simp
    also have "filter (is_expired st1 now) rs = filter (is_expired st now) rs" by (rule filter_cong) (simp_all add: same)
    also have "map (\<lambda>r. the (held_body self st1 r)) (filter (is_expired st now) rs) =
        map (\<lambda>r. the (held_body self st r)) (filter (is_expired st now) rs)" by (simp add: same)
    finally show ?thesis using True t b(1) by (simp add: case_prod_beta)
  next
    case False
    with Cons show ?thesis by simp
  qed
qed simp

lemma evict_held_body:
  assumes "bodies_ok self st"
  shows "held_body self (fst (evict_snapshot rs now st)) r =
    (if r \<in> set rs \<and> is_expired st now r then None else held_body self st r)"
  using assms
proof (induction rs arbitrary: st)
  case (Cons a rs)
  show ?case
  proof (cases "is_expired st now a")
    case True
    then obtain m where m: "rs_meta st a = Some m" by (auto simp: is_expired_def split: option.splits)
    define st1 where "st1 = fst (take_out a st)"
    have ok: "bodies_ok self st1" unfolding st1_def by (rule bodies.moved [OF Cons.prems core_move.take])
    have "is_expired st1 now r \<longleftrightarrow> r \<noteq> a \<and> is_expired st now r" by (simp add: is_expired_def st1_def)
    moreover have "held_body self st1 r = (if r = a then None else held_body self st r)"
      using take_out_body(2) [OF Cons.prems m] by (simp add: st1_def)
    moreover have "fst (evict_snapshot (a # rs) now st) = fst (evict_snapshot rs now st1)"
      using True by (auto simp: st1_def split: prod.splits option.splits)
    ultimately show ?thesis using Cons.IH [OF ok] True by auto
  next
    case False
    then show ?thesis using Cons by auto
  qed
qed simp

text \<open>
  C23: whatever writes land between the snapshot of a reap and its evictions, the reap evicts exactly
  the snapshotted calls still lapsed, hands back the body of each of them once and in order, and
  leaves every other record and body as it was.
\<close>

theorem evict_exact:
  assumes "list_all (op_placed self) h" and "st = store_run gen h" and "distinct rs"
    and "evict_snapshot rs now st = (st', bs)"
  shows "bs = map (\<lambda>r. the (held_body self st r)) (filter (is_expired st now) rs) \<and>
    (\<forall>r. rs_meta st' r = (if r \<in> set rs \<and> is_expired st now r then None else rs_meta st r) \<and>
      held_body self st' r = (if r \<in> set rs \<and> is_expired st now r then None else held_body self st r))"
proof -
  have ok: "bodies_ok self st" using assms(1,2) bodies.always by simp
  show ?thesis
    using evict_bodies [OF ok assms(3), of now] evict_sels(1) [of rs now st] evict_held_body [OF ok, of rs now] assms(4)
    by simp
qed

text \<open>What a write of a call does to the record and the body of the call it finds on the reference.\<close>

lemma displace_kept:
  assumes "bodies_ok self st" and "rs_meta st r = Some m" and "cm_role m = Backup" and "0 < rm_call_bgen (cm_meta m)"
    and "rm_incarnation (cm_meta m) = Some i" and "held_body self st r = Some b"
  shows "rs_displaced (displace r now st) i = Some b"
proof -
  from take_out_body(1) [OF assms(1,2)] assms(6) have "snd (take_out r st) = Some (m, Some b)" by simp
  then obtain st1 where "take_out r st = (st1, Some (m, Some b))" by (cases "take_out r st") simp
  with assms show ?thesis by (simp add: displace_def keep_for_reap_def)
qed

lemma write_put_kept:
  assumes "bodies_ok self st" and "rs_meta st r = Some m" and "cm_role m = Backup" and "0 < rm_call_bgen (cm_meta m)"
    and "rm_incarnation (cm_meta m) = Some i" and "held_body self st r = Some b"
  shows "held_incarnation (write_put role primary r' body ix ttl g bg opts now st) r = Some i \<or>
    rs_displaced (write_put role primary r' body ix ttl g bg opts now st) i = Some b"
proof (cases "r' = r")
  case False
  have "rs_meta (write_put role primary r' body ix ttl g bg opts now st) r = rs_meta st r"
    using admits_other(1) [OF False, where j = "write_incarnation st r' opts" and b = body and st = st
        and w = "\<lparr>wr_role = role, wr_direction = po_direction opts, wr_now = now\<rparr>"] False
    by (auto simp: write_put_def Let_def split: prod.splits bool.splits option.splits)
  with assms(2,5) show ?thesis by (simp add: held_incarnation_def)
next
  case True
  have held: "held_incarnation st r = Some i" using assms(2,5) by (simp add: held_incarnation_def)
  show ?thesis
  proof (cases "burial_of r (write_incarnation st r opts) now (rs_tombstones st)")
    case None
    show ?thesis
    proof (cases "is_another_call (Some i) (write_incarnation st r opts) \<and> po_direction opts \<noteq> Some ReverseTo")
      case t: True
      with None held displace_kept [OF assms, of now] show ?thesis
        by (auto simp: True write_put_def Let_def admits_def split: option.split)
    next
      case False
      with None held show ?thesis
        by (auto simp: True write_put_def Let_def admits_def held_incarnation_def is_another_call_def write_incarnation_def
            split: option.splits)
    qed
  next
    case (Some how)
    with held show ?thesis
      by (cases how) (auto simp: True write_put_def Let_def admits_def held_incarnation_def split: option.split)
  qed
qed

lemma evict_hands_back:
  assumes "bodies_ok self st" and "r \<in> set rs" and "is_expired st now r" and "held_body self st r = Some b"
  shows "b \<in> set (snd (evict_snapshot rs now st))"
  using assms
proof (induction rs arbitrary: st)
  case (Cons a rs)
  show ?case
  proof (cases "is_expired st now a")
    case True
    then obtain m where m: "rs_meta st a = Some m" by (auto simp: is_expired_def split: option.splits)
    obtain b' where b: "held_body self st a = Some b'" "snd (take_out a st) = Some (m, Some b')"
      using take_out_body(1) [OF Cons.prems(1) m] by blast
    define st1 where "st1 = fst (take_out a st)"
    then have t: "take_out a st = (st1, Some (m, Some b'))" using b(2) by (simp add: prod_eq_iff)
    have ok: "bodies_ok self st1" unfolding st1_def by (rule bodies.moved [OF Cons.prems(1) core_move.take])
    show ?thesis
    proof (cases "a = r")
      case False
      then have "is_expired st1 now r" "held_body self st1 r = Some b" "r \<in> set rs"
        using Cons.prems take_out_body(2) [OF Cons.prems(1) m] by (auto simp: is_expired_def st1_def)
      with Cons.IH [OF ok] True t show ?thesis by (simp add: case_prod_beta)
    qed (use True t b(1) Cons.prems(4) in \<open>simp add: case_prod_beta\<close>)
  next
    case False
    with Cons show ?thesis by auto
  qed
qed simp

text \<open>
  C22: a version that an acting backup authored is never dropped unseen. Whatever operation follows,
  the call is still held, or its body stands among the displaced ones for the reap to settle, or the
  operation was its delete, or a reap that handed the body back.
\<close>

theorem backup_version_kept:
  assumes "list_all (op_placed self) h" and "st = store_run gen h"
    and "rs_meta st r = Some m" and "cm_role m = Backup" and "0 < rm_call_bgen (cm_meta m)"
    and "rm_incarnation (cm_meta m) = Some i" and "held_body self st r = Some b"
  shows "held_incarnation (store_apply x st) r = Some i \<or> rs_displaced (store_apply x st) i = Some b \<or>
    (\<exists>role primary ix answered opts now. x = SDelete role primary r ix answered opts now) \<or>
    (\<exists>rs now. x = SEvict rs now \<and> b \<in> set (snd (evict_snapshot rs now st)))"
proof -
  have ok: "bodies_ok self st" using assms(1,2) bodies.always by simp
  have held: "held_incarnation st r = Some i" using assms(3,6) by (simp add: held_incarnation_def)
  show ?thesis
  proof (cases x)
    case (SPut role primary r' body ix ttl g bg opts now)
    with write_put_kept [OF ok assms(3-7)] show ?thesis by simp
  next
    case (SDelete role primary r' ix answered opts now)
    with held show ?thesis
      by (auto simp: write_delete_def delete_held_def held_incarnation_def Let_def split: option.splits)
  next
    case (SEvict rs now)
    with held evict_hands_back [OF ok, of r rs now b] assms(7) show ?thesis
      by (auto simp: held_incarnation_def evict_sels)
  qed (use held in \<open>auto simp: held_incarnation_def reestablish_backup_def note_authority_answer_def set_meta_def
    take_displaced_def refuse_replica_def clear_refusals_of_def leave_unbacked_def admit_backed_def backup_refused_def
    abandon_backup_def reap_upkeep_def Let_def split: option.splits if_splits\<close>)
qed

subsection \<open>A run of the store\<close>

text \<open>A worker \<open>w1\<close> takes the replica of a call of \<open>w0\<close>, at a version it authored itself.\<close>

definition ref0 :: bytes where
  "ref0 = ''w0|c|t''"

definition opts0 :: put_opts where
  "opts0 = put_opts_default\<lparr>po_incarnation := Some ''i1''\<rparr>"

definition run0 :: "store_op list" where
  "run0 = [SPut Backup ''w0'' ref0 ''body'' [''a:c''] 1000 3 1 opts0 5]"

lemma place0: "partition_of ''w1'' ref0 = (Backup, ''w0'')"
  by code_simp

lemma placed0: "list_all (op_placed ''w1'') run0"
  by (simp add: run0_def place0)

lemmas store_eval = run0_def store_run_def repl_store_new_def mem_store_new_def write_put_def opts0_def put_opts_default_def
  write_incarnation_def held_incarnation_def admits_def burial_of_def buried_of_def is_another_call_def insert_call_def
  put_meta_def store_body_def expiry_for_def flushed_backup_def rr_clear_def refused_replicas_new_def Let_def

lemma run0_state:
  "rs_meta (store_run 7 run0) = [ref0 \<mapsto> \<lparr>cm_meta = \<lparr>rm_call_gen = 3, rm_call_bgen = 1, rm_body_ttl_ms = 1000,
     rm_indexes = [''a:c''], rm_incarnation = Some ''i1'', rm_skew_offset_ms = None\<rparr>, cm_role = Backup,
     cm_primary = ''w0'', cm_backup = None, cm_expiry_at_ms = Some 1005, cm_authority_answered = False\<rparr>]"
  "held_body ''w1'' (store_run 7 run0) ref0 = Some ''body''"
  "get_index (store_run 7 run0) 6 ''a:c'' = Some ref0"
  by (simp_all add: store_eval held_body_def place_key_def place0 get_index_def mem_get_index_def is_expired_def meta_expired_def)

theorem store_lockstep_witness:
  "list_all (op_placed ''w1'') run0 \<and> snd (meta_counts (store_run 7 run0)) = 1 \<and>
    (\<exists>m. rs_meta (store_run 7 run0) ref0 = Some m \<and> get_call (store_run 7 run0) 6 (cm_role m) (cm_primary m) ref0 \<noteq> None)"
proof -
  note all = store_lockstep [OF placed0 refl, of 7]
  have "{r. \<exists>m. rs_meta (store_run 7 run0) r = Some m \<and> cm_role m = Backup} = {ref0}"
    by (auto simp: run0_state split: if_splits)
  then have "snd (meta_counts (store_run 7 run0)) = 1" using all by simp
  with placed0 all run0_state(3) show ?thesis by blast
qed

theorem deleted_stays_dead_witness:
  "held_incarnation (store_run 7 run0) ref0 = Some ''i1'' \<and>
    held_incarnation (fold store_apply [SPut Backup ''w0'' ref0 ''late'' [] 1000 4 1 opts0 20, SUpkeep 30]
      (write_delete Backup ''w0'' ref0 [] False opts0 10 (store_run 7 run0))) ref0 \<noteq> Some ''i1''"
proof -
  have a: "write_incarnation (store_run 7 run0) ref0 opts0 = Some ''i1''" by (simp add: write_incarnation_def opts0_def)
  have b: "list_all (op_within 10) [SPut Backup ''w0'' ref0 ''late'' [] 1000 4 1 opts0 20, SUpkeep 30]"
    by (simp add: op_within_def RESURRECTION_TOMBSTONE_MS_def)
  have c: "(10 :: int) \<le> 40" "40 < 10 + RESURRECTION_TOMBSTONE_MS" by (simp_all add: RESURRECTION_TOMBSTONE_MS_def)
  have "held_incarnation (store_run 7 run0) ref0 = Some ''i1''" by (simp add: held_incarnation_def run0_state)
  with deleted_stays_dead [OF a b c refl] show ?thesis by blast
qed

theorem evict_exact_witness:
  "\<exists>st'. evict_snapshot [ref0] 2000 (store_run 7 run0) = (st', [''body'']) \<and> rs_meta st' ref0 = None"
proof -
  have "is_expired (store_run 7 run0) 2000 ref0" by (simp add: is_expired_def run0_state meta_expired_def)
  then show ?thesis
    using evict_exact [OF placed0 refl, of "[ref0]" 2000 7 "fst (evict_snapshot [ref0] 2000 (store_run 7 run0))"
        "snd (evict_snapshot [ref0] 2000 (store_run 7 run0))"] run0_state(2)
    by (simp add: prod_eq_iff del: evict_snapshot.simps)
qed

theorem backup_version_kept_witness:
  "rs_displaced (store_apply (SPut Backup ''w0'' ref0 ''new'' [] 1000 1 0 (opts0\<lparr>po_incarnation := Some ''i2''\<rparr>) 9)
    (store_run 7 run0)) ''i1'' = Some ''body''"
proof -
  let ?x = "SPut Backup ''w0'' ref0 ''new'' [] 1000 1 0 (opts0\<lparr>po_incarnation := Some ''i2''\<rparr>) 9"
  have "held_incarnation (store_apply ?x (store_run 7 run0)) ref0 = Some ''i2''"
    by (simp add: store_eval displace_def take_out_def remove_body_def bury_in_def keep_for_reap_def)
  then show ?thesis
    using backup_version_kept [OF placed0 refl run0_state(1) [THEN fun_cong, of ref0, simplified], of "''i1''" "''body''" ?x]
      run0_state(2) by simp
qed

end
