(* ===== verification/Repl_Apply_Props.thy ===== *)
theory Repl_Apply_Props
  imports Repl_Apply Repl_Store_Props
begin

text \<open>
  What applying replicated frames does to a store: a call's stored version never goes back, an answer
  the authority never saw survives its delete.
\<close>

subsection \<open>Versions\<close>

definition meta_version :: "call_meta \<Rightarrow> int \<times> int" where
  "meta_version m = (rm_call_gen (cm_meta m), rm_call_bgen (cm_meta m))"

lemma dominates_refl [simp]: "dominates v v"
  by (simp add: dominates_def)

lemma dominates_trans: "dominates u v \<Longrightarrow> dominates v w \<Longrightarrow> dominates u w"
  by (auto simp: dominates_def)

lemma current_cv_Some:
  "current_cv st now r = Some s \<longleftrightarrow> \<not> is_expired st now r \<and> (\<exists>m. rs_meta st r = Some m \<and> meta_version m = s)"
  by (auto simp: current_cv_def meta_version_def)

text \<open>A write of the call a reference holds, or of the first call on it, is stored unless buried.\<close>

lemma write_put_same_call:
  assumes "\<not> is_another_call (held_incarnation st r) (po_incarnation opts)"
    and "burial_of r (write_incarnation st r opts) now (rs_tombstones st) = None" and "po_peer opts = None"
  shows "\<exists>m. rs_meta (write_put role primary r b ix ttl g bg opts now st) r = Some m \<and> meta_version m = (g, bg) \<and>
    rm_incarnation (cm_meta m) = write_incarnation st r opts \<and> cm_role m = role \<and> cm_primary m = primary"
proof -
  have "\<not> is_another_call (held_incarnation st r) (write_incarnation st r opts)"
    using assms(1) by (auto simp: write_incarnation_def is_another_call_def split: option.splits)
  with assms show ?thesis by (simp add: write_put_def Let_def admits_def meta_version_def)
qed

lemma write_put_buried:
  assumes "burial_of r (write_incarnation st r opts) now (rs_tombstones st) \<noteq> None"
  shows "rs_meta (write_put role primary r b ix ttl g bg opts now st) = rs_meta st"
  using assms by (auto simp: write_put_def Let_def admits_def split: burial.splits)

lemma note_authority_answer_meta:
  "rs_meta (note_authority_answer r st) r' =
    (if r' = r then map_option (\<lambda>m. m\<lparr>cm_authority_answered := True\<rparr>) (rs_meta st r) else rs_meta st r')"
  by (simp add: note_authority_answer_def set_meta_def split: option.split)

lemma raise_vector_dominates:
  "dominates (vector (raise_vector u t)) (vector t)" "dominates (vector (raise_vector u t)) (vector u)"
  by (simp_all add: dominates_def vector_def raise_vector_def)

lemma shift_call_topology [simp]: "ev_topology (shift_call A k e) = ev_topology e"
  by (simp add: shift_call_def)

text \<open>What a meeting keeps has read both copies.\<close>

lemma meet_dominates:
  assumes "meet A held i p = MetIncoming merged \<or> meet A held i p = MetHeld merged" "ev_topology held = Some h" "ev_topology i = Some t"
  shows "\<exists>w. ev_topology merged = Some w \<and> dominates (vector w) (vector h) \<and> dominates (vector w) (vector t)"
proof -
  have "ev_topology merged = Some (raise_vector t h) \<or> ev_topology merged = Some (raise_vector h t)"
    using assms by (auto simp: meet_def merge_exempt_def split: containment.splits if_splits)
  then show ?thesis using raise_vector_dominates by blast
qed

lemma meet_topology:
  "meet A held i p = MetIncoming merged \<Longrightarrow> ev_topology held \<noteq> None \<and> ev_topology i \<noteq> None"
  by (auto simp: meet_def split: option.splits)

text \<open>Bodies state the version they are kept and sent under.\<close>

definition version_stated :: "'c apply_env \<Rightarrow> apply_mode \<Rightarrow> data_frame \<Rightarrow> int \<times> int \<Rightarrow> repl_store \<Rightarrow> bool" where
  "version_stated E mode d v st \<longleftrightarrow>
     (\<forall>e t. stored_copy (ae_api E) st (role_for (d_partition d)) (snd (partition_of (ae_self E) (d_call_ref d))) (d_call_ref d) = Some e \<and>
        ev_topology e = Some t \<longrightarrow> vector t = v) \<and>
     (\<forall>e t. incoming_copy E mode d = Some e \<and> ev_topology e = Some t \<longrightarrow> vector t = frame_version d)"

lemma not_another_held:
  "current_cv st now r = Some s \<Longrightarrow> \<not> another_call st now d \<Longrightarrow> d_call_ref d = r \<Longrightarrow>
    \<not> is_another_call (held_incarnation st r) (d_incarnation d)"
  by (auto simp: another_call_def store_incarnation_def current_cv_def split: if_splits)

lemma write_put_dominates:
  assumes "rs_meta st r = Some m0" "dominates (g, bg) (meta_version m0)"
    and "\<not> is_another_call (held_incarnation st r) (po_incarnation opts)" "po_peer opts = None"
  shows "\<exists>m. rs_meta (write_put role primary r b ix ttl g bg opts now st) r = Some m \<and>
    dominates (meta_version m) (meta_version m0) \<and>
    (burial_of r (write_incarnation st r opts) now (rs_tombstones st) = None \<longrightarrow> meta_version m = (g, bg))"
proof (cases "burial_of r (write_incarnation st r opts) now (rs_tombstones st)")
  case None
  from write_put_same_call [OF assms(3) None assms(4), of role primary b ix ttl g bg] assms(2) show ?thesis by fastforce
next
  case (Some how)
  then show ?thesis using write_put_buried [of r st opts now] assms(1) by simp
qed

lemma keep_merged_dominates:
  assumes "rs_meta st r = Some m0" "\<And>w. ev_topology merged = Some w \<Longrightarrow> dominates (vector w) (meta_version m0)"
    and "\<not> is_another_call (held_incarnation st r) (kc_incarnation kept)"
  shows "\<exists>m. rs_meta (keep_merged A role primary r merged kept now st) r = Some m \<and> dominates (meta_version m) (meta_version m0)"
proof (cases "keep_merged A role primary r merged kept now st = st")
  case True
  with assms(1) show ?thesis by simp
next
  case False
  then obtain b t where bt: "a_encode A (ev_topology merged) (ev_call merged) = Some b" "ev_topology merged = Some t"
    by (auto simp: keep_merged_def split: option.splits)
  let ?opts = "put_opts_default\<lparr>po_origin_now_ms := held_origin_now_ms st now r, po_incarnation := kc_incarnation kept\<rparr>"
  have "dominates (fst (vector t), snd (vector t)) (meta_version m0)" using assms(2) bt(2) by simp
  from write_put_dominates [OF assms(1) this, of ?opts role primary b] assms(3) bt
  show ?thesis by (simp add: keep_merged_def put_opts_default_def) blast
qed

text \<open>A meeting leaves the stored version, raises it, or hands out a version that dominates both.\<close>

lemma meet_stored_cases:
  assumes ms: "meet_stored A role primary r incoming p origin kept now st = (st1, t)"
    and m0: "rs_meta st r = Some m0" and same: "\<not> is_another_call (held_incarnation st r) (kc_incarnation kept)"
    and held: "\<And>e h. stored_copy A st role primary r = Some e \<Longrightarrow> ev_topology e = Some h \<Longrightarrow> vector h = meta_version m0"
    and inc: "\<And>e w. incoming = Some e \<Longrightarrow> ev_topology e = Some w \<Longrightarrow> vector w = v"
  shows "(t = None \<and> (\<exists>m. rs_meta st1 r = Some m \<and> dominates (meta_version m) (meta_version m0))) \<or>
    (st1 = st \<and> (\<exists>b u. t = Some \<lparr>tk_body = b, tk_version = Some u\<rparr> \<and> dominates u (meta_version m0) \<and> dominates u v))"
proof (cases "\<exists>e i. stored_copy A st role primary r = Some e \<and> incoming = Some i")
  case False
  then have "st1 = st \<and> t = None" using ms by (auto simp: meet_stored_def Let_def split: option.splits)
  with m0 show ?thesis by simp
next
  case True
  then obtain e i where ei: "stored_copy A st role primary r = Some e" "incoming = Some i" by blast
  define gap where "gap = frame_gap st now r origin"
  let ?held = "shift_call A gap e"
  have top: "ev_topology ?held = Some h \<Longrightarrow> vector h = meta_version m0" "ev_topology i = Some w \<Longrightarrow> vector w = v" for h w
    using held inc ei by auto
  show ?thesis
  proof (cases "meet A ?held i p")
    case (MetIncoming merged)
    with meet_topology obtain h w where hw: "ev_topology ?held = Some h" "ev_topology i = Some w" by blast
    from meet_dominates [OF disjI1 [OF MetIncoming] hw] top hw obtain u where
      u: "ev_topology merged = Some u" "dominates (vector u) (meta_version m0)" "dominates (vector u) v" by auto
    have "st1 = st" "t = Some \<lparr>tk_body = a_encode A (Some u) (ev_call merged), tk_version = Some (vector u)\<rparr>"
      using ms ei MetIncoming u(1) by (simp_all add: meet_stored_def gap_def Let_def)
    with u show ?thesis by blast
  next
    case (MetHeld merged)
    have low: "dominates (vector w) (meta_version m0)" if w: "ev_topology (shift_call A (- gap) merged) = Some w" for w
    proof (cases "\<exists>h x. ev_topology ?held = Some h \<and> ev_topology i = Some x")
      case True
      then obtain h x where hx: "ev_topology ?held = Some h" "ev_topology i = Some x" by blast
      from meet_dominates [OF disjI2 [OF MetHeld] hx] w top(1) [OF hx(1)] show ?thesis by auto
    next
      case False
      then have "merged = ?held" using MetHeld by (auto simp: meet_def split: option.splits)
      with w top(1) show ?thesis by simp
    qed
    have "t = None" "st1 = keep_merged A role primary r (shift_call A (- gap) merged) kept now st"
      using ms ei MetHeld by (simp_all add: meet_stored_def gap_def Let_def)
    with keep_merged_dominates [where merged = "shift_call A (- gap) merged", OF m0 low same] show ?thesis by blast
  next
    case Diverged
    then show ?thesis using ms ei m0 by (auto simp: meet_stored_def gap_def Let_def)
  qed
qed

lemma put_verdict_cases:
  assumes "mode \<noteq> BootstrapMode" "d_call_ref d = r" "current_cv st now r = Some s" "\<not> another_call st now d"
    and "version_stated E mode d s st" and "put_verdict E mode d now st = (st1, oc, body, v)"
  shows "(st1 = st \<and> oc = Dominated) \<or>
    (st1 = st \<and> oc = AppliedFrame \<and> dominates v s \<and> dominates v (frame_version d)) \<or>
    (oc = RefusedFrame \<and> (\<exists>m. rs_meta st1 r = Some m \<and> dominates (meta_version m) s))"
proof -
  let ?role = "role_for (d_partition d)" and ?primary = "snd (partition_of (ae_self E) r)"
  let ?kept = "\<lparr>kc_body_ttl_ms = d_body_ttl_ms d, kc_incarnation = d_incarnation d\<rparr>"
  obtain m0 where m0: "rs_meta st r = Some m0" "meta_version m0 = s" using assms(3) by (auto simp: current_cv_Some)
  show ?thesis
  proof (cases "dominates (frame_version d) s \<or> dominates s (frame_version d)")
    case True
    with assms show ?thesis by (cases mode) (auto simp: put_verdict_def Let_def split: if_splits)
  next
    case False
    obtain st2 t where ms: "meet_stored (ae_api E) ?role ?primary r (incoming_copy E mode d) (mode = ForwardMode)
        (d_origin_now_ms d) ?kept now st = (st2, t)" by fastforce
    have "put_verdict E mode d now st = (case t of None \<Rightarrow> (st2, RefusedFrame, d_body d, frame_version d)
      | Some t \<Rightarrow> (st2, AppliedFrame, (case tk_body t of Some b \<Rightarrow> Some b | None \<Rightarrow> d_body d),
          (case tk_version t of Some w \<Rightarrow> w | None \<Rightarrow> frame_version d)))"
      using assms(1-4) False ms by (cases mode) (auto simp: put_verdict_def Let_def split: option.splits)
    moreover have "\<not> is_another_call (held_incarnation st r) (kc_incarnation ?kept)"
      using not_another_held [OF assms(3,4,2)] by simp
    note meet_stored_cases [OF ms m0(1) this, of "frame_version d"]
    ultimately show ?thesis using assms(2,5,6) m0(2) by (fastforce simp: version_stated_def)
  qed
qed


subsection \<open>An answer the authority never saw\<close>

text \<open>A node applies replicated frames and makes its own operations, in any order.\<close>

datatype node_step = Applies apply_mode data_frame int | LocalOp store_op

fun node_apply :: "'c apply_env \<Rightarrow> node_step \<Rightarrow> repl_store \<Rightarrow> repl_store" where
  "node_apply E (Applies mode d now) st = fst (apply_to_store E mode d now st)"
| "node_apply E (LocalOp x) st = store_apply x st"

text \<open>A frame that shows the node an answered copy of the call.\<close>

fun shows_answer :: "'c apply_env \<Rightarrow> bytes \<Rightarrow> node_step \<Rightarrow> bool" where
  "shows_answer E r (Applies mode d now) \<longleftrightarrow> d_call_ref d = r \<and> d_op d = Put \<and>
     (case incoming_copy E mode d of Some copy \<Rightarrow> a_caller_answered (ae_api E) (ev_call copy) | None \<Rightarrow> False)"
| "shows_answer E r (LocalOp x) \<longleftrightarrow> x = SNoteAnswer r"

lemma authority_answered_cong: "rs_meta st' r = rs_meta st r \<Longrightarrow> authority_answered st' r = authority_answered st r"
  by (simp add: authority_answered_def)

lemma put_meta_answered [simp]:
  "cm_authority_answered (put_meta rm role primary expiry backup held) = (case held of None \<Rightarrow> False | Some m \<Rightarrow> cm_authority_answered m)"
  by (simp add: put_meta_def split: option.split)

lemma admits_meta:
  "rs_meta (fst (admits r i b w st)) r' = rs_meta st r' \<or> rs_meta (fst (admits r i b w st)) r' = None"
  by (auto simp: admits_def Let_def displace_sels split: option.splits burial.splits if_splits)

lemma write_put_answered:
  "authority_answered (write_put role primary r b ix ttl g bg opts now st) r' \<Longrightarrow> authority_answered st r'"
  using admits_meta [of r "write_incarnation st r opts" b "\<lparr>wr_role = role, wr_direction = po_direction opts, wr_now = now\<rparr>" st r']
  by (cases "rs_meta st r'")
    (auto simp: write_put_def Let_def authority_answered_def split: prod.splits bool.splits option.splits if_splits)

lemma write_delete_answered:
  "authority_answered (write_delete role primary r ix answered opts now st) r' \<Longrightarrow> authority_answered st r'"
  by (auto simp: write_delete_def delete_held_def authority_answered_def Let_def split: option.splits if_splits)

lemma keep_merged_answered:
  "authority_answered (keep_merged A role primary r merged kept now st) r' \<Longrightarrow> authority_answered st r'"
  by (auto simp: keep_merged_def split: option.splits dest: write_put_answered)

lemma put_verdict_answered:
  "put_verdict E mode d now st = (st1, oc, body, v) \<Longrightarrow> authority_answered st1 r \<Longrightarrow> authority_answered st r"
  by (auto simp: put_verdict_def meet_stored_def Let_def dest: keep_merged_answered
      split: apply_mode.splits option.splits if_splits met.splits)

lemma note_answer_other: "r' \<noteq> r \<Longrightarrow> authority_answered (note_authority_answer r' st) r = authority_answered st r"
  by (simp add: authority_answered_def note_authority_answer_meta)

lemma node_apply_answered:
  assumes "authority_answered (node_apply E x st) r" "\<not> shows_answer E r x"
  shows "authority_answered st r"
proof (cases x)
  case (Applies mode d now)
  show ?thesis
  proof (cases "d_op d")
    case Put
    obtain st1 oc body v where pv: "put_verdict E mode d now st = (st1, oc, body, v)" by (metis prod_cases4)
    have "authority_answered st1 r"
      using assms Applies Put pv
      by (auto simp: apply_to_store_def apply_put_def Let_def note_answer_other dest: write_put_answered
          split: option.splits if_splits)
    with pv show ?thesis by (rule put_verdict_answered)
  next
    case Delete
    with assms Applies show ?thesis
      by (auto simp: apply_to_store_def apply_delete_def dest: write_delete_answered split: if_splits)
  qed
next
  case (LocalOp y)
  with assms show ?thesis
  proof (cases y)
    case (SEvict rs now)
    with assms LocalOp show ?thesis by (auto simp: authority_answered_def evict_sels split: option.splits if_splits)
  next
    case (SNoteAnswer r')
    with assms LocalOp note_answer_other show ?thesis by auto
  next
    case (SPut role primary r' b ix ttl g bg opts now)
    with assms LocalOp write_put_answered show ?thesis by simp
  next
    case (SDelete role primary r' ix answered opts now)
    with assms LocalOp write_delete_answered show ?thesis by simp
  qed (auto simp: authority_answered_def reestablish_backup_def set_meta_def
    take_displaced_def refuse_replica_def clear_refusals_of_def leave_unbacked_def admit_backed_def backup_refused_def
    abandon_backup_def reap_upkeep_def Let_def split: option.splits if_splits)
qed

lemma frame_delete_applies:
  assumes "d_op d = Delete" "\<not> is_another_call (held_incarnation st (d_call_ref d)) (d_incarnation d)"
    and "\<not> element_outlives_the_delete E d now st"
  shows "rs_meta (fst (apply_to_store E mode d now st)) (d_call_ref d) = None"
  using assms by (auto simp: apply_to_store_def apply_delete_def write_delete_def delete_held_def Let_def put_opts_default_def
      split: option.split)

text \<open>
  C13: a call answered on this node survives a delete of its authority that never saw the answer.
  Whatever frames and local operations came before, when none of the frames showed an answered copy
  of the call and the delete states no answer, the delete is refused and the store is left as it is;
  a delete that states the answer removes the call.
\<close>

theorem unseen_answer_survives:
  assumes "\<not> authority_answered st0 r" and "list_all (\<lambda>x. \<not> shows_answer E r x) steps"
    and "st = fold (node_apply E) steps st0" and "current_cv st now r \<noteq> None"
    and "d_op d = Delete" and "d_call_ref d = r" and "\<not> d_answered d"
    and "\<not> is_another_call (store_incarnation st now r) (d_incarnation d)"
    and "stored_copy (ae_api E) st (role_for (d_partition d)) (snd (partition_of (ae_self E) r)) r = Some copy"
    and "a_active (ae_api E) (ev_call copy)" and "a_caller_answered (ae_api E) (ev_call copy)"
  shows "apply_to_store E ForwardMode d now st = (st, RefusedFrame) \<and>
    rs_meta (fst (apply_to_store E ForwardMode (d\<lparr>d_answered := True\<rparr>) now st)) r = None"
proof -
  have "\<not> authority_answered st r" unfolding assms(3) using assms(1,2)
    by (induction steps rule: rev_induct) (auto dest: node_apply_answered)
  then have "apply_to_store E ForwardMode d now st = (st, RefusedFrame)"
    using assms(4-11) by (simp add: apply_to_store_def apply_delete_def element_outlives_the_delete_def)
  moreover have "\<not> is_another_call (held_incarnation st r) (d_incarnation d)"
    using assms(4,8) by (simp add: store_incarnation_def current_cv_def split: if_splits)
  then have "rs_meta (fst (apply_to_store E ForwardMode (d\<lparr>d_answered := True\<rparr>) now st)) r = None"
    using frame_delete_applies [of "d\<lparr>d_answered := True\<rparr>" st E now ForwardMode] assms(5,6)
    by (simp add: element_outlives_the_delete_def)
  ultimately show ?thesis by blast
qed

subsection \<open>A node at work\<close>

text \<open>
  Calls known by a name, the replica \<open>body\<close> of the run above last changed by its primary and then
  touched by the backup, any other body one version of the primary further.
\<close>

definition api0 :: "bytes call_api" where
  "api0 = \<lparr>a_decode = (\<lambda>b. Some \<lparr>ev_call = b, ev_topology = Some (if b = ''body''
       then \<lparr>ct_pri = ''w0'', ct_bak = ''w1'', ct_gen = 3, ct_bak_gen = 1, ct_stamp_gen = 3, ct_stamp_bak_gen = 0\<rparr>
       else topology_new ''w0'' ''w1'' 4 0)\<rparr>),
     a_encode = (\<lambda>t c. Some (c @ ''+'')), a_active = (\<lambda>c. True), a_caller_answered = (\<lambda>c. c = ''body''),
     a_merge_exempt = (\<lambda>c o'. c), a_shift_instants = (\<lambda>k c. c), a_index_keys = (\<lambda>c. [])\<rparr>"

definition env0 :: "bytes apply_env" where
  "env0 = \<lparr>ae_api = api0, ae_self = ''w1'', ae_capacity = None\<rparr>"

definition frame0 :: data_frame where
  "frame0 = \<lparr>d_at = Watermark 9 4, d_op = Put, d_partition = Bak, d_call_ref = ref0, d_call_gen = 4, d_call_bgen = 0,
     d_body_ttl_ms = 1000, d_origin_now_ms = 6, d_indexes = [], d_body = Some ''new'', d_answered = False,
     d_incarnation = Some ''i1''\<rparr>"

lemma run0_reads:
  "current_cv (store_run 7 run0) 6 ref0 = Some (3, 1)" "store_incarnation (store_run 7 run0) 6 ref0 = Some ''i1''"
  "stored_copy api0 (store_run 7 run0) Backup ''w0'' ref0 = a_decode api0 ''body''"
  "\<not> buries (store_run 7 run0) 6 ref0 (Some ''i1'')" "\<not> authority_answered (store_run 7 run0) ref0"
proof -
  show "current_cv (store_run 7 run0) 6 ref0 = Some (3, 1)" "store_incarnation (store_run 7 run0) 6 ref0 = Some ''i1''"
    "\<not> authority_answered (store_run 7 run0) ref0"
    by (simp_all add: current_cv_def is_expired_def meta_expired_def store_incarnation_def held_incarnation_def
        authority_answered_def run0_state)
  show "\<not> buries (store_run 7 run0) 6 ref0 (Some ''i1'')" by (simp add: buries_def store_eval)
  show "stored_copy api0 (store_run 7 run0) Backup ''w0'' ref0 = a_decode api0 ''body''"
    using run0_state(2) by (simp add: stored_copy_def peek_body_raw_def mem_body_def held_body_def place_key_def place0)
qed


theorem unseen_answer_survives_witness:
  "apply_to_store env0 ForwardMode (frame0\<lparr>d_op := Delete\<rparr>) 6 (store_run 7 run0) = (store_run 7 run0, RefusedFrame)"
  using unseen_answer_survives [of "store_run 7 run0" ref0 env0 "[]" "store_run 7 run0" 6 "frame0\<lparr>d_op := Delete\<rparr>"
      "\<lparr>ev_call = ''body'', ev_topology = Some \<lparr>ct_pri = ''w0'', ct_bak = ''w1'', ct_gen = 3, ct_bak_gen = 1,
        ct_stamp_gen = 3, ct_stamp_bak_gen = 0\<rparr>\<rparr>"] run0_reads
  by (simp add: frame0_def env0_def place0 is_another_call_def api0_def)

end
