(* ===== verification/Repl_Puller.thy ===== *)
theory Repl_Puller
  imports Repl_Apply
begin

text \<open>
  The pulling side of a replication flow (\<open>src/crates/b2bua/src/repl/puller.rs\<close> and \<open>puller/\<close>):
  the configuration and the backoff, the status a puller publishes, the commands it hands the router
  with the refused copies it holds back for the end of a batch, and what it does with every event of
  an open stream. Whether a send reached the transport is a parameter of each event.
\<close>

subsection \<open>Configuration and backoff\<close>

record puller_config =
  pc_backoff_init_ms :: nat
  pc_backoff_max_ms :: nat
  pc_bootstrap_hard_timeout_ms :: nat
  pc_connect_timeout_ms :: nat
  pc_idle_timeout_ms :: nat
  pc_send_stall_ms :: nat

definition puller_config_default :: puller_config where
  "puller_config_default = \<lparr>pc_backoff_init_ms = 100, pc_backoff_max_ms = 2000,
     pc_bootstrap_hard_timeout_ms = DEFAULT_BOOTSTRAP_HARD_TIMEOUT_MS, pc_connect_timeout_ms = 2000,
     pc_idle_timeout_ms = 2000, pc_send_stall_ms = 15000\<rparr>"

text \<open>The product saturates at the largest \<open>u64\<close>.\<close>

definition backoff_ms :: "puller_config \<Rightarrow> nat \<Rightarrow> nat" where
  "backoff_ms cfg attempt =
     (let shift = min (attempt - 1) 31;
          scaled = min (pc_backoff_init_ms cfg * 2 ^ shift) (2 ^ 64 - 1)
      in min scaled (pc_backoff_max_ms cfg))"

datatype run_outcome = ConnectFailed | Disconnected bool | CancelledRun

text \<open>
  The attempt count after a cycle ended, and the wait before the next connect; no wait when a connect
  is asked for at once, nothing after a cancel. The count is a \<open>u32\<close> that saturates.
\<close>

definition next_attempt :: "run_outcome \<Rightarrow> bool \<Rightarrow> nat \<Rightarrow> nat" where
  "next_attempt outcome ask_failed attempt =
     (let attempt = (if outcome = Disconnected True then 0 else attempt)
      in if ask_failed then attempt else min (attempt + 1) (2 ^ 32 - 1))"

definition backoff_wait :: "puller_config \<Rightarrow> bool \<Rightarrow> nat \<Rightarrow> nat option" where
  "backoff_wait cfg asked attempt = (if asked then None else Some (backoff_ms cfg attempt))"

subsection \<open>Status\<close>

record puller_status =
  pt_current :: bool
  pt_watermark :: watermark
  pt_bootstrap_complete :: bool
  pt_reset_gen :: nat
  pt_ever_connected :: bool
  pt_connect_failed :: bool
  pt_streaming :: bool
  pt_last_frame_at :: "instant option"
  pt_last_frame_gen :: "nat option"

definition status_new :: "watermark \<Rightarrow> puller_status" where
  "status_new start_w = \<lparr>pt_current = False, pt_watermark = start_w,
     pt_bootstrap_complete = (start_w \<noteq> Watermark 0 0), pt_reset_gen = 0, pt_ever_connected = False,
     pt_connect_failed = False, pt_streaming = False, pt_last_frame_at = None, pt_last_frame_gen = None\<rparr>"

fun frame_gen :: "frame \<Rightarrow> nat option" where
  "frame_gen (Data d) = Some (w_gen (d_at d))"
| "frame_gen (Noop at) = Some (w_gen at)"
| "frame_gen _ = None"

definition heard :: "instant \<Rightarrow> frame \<Rightarrow> puller_status \<Rightarrow> puller_status" where
  "heard inst f s = s\<lparr>pt_last_frame_at := Some inst,
     pt_last_frame_gen := (case frame_gen f of Some g \<Rightarrow> Some g | None \<Rightarrow> pt_last_frame_gen s)\<rparr>"

subsection \<open>Commands to the router\<close>

datatype primary_write = PutWrite bytes | DeleteWrite "bytes option"

datatype repl_command =
    ReclaimAll
  | ReclaimCall bytes
  | ReverseFlushRefused bytes bytes int
  | ForwardFlushRefused bytes bytes int
  | ForwardFlushApplied bytes primary_write
  | ReverseDeleteApplied bytes "bytes option"
  | PeerDeparted bytes

fun written :: "repl_op \<Rightarrow> bytes option \<Rightarrow> bytes option \<Rightarrow> primary_write" where
  "written Put body incarnation = PutWrite (case body of Some b \<Rightarrow> b | None \<Rightarrow> [])"
| "written Delete body incarnation = DeleteWrite incarnation"

text \<open>A sink may have no probe of the live takeover copies.\<close>

record router_sink =
  rk_takeovers :: "(bytes \<Rightarrow> bool) option"

definition serves_takeover :: "router_sink \<Rightarrow> bytes \<Rightarrow> bool" where
  "serves_takeover sink r = (case rk_takeovers sink of None \<Rightarrow> False | Some probe \<Rightarrow> probe r)"

definition command :: "apply_mode \<Rightarrow> apply_outcome \<Rightarrow> bool \<Rightarrow> bytes \<Rightarrow> primary_write \<Rightarrow> int \<Rightarrow> router_sink
    \<Rightarrow> repl_command option" where
  "command mode outcome bootstrapped r w origin sink =
     (if mode = ForwardMode \<and> outcome = AppliedFrame then
        (if serves_takeover sink r then Some (ForwardFlushApplied r w) else None)
      else case w of
          DeleteWrite incarnation \<Rightarrow>
            if mode \<noteq> ForwardMode \<and> outcome = AppliedFrame then Some (ReverseDeleteApplied r incarnation) else None
        | PutWrite body \<Rightarrow>
            if mode = ForwardMode \<and> \<not> bootstrapped then None
            else (case (mode, outcome) of
                (ReverseMode, AppliedFrame) \<Rightarrow> Some (ReclaimCall r)
              | (ReverseMode, Dominated) \<Rightarrow> Some (ReverseFlushRefused r body origin)
              | (ReverseMode, RefusedFrame) \<Rightarrow> Some (ReverseFlushRefused r body origin)
              | (ForwardMode, RefusedFrame) \<Rightarrow> Some (ForwardFlushRefused r body origin)
              | _ \<Rightarrow> None))"

type_synonym held_meetings = "(bytes \<times> repl_command) list"

definition hold :: "bytes \<Rightarrow> repl_command \<Rightarrow> held_meetings \<Rightarrow> held_meetings" where
  "hold r cmd held = filter (\<lambda>(r', _). r' \<noteq> r) held @ [(r, cmd)]"

text \<open>The first copy held for the call is taken out, the rest kept in order.\<close>

fun take_held :: "bytes \<Rightarrow> held_meetings \<Rightarrow> repl_command option \<times> held_meetings" where
  "take_held r [] = (None, [])"
| "take_held r ((r', cmd) # held) =
     (if r' = r then (Some cmd, held)
      else (let (t, rest) = take_held r held in (t, (r', cmd) # rest)))"

definition take_all_held :: "held_meetings \<Rightarrow> repl_command list" where
  "take_all_held held = map snd held"

subsection \<open>The stream\<close>

record 'c puller =
  pu_env :: "'c apply_env"
  pu_peer :: bytes
  pu_identity :: "bytes option"
  pu_partition :: flow_partition
  pu_config :: puller_config
  pu_sink :: "router_sink option"

record pull_stream =
  ps_status :: puller_status
  ps_held :: held_meetings
  ps_bootstrapped :: bool
  ps_applied_in_bootstrap :: nat
  ps_deadline :: "instant option"
  ps_quiet_until :: instant
  ps_connected_at :: instant
  ps_sent :: "frame list"
  ps_commands :: "repl_command list"
  ps_store :: repl_store

definition is_reclaim :: "'c puller \<Rightarrow> bool" where
  "is_reclaim P \<longleftrightarrow> pu_partition P = Pri"

definition pull_request :: "'c puller \<Rightarrow> pull_stream \<Rightarrow> frame" where
  "pull_request P s = PullRequest PROTO_VER (ae_self (pu_env P)) (pu_identity P) (pu_partition P) (pt_watermark (ps_status s))"

definition idle_bound :: "'c puller \<Rightarrow> duration" where
  "idle_bound P = ms (pc_idle_timeout_ms (pu_config P))"

text \<open>The stream once its request went out: a cold backup scan forgets the peer's earlier refusals.\<close>

definition stream_opened :: "'c puller \<Rightarrow> puller_status \<Rightarrow> instant option \<Rightarrow> instant \<Rightarrow> repl_store \<Rightarrow> pull_stream" where
  "stream_opened P status deadline inst st =
     (let warm = (pt_watermark status \<noteq> Watermark 0 0)
      in \<lparr>ps_status = status\<lparr>pt_ever_connected := True, pt_streaming := True\<rparr>, ps_held = [], ps_bootstrapped = warm,
          ps_applied_in_bootstrap = 0, ps_deadline = deadline, ps_quiet_until = inst + idle_bound P,
          ps_connected_at = inst, ps_sent = [], ps_commands = [],
          ps_store = (if \<not> warm \<and> \<not> is_reclaim P then clear_refusals_of (pu_peer P) st else st)\<rparr>)"

definition sink_send :: "'c puller \<Rightarrow> repl_command list \<Rightarrow> pull_stream \<Rightarrow> pull_stream" where
  "sink_send P cmds s = (if pu_sink P = None then s else s\<lparr>ps_commands := ps_commands s @ cmds\<rparr>)"

definition release_meetings :: "'c puller \<Rightarrow> pull_stream \<Rightarrow> pull_stream" where
  "release_meetings P s = sink_send P (take_all_held (ps_held s)) (s\<lparr>ps_held := []\<rparr>)"

definition signal :: "'c puller \<Rightarrow> apply_mode \<Rightarrow> apply_outcome \<Rightarrow> bytes \<Rightarrow> primary_write \<Rightarrow> int \<Rightarrow> pull_stream \<Rightarrow> pull_stream" where
  "signal P mode outcome r w origin s = (case pu_sink P of
     None \<Rightarrow> s
   | Some sink \<Rightarrow> (case command mode outcome (ps_bootstrapped s) r w origin sink of
       Some (ReverseFlushRefused r' b at) \<Rightarrow> s\<lparr>ps_held := hold r (ReverseFlushRefused r' b at) (ps_held s)\<rparr>
     | Some (ForwardFlushRefused r' b at) \<Rightarrow> s\<lparr>ps_held := hold r (ForwardFlushRefused r' b at) (ps_held s)\<rparr>
     | other \<Rightarrow>
         let (t, held) = take_held r (ps_held s)
         in sink_send P (case other of None \<Rightarrow> [] | Some cmd \<Rightarrow> [cmd])
              (sink_send P (case t of None \<Rightarrow> [] | Some cmd \<Rightarrow> [cmd]) (s\<lparr>ps_held := held\<rparr>))))"

definition mark_bootstrap_complete :: "pull_stream \<Rightarrow> pull_stream" where
  "mark_bootstrap_complete s = s\<lparr>ps_status := (ps_status s)\<lparr>pt_bootstrap_complete := True\<rparr>, ps_deadline := None\<rparr>"

definition signal_reclaim_all :: "'c puller \<Rightarrow> pull_stream \<Rightarrow> pull_stream" where
  "signal_reclaim_all P s = sink_send P [ReclaimAll] s"

datatype 'a stream_result = Goes 'a | Stops run_outcome 'a

definition ended :: "'c puller \<Rightarrow> instant \<Rightarrow> pull_stream \<Rightarrow> pull_stream stream_result" where
  "ended P inst s = Stops (Disconnected (idle_bound P \<le> inst - ps_connected_at s)) (release_meetings P s)"

definition pull_send :: "'c puller \<Rightarrow> instant \<Rightarrow> (frame \<Rightarrow> bool) \<Rightarrow> frame \<Rightarrow> pull_stream \<Rightarrow> pull_stream stream_result" where
  "pull_send P inst ok f s = (if ok f then Goes (s\<lparr>ps_sent := ps_sent s @ [f]\<rparr>) else ended P inst s)"

fun then_do :: "pull_stream stream_result \<Rightarrow> (pull_stream \<Rightarrow> pull_stream stream_result) \<Rightarrow> pull_stream stream_result" where
  "then_do (Goes s) k = k s"
| "then_do (Stops why s) k = Stops why s"

definition frame_mode :: "'c puller \<Rightarrow> pull_stream \<Rightarrow> apply_mode" where
  "frame_mode P s = (if is_reclaim P then (if ps_bootstrapped s then ReverseMode else BootstrapMode) else ForwardMode)"

definition refuse_frame :: "'c puller \<Rightarrow> instant \<Rightarrow> (frame \<Rightarrow> bool) \<Rightarrow> int \<Rightarrow> data_frame \<Rightarrow> pull_stream \<Rightarrow> pull_stream stream_result" where
  "refuse_frame P inst ok now d s =
     pull_send P inst ok (ReplicaRefused (d_at d) (d_call_ref d) (d_incarnation d))
       (s\<lparr>ps_store := refuse_replica (d_call_ref d) (pu_peer P) (d_incarnation d) now (ps_store s)\<rparr>)"

definition pull_data :: "'c puller \<Rightarrow> instant \<Rightarrow> (frame \<Rightarrow> bool) \<Rightarrow> int \<Rightarrow> data_frame \<Rightarrow> pull_stream \<Rightarrow> pull_stream stream_result" where
  "pull_data P inst ok now d s =
     (let mode = frame_mode P s; (st, outcome) = apply_to_store (pu_env P) mode d now (ps_store s);
          s1 = s\<lparr>ps_store := st\<rparr>
      in then_do (if outcome = ShedFrame then refuse_frame P inst ok now d s1 else Goes s1)
        (\<lambda>s2. let s3 = (if ps_bootstrapped s2 then s2
                  else s2\<lparr>ps_applied_in_bootstrap := ps_applied_in_bootstrap s2 + 1\<rparr>);
                s4 = signal P mode outcome (d_call_ref d) (written (d_op d) (d_body d) (d_incarnation d)) (d_origin_now_ms d) s3
            in if ps_bootstrapped s4 then
                 pull_send P inst ok (Position (d_at d)) (s4\<lparr>ps_status := (ps_status s4)\<lparr>pt_watermark := d_at d\<rparr>\<rparr>)
               else Goes s4))"

definition pull_noop :: "'c puller \<Rightarrow> instant \<Rightarrow> (frame \<Rightarrow> bool) \<Rightarrow> watermark \<Rightarrow> pull_stream \<Rightarrow> pull_stream stream_result" where
  "pull_noop P inst ok at s =
     (let s1 = s\<lparr>ps_status := (ps_status s)\<lparr>pt_current := True, pt_watermark := max (pt_watermark (ps_status s)) at\<rparr>\<rparr>;
          s2 = (if ps_bootstrapped s then s1
            else (let s' = mark_bootstrap_complete (s1\<lparr>ps_bootstrapped := True\<rparr>)
                  in if is_reclaim P then signal_reclaim_all P s' else s'))
      in pull_send P inst ok (Position at) (release_meetings P s2))"

definition pull_reset :: "'c puller \<Rightarrow> instant \<Rightarrow> pull_stream \<Rightarrow> pull_stream stream_result" where
  "pull_reset P inst s =
     ended P inst (s\<lparr>ps_status := (ps_status s)\<lparr>pt_watermark := Watermark 0 0, pt_bootstrap_complete := False,
         pt_reset_gen := min (pt_reset_gen (ps_status s) + 1) (2 ^ 64 - 1)\<rparr>,
       ps_deadline := Some (inst + ms (pc_bootstrap_hard_timeout_ms (pu_config P)))\<rparr>)"

fun pull_frame :: "'c puller \<Rightarrow> instant \<Rightarrow> (frame \<Rightarrow> bool) \<Rightarrow> int \<Rightarrow> frame \<Rightarrow> pull_stream \<Rightarrow> pull_stream stream_result" where
  "pull_frame P inst ok now (Data d) s = pull_data P inst ok now d s"
| "pull_frame P inst ok now (Noop at) s = pull_noop P inst ok at s"
| "pull_frame P inst ok now (ResetToBootstrap _) s = pull_reset P inst s"
| "pull_frame P inst ok now (StreamRefused _ _) s = ended P inst s"
| "pull_frame P inst ok now _ s = Goes s"

datatype pull_event = Received "frame option" | IdleLapsed | BatchQuiet | HardDeadline | Cancel

text \<open>
  One turn of the stream's loop. The hard deadline is armed only while the bootstrap is outstanding,
  the quiet wait only while a copy is held.
\<close>

fun pull_event_step :: "'c puller \<Rightarrow> instant \<Rightarrow> (frame \<Rightarrow> bool) \<Rightarrow> int \<Rightarrow> pull_event \<Rightarrow> pull_stream
    \<Rightarrow> pull_stream stream_result" where
  "pull_event_step P inst ok now (Received (Some f)) s =
     pull_frame P inst ok now f (s\<lparr>ps_quiet_until := inst + idle_bound P, ps_status := heard inst f (ps_status s)\<rparr>)"
| "pull_event_step P inst ok now (Received None) s = ended P inst s"
| "pull_event_step P inst ok now IdleLapsed s = (if ps_quiet_until s \<le> inst then ended P inst s else Goes s)"
| "pull_event_step P inst ok now BatchQuiet s = (if ps_held s = [] then Goes s else Goes (release_meetings P s))"
| "pull_event_step P inst ok now HardDeadline s =
     (if \<not> ps_bootstrapped s \<and> (case ps_deadline s of Some at \<Rightarrow> at \<le> inst | None \<Rightarrow> False)
      then Goes (let s' = mark_bootstrap_complete s in if is_reclaim P then signal_reclaim_all P s' else s')
      else Goes s)"
| "pull_event_step P inst ok now Cancel s = Stops CancelledRun s"

end
