(* ===== verification/Repl_Level.thy ===== *)
theory Repl_Level
  imports Repl_Apply_Props Repl_Puller Changelog_Props
begin

text \<open>
  A primary and its backup: what the primary's changelog drains, applied at the backup's store, brings
  the backup level with the primary's own record of every call drained.
\<close>

subsection \<open>What a store knows of one reference\<close>

definition facet :: "bytes \<Rightarrow> repl_store \<Rightarrow> bytes \<Rightarrow> call_meta option \<times> bytes option \<times> tombstone list option \<times> refusal option" where
  "facet self st r = (rs_meta st r, held_body self st r, rs_tombstones st r, rr_by_ref (rs_replicas st) r)"

lemma facet_sels:
  assumes "facet self st r = facet self st' r"
  shows "rs_meta st r = rs_meta st' r" "held_body self st r = held_body self st' r"
    "rs_tombstones st r = rs_tombstones st' r" "rr_by_ref (rs_replicas st) r = rr_by_ref (rs_replicas st') r"
  using assms by (simp_all add: facet_def)

lemma held_body_frame [simp]:
  "held_body self (bury_in r' i how t st) r = held_body self st r" "held_body self (keep_for_reap j b st) r = held_body self st r"
  "held_body self (st\<lparr>rs_changelog := c\<rparr>) r = held_body self st r" "held_body self (st\<lparr>rs_replicas := rr\<rparr>) r = held_body self st r"
  "held_body self (st\<lparr>rs_unbacked := u\<rparr>) r = held_body self st r" "held_body self (st\<lparr>rs_meta := m\<rparr>) r = held_body self st r"
  by (simp_all add: held_body_def bury_in_def keep_for_reap_def split: option.split)

lemma replicas_frame [simp]:
  "rs_replicas (bury_in r i how t st) = rs_replicas st" "rs_replicas (keep_for_reap j b st) = rs_replicas st"
  "rs_replicas (fst (take_out r st)) = rs_replicas st"
  "rs_replicas (insert_call role primary r b rm expiry backup st) = rs_replicas st"
  by (auto simp: bury_in_def keep_for_reap_def take_out_def insert_call_def Let_def split: option.splits prod.splits)

lemma displace_replicas [simp]: "rs_replicas (displace r now st) = rs_replicas st"
  using replicas_frame(3) [of r st]
  by (cases "take_out r st") (auto simp: displace_def Let_def simp del: replicas_frame(3) split: option.splits)

lemma bury_other [simp]: "r' \<noteq> r \<Longrightarrow> bury r' i how t tb r = tb r"
  by (simp add: bury_def)

lemma rr_clear_other [simp]: "r' \<noteq> r \<Longrightarrow> rr_by_ref (rr_clear r' rr) r = rr_by_ref rr r"
  by (simp add: rr_clear_def split: option.split)

lemma held_body_insert:
  "partition_of self r' = (role, primary) \<Longrightarrow>
     held_body self (insert_call role primary r' b rm expiry backup st) r = (if r = r' then Some b else held_body self st r)"
  by (simp add: held_body_def insert_call_def Let_def place_key_eq)

lemma unheld_body: "bodies_ok self st \<Longrightarrow> rs_meta st r = None \<Longrightarrow> held_body self st r = None"
  using domIff [of "place_key self r" "ms_bodies (rs_inner st)"] by (auto simp: bodies_ok_def held_body_def simp del: domIff)

lemma held_body_displace:
  assumes "bodies_ok self st"
  shows "held_body self (displace r' now st) r = (if r = r' then None else held_body self st r)"
proof (cases "rs_meta st r'")
  case None
  with unheld_body [OF assms None] show ?thesis by (simp add: displace_def take_out_def)
next
  case (Some m)
  note body = take_out_body(2) [OF assms Some, of r]
  from take_out_body(1) [OF assms Some] obtain b st1 where "take_out r' st = (st1, Some (m, Some b))"
    by (cases "take_out r' st") auto
  with body show ?thesis by (auto simp: displace_def Let_def)
qed

lemma write_put_other:
  assumes "bodies_ok self st" "partition_of self r' = (role, primary)" "r' \<noteq> r"
  shows "facet self (write_put role primary r' b ix ttl g bg opts now st) r = facet self st r"
proof -
  obtain st1 ok where a: "admits r' (write_incarnation st r' opts) b \<lparr>wr_role = role, wr_direction = po_direction opts, wr_now = now\<rparr> st
      = (st1, ok)" by fastforce
  have "facet self st1 r = facet self st r"
    using a assms held_body_displace [OF assms(1), of r' now r]
    by (auto simp: facet_def admits_def Let_def displace_sels split: option.splits burial.splits if_splits)
  then show ?thesis using a assms(2,3)
    by (auto simp: write_put_def Let_def facet_def held_body_insert split: bool.splits option.splits)
qed

lemma write_delete_other:
  assumes "partition_of self r' = (role, primary)" "r' \<noteq> r"
  shows "facet self (write_delete role primary r' ix answered opts now st) r = facet self st r"
  using assms by (auto simp: write_delete_def facet_def delete_held_def held_body_def Let_def bury_in_def place_key_eq
      split: option.split)

lemma note_answer_other_facet: "r' \<noteq> r \<Longrightarrow> facet self (note_authority_answer r' st) r = facet self st r"
  by (simp add: facet_def note_authority_answer_def set_meta_def split: option.split)


subsection \<open>Frames of a batch\<close>

definition frame_placed :: "'c apply_env \<Rightarrow> data_frame \<Rightarrow> bool" where
  "frame_placed E d \<longleftrightarrow> fst (partition_of (ae_self E) (d_call_ref d)) = role_for (d_partition d)"

lemma frame_place:
  "frame_placed E d \<Longrightarrow>
     partition_of (ae_self E) (d_call_ref d) = (role_for (d_partition d), snd (partition_of (ae_self E) (d_call_ref d)))"
  by (simp add: frame_placed_def prod_eq_iff)

lemma bodies_ok_moves: "core_moves self st st' \<Longrightarrow> bodies_ok self st \<Longrightarrow> bodies_ok self st'"
  by (induction rule: rtranclp_induct) (auto intro: bodies.moved)

text \<open>What a frame may do to the store: writes and a delete of its own reference, at its place.\<close>

inductive frame_move :: "bytes \<Rightarrow> bytes \<Rightarrow> repl_store \<Rightarrow> repl_store \<Rightarrow> bool" for self r where
  put: "partition_of self r = (role, primary) \<Longrightarrow> frame_move self r st (write_put role primary r b ix ttl g bg opts now st)"
| del: "partition_of self r = (role, primary) \<Longrightarrow> frame_move self r st (write_delete role primary r ix answered opts now st)"
| answer: "frame_move self r st (note_authority_answer r st)"

lemma frame_moves:
  assumes "(frame_move self r)\<^sup>*\<^sup>* st st'" "bodies_ok self st"
  shows "bodies_ok self st' \<and> (r' \<noteq> r \<longrightarrow> facet self st' r' = facet self st r')"
  using assms
proof (induction rule: rtranclp_induct)
  case (step st1 st2)
  then have ok: "bodies_ok self st1" by simp
  from step(2) show ?case
  proof cases
    case (put role primary)
    with bodies_ok_moves [OF write_put_moves ok] write_put_other [OF ok] step show ?thesis by auto
  next
    case (del role primary)
    with bodies_ok_moves [OF write_delete_moves ok] write_delete_other step show ?thesis by auto
  next
    case answer
    moreover have "bodies_ok self (note_authority_answer r st1)"
      using bodies_ok_moves [OF set_meta_moves ok] by (simp add: note_authority_answer_def)
    ultimately show ?thesis using step note_answer_other_facet by auto
  qed
qed simp

lemma meet_stored_moves:
  assumes "partition_of self r = (role, primary)"
  shows "(frame_move self r)\<^sup>*\<^sup>* st (fst (meet_stored A role primary r i p origin kept now st))"
proof (cases "fst (meet_stored A role primary r i p origin kept now st) = st")
  case False
  then obtain merged where "fst (meet_stored A role primary r i p origin kept now st) = keep_merged A role primary r merged kept now st"
    by (auto simp: meet_stored_def Let_def split: option.splits met.splits)
  then show ?thesis using frame_move.put [OF assms] by (auto simp: keep_merged_def split: option.split)
qed simp

lemma put_verdict_moves:
  assumes "frame_placed E d"
  shows "(frame_move (ae_self E) (d_call_ref d))\<^sup>*\<^sup>* st (fst (put_verdict E mode d now st))"
proof -
  let ?m = "meet_stored (ae_api E) (role_for (d_partition d)) (snd (partition_of (ae_self E) (d_call_ref d))) (d_call_ref d)
    (incoming_copy E mode d) (mode = ForwardMode) (d_origin_now_ms d) \<lparr>kc_body_ttl_ms = d_body_ttl_ms d, kc_incarnation = d_incarnation d\<rparr>
    now st"
  have "fst (put_verdict E mode d now st) = st \<or> fst (put_verdict E mode d now st) = fst ?m"
    by (cases ?m; cases "snd ?m"; cases mode; cases "current_cv st now (d_call_ref d)") (simp_all add: put_verdict_def Let_def)
  then show ?thesis using meet_stored_moves [OF frame_place [OF assms]] by auto
qed

lemma apply_frame_moves:
  assumes "frame_placed E d"
  shows "(frame_move (ae_self E) (d_call_ref d))\<^sup>*\<^sup>* st (fst (apply_to_store E mode d now st))"
proof (cases "d_op d")
  case Put
  obtain st1 out body v where pv: "put_verdict E mode d now st = (st1, out, body, v)" by (metis prod_cases4)
  have m1: "(frame_move (ae_self E) (d_call_ref d))\<^sup>*\<^sup>* st st1" using put_verdict_moves [OF assms, of st mode now] pv by simp
  note m2 = rtranclp.rtrancl_into_rtrancl [OF m1 frame_move.put [OF frame_place [OF assms]]]
  have m3: "(frame_move (ae_self E) (d_call_ref d))\<^sup>*\<^sup>* st x \<Longrightarrow>
      (frame_move (ae_self E) (d_call_ref d))\<^sup>*\<^sup>* st (note_authority_answer (d_call_ref d) x)" for x
    by (rule rtranclp.rtrancl_into_rtrancl) (auto intro: frame_move.answer)
  show ?thesis using m1 pv m2
    by (auto simp: apply_to_store_def Put apply_put_def Let_def intro: m3 split: option.split)
next
  case Delete
  then show ?thesis using frame_move.del [OF frame_place [OF assms]] by (auto simp: apply_to_store_def apply_delete_def)
qed

subsection \<open>A backup in step with its primary\<close>

text \<open>
  A store is in step with a frame when it may take it: of a put, the call is not buried or refused
  here and the copy held of it is no further than the frame; of a delete, the call held is the one
  deleted and does not outlive it.
\<close>

definition in_step :: "'c apply_env \<Rightarrow> int \<Rightarrow> repl_store \<Rightarrow> data_frame \<Rightarrow> bool" where
  "in_step E now st d \<longleftrightarrow> (let r = d_call_ref d in
     if d_op d = Put then
       burial_of r (write_incarnation st r (put_opts_default\<lparr>po_incarnation := d_incarnation d\<rparr>)) now (rs_tombstones st) = None \<and>
       \<not> refused_replica st r (d_incarnation d) \<and>
       (\<forall>s. current_cv st now r = Some s \<and> \<not> another_call st now d \<longrightarrow>
          dominates (frame_version d) s \<and> (s = frame_version d \<longrightarrow> held_body (ae_self E) st r = d_body d))
     else (rs_meta st r \<noteq> None \<longrightarrow> \<not> is_another_call (held_incarnation st r) (d_incarnation d)) \<and>
       \<not> element_outlives_the_delete E d now st)"

definition level :: "bytes \<Rightarrow> repl_store \<Rightarrow> data_frame \<Rightarrow> bool" where
  "level self st d \<longleftrightarrow>
     (if d_op d = Put then
        held_body self st (d_call_ref d) = d_body d \<and>
        (\<exists>m. rs_meta st (d_call_ref d) = Some m \<and> meta_version m = frame_version d)
      else held_body self st (d_call_ref d) = None \<and> rs_meta st (d_call_ref d) = None)"

lemma level_cong: "facet self st (d_call_ref d) = facet self st' (d_call_ref d) \<Longrightarrow> level self st d = level self st' d"
  by (simp add: level_def facet_def)

lemma stored_copy_placed:
  "frame_placed E d \<Longrightarrow> stored_copy A st (role_for (d_partition d)) (snd (partition_of (ae_self E) (d_call_ref d))) (d_call_ref d) =
     Option.bind (held_body (ae_self E) st (d_call_ref d)) (a_decode A)"
  using place_key_eq [OF frame_place [of E d]] by (simp add: stored_copy_def peek_body_raw_def mem_body_def held_body_def)

lemma in_step_cong:
  assumes "facet (ae_self E) st (d_call_ref d) = facet (ae_self E) st' (d_call_ref d)" "frame_placed E d"
  shows "in_step E now st d = in_step E now st' d"
proof -
  note f = facet_sels [OF assms(1)]
  have h: "held_incarnation st (d_call_ref d) = held_incarnation st' (d_call_ref d)"
    "current_cv st now (d_call_ref d) = current_cv st' now (d_call_ref d)"
    "store_incarnation st now (d_call_ref d) = store_incarnation st' now (d_call_ref d)"
    "authority_answered st (d_call_ref d) = authority_answered st' (d_call_ref d)"
    by (simp_all add: held_incarnation_def current_cv_def store_incarnation_def is_expired_def authority_answered_def f)
  have "element_outlives_the_delete E d now st = element_outlives_the_delete E d now st'"
    unfolding element_outlives_the_delete_def stored_copy_placed [OF assms(2)] h f ..
  moreover have "burial_of (d_call_ref d) i now (rs_tombstones st) = burial_of (d_call_ref d) i now (rs_tombstones st')" for i
    by (simp add: burial_of_def buried_of_def f)
  ultimately show ?thesis
    by (simp add: in_step_def Let_def write_incarnation_def refused_replica_def rr_refuses_def another_call_def h f
        cong: option.case_cong)
qed

text \<open>A write that is not buried is stored, whatever call it finds on the reference.\<close>

lemma write_put_stored:
  assumes "burial_of r (write_incarnation st r opts) now (rs_tombstones st) = None" "po_direction opts \<noteq> Some ReverseTo"
    and "partition_of self r = (role, primary)"
  shows "\<exists>m. rs_meta (write_put role primary r b ix ttl g bg opts now st) r = Some m \<and> meta_version m = (g, bg)"
    and "held_body self (write_put role primary r b ix ttl g bg opts now st) r = Some b"
  using assms by (auto simp: write_put_def Let_def admits_def meta_version_def held_body_insert split: option.split)

lemma note_answer_level: "level self st d \<Longrightarrow> level self (note_authority_answer r st) d"
  by (auto simp: level_def note_authority_answer_meta meta_version_def note_authority_answer_def set_meta_def
      split: option.splits if_splits)

lemma put_levels:
  assumes "in_step E now st d" "d_op d = Put" "d_body d \<noteq> None" "frame_placed E d" "ae_capacity E = None"
  shows "level (ae_self E) (fst (apply_to_store E ForwardMode d now st)) d"
proof -
  let ?r = "d_call_ref d"
  obtain b where b: "d_body d = Some b" using assms(3) by blast
  from assms(1,2) have free: "burial_of ?r (write_incarnation st ?r (put_opts_default\<lparr>po_incarnation := d_incarnation d\<rparr>)) now
      (rs_tombstones st) = None" "\<not> refused_replica st ?r (d_incarnation d)"
    and ver: "\<And>s. current_cv st now ?r = Some s \<Longrightarrow> \<not> another_call st now d \<Longrightarrow>
      dominates (frame_version d) s \<and> (s = frame_version d \<longrightarrow> held_body (ae_self E) st ?r = d_body d)"
    by (auto simp: in_step_def Let_def)
  have calm: "\<not> sheds E d now st" using free(2) assms(5) by (simp add: sheds_def)
  let ?opts = "put_opts_default\<lparr>po_origin_now_ms := Some (d_origin_now_ms d), po_incarnation := d_incarnation d\<rparr>"
  define w where "w = write_put (role_for (d_partition d)) (snd (partition_of (ae_self E) ?r)) ?r b (d_indexes d) (d_body_ttl_ms d)
    (d_call_gen d) (d_call_bgen d) ?opts now st"
  have "level (ae_self E) w d"
    using write_put_stored [OF _ _ frame_place [OF assms(4)], of st ?opts now b "d_indexes d" "d_body_ttl_ms d" "d_call_gen d" "d_call_bgen d"]
      free(1) assms(2) b
    by (simp add: level_def w_def write_incarnation_def put_opts_default_def frame_version_def)
  moreover have "put_verdict E ForwardMode d now st = (st, AppliedFrame, d_body d, frame_version d) \<or>
      put_verdict E ForwardMode d now st = (st, Dominated, d_body d, frame_version d) \<and> level (ae_self E) st d"
  proof (cases "another_call st now d \<or> current_cv st now ?r = None")
    case False
    then obtain s where s: "current_cv st now ?r = Some s" "\<not> another_call st now d" by blast
    have "level (ae_self E) st d" if "dominates s (frame_version d)"
    proof -
      from that ver [OF s] have "s = frame_version d" by (auto simp: dominates_def prod_eq_iff)
      with ver [OF s] s(1) assms(2) show ?thesis by (auto simp: level_def current_cv_Some)
    qed
    with s ver [OF s] show ?thesis by (simp add: put_verdict_def Let_def)
  qed (auto simp: put_verdict_def Let_def split: option.split)
  ultimately show ?thesis
    using calm b by (auto simp: apply_to_store_def assms(2) apply_put_def Let_def frame_version_def w_def [symmetric]
        note_answer_level split: option.split)
qed

lemma delete_levels:
  assumes "in_step E now st d" "d_op d = Delete" "frame_placed E d" "bodies_ok (ae_self E) st"
  shows "level (ae_self E) (fst (apply_to_store E ForwardMode d now st)) d"
proof -
  let ?st = "fst (apply_to_store E ForwardMode d now st)"
  have "rs_meta ?st (d_call_ref d) = None"
    using assms(1,2) by (auto simp: in_step_def apply_to_store_def apply_delete_def write_delete_def delete_held_def Let_def
        put_opts_default_def)
  moreover have "bodies_ok (ae_self E) ?st" using frame_moves [OF apply_frame_moves [OF assms(3)] assms(4)] by blast
  ultimately show ?thesis using unheld_body assms(2) by (simp add: level_def)
qed

text \<open>A batch with one frame a reference, each met by a store in step, leaves it level with every frame.\<close>

definition apply_batch :: "'c apply_env \<Rightarrow> (int \<times> data_frame) list \<Rightarrow> repl_store \<Rightarrow> repl_store" where
  "apply_batch E = fold (\<lambda>(now, d) st. fst (apply_to_store E ForwardMode d now st))"

lemma apply_batch_simps [simp]:
  "apply_batch E [] st = st"
  "apply_batch E ((now, d) # fs) st = apply_batch E fs (fst (apply_to_store E ForwardMode d now st))"
  by (simp_all add: apply_batch_def)

lemma batch_other:
  assumes "bodies_ok (ae_self E) st" "\<forall>(now, d) \<in> set fs. frame_placed E d \<and> d_call_ref d \<noteq> r"
  shows "facet (ae_self E) (apply_batch E fs st) r = facet (ae_self E) st r"
  using assms
proof (induction fs arbitrary: st)
  case (Cons nd fs)
  obtain now d where nd: "nd = (now, d)" by fastforce
  with Cons(3) have d: "frame_placed E d" "r \<noteq> d_call_ref d" by auto
  from frame_moves [OF apply_frame_moves [OF d(1)] Cons(2), of ForwardMode now r] d(2) Cons(1) Cons(3)
  show ?case by (simp add: nd)
qed simp

definition batch_ready :: "'c apply_env \<Rightarrow> (int \<times> data_frame) list \<Rightarrow> repl_store \<Rightarrow> bool" where
  "batch_ready E fs st \<longleftrightarrow> bodies_ok (ae_self E) st \<and> distinct (map (d_call_ref \<circ> snd) fs) \<and>
     (\<forall>(now, d) \<in> set fs. frame_placed E d \<and> in_step E now st d \<and> (d_op d = Put \<longrightarrow> d_body d \<noteq> None))"

lemma batch_ready_next:
  assumes "batch_ready E ((now, d) # fs) st"
  shows "batch_ready E fs (fst (apply_to_store E ForwardMode d now st))"
proof -
  let ?st = "fst (apply_to_store E ForwardMode d now st)"
  from assms have d: "frame_placed E d" "bodies_ok (ae_self E) st" by (auto simp: batch_ready_def)
  note moved = frame_moves [OF apply_frame_moves [OF d(1)] d(2), of ForwardMode now]
  have "in_step E n ?st d'" if "(n, d') \<in> set fs" for n d'
  proof -
    from assms that have "d_call_ref d' \<noteq> d_call_ref d" "frame_placed E d'" "in_step E n st d'" by (force simp: batch_ready_def)+
    then show ?thesis using moved [of "d_call_ref d'"] in_step_cong [of E ?st d' st n] by auto
  qed
  with assms moved show ?thesis by (auto simp: batch_ready_def)
qed

lemma batch_levels:
  assumes "batch_ready E fs st" "ae_capacity E = None"
  shows "\<forall>(now, d) \<in> set fs. level (ae_self E) (apply_batch E fs st) d"
  using assms(1)
proof (induction fs arbitrary: st)
  case (Cons nd fs)
  obtain now d where nd: "nd = (now, d)" by fastforce
  define st1 where "st1 = fst (apply_to_store E ForwardMode d now st)"
  have next1: "batch_ready E fs st1" using batch_ready_next Cons(2) nd by (simp add: st1_def)
  have d: "frame_placed E d" "in_step E now st d" "d_op d = Put \<longrightarrow> d_body d \<noteq> None" "bodies_ok (ae_self E) st"
    using Cons(2) nd by (auto simp: batch_ready_def)
  have "level (ae_self E) st1 d" unfolding st1_def
    using put_levels [OF d(2) _ _ d(1) assms(2)] delete_levels [OF d(2) _ d(1) d(4)] d(3) by (cases "d_op d") auto
  moreover have "facet (ae_self E) (apply_batch E fs st1) (d_call_ref d) = facet (ae_self E) st1 (d_call_ref d)"
  proof (rule batch_other)
    show "bodies_ok (ae_self E) st1" using next1 by (simp add: batch_ready_def)
    have "d_call_ref d \<notin> (d_call_ref \<circ> snd) ` set fs" using Cons(2) nd by (simp add: batch_ready_def)
    then have "d_call_ref d' \<noteq> d_call_ref d" if "(n, d') \<in> set fs" for n d' using that by (metis comp_apply image_eqI snd_conv)
    then show "\<forall>(now, d') \<in> set fs. frame_placed E d' \<and> d_call_ref d' \<noteq> d_call_ref d"
      using next1 by (auto simp: batch_ready_def)
  qed
  ultimately have "level (ae_self E) (apply_batch E fs st1) d" using level_cong by blast
  with Cons(1) [OF next1] show ?case by (auto simp: nd st1_def)
qed simp

subsection \<open>The batch on an open stream\<close>

fun receive_all :: "'c puller \<Rightarrow> (frame \<Rightarrow> bool) \<Rightarrow> (instant \<times> int \<times> frame) list \<Rightarrow> pull_stream \<Rightarrow> pull_stream stream_result" where
  "receive_all P ok [] s = Goes s"
| "receive_all P ok ((inst, now, f) # es) s =
     then_do (pull_event_step P inst ok now (Received (Some f)) s) (receive_all P ok es)"

lemma sink_send_frame [simp]:
  "ps_store (sink_send P cs s) = ps_store s" "ps_bootstrapped (sink_send P cs s) = ps_bootstrapped s"
  "ps_sent (sink_send P cs s) = ps_sent s" "ps_status (sink_send P cs s) = ps_status s"
  by (simp_all add: sink_send_def)

lemma signal_cases:
  "\<exists>cs cs' held. signal P mode out r w at s = s\<lparr>ps_held := held\<rparr> \<or> signal P mode out r w at s = s \<or>
     signal P mode out r w at s = sink_send P cs (sink_send P cs' (s\<lparr>ps_held := held\<rparr>))"
proof (cases "pu_sink P")
  case (Some sink)
  show ?thesis
  proof (cases "command mode out (ps_bootstrapped s) r w at sink")
    case None
    show ?thesis by (simp add: signal_def Some None case_prod_beta) blast
  next
    case c: (Some cmd)
    show ?thesis by (cases cmd; simp add: signal_def Some c case_prod_beta; blast)
  qed
qed (simp add: signal_def)

lemma signal_frame [simp]:
  "ps_store (signal P mode out r w at s) = ps_store s" "ps_bootstrapped (signal P mode out r w at s) = ps_bootstrapped s"
  "ps_sent (signal P mode out r w at s) = ps_sent s" "ps_status (signal P mode out r w at s) = ps_status s"
  using signal_cases [of P mode out r w at s] by auto

lemma receive_data:
  assumes "pull_event_step P inst ok now (Received (Some (Data d))) s = Goes s'" "pu_partition P = Bak"
    and "snd (apply_to_store (pu_env P) ForwardMode d now (ps_store s)) \<noteq> ShedFrame"
  shows "ps_store s' = fst (apply_to_store (pu_env P) ForwardMode d now (ps_store s))"
    "ps_bootstrapped s' = ps_bootstrapped s"
    "ps_sent s' = ps_sent s @ (if ps_bootstrapped s then [Position (d_at d)] else [])"
  using assms by (auto simp: pull_data_def frame_mode_def is_reclaim_def Let_def pull_send_def ended_def heard_def
      split: prod.splits if_splits)

lemma data_goes: "\<exists>s'. pull_event_step P inst (\<lambda>_. True) now (Received (Some (Data d))) s = Goes s'"
  by (simp add: pull_data_def pull_send_def refuse_frame_def case_prod_beta Let_def)

lemma in_step_not_shed:
  "in_step E now st d \<Longrightarrow> ae_capacity E = None \<Longrightarrow> snd (apply_to_store E ForwardMode d now st) \<noteq> ShedFrame"
  by (cases "d_op d") (auto simp: apply_to_store_def in_step_def apply_put_def apply_delete_def Let_def sheds_def put_verdict_def
      split: prod.splits option.splits if_splits)

lemma receive_applies:
  assumes "receive_all P ok (map (\<lambda>(inst, now, d). (inst, now, Data d)) es) s = Goes s'" "pu_partition P = Bak"
    and "ae_capacity (pu_env P) = None" "batch_ready (pu_env P) (map snd es) (ps_store s)"
  shows "ps_store s' = apply_batch (pu_env P) (map snd es) (ps_store s) \<and>
    (ps_bootstrapped s \<longrightarrow> ps_sent s' = ps_sent s @ map (\<lambda>(inst, now, d). Position (d_at d)) es)"
  using assms(1,4)
proof (induction es arbitrary: s)
  case (Cons x es)
  obtain inst now d where x: "x = (inst, now, d)" by (metis prod_cases3)
  from Cons(2) x obtain s1 where s1: "pull_event_step P inst ok now (Received (Some (Data d))) s = Goes s1"
    and rest: "receive_all P ok (map (\<lambda>(inst, now, d). (inst, now, Data d)) es) s1 = Goes s'"
    by (cases "pull_event_step P inst ok now (Received (Some (Data d))) s") auto
  have "in_step (pu_env P) now (ps_store s) d" using Cons(3) x by (auto simp: batch_ready_def)
  note r = receive_data [OF s1 assms(2) in_step_not_shed [OF this assms(3)]]
  have "batch_ready (pu_env P) (map snd es) (ps_store s1)" using batch_ready_next Cons(3) x r(1) by simp
  from Cons(1) [OF rest this] r x show ?case by auto
qed simp

subsection \<open>What the primary drains\<close>

text \<open>The log of a store is the log of a history of its own.\<close>

lemma log_frame [simp]:
  "rs_changelog (bury_in r i how t st) = rs_changelog st" "rs_changelog (keep_for_reap k b st) = rs_changelog st"
  "rs_changelog (fst (take_out r st)) = rs_changelog st" "rs_changelog (set_meta r f st) = rs_changelog st"
  "rs_changelog (insert_call role primary r b rm expiry backup st) = rs_changelog st"
  by (auto simp: bury_in_def keep_for_reap_def take_out_def set_meta_def insert_call_def Let_def split: option.splits prod.splits)

lemma displace_log [simp]: "rs_changelog (displace r now st) = rs_changelog st"
  using log_frame(3) [of r st]
  by (cases "take_out r st") (simp add: displace_def Let_def del: log_frame(3) split: option.split)

lemma admits_log [simp]: "rs_changelog (fst (admits r i b w st)) = rs_changelog st"
  by (simp add: admits_def Let_def split: option.split burial.split)

lemma evict_log [simp]: "rs_changelog (fst (evict_snapshot rs now st)) = rs_changelog st"
proof (induction rs arbitrary: st)
  case (Cons r rs)
  with log_frame(3) [of r st] show ?case
    by (cases "take_out r st") (auto simp: case_prod_beta simp del: log_frame(3) split: option.splits)
qed simp

lemma log_step:
  "rs_changelog (store_apply x st) = rs_changelog st \<or> (\<exists>y. rs_changelog (store_apply x st) = cl_apply y (rs_changelog st))"
proof (cases x)
  case (SPut role primary r b ix ttl g bg opts now)
  obtain st1 ok where a: "admits r (write_incarnation st r opts) b \<lparr>wr_role = role, wr_direction = po_direction opts, wr_now = now\<rparr> st
      = (st1, ok)" by fastforce
  with admits_log have "rs_changelog st1 = rs_changelog st" by (metis fst_conv)
  with a have "rs_changelog (store_apply x st) = rs_changelog st \<or> (\<exists>p part. rs_changelog (store_apply x st) =
      cl_apply (OpBump p r Put part stated_default now) (rs_changelog st))"
    by (cases ok) (auto simp: SPut write_put_def Let_def bump_put_def split: option.split)
  then show ?thesis by blast
next
  case (SDelete role primary r ix answered opts now)
  have "rs_changelog (store_apply x st) = rs_changelog st \<or> (\<exists>p part s. rs_changelog (store_apply x st) =
      cl_apply (OpBump p r Delete part s now) (rs_changelog st))"
    by (auto simp: SDelete write_delete_def delete_held_def Let_def bump_delete_def split: option.split)
  then show ?thesis by blast
next
  case (SBackupRefused backup r i)
  have "rs_changelog (store_apply x st) = rs_changelog st \<or>
      rs_changelog (store_apply x st) = cl_apply (OpForget backup Bak r) (rs_changelog st)"
    by (auto simp: SBackupRefused backup_refused_def split: option.split)
  then show ?thesis by blast
next
  case (SAbandon backup r now)
  have "\<exists>s. rs_changelog (store_apply x st) = cl_apply (OpBump backup r Delete Bak s now) (rs_changelog st)"
    by (auto simp: SAbandon abandon_backup_def Let_def bump_delete_def split: option.split)
  then show ?thesis by blast
next
  case (SUpkeep now)
  then have "rs_changelog (store_apply x st) = cl_apply (OpReap now) (rs_changelog st)" by (simp add: reap_upkeep_def)
  then show ?thesis by blast
qed (auto simp: reestablish_backup_def note_authority_answer_def take_displaced_def refuse_replica_def clear_refusals_of_def
    leave_unbacked_def admit_backed_def)

lemma store_log_history: "\<exists>h'. rs_changelog (store_run gen h) = cl_run gen h'"
proof (induction h rule: rev_induct)
  case Nil
  show ?case by (rule exI [of _ "[]"]) (simp add: store_run_def repl_store_new_def)
next
  case (snoc x h)
  then obtain h' where "rs_changelog (store_run gen h) = cl_run gen h'" by blast
  with log_step [of x "store_run gen h"] have "rs_changelog (store_run gen (h @ [x])) = cl_run gen h' \<or>
      (\<exists>y. rs_changelog (store_run gen (h @ [x])) = cl_run gen (h' @ [y]))"
    by (simp add: store_run_def)
  then show ?case by blast
qed

lemma due_refs_distinct:
  assumes "sub_ok n sl" "ds = List.map_filter (due_of sl) (due_entries since cold limit sl)"
  shows "distinct (map du_call_ref ds)"
proof -
  have one: "inj_on snd (set (sl_entries sl))" and "distinct (sl_entries sl)"
    using assms(1) by (auto simp: sub_ok_def entries_match_def bt_wf_def inj_on_def strict_sorted_iff distinct_map)
  then have "distinct (map snd (due_entries since cold limit sl))"
    by (auto simp: due_entries_def distinct_map intro!: inj_on_subset [OF one] dest: in_set_takeD)
  moreover have "map du_call_ref (List.map_filter (due_of sl) es) = filter (\<lambda>r. sl_by_ref sl r \<noteq> None) (map snd es)" for es
    by (induction es) (auto simp: map_filter_simps due_of_def)
  ultimately show ?thesis using assms(2) by simp
qed

lemma snapshot_refs:
  assumes "drain_snapshot p part since limit c = (c', ds)" "c = cl_run gen h"
  shows "distinct (map du_call_ref ds)" "cl_gen c' = gen"
    "e \<in> set ds \<Longrightarrow> \<exists>w. current_entry c' p part (du_call_ref e) = Some (du_op e, w)"
proof -
  show "cl_gen c' = gen" using assms by (auto simp: drain_snapshot_def Let_def split: option.splits prod.splits)
  have "distinct (map du_call_ref ds) \<and> (\<forall>e\<in>set ds. \<exists>w. current_entry c' p part (du_call_ref e) = Some (du_op e, w))"
  proof (cases "sub_of c p part")
    case None
    with assms(1) show ?thesis by (simp add: drain_snapshot_def)
  next
    case (Some sl)
    let ?es = "due_entries (w_counter since) (w_gen since < cl_gen c) limit sl"
    have ds: "ds = List.map_filter (due_of sl) ?es" using snapshot_due [OF Some, of since limit] assms(1) by simp
    have "sub_ok (cl_counter c) sl" using well_formed.invariant Some assms(2) by blast
    note d = due_refs_distinct [OF this ds]
    have sub: "sub_of c' p part = Some (sl\<lparr>sl_by_ref := fold (\<lambda>(c, r). mark_sent c r) ?es (sl_by_ref sl)\<rparr>)"
      using assms(1) Some by (auto simp: drain_snapshot_def sub_due_def Let_def sub_of_upd)
    have "\<exists>w. current_entry c' p part (du_call_ref e) = Some (du_op e, w)" if "e \<in> set ds" for e
    proof -
      from that ds obtain st where st: "sl_by_ref sl (du_call_ref e) = Some st" "du_op e = rf_op st"
        by (auto simp: map_filter_set due_of_def)
      from same_refs_Some [OF same_refs_sym [OF same_refs_marks [of "sl_by_ref sl" "\<lambda>c. c" ?es]] st(1)] st(2) show ?thesis
        by (auto simp: current_entry_def sub ref_core_eq)
    qed
    with d show ?thesis by blast
  qed
  then show "distinct (map du_call_ref ds)" "e \<in> set ds \<Longrightarrow> \<exists>w. current_entry c' p part (du_call_ref e) = Some (du_op e, w)"
    by blast+
qed

text \<open>Every entry drained gives a frame of its call, the primary's own record of it or a delete.\<close>

lemma drained_frames:
  assumes "drain_snapshot p part since limit c = (c', ds)" "c = cl_run gen h"
    and "fs = List.map_filter (due_frame c' src p part role primary now) ds"
  shows "e \<in> set ds \<Longrightarrow> \<exists>d. Data d \<in> set fs \<and> d_call_ref d = du_call_ref e \<and> d_at d = Watermark gen (du_counter e) \<and>
      (case if du_op e = Put then src role primary (du_call_ref e) else None of
         Some (body, m) \<Rightarrow> d_op d = Put \<and> d_body d = Some body \<and> frame_version d = (rm_call_gen m, rm_call_bgen m)
       | None \<Rightarrow> d_op d = Delete)"
    and "\<forall>f\<in>set fs. \<exists>d. f = Data d \<and> d_partition d = part \<and> (d_op d = Put \<longrightarrow> d_body d \<noteq> None)"
    and "fs = map Data dfs \<Longrightarrow> distinct (map d_call_ref dfs)"
proof -
  note refs = snapshot_refs [OF assms(1,2)]
  have one: "\<exists>d. due_frame c' src p part role primary now e = Some (Data d) \<and> d_call_ref d = du_call_ref e \<and> d_partition d = part \<and>
      (d_op d = Put \<longrightarrow> d_body d \<noteq> None) \<and> d_at d = Watermark gen (du_counter e) \<and>
      (case if du_op e = Put then src role primary (du_call_ref e) else None of
         Some (body, m) \<Rightarrow> d_op d = Put \<and> d_body d = Some body \<and> frame_version d = (rm_call_gen m, rm_call_bgen m)
       | None \<Rightarrow> d_op d = Delete)" if "e \<in> set ds" for e
    using refs(3) [OF that] refs(2)
    by (cases "du_op e") (auto simp: due_frame_def Let_def delete_frame_def put_frame_def frame_version_def split: option.splits)
  show "e \<in> set ds \<Longrightarrow> \<exists>d. Data d \<in> set fs \<and> d_call_ref d = du_call_ref e \<and> d_at d = Watermark gen (du_counter e) \<and>
      (case if du_op e = Put then src role primary (du_call_ref e) else None of
         Some (body, m) \<Rightarrow> d_op d = Put \<and> d_body d = Some body \<and> frame_version d = (rm_call_gen m, rm_call_bgen m)
       | None \<Rightarrow> d_op d = Delete)"
    using one [of e] unfolding assms(3) map_filter_set by blast
  show "\<forall>f\<in>set fs. \<exists>d. f = Data d \<and> d_partition d = part \<and> (d_op d = Put \<longrightarrow> d_body d \<noteq> None)"
  proof
    fix f assume "f \<in> set fs"
    then obtain e where "e \<in> set ds" "due_frame c' src p part role primary now e = Some f" unfolding assms(3) map_filter_set by blast
    with one [of e] show "\<exists>d. f = Data d \<and> d_partition d = part \<and> (d_op d = Put \<longrightarrow> d_body d \<noteq> None)" by auto
  qed
  have all: "map Data dfs' = List.map_filter (due_frame c' src p part role primary now) ds' \<Longrightarrow> set ds' \<subseteq> set ds \<Longrightarrow>
      map d_call_ref dfs' = map du_call_ref ds'" for dfs' ds'
  proof (induction ds' arbitrary: dfs')
    case (Cons e ds')
    with one [of e] show ?case by (auto simp: map_filter_simps map_eq_Cons_conv)
  qed (simp add: map_filter_simps)
  show "fs = map Data dfs \<Longrightarrow> distinct (map d_call_ref dfs)" using all [of dfs ds] refs(1) assms(3) by simp
qed


subsection \<open>Two workers at work\<close>

text \<open>The primary \<open>w0\<close> moves the call of the run above one version on; its backup \<open>w1\<close> pulls the write.\<close>

definition run1 :: "store_op list" where
  "run1 = [SPut Primary ''w0'' ref0 ''new'' [] 1000 4 1
     (opts0\<lparr>po_peer := Some ''w1'', po_direction := Some ForwardTo\<rparr>) 5]"

definition frame1 :: data_frame where
  "frame1 = frame0\<lparr>d_at := Watermark 7 1, d_call_bgen := 1, d_origin_now_ms := 5\<rparr>"

definition puller1 :: "bytes puller" where
  "puller1 = \<lparr>pu_env = env0, pu_peer = ''w0'', pu_identity = None, pu_partition = Bak, pu_config = puller_config_default,
     pu_sink = None\<rparr>"

definition stream1 :: pull_stream where
  "stream1 = stream_opened puller1 (status_new (Watermark 7 0)) None 0 (store_run 7 run0)"

lemma run1_log:
  "rs_changelog (store_run 7 run1) = fst (bump_put ''w1'' ref0 Bak 5 (changelog_new 7))"
  "read_entry (store_run 7 run1) 5 Primary ''w0'' ref0 = Some (''new'', \<lparr>rm_call_gen = 4, rm_call_bgen = 1, rm_body_ttl_ms = 1000,
     rm_indexes = [], rm_incarnation = Some ''i1'', rm_skew_offset_ms = None\<rparr>)"
  by (simp_all add: run1_def store_eval read_entry_def meta_expired_def mem_body_def)

lemma snapshot1:
  "snd (drain_snapshot ''w1'' Bak (Watermark 7 0) 9 (rs_changelog (store_run 7 run1))) =
     [\<lparr>du_counter = 1, du_call_ref = ref0, du_op = Put, du_answered = False, du_incarnation = None\<rparr>]"
  "cl_gen (fst (drain_snapshot ''w1'' Bak (Watermark 7 0) 9 (rs_changelog (store_run 7 run1)))) = 7"
  by (simp_all add: run1_log bump_put_def cl_op_defs due_of_def map_filter_simps)

lemma drain1:
  "drain_since ''w1'' Bak (Watermark 7 0) 9 (read_entry (store_run 7 run1) 5) Primary ''w0'' 5 (rs_changelog (store_run 7 run1)) =
     (fst (drain_snapshot ''w1'' Bak (Watermark 7 0) 9 (rs_changelog (store_run 7 run1))), [Data frame1])"
  using snapshot1 by (simp add: drain_since_def case_prod_beta map_filter_simps due_frame_def run1_log(2) put_frame_def
      origin_now_ms_def i64_saturating_sub_def frame1_def frame0_def)

lemma in_step1: "in_step env0 6 (store_run 7 run0) frame1"
  using run0_reads by (simp add: in_step_def frame1_def frame0_def Let_def store_eval refused_replica_def rr_refuses_def
      dominates_def frame_version_def)


end
