(* ===== verification/Branch_Memo.thy ===== *)
theory Branch_Memo
  imports Retransmit
begin

text \<open>
  The branch memo of the front proxy (\<open>src/crates/sip-proxy/src/cancel_lru.rs\<close> and \<open>cancel_lru/\<close>):
  where an INVITE transaction was forwarded, kept for its CANCEL, its non-2xx ACK and its
  retransmissions. A memo is a row of stripes, a stripe two pools, one per lifetime, each a table with
  an index in write order, bounded in entries and in accounted bytes.

  The hash of a key is a parameter, as is the size of a table's slot, which the compiler lays out.
  Totals of entries and bytes held in memory do not overflow; the write counter wraps as in the code.
\<close>

subsection \<open>Keys\<close>

text \<open>The decimal form of a number, as the standard library writes it.\<close>

fun decimal :: "nat \<Rightarrow> bytes" where
  "decimal n = (if n < 10 then [char_of (48 + n)] else decimal (n div 10) @ [char_of (48 + n mod 10)])"

declare decimal.simps [simp del]

definition ascii_lower :: "char \<Rightarrow> char" where
  "ascii_lower c = (if 65 \<le> (of_char c :: nat) \<and> (of_char c :: nat) \<le> 90 then char_of ((of_char c :: nat) + 32) else c)"

record sent_by =
  sb_host :: bytes
  sb_port :: "nat option"

definition sent_by_eq :: "sent_by \<Rightarrow> sent_by \<Rightarrow> bool" where
  "sent_by_eq a b \<longleftrightarrow> sb_port a = sb_port b \<and> map ascii_lower (sb_host a) = map ascii_lower (sb_host b)"

definition write_canonical :: "sent_by \<Rightarrow> bytes" where
  "write_canonical s =
     (let v6 = CHR '':'' \<in> set (sb_host s)
      in (if v6 then ''['' else []) @ map ascii_lower (sb_host s) @ (if v6 then '']'' else []) @
         (case sb_port s of Some port \<Rightarrow> '':'' @ decimal port | None \<Rightarrow> []))"

record memo_via =
  mv_branch :: "bytes option"
  mv_sent_by :: sent_by

definition opt_str :: "bytes option \<Rightarrow> bytes" where
  "opt_str x = (case x of Some s \<Rightarrow> s | None \<Rightarrow> [])"

definition txn_key :: "bytes list \<Rightarrow> memo_via \<Rightarrow> bytes \<Rightarrow> bytes option \<Rightarrow> nat \<Rightarrow> bytes" where
  "txn_key namespace via call_id from_tag cseq =
     concat (map (\<lambda>part. part @ ''|'') namespace) @ opt_str (mv_branch via) @ ''|'' @
     write_canonical (mv_sent_by via) @ ''|'' @ call_id @ ''|'' @ opt_str from_tag @ ''|'' @ decimal cseq"

definition invite_txn_key :: "memo_via \<Rightarrow> bytes \<Rightarrow> bytes option \<Rightarrow> nat \<Rightarrow> bytes" where
  "invite_txn_key = txn_key [''inv'']"

definition retransmit_key :: "memo_via \<Rightarrow> bytes \<Rightarrow> bytes option \<Rightarrow> bytes \<Rightarrow> nat \<Rightarrow> bytes" where
  "retransmit_key via call_id from_tag meth cseq = txn_key [''rtx'', meth] via call_id from_tag cseq"

definition ack_hop_key :: "memo_via \<Rightarrow> bytes \<Rightarrow> bytes option \<Rightarrow> nat \<Rightarrow> bytes" where
  "ack_hop_key = txn_key [''ackhop'']"

subsection \<open>Entries and their footprint\<close>

record proxy_addr =
  pa_host :: bytes
  pa_port :: nat

text \<open>An ordered map from names to values; what is modelled never reads its order.\<close>

type_synonym route_params = "(bytes \<times> bytes) list"

record cancel_entry =
  ce_target :: proxy_addr
  ce_branch :: bytes
  ce_stickiness :: "route_params option"
  ce_minted :: "route_params option"
  ce_via_cookie :: "route_params option"

definition saturating_mul64 :: "nat \<Rightarrow> nat \<Rightarrow> nat" where
  "saturating_mul64 a b = min (a * b) u64_max"

definition div_ceil :: "nat \<Rightarrow> nat \<Rightarrow> nat" where
  "div_ceil a b = (if a mod b = 0 then a div b else a div b + 1)"

fun bit_width :: "nat \<Rightarrow> nat" where
  "bit_width n = (if n = 0 then 0 else Suc (bit_width (n div 2)))"

declare bit_width.simps [simp del]

definition allocated :: "nat \<Rightarrow> nat" where
  "allocated n =
     (if n = 0 then 0
      else if n \<le> 128 then saturating_mul64 (div_ceil n 16) 16
      else (let below = bit_width (n - 1) - 1; step = 2 ^ (below - 2)
            in saturating_mul64 (div_ceil n step) step))"

definition BTREE_CAPACITY :: nat where
  "BTREE_CAPACITY = 11"

definition BTREE_MIN_CELLS :: nat where
  "BTREE_MIN_CELLS = 5"

definition PARAMS_LEAF_BYTES :: nat where
  "PARAMS_LEAF_BYTES = 2 * 8 + 2 * BTREE_CAPACITY * 24"

definition params_bytes :: "route_params option \<Rightarrow> nat" where
  "params_bytes params = (case params of
     None \<Rightarrow> 0
   | Some ps \<Rightarrow>
       if ps = [] then 0
       else (let nodes = (if length ps \<le> BTREE_CAPACITY then 1 else div_ceil (length ps) BTREE_MIN_CELLS)
             in foldl saturating_add64 (saturating_mul64 nodes (allocated PARAMS_LEAF_BYTES))
                  (map (\<lambda>(name, value). saturating_add64 (allocated (length name)) (allocated (length value))) ps)))"

text \<open>\<open>slot_size\<close> is the size of a key and its slot side by side in the table.\<close>

definition INDEX_BYTES_PER_ENTRY :: "nat \<Rightarrow> nat" where
  "INDEX_BYTES_PER_ENTRY slot_size = (slot_size + 1) * 16 div 7 + (2 * 8 + 11 * (8 + 16)) div 5"

definition footprint :: "nat \<Rightarrow> bytes \<Rightarrow> cancel_entry \<Rightarrow> nat" where
  "footprint slot_size key e = foldl saturating_add64 0
     [allocated (saturating_add64 16 (length key)), allocated (length (pa_host (ce_target e))),
      allocated (length (ce_branch e)), params_bytes (ce_stickiness e), params_bytes (ce_minted e),
      params_bytes (ce_via_cookie e), INDEX_BYTES_PER_ENTRY slot_size]"

subsection \<open>A pool\<close>

record memo_slot =
  mo_entry :: cancel_entry
  mo_seq :: nat
  mo_expires_at_ms :: nat
  mo_bytes :: nat

record memo_change =
  ch_added :: nat
  ch_removed :: nat
  ch_bytes_added :: nat
  ch_bytes_removed :: nat
  ch_evicted :: nat
  ch_inspected :: nat

definition no_change :: memo_change where
  "no_change = \<lparr>ch_added = 0, ch_removed = 0, ch_bytes_added = 0, ch_bytes_removed = 0, ch_evicted = 0, ch_inspected = 0\<rparr>"

record memo_pool =
  pool_table :: "bytes \<rightharpoonup> memo_slot"
  pool_by_write :: "(nat \<times> bytes) list"
  pool_bytes :: nat
  pool_next_seq :: nat
  pool_max_entries :: nat
  pool_max_bytes :: nat

definition pool_new :: "nat \<Rightarrow> nat \<Rightarrow> memo_pool" where
  "pool_new max_entries max_bytes = \<lparr>pool_table = Map.empty, pool_by_write = [], pool_bytes = 0, pool_next_seq = 0,
     pool_max_entries = max_entries, pool_max_bytes = max_bytes\<rparr>"

definition remove_seq :: "nat \<Rightarrow> memo_pool \<times> memo_change \<Rightarrow> memo_pool \<times> memo_change" where
  "remove_seq seq pc = (case pc of (p, c) \<Rightarrow>
     case map_of (pool_by_write p) seq of
       None \<Rightarrow> (p, c)
     | Some key \<Rightarrow>
         (let p1 = p\<lparr>pool_by_write := bt_remove seq (pool_by_write p)\<rparr>
          in case pool_table p1 key of
               None \<Rightarrow> (p1, c)
             | Some slot \<Rightarrow>
                 (p1\<lparr>pool_table := (pool_table p1)(key := None), pool_bytes := pool_bytes p1 - mo_bytes slot\<rparr>,
                  c\<lparr>ch_removed := ch_removed c + 1, ch_bytes_removed := ch_bytes_removed c + mo_bytes slot\<rparr>)))"

lemma remove_seq_front:
  "pool_by_write p = (seq, key) # rest \<Longrightarrow> length (pool_by_write (fst (remove_seq seq (p, c)))) < length (pool_by_write p)"
  by (auto simp: remove_seq_def Let_def bt_remove_def le_imp_less_Suc split: option.split)

text \<open>The walk from the front of the write order; it ends at the first entry still live.\<close>

function pool_expire :: "nat \<Rightarrow> memo_pool \<times> memo_change \<Rightarrow> memo_pool \<times> memo_change" where
  "pool_expire now (p, c) = (case pool_by_write p of
     [] \<Rightarrow> (p, c)
   | (seq, key) # _ \<Rightarrow>
       (let c1 = c\<lparr>ch_inspected := ch_inspected c + 1\<rparr>
        in if (case pool_table p key of Some slot \<Rightarrow> now < mo_expires_at_ms slot | None \<Rightarrow> False) then (p, c1)
           else pool_expire now (remove_seq seq (p, c1))))"
  by pat_completeness auto

termination
proof (relation "measure (\<lambda>(now, p, c). length (pool_by_write p))")
  fix now :: nat and p :: memo_pool and c c1 :: memo_change and x :: "nat \<times> bytes" and rest seq key
  assume "pool_by_write p = x # rest" "(seq, key) = x"
  then show "((now, remove_seq seq (p, c1)), now, p, c) \<in> measure (\<lambda>(now, p, c). length (pool_by_write p))"
    using remove_seq_front [of p seq key rest c1] by (auto simp: case_prod_beta)
qed simp

declare pool_expire.simps [simp del]

text \<open>Past a bound the oldest writes go.\<close>

function pool_evict :: "memo_pool \<times> memo_change \<Rightarrow> memo_pool \<times> memo_change" where
  "pool_evict (p, c) =
     (if pool_max_entries p < card (dom (pool_table p)) \<or> pool_max_bytes p < pool_bytes p then
        (case pool_by_write p of
           [] \<Rightarrow> (p, c)
         | (front, _) # _ \<Rightarrow> pool_evict (map_prod id (\<lambda>c. c\<lparr>ch_evicted := ch_evicted c + 1\<rparr>) (remove_seq front (p, c))))
      else (p, c))"
  by pat_completeness auto

termination
proof (relation "measure (\<lambda>(p, c). length (pool_by_write p))")
  fix p :: memo_pool and c :: memo_change and x :: "nat \<times> bytes" and rest front y
  assume "pool_by_write p = x # rest" "(front, y) = x"
  then show "(map_prod id (\<lambda>c. c\<lparr>ch_evicted := ch_evicted c + 1\<rparr>) (remove_seq front (p, c)), p, c)
      \<in> measure (\<lambda>(p, c). length (pool_by_write p))"
    using remove_seq_front [of p front y rest c] by (auto simp: case_prod_beta map_prod_def)
qed simp

declare pool_evict.simps [simp del]

definition pool_insert :: "nat \<Rightarrow> bytes \<Rightarrow> cancel_entry \<Rightarrow> nat \<Rightarrow> memo_pool \<times> memo_change \<Rightarrow> memo_pool \<times> memo_change" where
  "pool_insert slot_size key entry expires_at_ms pc =
     (let seq = pool_next_seq (fst pc);
          pc = (fst pc\<lparr>pool_next_seq := (seq + 1) mod 2 ^ 64\<rparr>, snd pc);
          bytes = footprint slot_size key entry;
          (p, c) = (case pool_table (fst pc) key of Some slot \<Rightarrow> remove_seq (mo_seq slot) pc | None \<Rightarrow> pc)
      in pool_evict
           (p\<lparr>pool_by_write := bt_insert seq key (pool_by_write p),
              pool_table := (pool_table p)(key \<mapsto> \<lparr>mo_entry = entry, mo_seq = seq, mo_expires_at_ms = expires_at_ms, mo_bytes = bytes\<rparr>),
              pool_bytes := pool_bytes p + bytes\<rparr>,
            c\<lparr>ch_added := ch_added c + 1, ch_bytes_added := ch_bytes_added c + bytes\<rparr>))"

definition pool_get :: "bytes \<Rightarrow> nat \<Rightarrow> memo_pool \<times> memo_change \<Rightarrow> (memo_pool \<times> memo_change) \<times> cancel_entry option" where
  "pool_get key now pc = (case pool_table (fst pc) key of
     None \<Rightarrow> (pc, None)
   | Some slot \<Rightarrow> if now < mo_expires_at_ms slot then (pc, Some (mo_entry slot)) else (remove_seq (mo_seq slot) pc, None))"

definition pool_remove :: "bytes \<Rightarrow> memo_pool \<times> memo_change \<Rightarrow> memo_pool \<times> memo_change" where
  "pool_remove key pc = (case pool_table (fst pc) key of Some slot \<Rightarrow> remove_seq (mo_seq slot) pc | None \<Rightarrow> pc)"

subsection \<open>Bounds\<close>

datatype memo_lifetime = InviteTransaction | Retransmission

definition RTX_ENTRY_TTL_MS :: nat where
  "RTX_ENTRY_TTL_MS = TIMER_F"

definition invite_entry_ttl_ms :: "nat \<Rightarrow> nat" where
  "invite_entry_ttl_ms bound_sec = saturating_add64 (saturating_mul64 bound_sec 1000) TIMER_H"

definition INVITE_ENTRY_TTL_MS :: nat where
  "INVITE_ENTRY_TTL_MS = INVITE_INITIAL_TIMEOUT + TIMER_H"

definition DEFAULT_MEAN_RING_MS :: nat where
  "DEFAULT_MEAN_RING_MS = 30000"

definition DEFAULT_INVITES_PER_CALL_MILLI :: nat where
  "DEFAULT_INVITES_PER_CALL_MILLI = 2000"

definition DEFAULT_MAX_BYTES :: nat where
  "DEFAULT_MAX_BYTES = 192 * 2 ^ 20"

definition TYPICAL_ENTRY_BYTES :: nat where
  "TYPICAL_ENTRY_BYTES = 2560"

definition DEFAULT_MAX_ENTRIES :: nat where
  "DEFAULT_MAX_ENTRIES = DEFAULT_MAX_BYTES div TYPICAL_ENTRY_BYTES"

definition DEFAULT_STRIPES :: nat where
  "DEFAULT_STRIPES = 16"

record memo_bounds =
  mb_max_entries :: nat
  mb_max_bytes :: nat
  mb_stripes :: nat
  mb_invite_ttl_ms :: nat
  mb_mean_ring_ms :: nat
  mb_invites_per_call_milli :: nat

definition memo_bounds_default :: memo_bounds where
  "memo_bounds_default = \<lparr>mb_max_entries = DEFAULT_MAX_ENTRIES, mb_max_bytes = DEFAULT_MAX_BYTES, mb_stripes = DEFAULT_STRIPES,
     mb_invite_ttl_ms = INVITE_ENTRY_TTL_MS, mb_mean_ring_ms = DEFAULT_MEAN_RING_MS,
     mb_invites_per_call_milli = DEFAULT_INVITES_PER_CALL_MILLI\<rparr>"

definition further_invites_milli :: "memo_bounds \<Rightarrow> nat" where
  "further_invites_milli b = mb_invites_per_call_milli b - DEFAULT_INVITES_PER_CALL_MILLI"

definition invite_ms_per_call :: "memo_bounds \<Rightarrow> nat" where
  "invite_ms_per_call b = saturating_add64 (saturating_add64 (mb_invite_ttl_ms b) (mb_mean_ring_ms b))
     (saturating_mul64 (further_invites_milli b) (mb_invite_ttl_ms b) div 1000)"

text \<open>The sum below is the one of the bounds the code does not saturate; the configured times are small enough for it not to overflow.\<close>

definition entry_ms_per_call :: "memo_bounds \<Rightarrow> nat" where
  "entry_ms_per_call b = invite_ms_per_call b + 2 * TIMER_H + 9 * RTX_ENTRY_TTL_MS +
     saturating_mul64 (further_invites_milli b) (TIMER_H + 2 * RTX_ENTRY_TTL_MS) div 1000"

definition stripe_count :: "memo_bounds \<Rightarrow> nat" where
  "stripe_count b = max (mb_stripes b) 1"

fun ttl_ms :: "memo_bounds \<Rightarrow> memo_lifetime \<Rightarrow> nat" where
  "ttl_ms b InviteTransaction = mb_invite_ttl_ms b"
| "ttl_ms b Retransmission = RTX_ENTRY_TTL_MS"

definition invite_share :: "memo_bounds \<Rightarrow> nat \<Rightarrow> nat" where
  "invite_share b n =
     (let whole = entry_ms_per_call b; part = invite_ms_per_call b
      in saturating_add64 (saturating_mul64 (n div whole) part) (saturating_mul64 (n mod whole) part div whole))"

definition pool_share :: "memo_bounds \<Rightarrow> memo_lifetime \<Rightarrow> nat \<Rightarrow> nat" where
  "pool_share b lifetime whole =
     (let stripe = div_ceil whole (stripe_count b); invite = invite_share b stripe
      in case lifetime of InviteTransaction \<Rightarrow> max invite 1 | Retransmission \<Rightarrow> max (stripe - invite) 1)"

definition per_pool :: "memo_bounds \<Rightarrow> memo_lifetime \<Rightarrow> nat \<times> nat" where
  "per_pool b lifetime = (pool_share b lifetime (mb_max_entries b), pool_share b lifetime (mb_max_bytes b))"

definition calls_per_second :: "memo_bounds \<Rightarrow> nat" where
  "calls_per_second b =
     (let entries = min (mb_max_entries b) (mb_max_bytes b div TYPICAL_ENTRY_BYTES);
          call_seconds = max (entry_ms_per_call b div 1000) 1
      in saturating_mul64 entries 4 div saturating_mul64 call_seconds 5)"

subsection \<open>Stripes\<close>

record memo_stripe =
  ms_invite :: memo_pool
  ms_retransmission :: memo_pool
  ms_invite_ttl_ms :: nat

definition stripe_new :: "memo_bounds \<Rightarrow> memo_stripe" where
  "stripe_new b =
     (let pool = (\<lambda>lifetime. pool_new (fst (per_pool b lifetime)) (snd (per_pool b lifetime)))
      in \<lparr>ms_invite = pool InviteTransaction, ms_retransmission = pool Retransmission,
          ms_invite_ttl_ms = ttl_ms b InviteTransaction\<rparr>)"

text \<open>An operation on one pool of a stripe, with the change it makes.\<close>

fun stripe_pool :: "memo_lifetime \<Rightarrow> memo_stripe \<Rightarrow> memo_pool" where
  "stripe_pool InviteTransaction st = ms_invite st"
| "stripe_pool Retransmission st = ms_retransmission st"

fun with_pool :: "memo_lifetime \<Rightarrow> memo_pool \<Rightarrow> memo_stripe \<Rightarrow> memo_stripe" where
  "with_pool InviteTransaction p st = st\<lparr>ms_invite := p\<rparr>"
| "with_pool Retransmission p st = st\<lparr>ms_retransmission := p\<rparr>"

definition on_pool :: "memo_lifetime \<Rightarrow> (memo_pool \<times> memo_change \<Rightarrow> memo_pool \<times> memo_change)
    \<Rightarrow> memo_stripe \<times> memo_change \<Rightarrow> memo_stripe \<times> memo_change" where
  "on_pool lt f sc = (let (p, c) = f (stripe_pool lt (fst sc), snd sc) in (with_pool lt p (fst sc), c))"

fun other_lifetime :: "memo_lifetime \<Rightarrow> memo_lifetime" where
  "other_lifetime InviteTransaction = Retransmission"
| "other_lifetime Retransmission = InviteTransaction"

definition stripe_expire :: "nat \<Rightarrow> memo_stripe \<times> memo_change \<Rightarrow> memo_stripe \<times> memo_change" where
  "stripe_expire now sc = on_pool Retransmission (pool_expire now) (on_pool InviteTransaction (pool_expire now) sc)"

fun stripe_ttl_ms :: "memo_stripe \<Rightarrow> memo_lifetime \<Rightarrow> nat" where
  "stripe_ttl_ms st InviteTransaction = ms_invite_ttl_ms st"
| "stripe_ttl_ms st Retransmission = RTX_ENTRY_TTL_MS"

definition stripe_insert :: "nat \<Rightarrow> bytes \<Rightarrow> cancel_entry \<Rightarrow> memo_lifetime \<Rightarrow> nat \<Rightarrow> memo_stripe \<times> memo_change
    \<Rightarrow> memo_stripe \<times> memo_change" where
  "stripe_insert slot_size key entry lt now sc =
     (let ttl = stripe_ttl_ms (fst sc) lt
      in on_pool lt (pool_insert slot_size key entry (saturating_add64 now ttl))
           (on_pool lt (pool_expire now) (on_pool (other_lifetime lt) (pool_remove key) sc)))"

definition get_pool :: "memo_lifetime \<Rightarrow> bytes \<Rightarrow> nat \<Rightarrow> memo_stripe \<times> memo_change
    \<Rightarrow> (memo_stripe \<times> memo_change) \<times> cancel_entry option" where
  "get_pool lt key now sc =
     (let ((p, c), found) = pool_get key now (stripe_pool lt (fst sc), snd sc) in ((with_pool lt p (fst sc), c), found))"

definition stripe_get :: "bytes \<Rightarrow> nat \<Rightarrow> memo_stripe \<times> memo_change \<Rightarrow> (memo_stripe \<times> memo_change) \<times> cancel_entry option" where
  "stripe_get key now sc = (case get_pool InviteTransaction key now sc of
     (sc1, Some e) \<Rightarrow> (sc1, Some e)
   | (sc1, None) \<Rightarrow> get_pool Retransmission key now sc1)"

definition stripe_shorten :: "nat \<Rightarrow> bytes \<Rightarrow> nat \<Rightarrow> memo_stripe \<times> memo_change
    \<Rightarrow> (memo_stripe \<times> memo_change) \<times> cancel_entry option" where
  "stripe_shorten slot_size key now sc = (case get_pool InviteTransaction key now sc of
     (sc1, None) \<Rightarrow> get_pool Retransmission key now sc1
   | (sc1, Some e) \<Rightarrow> (stripe_insert slot_size key e Retransmission now sc1, Some e))"

subsection \<open>The memo\<close>

record cancel_lru =
  lru_stripes :: "memo_stripe list"
  lru_len :: nat
  lru_bytes :: nat
  lru_evicted :: nat

definition lru_with_bounds :: "memo_bounds \<Rightarrow> cancel_lru" where
  "lru_with_bounds b = \<lparr>lru_stripes = replicate (stripe_count b) (stripe_new b), lru_len = 0, lru_bytes = 0, lru_evicted = 0\<rparr>"

definition lru_account :: "memo_change \<Rightarrow> cancel_lru \<Rightarrow> cancel_lru" where
  "lru_account c m = m\<lparr>lru_len := lru_len m + ch_added c - ch_removed c,
     lru_bytes := lru_bytes m + ch_bytes_added c - ch_bytes_removed c, lru_evicted := lru_evicted m + ch_evicted c\<rparr>"

text \<open>The stripe of a key, by the remainder of its hash.\<close>

definition lru_slot :: "(bytes \<Rightarrow> nat) \<Rightarrow> bytes \<Rightarrow> cancel_lru \<Rightarrow> nat" where
  "lru_slot hash key m = hash key mod max (length (lru_stripes m)) 1"

definition on_stripe :: "nat \<Rightarrow> (memo_stripe \<times> memo_change \<Rightarrow> (memo_stripe \<times> memo_change) \<times> 'a) \<Rightarrow> cancel_lru
    \<Rightarrow> cancel_lru \<times> memo_change \<times> 'a" where
  "on_stripe i f m =
     (let ((st, c), r) = f (lru_stripes m ! i, no_change)
      in (lru_account c (m\<lparr>lru_stripes := (lru_stripes m)[i := st]\<rparr>), c, r))"

definition lru_remember :: "(bytes \<Rightarrow> nat) \<Rightarrow> nat \<Rightarrow> bytes \<Rightarrow> cancel_entry \<Rightarrow> memo_lifetime \<Rightarrow> nat \<Rightarrow> cancel_lru \<Rightarrow> cancel_lru" where
  "lru_remember hash slot_size key entry lt now m =
     fst (on_stripe (lru_slot hash key m) (\<lambda>sc. (stripe_insert slot_size key entry lt now sc, ())) m)"

definition lru_lookup :: "(bytes \<Rightarrow> nat) \<Rightarrow> bytes \<Rightarrow> nat \<Rightarrow> cancel_lru \<Rightarrow> cancel_lru \<times> cancel_entry option" where
  "lru_lookup hash key now m = (let (m', _, found) = on_stripe (lru_slot hash key m) (stripe_get key now) m in (m', found))"

definition lru_shorten :: "(bytes \<Rightarrow> nat) \<Rightarrow> nat \<Rightarrow> bytes \<Rightarrow> nat \<Rightarrow> cancel_lru \<Rightarrow> cancel_lru \<times> cancel_entry option" where
  "lru_shorten hash slot_size key now m =
     (let (m', _, found) = on_stripe (lru_slot hash key m) (stripe_shorten slot_size key now) m in (m', found))"

definition sweep_stripe :: "nat \<Rightarrow> nat \<Rightarrow> cancel_lru \<times> nat \<times> nat \<Rightarrow> cancel_lru \<times> nat \<times> nat" where
  "sweep_stripe now i acc = (case acc of (m, removed, inspected) \<Rightarrow>
     let (m', c, _) = on_stripe i (\<lambda>sc. (stripe_expire now sc, ())) m
     in (m', saturating_add64 removed (ch_removed c), saturating_add64 inspected (ch_inspected c)))"

text \<open>The memo after the sweep, with the entries removed and those looked at.\<close>

definition sweep_expired :: "nat \<Rightarrow> cancel_lru \<Rightarrow> cancel_lru \<times> nat \<times> nat" where
  "sweep_expired now m = fold (sweep_stripe now) [0..<length (lru_stripes m)] (m, 0, 0)"

end
