(* ===== verification/Branch_Memo_Queue.thy ===== *)
theory Branch_Memo_Queue
  imports Branch_Memo
begin

text \<open>
  The branch memo as queues: each pool refines a list of its entries in write order, from whose front
  expiry and eviction take, and the memo's totals, bounds and answers follow from the lists.
\<close>

subsection \<open>A pool as a queue\<close>

type_synonym memo_queue = "(bytes \<times> memo_slot) list"

definition queue_bytes :: "memo_queue \<Rightarrow> nat" where
  "queue_bytes q = sum_list (map (mo_bytes \<circ> snd) q)"

definition without :: "bytes \<Rightarrow> memo_queue \<Rightarrow> memo_queue" where
  "without k q = filter (\<lambda>x. fst x \<noteq> k) q"

definition drop_expired :: "nat \<Rightarrow> memo_queue \<Rightarrow> memo_queue" where
  "drop_expired now q = dropWhile (\<lambda>x. mo_expires_at_ms (snd x) \<le> now) q"

fun trim :: "nat \<Rightarrow> nat \<Rightarrow> memo_queue \<Rightarrow> memo_queue" where
  "trim n b [] = []"
| "trim n b (x # q) = (if n < length (x # q) \<or> b < queue_bytes (x # q) then trim n b q else x # q)"

definition pool_rep :: "memo_pool \<Rightarrow> memo_queue \<Rightarrow> bool" where
  "pool_rep p q \<longleftrightarrow> pool_by_write p = map (\<lambda>x. (mo_seq (snd x), fst x)) q \<and> pool_table p = map_of q \<and>
     distinct (map fst q) \<and> sorted_wrt (<) (map (mo_seq \<circ> snd) q) \<and> pool_bytes p = queue_bytes q \<and>
     (\<forall>x\<in>set q. mo_seq (snd x) < pool_next_seq p)"

text \<open>What an operation books is what it does to the queue.\<close>

definition booked :: "memo_queue \<times> memo_change \<Rightarrow> memo_queue \<times> memo_change \<Rightarrow> bool" where
  "booked a b \<longleftrightarrow> (case (a, b) of ((q, c), (q', c')) \<Rightarrow>
     length q' + ch_removed c' + ch_added c = length q + ch_added c' + ch_removed c \<and>
     queue_bytes q' + ch_bytes_removed c' + ch_bytes_added c = queue_bytes q + ch_bytes_added c' + ch_bytes_removed c \<and>
     ch_removed c \<le> ch_removed c' \<and> ch_evicted c \<le> ch_evicted c')"

abbreviation same_limits :: "memo_pool \<Rightarrow> memo_pool \<Rightarrow> bool" where
  "same_limits p p' \<equiv> pool_max_entries p' = pool_max_entries p \<and> pool_max_bytes p' = pool_max_bytes p \<and>
     pool_next_seq p' = pool_next_seq p"

lemma queue_bytes_simps [simp]:
  "queue_bytes [] = 0" "queue_bytes (x # q) = mo_bytes (snd x) + queue_bytes q" "queue_bytes (q @ q') = queue_bytes q + queue_bytes q'"
  by (simp_all add: queue_bytes_def)

lemma booked_refl [simp]: "booked a a"
  by (simp add: booked_def split: prod.split)

lemma booked_trans: "booked a b \<Longrightarrow> booked b c \<Longrightarrow> booked a c"
  by (auto simp: booked_def split: prod.splits)

lemma seq_key: "pool_rep p q \<Longrightarrow> (k, s) \<in> set q \<Longrightarrow> map_of (pool_by_write p) (mo_seq s) = Some k"
proof -
  assume rep: "pool_rep p q" and "(k, s) \<in> set q"
  then have "(mo_seq s, k) \<in> set (pool_by_write p)" by (force simp: pool_rep_def)
  moreover have "distinct (map fst (pool_by_write p))" using rep by (simp add: pool_rep_def comp_def strict_sorted_iff)
  ultimately show ?thesis by simp
qed

lemma without_absent: "k \<notin> fst ` set q \<Longrightarrow> without k q = q"
  by (auto simp: without_def filter_id_conv)

lemma without_split:
  assumes "distinct (map fst q)" "(k, s) \<in> set q"
  shows "\<exists>us vs. q = us @ (k, s) # vs \<and> without k q = us @ vs"
proof -
  obtain us vs where q: "q = us @ (k, s) # vs" using assms(2) by (metis split_list)
  with assms(1) have "k \<notin> fst ` set us" "k \<notin> fst ` set vs" by simp_all
  then have "without k us = us" "without k vs = vs" by (simp_all add: without_absent)
  then have "without k q = us @ vs" by (simp add: q without_def)
  with q show ?thesis by blast
qed

lemma map_of_without: "map_of (without k q) = (map_of q)(k := None)"
  by (induction q) (auto simp: without_def fun_eq_iff)

lemma bt_remove_seq:
  fixes us vs :: memo_queue
  assumes "distinct (map (mo_seq \<circ> snd) (us @ (k, s) # vs))"
  shows "bt_remove (mo_seq s) (map (\<lambda>x. (mo_seq (snd x), fst x)) (us @ (k, s) # vs)) = map (\<lambda>x. (mo_seq (snd x), fst x)) (us @ vs)"
proof -
  have keep: "bt_remove n (map (\<lambda>x. (mo_seq (snd x), fst x)) q) = map (\<lambda>x. (mo_seq (snd x), fst x)) q"
    if "n \<notin> (mo_seq \<circ> snd) ` set q" for n and q :: memo_queue
    using that by (induction q) (auto simp: bt_remove_def)
  from assms have "mo_seq s \<notin> (mo_seq \<circ> snd) ` set us" "mo_seq s \<notin> (mo_seq \<circ> snd) ` set vs" by simp_all
  from this [THEN keep] show ?thesis by (simp add: bt_remove_def)
qed

lemma remove_seq_rep:
  assumes "pool_rep p q" "(k, s) \<in> set q" "remove_seq (mo_seq s) (p, c) = (p', c')"
  shows "pool_rep p' (without k q) \<and> same_limits p p' \<and> booked (q, c) (without k q, c') \<and>
    ch_evicted c' = ch_evicted c \<and> ch_inspected c' = ch_inspected c \<and> ch_removed c' = ch_removed c + 1 \<and> ch_added c' = ch_added c"
proof -
  from assms(1) have dist: "distinct (map fst q)" and sorted: "sorted_wrt (<) (map (mo_seq \<circ> snd) q)" by (simp_all add: pool_rep_def)
  from without_split [OF dist assms(2)] obtain us vs where q: "q = us @ (k, s) # vs" and w: "without k q = us @ vs" by blast
  have tab: "pool_table p k = Some s" using assms(1,2) dist by (simp add: pool_rep_def)
  have "bt_remove (mo_seq s) (pool_by_write p) = map (\<lambda>x. (mo_seq (snd x), fst x)) (us @ vs)"
    using bt_remove_seq [of us k s vs] sorted assms(1) q by (simp add: pool_rep_def strict_sorted_iff)
  with assms(3) seq_key [OF assms(1,2)] tab
  have p': "p' = p\<lparr>pool_by_write := map (\<lambda>x. (mo_seq (snd x), fst x)) (us @ vs), pool_table := (pool_table p)(k := None),
      pool_bytes := pool_bytes p - mo_bytes s\<rparr>"
    and c': "c' = c\<lparr>ch_removed := ch_removed c + 1, ch_bytes_removed := ch_bytes_removed c + mo_bytes s\<rparr>"
    by (simp_all add: remove_seq_def)
  have "sorted_wrt (<) (map (mo_seq \<circ> snd) (us @ vs))" using sorted q by (simp add: sorted_wrt_append)
  moreover have "distinct (map fst (us @ vs))" using dist q by simp
  moreover have "map_of (us @ vs) = (pool_table p)(k := None)" using map_of_without [of k q] w assms(1) by (simp add: pool_rep_def)
  ultimately have "pool_rep p' (us @ vs)" using assms(1) q by (auto simp: pool_rep_def p')
  then show ?thesis unfolding w using q by (simp add: p' c' booked_def)
qed

lemma get_rep: "pool_rep p q \<Longrightarrow> pool_table p k = Some s \<longleftrightarrow> (k, s) \<in> set q"
  by (simp add: pool_rep_def)

text \<open>Removing a key, by the pool's own index.\<close>

lemma pool_remove_rep:
  assumes "pool_rep p q" "pool_remove k (p, c) = (p', c')"
  shows "pool_rep p' (without k q) \<and> same_limits p p' \<and> booked (q, c) (without k q, c') \<and> ch_evicted c' = ch_evicted c"
proof (cases "pool_table p k")
  case None
  then have "without k q = q" using assms(1) by (intro without_absent) (auto simp: pool_rep_def map_of_eq_None_iff)
  with None assms show ?thesis by (simp add: pool_remove_def)
next
  case (Some s)
  with assms(2) have "remove_seq (mo_seq s) (p, c) = (p', c')" by (simp add: pool_remove_def)
  from remove_seq_rep [OF assms(1) _ this] Some get_rep [OF assms(1), of k s] show ?thesis by blast
qed

text \<open>The walks from the front: expiry and eviction.\<close>

lemma rep_front:
  assumes "pool_rep p ((k, s) # q)"
  shows "pool_by_write p = (mo_seq s, k) # map (\<lambda>x. (mo_seq (snd x), fst x)) q" "pool_table p k = Some s"
    "without k ((k, s) # q) = q"
  using assms by (auto simp: pool_rep_def without_def filter_id_conv)

lemma pool_expire_rep:
  assumes "pool_rep p q" "pool_expire now (p, c) = (p', c')"
  shows "pool_rep p' (drop_expired now q) \<and> same_limits p p' \<and> booked (q, c) (drop_expired now q, c') \<and>
    ch_evicted c' = ch_evicted c"
  using assms
proof (induction q arbitrary: p c)
  case Nil
  then show ?case by (simp add: pool_expire.simps pool_rep_def drop_expired_def)
next
  case (Cons x q)
  obtain k s where x: "x = (k, s)" by fastforce
  note f = rep_front [OF Cons(2) [unfolded x]]
  let ?c = "c\<lparr>ch_inspected := ch_inspected c + 1\<rparr>"
  show ?case
  proof (cases "now < mo_expires_at_ms s")
    case True
    then have "p' = p" "c' = ?c" using Cons(3) f by (simp_all add: pool_expire.simps)
    then show ?thesis using True Cons(2) x by (simp add: drop_expired_def booked_def)
  next
    case False
    obtain p1 c1 where r: "remove_seq (mo_seq s) (p, ?c) = (p1, c1)" by fastforce
    with False Cons(3) f have rest: "pool_expire now (p1, c1) = (p', c')" by (simp add: pool_expire.simps [of now p])
    have one: "pool_rep p1 q \<and> same_limits p p1 \<and> booked (x # q, ?c) (q, c1) \<and> ch_evicted c1 = ch_evicted ?c"
      using remove_seq_rep [OF Cons(2) _ r, of k] f(3) x by simp
    have "booked (x # q, c) (q, c1)" using one by (simp add: booked_def)
    with Cons(1) [OF _ rest] one booked_trans False x show ?thesis by (auto simp: drop_expired_def)
  qed
qed

lemma pool_evict_rep:
  assumes "pool_rep p q" "pool_evict (p, c) = (p', c')"
  shows "pool_rep p' (trim (pool_max_entries p) (pool_max_bytes p) q) \<and> same_limits p p' \<and>
    booked (q, c) (trim (pool_max_entries p) (pool_max_bytes p) q, c') \<and>
    (ch_evicted c' = ch_evicted c \<longrightarrow> trim (pool_max_entries p) (pool_max_bytes p) q = q)"
  using assms
proof (induction q arbitrary: p c)
  case Nil
  then show ?case by (simp add: pool_evict.simps pool_rep_def)
next
  case (Cons x q)
  obtain k s where x: "x = (k, s)" by fastforce
  note f = rep_front [OF Cons(2) [unfolded x]]
  have size: "card (dom (pool_table p)) = length (x # q)" "pool_bytes p = queue_bytes (x # q)"
    using Cons(2) distinct_card [of "map fst (x # q)"] by (simp_all add: pool_rep_def dom_map_of_conv_image_fst)
  show ?case
  proof (cases "pool_max_entries p < length (x # q) \<or> pool_max_bytes p < queue_bytes (x # q)")
    case False
    then have "p' = p" "c' = c" using Cons(3) size by (simp_all add: pool_evict.simps [of p])
    then show ?thesis using False Cons(2) by auto
  next
    case True
    obtain p1 c1 where r: "remove_seq (mo_seq s) (p, c) = (p1, c1)" by fastforce
    let ?c = "c1\<lparr>ch_evicted := ch_evicted c1 + 1\<rparr>"
    have rest: "pool_evict (p1, ?c) = (p', c')" using True Cons(3) f(1) r size by (simp add: pool_evict.simps [of p])
    have one: "pool_rep p1 q \<and> same_limits p p1 \<and> booked (x # q, c) (q, c1) \<and> ch_evicted c1 = ch_evicted c"
      using remove_seq_rep [OF Cons(2) _ r, of k] f(3) x by simp
    have "booked (x # q, c) (q, ?c)" using one by (simp add: booked_def)
    moreover note all = Cons(1) [OF _ rest]
    moreover have "ch_evicted c' \<noteq> ch_evicted c" using all one by (auto simp: booked_def)
    ultimately show ?thesis using one True booked_trans by auto
  qed
qed

text \<open>An insert puts the new write at the back and trims from the front.\<close>

lemma bt_insert_last: "\<forall>x\<in>set xs. fst x < n \<Longrightarrow> bt_insert n v xs = xs @ [(n, v)]"
  by (induction xs) auto

lemma queue_insert:
  assumes "pool_rep p q" "k \<notin> fst ` set q" "\<forall>x\<in>set q. mo_seq (snd x) < mo_seq s" "mo_seq s < pool_next_seq p"
  shows "pool_rep (p\<lparr>pool_by_write := bt_insert (mo_seq s) k (pool_by_write p), pool_table := (pool_table p)(k \<mapsto> s),
    pool_bytes := pool_bytes p + mo_bytes s\<rparr>) (q @ [(k, s)])"
proof -
  have "bt_insert (mo_seq s) k (pool_by_write p) = map (\<lambda>x. (mo_seq (snd x), fst x)) (q @ [(k, s)])"
    using assms(1,3) bt_insert_last [of "pool_by_write p" "mo_seq s" k] by (simp add: pool_rep_def)
  moreover have "map_of q k = None" using assms(2) by (simp add: map_of_eq_None_iff)
  then have "(pool_table p)(k \<mapsto> s) = map_of (q @ [(k, s)])"
    using assms(1) by (auto simp: pool_rep_def fun_eq_iff map_add_def simp del: map_of_eq_None_iff split: option.split)
  moreover have "sorted_wrt (<) (map (mo_seq \<circ> snd) (q @ [(k, s)]))"
    using assms(1,3) by (auto simp: pool_rep_def sorted_wrt_append)
  ultimately show ?thesis using assms(1,2,4) by (auto simp: pool_rep_def)
qed

lemma pool_insert_rep:
  assumes "pool_rep p q" "pool_insert n k e x (p, c) = (p', c')" "pool_next_seq p < 2 ^ 64 - 1"
    and "s = \<lparr>mo_entry = e, mo_seq = pool_next_seq p, mo_expires_at_ms = x, mo_bytes = footprint n k e\<rparr>"
    and "q' = trim (pool_max_entries p) (pool_max_bytes p) (without k q @ [(k, s)])"
  shows "pool_rep p' q' \<and> pool_max_entries p' = pool_max_entries p \<and> pool_max_bytes p' = pool_max_bytes p \<and>
    pool_next_seq p' = pool_next_seq p + 1 \<and> booked (q, c) (q', c') \<and>
    (ch_evicted c' = ch_evicted c \<longrightarrow> q' = without k q @ [(k, s)])"
proof -
  let ?p = "p\<lparr>pool_next_seq := pool_next_seq p + 1\<rparr>"
  have rep: "pool_rep ?p q" using assms(1) by (auto simp: pool_rep_def less_Suc_eq)
  obtain p1 c1 where r: "pool_remove k (?p, c) = (p1, c1)" by fastforce
  note rm = pool_remove_rep [OF rep r]
  let ?p2 = "p1\<lparr>pool_by_write := bt_insert (pool_next_seq p) k (pool_by_write p1),
    pool_table := (pool_table p1)(k \<mapsto> s), pool_bytes := pool_bytes p1 + footprint n k e\<rparr>"
  let ?c2 = "c1\<lparr>ch_added := ch_added c1 + 1, ch_bytes_added := ch_bytes_added c1 + footprint n k e\<rparr>"
  have ev: "pool_evict (?p2, ?c2) = (p', c')"
    using assms(2,3,4) r by (auto simp: pool_insert_def pool_remove_def Let_def split: option.splits prod.splits)
  have "k \<notin> fst ` set (without k q)" by (auto simp: without_def)
  moreover have "\<forall>x\<in>set (without k q). mo_seq (snd x) < mo_seq s" using assms(1,4) by (auto simp: without_def pool_rep_def)
  ultimately have "pool_rep ?p2 (without k q @ [(k, s)])"
    using queue_insert [of p1 "without k q" k s] rm assms(4) by simp
  from pool_evict_rep [OF this ev] rm assms(5)
  have e: "pool_rep p' q' \<and> same_limits ?p2 p' \<and> booked (without k q @ [(k, s)], ?c2) (q', c') \<and>
      (ch_evicted c' = ch_evicted ?c2 \<longrightarrow> q' = without k q @ [(k, s)])" by simp
  have "booked (q, c) (without k q @ [(k, s)], ?c2)" using rm assms(4) by (simp add: booked_def)
  with e booked_trans rm show ?thesis by auto
qed

subsection \<open>A stripe as two queues\<close>

type_synonym memo_queues = "memo_lifetime \<Rightarrow> memo_queue"

definition total_len :: "memo_queues \<Rightarrow> nat" where
  "total_len Q = length (Q InviteTransaction) + length (Q Retransmission)"

definition total_bytes :: "memo_queues \<Rightarrow> nat" where
  "total_bytes Q = queue_bytes (Q InviteTransaction) + queue_bytes (Q Retransmission)"

definition stripe_rep :: "memo_bounds \<Rightarrow> nat \<Rightarrow> memo_stripe \<Rightarrow> memo_queues \<Rightarrow> bool" where
  "stripe_rep B n st Q \<longleftrightarrow> ms_invite_ttl_ms st = mb_invite_ttl_ms B \<and>
     (\<forall>lt. pool_rep (stripe_pool lt st) (Q lt) \<and> pool_max_entries (stripe_pool lt st) = fst (per_pool B lt) \<and>
        pool_max_bytes (stripe_pool lt st) = snd (per_pool B lt) \<and> pool_next_seq (stripe_pool lt st) \<le> n)"

definition settled :: "memo_queues \<times> memo_change \<Rightarrow> memo_queues \<times> memo_change \<Rightarrow> bool" where
  "settled a b \<longleftrightarrow> (case (a, b) of ((Q, c), (Q', c')) \<Rightarrow>
     total_len Q' + ch_removed c' + ch_added c = total_len Q + ch_added c' + ch_removed c \<and>
     total_bytes Q' + ch_bytes_removed c' + ch_bytes_added c = total_bytes Q + ch_bytes_added c' + ch_bytes_removed c \<and>
     ch_evicted c \<le> ch_evicted c')"

lemma settled_trans: "settled a b \<Longrightarrow> settled b c \<Longrightarrow> settled a c"
  by (auto simp: settled_def split: prod.splits)

lemma settled_refl [simp]: "settled a a"
  by (simp add: settled_def split: prod.split)

lemma booked_settled: "booked (Q lt, c) (q', c') \<Longrightarrow> settled (Q, c) (Q(lt := q'), c')"
  by (cases lt) (auto simp: booked_def settled_def total_len_def total_bytes_def)

lemma stripe_pool_with [simp]:
  "stripe_pool lt (with_pool lt' p st) = (if lt = lt' then p else stripe_pool lt st)"
  "ms_invite_ttl_ms (with_pool lt' p st) = ms_invite_ttl_ms st"
  by (cases lt; cases lt'; simp)+

lemma stripe_ttl [simp]: "stripe_rep B n st Q \<Longrightarrow> stripe_ttl_ms st lt = ttl_ms B lt"
  by (cases lt) (simp_all add: stripe_rep_def)

lemma on_pool_rep:
  assumes "stripe_rep B n st Q" "f (stripe_pool lt st, c) = (p', c')" "pool_rep p' q'" "booked (Q lt, c) (q', c')"
    and "pool_max_entries p' = pool_max_entries (stripe_pool lt st)" "pool_max_bytes p' = pool_max_bytes (stripe_pool lt st)"
    and "pool_next_seq p' \<le> n'" "n \<le> n'"
  shows "\<exists>st'. on_pool lt f (st, c) = (st', c') \<and> stripe_rep B n' st' (Q(lt := q')) \<and> settled (Q, c) (Q(lt := q'), c')"
  using assms booked_settled by (fastforce simp: on_pool_def stripe_rep_def dest: le_trans)

lemma pool_of: "stripe_rep B n st Q \<Longrightarrow> pool_rep (stripe_pool lt st) (Q lt)"
  by (simp add: stripe_rep_def)

lemma expire_pool_rep:
  assumes "stripe_rep B n st Q"
  shows "\<exists>st' c'. on_pool lt (pool_expire now) (st, c) = (st', c') \<and> stripe_rep B n st' (Q(lt := drop_expired now (Q lt))) \<and>
    settled (Q, c) (Q(lt := drop_expired now (Q lt)), c') \<and> ch_evicted c' = ch_evicted c"
proof -
  obtain p' c' where e: "pool_expire now (stripe_pool lt st, c) = (p', c')" by fastforce
  have "pool_next_seq (stripe_pool lt st) \<le> n" using assms by (simp add: stripe_rep_def)
  with pool_expire_rep [OF pool_of [OF assms] e] on_pool_rep [OF assms, of "pool_expire now", OF e] show ?thesis by fastforce
qed

lemma remove_pool_rep:
  assumes "stripe_rep B n st Q"
  shows "\<exists>st' c'. on_pool lt (pool_remove k) (st, c) = (st', c') \<and> stripe_rep B n st' (Q(lt := without k (Q lt))) \<and>
    settled (Q, c) (Q(lt := without k (Q lt)), c') \<and> ch_evicted c' = ch_evicted c"
proof -
  obtain p' c' where e: "pool_remove k (stripe_pool lt st, c) = (p', c')" by fastforce
  have "pool_next_seq (stripe_pool lt st) \<le> n" using assms by (simp add: stripe_rep_def)
  with pool_remove_rep [OF pool_of [OF assms] e] on_pool_rep [OF assms, of "pool_remove k", OF e] show ?thesis by fastforce
qed

text \<open>A write: the key leaves the other queue, the expired go, the new slot joins at the back, the oldest give way.\<close>

definition written_at :: "memo_bounds \<Rightarrow> bytes \<Rightarrow> memo_slot \<Rightarrow> memo_lifetime \<Rightarrow> nat \<Rightarrow> memo_queues \<Rightarrow> memo_queues" where
  "written_at B k s lt now Q =
     (Q(other_lifetime lt := without k (Q (other_lifetime lt))))
       (lt := trim (fst (per_pool B lt)) (snd (per_pool B lt)) (without k (drop_expired now (Q lt)) @ [(k, s)]))"

definition written_whole :: "bytes \<Rightarrow> memo_slot \<Rightarrow> memo_lifetime \<Rightarrow> nat \<Rightarrow> memo_queues \<Rightarrow> memo_queues" where
  "written_whole k s lt now Q =
     (Q(other_lifetime lt := without k (Q (other_lifetime lt))))(lt := without k (drop_expired now (Q lt)) @ [(k, s)])"

lemma other_lifetime_neq [simp]: "other_lifetime lt \<noteq> lt" "lt \<noteq> other_lifetime lt"
  by (cases lt; simp)+

lemma stripe_insert_rep:
  assumes "stripe_rep B n st Q" "n < 2 ^ 64 - 1"
  shows "\<exists>st' c' s. stripe_insert ss k e lt now (st, c) = (st', c') \<and> mo_entry s = e \<and>
    mo_expires_at_ms s = saturating_add64 now (ttl_ms B lt) \<and> stripe_rep B (n + 1) st' (written_at B k s lt now Q) \<and>
    settled (Q, c) (written_at B k s lt now Q, c') \<and>
    (ch_evicted c' = ch_evicted c \<longrightarrow> written_at B k s lt now Q = written_whole k s lt now Q)"
proof -
  obtain st1 c1 where a: "on_pool (other_lifetime lt) (pool_remove k) (st, c) = (st1, c1)"
    "stripe_rep B n st1 (Q(other_lifetime lt := without k (Q (other_lifetime lt))))"
    "settled (Q, c) (Q(other_lifetime lt := without k (Q (other_lifetime lt))), c1)" "ch_evicted c1 = ch_evicted c"
    using remove_pool_rep [OF assms(1)] by blast
  define Q1 where "Q1 = Q(other_lifetime lt := without k (Q (other_lifetime lt)))"
  obtain st2 c2 where b: "on_pool lt (pool_expire now) (st1, c1) = (st2, c2)" "stripe_rep B n st2 (Q1(lt := drop_expired now (Q1 lt)))"
    "settled (Q1, c1) (Q1(lt := drop_expired now (Q1 lt)), c2)" "ch_evicted c2 = ch_evicted c1"
    using expire_pool_rep [OF a(2)] unfolding Q1_def by blast
  define Q2 where "Q2 = Q1(lt := drop_expired now (Q1 lt))"
  let ?x = "saturating_add64 now (ttl_ms B lt)"
  obtain p3 c3 where ins: "pool_insert ss k e ?x (stripe_pool lt st2, c2) = (p3, c3)" by fastforce
  define s where "s = \<lparr>mo_entry = e, mo_seq = pool_next_seq (stripe_pool lt st2), mo_expires_at_ms = ?x, mo_bytes = footprint ss k e\<rparr>"
  have lim: "pool_next_seq (stripe_pool lt st2) \<le> n" "pool_max_entries (stripe_pool lt st2) = fst (per_pool B lt)"
    "pool_max_bytes (stripe_pool lt st2) = snd (per_pool B lt)" using b(2) by (simp_all add: stripe_rep_def)
  note d = pool_insert_rep [OF pool_of [OF b(2), folded Q2_def] ins _ s_def refl] 
  have "pool_next_seq (stripe_pool lt st2) < 2 ^ 64 - 1" using lim(1) assms(2) by simp
  note d = d [OF this]
  obtain st3 where e: "on_pool lt (pool_insert ss k e ?x) (st2, c2) = (st3, c3)"
    "stripe_rep B (n + 1) st3 (Q2(lt := trim (fst (per_pool B lt)) (snd (per_pool B lt)) (without k (Q2 lt) @ [(k, s)])))"
    "settled (Q2, c2) (Q2(lt := trim (fst (per_pool B lt)) (snd (per_pool B lt)) (without k (Q2 lt) @ [(k, s)])), c3)"
    using on_pool_rep [OF b(2) [folded Q2_def], of "pool_insert ss k e ?x", OF ins, of _ "n + 1"] d lim by auto
  have Q3: "Q2(lt := trim (fst (per_pool B lt)) (snd (per_pool B lt)) (without k (Q2 lt) @ [(k, s)])) = written_at B k s lt now Q"
    by (simp add: Q2_def Q1_def written_at_def fun_upd_twist)
  have "stripe_insert ss k e lt now (st, c) = (st3, c3)" using a(1) b(1) e(1) assms(1) by (simp add: stripe_insert_def Let_def)
  moreover have "ch_evicted c3 = ch_evicted c \<longrightarrow> written_at B k s lt now Q = written_whole k s lt now Q"
    using d lim a(4) b(4) by (auto simp: written_at_def written_whole_def Q2_def Q1_def)
  moreover have "settled (Q, c) (written_at B k s lt now Q, c3)"
    using settled_trans [OF settled_trans [OF a(3) [folded Q1_def] b(3) [folded Q2_def]] e(3)] by (simp add: Q3)
  ultimately show ?thesis using e(2) Q3 by (intro exI [of _ st3] exI [of _ c3] exI [of _ s]) (simp add: s_def)
qed

text \<open>A read: the live entry, an expired one forgotten.\<close>

definition read_at :: "memo_lifetime \<Rightarrow> bytes \<Rightarrow> nat \<Rightarrow> memo_queues \<Rightarrow> cancel_entry option" where
  "read_at lt k now Q = (case map_of (Q lt) k of
     Some s \<Rightarrow> if now < mo_expires_at_ms s then Some (mo_entry s) else None | None \<Rightarrow> None)"

definition after_read :: "memo_lifetime \<Rightarrow> bytes \<Rightarrow> nat \<Rightarrow> memo_queues \<Rightarrow> memo_queues" where
  "after_read lt k now Q = (case map_of (Q lt) k of
     Some s \<Rightarrow> if now < mo_expires_at_ms s then Q else Q(lt := without k (Q lt)) | None \<Rightarrow> Q)"

lemma with_pool_id [simp]: "with_pool lt (stripe_pool lt st) st = st"
  by (cases lt) simp_all

lemma get_pool_rep:
  assumes "stripe_rep B n st Q"
  shows "\<exists>st' c'. get_pool lt k now (st, c) = ((st', c'), read_at lt k now Q) \<and> stripe_rep B n st' (after_read lt k now Q) \<and>
    settled (Q, c) (after_read lt k now Q, c') \<and> ch_evicted c' = ch_evicted c"
proof -
  have tab: "pool_table (stripe_pool lt st) = map_of (Q lt)" using pool_of [OF assms] by (simp add: pool_rep_def)
  show ?thesis
  proof (cases "map_of (Q lt) k")
    case None
    with assms tab show ?thesis by (simp add: get_pool_def pool_get_def read_at_def after_read_def)
  next
    case (Some s)
    show ?thesis
    proof (cases "now < mo_expires_at_ms s")
      case True
      with Some assms tab show ?thesis by (simp add: get_pool_def pool_get_def read_at_def after_read_def)
    next
      case False
      obtain st' c' where r: "on_pool lt (pool_remove k) (st, c) = (st', c')" "stripe_rep B n st' (Q(lt := without k (Q lt)))"
        "settled (Q, c) (Q(lt := without k (Q lt)), c')" "ch_evicted c' = ch_evicted c"
        using remove_pool_rep [OF assms] by blast
      have "get_pool lt k now (st, c) = ((st', c'), None)" using r(1) Some False tab
        by (auto simp: get_pool_def pool_get_def on_pool_def pool_remove_def split: prod.splits)
      with r Some False show ?thesis by (simp add: read_at_def after_read_def)
    qed
  qed
qed

definition read_any :: "bytes \<Rightarrow> nat \<Rightarrow> memo_queues \<Rightarrow> cancel_entry option" where
  "read_any k now Q = (case read_at InviteTransaction k now Q of
     Some e \<Rightarrow> Some e | None \<Rightarrow> read_at Retransmission k now (after_read InviteTransaction k now Q))"

definition after_get :: "bytes \<Rightarrow> nat \<Rightarrow> memo_queues \<Rightarrow> memo_queues" where
  "after_get k now Q = (case read_at InviteTransaction k now Q of
     Some e \<Rightarrow> after_read InviteTransaction k now Q
   | None \<Rightarrow> after_read Retransmission k now (after_read InviteTransaction k now Q))"

lemma stripe_get_rep:
  assumes "stripe_rep B n st Q"
  shows "\<exists>st' c'. stripe_get k now (st, c) = ((st', c'), read_any k now Q) \<and> stripe_rep B n st' (after_get k now Q) \<and>
    settled (Q, c) (after_get k now Q, c') \<and> ch_evicted c' = ch_evicted c"
proof -
  obtain st1 c1 where a: "get_pool InviteTransaction k now (st, c) = ((st1, c1), read_at InviteTransaction k now Q)"
    "stripe_rep B n st1 (after_read InviteTransaction k now Q)" "settled (Q, c) (after_read InviteTransaction k now Q, c1)"
    "ch_evicted c1 = ch_evicted c" using get_pool_rep [OF assms(1)] by blast
  obtain st2 c2 where b: "get_pool Retransmission k now (st1, c1) =
      ((st2, c2), read_at Retransmission k now (after_read InviteTransaction k now Q))"
    "stripe_rep B n st2 (after_read Retransmission k now (after_read InviteTransaction k now Q))"
    "settled (after_read InviteTransaction k now Q, c1) (after_read Retransmission k now (after_read InviteTransaction k now Q), c2)"
    "ch_evicted c2 = ch_evicted c1" using get_pool_rep [OF a(2)] by blast
  show ?thesis
  proof (cases "read_at InviteTransaction k now Q")
    case None
    with a b settled_trans [OF a(3) b(3)] show ?thesis by (simp add: stripe_get_def read_any_def after_get_def)
  next
    case (Some e)
    with a show ?thesis by (simp add: stripe_get_def read_any_def after_get_def)
  qed
qed

lemma stripe_shorten_rep:
  assumes "stripe_rep B n st Q" "n < 2 ^ 64 - 1"
  shows "\<exists>st' c' Q'. stripe_shorten ss k now (st, c) = ((st', c'), read_any k now Q) \<and>
    stripe_rep B (n + 1) st' Q' \<and> settled (Q, c) (Q', c') \<and>
    (case read_at InviteTransaction k now Q of
       None \<Rightarrow> Q' = after_read Retransmission k now (after_read InviteTransaction k now Q)
     | Some e \<Rightarrow> (\<exists>s. mo_entry s = e \<and> mo_expires_at_ms s = saturating_add64 now RTX_ENTRY_TTL_MS \<and>
         Q' = written_at B k s Retransmission now (after_read InviteTransaction k now Q) \<and>
         (ch_evicted c' = ch_evicted c \<longrightarrow> Q' = written_whole k s Retransmission now (after_read InviteTransaction k now Q))))"
proof -
  obtain st1 c1 where a: "get_pool InviteTransaction k now (st, c) = ((st1, c1), read_at InviteTransaction k now Q)"
    "stripe_rep B n st1 (after_read InviteTransaction k now Q)" "settled (Q, c) (after_read InviteTransaction k now Q, c1)"
    "ch_evicted c1 = ch_evicted c" using get_pool_rep [OF assms(1)] by blast
  have up: "stripe_rep B (n + 1) st' Q'" if "stripe_rep B n st' Q'" for st' Q' using that by (auto simp: stripe_rep_def intro: le_SucI)
  show ?thesis
  proof (cases "read_at InviteTransaction k now Q")
    case None
    obtain st2 c2 where b: "get_pool Retransmission k now (st1, c1) =
        ((st2, c2), read_at Retransmission k now (after_read InviteTransaction k now Q))"
      "stripe_rep B n st2 (after_read Retransmission k now (after_read InviteTransaction k now Q))"
      "settled (after_read InviteTransaction k now Q, c1) (after_read Retransmission k now (after_read InviteTransaction k now Q), c2)"
      using get_pool_rep [OF a(2)] by blast
    from None a(1) b(1) up [OF b(2)] settled_trans [OF a(3) b(3)] show ?thesis by (simp add: stripe_shorten_def read_any_def)
  next
    case (Some e)
    from stripe_insert_rep [OF a(2) assms(2), of ss k e Retransmission now c1] obtain st2 c2 s where
      b: "stripe_insert ss k e Retransmission now (st1, c1) = (st2, c2)" "mo_entry s = e"
        "mo_expires_at_ms s = saturating_add64 now RTX_ENTRY_TTL_MS"
        "stripe_rep B (n + 1) st2 (written_at B k s Retransmission now (after_read InviteTransaction k now Q))"
        "settled (after_read InviteTransaction k now Q, c1) (written_at B k s Retransmission now (after_read InviteTransaction k now Q), c2)"
        "ch_evicted c2 = ch_evicted c1 \<longrightarrow> written_at B k s Retransmission now (after_read InviteTransaction k now Q) =
          written_whole k s Retransmission now (after_read InviteTransaction k now Q)" by auto
    have "settled (Q, c) (written_at B k s Retransmission now (after_read InviteTransaction k now Q), c2)"
      using settled_trans [OF a(3) b(5)] .
    with a(1,4) b Some show ?thesis by (auto simp: stripe_shorten_def read_any_def)
  qed
qed

subsection \<open>What a stripe knows\<close>

text \<open>
  What was last written under each key, until when and for which lifetime. A stripe holds nothing
  else, holds it all until it expires unless it evicted, and holds it in expiry order.
\<close>

type_synonym memo_known = "bytes \<rightharpoonup> cancel_entry \<times> nat \<times> memo_lifetime"

definition holds_only :: "memo_bounds \<Rightarrow> (bytes \<Rightarrow> nat) \<Rightarrow> nat \<Rightarrow> memo_known \<Rightarrow> memo_queues \<Rightarrow> bool" where
  "holds_only B slot i T Q \<longleftrightarrow>
     (\<forall>lt k s. (k, s) \<in> set (Q lt) \<longrightarrow> slot k = i \<and> T k = Some (mo_entry s, mo_expires_at_ms s, lt)) \<and>
     (\<forall>lt. length (Q lt) \<le> fst (per_pool B lt) \<and> queue_bytes (Q lt) \<le> snd (per_pool B lt))"

definition holds_all :: "(bytes \<Rightarrow> nat) \<Rightarrow> nat \<Rightarrow> memo_known \<Rightarrow> nat \<Rightarrow> memo_queues \<Rightarrow> bool" where
  "holds_all slot i T t Q \<longleftrightarrow> (\<forall>k e x lt. slot k = i \<and> T k = Some (e, x, lt) \<and> t < x \<longrightarrow>
     (\<exists>s. (k, s) \<in> set (Q lt) \<and> mo_entry s = e \<and> mo_expires_at_ms s = x))"

definition in_expiry_order :: "memo_bounds \<Rightarrow> nat \<Rightarrow> memo_queues \<Rightarrow> bool" where
  "in_expiry_order B t Q \<longleftrightarrow> (\<forall>lt. sorted (map (mo_expires_at_ms \<circ> snd) (Q lt)) \<and>
     (\<forall>x\<in>set (Q lt). mo_expires_at_ms (snd x) \<le> saturating_add64 t (ttl_ms B lt)))"

text \<open>A queue that lost expired entries only.\<close>

definition shed_only :: "nat \<Rightarrow> memo_queue \<Rightarrow> memo_queue \<Rightarrow> bool" where
  "shed_only now q q' \<longleftrightarrow> (\<exists>P. q' = filter P q \<and> (\<forall>x\<in>set q. now < mo_expires_at_ms (snd x) \<longrightarrow> P x)) \<or> q' = drop_expired now q"

lemma shed_only_refl [simp]: "shed_only now q q"
  by (auto simp: shed_only_def intro!: disjI1 exI [of _ "\<lambda>x. True"])

lemma filter_bytes: "queue_bytes (filter P q) \<le> queue_bytes q"
  by (induction q) auto

lemma drop_expired_suffix: "\<exists>us. q = us @ drop_expired now q \<and> (\<forall>x\<in>set us. mo_expires_at_ms (snd x) \<le> now)"
  unfolding drop_expired_def by (metis takeWhile_dropWhile_id set_takeWhileD)

lemma shed_only_facts:
  assumes "shed_only now q q'"
  shows "set q' \<subseteq> set q" "length q' \<le> length q" "queue_bytes q' \<le> queue_bytes q"
    "x \<in> set q \<Longrightarrow> now < mo_expires_at_ms (snd x) \<Longrightarrow> x \<in> set q'"
    "sorted (map (mo_expires_at_ms \<circ> snd) q) \<Longrightarrow> sorted (map (mo_expires_at_ms \<circ> snd) q')"
proof -
  obtain us where us: "q = us @ drop_expired now q" "\<forall>x\<in>set us. mo_expires_at_ms (snd x) \<le> now"
    using drop_expired_suffix by blast
  consider P where "q' = filter P q" "\<forall>x\<in>set q. now < mo_expires_at_ms (snd x) \<longrightarrow> P x" | "q' = drop_expired now q"
    using assms unfolding shed_only_def by blast
  then have all: "set q' \<subseteq> set q \<and> length q' \<le> length q \<and> queue_bytes q' \<le> queue_bytes q \<and>
      (x \<in> set q \<longrightarrow> now < mo_expires_at_ms (snd x) \<longrightarrow> x \<in> set q') \<and>
      (sorted (map (mo_expires_at_ms \<circ> snd) q) \<longrightarrow> sorted (map (mo_expires_at_ms \<circ> snd) q'))"
  proof cases
    case 1
    then show ?thesis by (auto simp: filter_bytes sorted_map intro: sorted_wrt_filter)
  next
    case 2
    have "set q' \<subseteq> set q" "length q' \<le> length q" "queue_bytes q' \<le> queue_bytes q" using us(1) 2
      by (metis Un_upper2 set_append, metis le_add2 length_append, metis le_add2 queue_bytes_simps(3))
    moreover have "x \<in> set q \<longrightarrow> now < mo_expires_at_ms (snd x) \<longrightarrow> x \<in> set q'" using us 2
      by (metis Un_iff leD set_append)
    moreover have "sorted (map (mo_expires_at_ms \<circ> snd) q) \<longrightarrow> sorted (map (mo_expires_at_ms \<circ> snd) q')" using us(1) 2
      by (metis map_append sorted_append)
    ultimately show ?thesis by blast
  qed
  then show "set q' \<subseteq> set q" "length q' \<le> length q" "queue_bytes q' \<le> queue_bytes q"
    "x \<in> set q \<Longrightarrow> now < mo_expires_at_ms (snd x) \<Longrightarrow> x \<in> set q'"
    "sorted (map (mo_expires_at_ms \<circ> snd) q) \<Longrightarrow> sorted (map (mo_expires_at_ms \<circ> snd) q')" by blast+
qed

definition sheds_expired :: "nat \<Rightarrow> memo_queues \<Rightarrow> memo_queues \<Rightarrow> bool" where
  "sheds_expired now Q Q' \<longleftrightarrow> (\<forall>lt. shed_only now (Q lt) (Q' lt))"

lemma sat_mono: "t \<le> t' \<Longrightarrow> saturating_add64 t a \<le> saturating_add64 t' a"
  by (simp add: saturating_add64_def min_def)

lemma shed_keeps:
  assumes "sheds_expired now Q Q'"
  shows "holds_only B slot i T Q \<Longrightarrow> holds_only B slot i T Q'"
    and "holds_all slot i T t Q \<Longrightarrow> t \<le> now \<Longrightarrow> holds_all slot i T now Q'"
    and "in_expiry_order B t Q \<Longrightarrow> t \<le> t' \<Longrightarrow> in_expiry_order B t' Q'"
proof -
  have each: "shed_only now (Q lt) (Q' lt)" for lt using assms by (simp add: sheds_expired_def)
  note f = shed_only_facts(1-3) [OF each] and keep = shed_only_facts(4) [OF each] and sorted = shed_only_facts(5) [OF each]
  show "holds_only B slot i T Q \<Longrightarrow> holds_only B slot i T Q'"
    using f unfolding holds_only_def by (meson le_trans subset_iff)
  show "holds_all slot i T now Q'" if "holds_all slot i T t Q" "t \<le> now"
    unfolding holds_all_def
  proof (intro allI impI)
    fix k e x lt assume a: "slot k = i \<and> T k = Some (e, x, lt) \<and> now < x"
    with that(2) have "t < x" by simp
    with that(1) a obtain s where "(k, s) \<in> set (Q lt)" "mo_entry s = e" "mo_expires_at_ms s = x"
      unfolding holds_all_def by blast
    with keep [of "(k, s)" lt] a show "\<exists>s. (k, s) \<in> set (Q' lt) \<and> mo_entry s = e \<and> mo_expires_at_ms s = x" by auto
  qed
  show "in_expiry_order B t Q \<Longrightarrow> t \<le> t' \<Longrightarrow> in_expiry_order B t' Q'"
    using f(1) sorted sat_mono unfolding in_expiry_order_def by (meson le_trans subset_iff)
qed

lemma shed_same: "sheds_expired now Q Q"
  by (simp add: sheds_expired_def)

lemma shed_only_drop: "shed_only now q (drop_expired now q)"
  by (simp add: shed_only_def)

lemma shed_drop: "sheds_expired now Q (Q(lt := drop_expired now (Q lt)))"
  by (simp add: sheds_expired_def shed_only_drop)

lemma shed_read:
  assumes "distinct (map fst (Q lt))"
  shows "sheds_expired now Q (after_read lt k now Q)"
proof (cases "map_of (Q lt) k")
  case None
  then show ?thesis by (simp add: after_read_def shed_same)
next
  case (Some s)
  show ?thesis
  proof (cases "now < mo_expires_at_ms s")
    case True
    with Some show ?thesis by (simp add: after_read_def shed_same)
  next
    case False
    have "\<forall>x\<in>set (Q lt). now < mo_expires_at_ms (snd x) \<longrightarrow> fst x \<noteq> k"
    proof (intro ballI impI)
      fix x assume "x \<in> set (Q lt)" "now < mo_expires_at_ms (snd x)"
      then show "fst x \<noteq> k" using Some False map_of_is_SomeI [OF assms, of "fst x" "snd x"] by auto
    qed
    then have "shed_only now (Q lt) (without k (Q lt))" unfolding shed_only_def without_def by blast
    with Some False show ?thesis by (simp add: after_read_def sheds_expired_def)
  qed
qed

text \<open>A write of key \<open>k\<close>.\<close>

lemma trim_suffix: "\<exists>us. q = us @ trim n b q"
proof (induction q)
  case (Cons x q)
  then show ?case by (auto intro: exI [of _ "x # us" for us])
qed simp

lemma trim_set: "set (trim n b q) \<subseteq> set q"
  using trim_suffix [of q n b] by (metis Un_upper2 set_append)

lemma trim_bounds: "length (trim n b q) \<le> n \<and> queue_bytes (trim n b q) \<le> b"
  by (induction q) auto

lemma write_holds_only:
  assumes "holds_only B slot i T Q" "slot k = i"
  shows "holds_only B slot i (T(k \<mapsto> (mo_entry s, mo_expires_at_ms s, lt))) (written_at B k s lt now Q)"
proof -
  have "set (written_at B k s lt now Q lt) \<subseteq> set (without k (drop_expired now (Q lt)) @ [(k, s)])"
    by (simp add: written_at_def trim_set del: set_append)
  moreover have "set (drop_expired now (Q lt)) \<subseteq> set (Q lt)" using shed_only_facts(1) [OF shed_only_drop] .
  ultimately have own: "(k', s') \<in> set (Q lt) \<and> k' \<noteq> k \<or> (k', s') = (k, s)" if "(k', s') \<in> set (written_at B k s lt now Q lt)" for k' s'
    using that by (auto simp: without_def)
  have others: "written_at B k s lt now Q lt' = without k (Q lt')" if "lt' \<noteq> lt" for lt'
    using that by (cases lt; cases lt'; simp add: written_at_def)
  have "slot k' = i \<and> (T(k \<mapsto> (mo_entry s, mo_expires_at_ms s, lt))) k' = Some (mo_entry s', mo_expires_at_ms s', lt')"
    if "(k', s') \<in> set (written_at B k s lt now Q lt')" for lt' k' s'
  proof (cases "lt' = lt")
    case True
    with that own [of k' s'] have "(k', s') \<in> set (Q lt) \<and> k' \<noteq> k \<or> (k', s') = (k, s)" by simp
    with True assms show ?thesis by (auto simp: holds_only_def)
  next
    case False
    with others that assms show ?thesis by (auto simp: holds_only_def without_def)
  qed
  moreover have "length (written_at B k s lt now Q lt') \<le> fst (per_pool B lt') \<and>
      queue_bytes (written_at B k s lt now Q lt') \<le> snd (per_pool B lt')" for lt'
  proof (cases "lt' = lt")
    case True
    with trim_bounds show ?thesis by (simp add: written_at_def)
  next
    case False
    have "length (Q lt') \<le> fst (per_pool B lt')" "queue_bytes (Q lt') \<le> snd (per_pool B lt')"
      using assms(1) by (simp_all add: holds_only_def)
    with filter_bytes [of "\<lambda>x. fst x \<noteq> k" "Q lt'"] others [OF False]
    show ?thesis by (auto simp: without_def intro!: le_trans [OF length_filter_le])
  qed
  ultimately show ?thesis unfolding holds_only_def by blast
qed

lemma in_written_whole:
  assumes "(k', s') \<in> set (Q lt')" "k' \<noteq> k" "now < mo_expires_at_ms s'"
  shows "(k', s') \<in> set (written_whole k s lt now Q lt')"
proof (cases "lt' = lt")
  case True
  with assms shed_only_facts(4) [OF shed_only_drop, of "(k', s')" "Q lt" now] show ?thesis by (simp add: written_whole_def without_def)
next
  case False
  then have "lt' = other_lifetime lt" by (cases lt; cases lt'; simp)
  with assms show ?thesis by (simp add: written_whole_def without_def)
qed

lemma write_holds_all:
  assumes "holds_all slot i T t Q" "t \<le> now"
  shows "holds_all slot i (T(k \<mapsto> (mo_entry s, mo_expires_at_ms s, lt))) now (written_whole k s lt now Q)"
  unfolding holds_all_def
proof (intro allI impI)
  fix k' e x lt' assume a: "slot k' = i \<and> (T(k \<mapsto> (mo_entry s, mo_expires_at_ms s, lt))) k' = Some (e, x, lt') \<and> now < x"
  show "\<exists>s'. (k', s') \<in> set (written_whole k s lt now Q lt') \<and> mo_entry s' = e \<and> mo_expires_at_ms s' = x"
  proof (cases "k' = k")
    case True
    with a show ?thesis by (auto simp: written_whole_def)
  next
    case False
    from a assms(2) have "t < x" by simp
    with a False assms(1) obtain s' where "(k', s') \<in> set (Q lt')" "mo_entry s' = e" "mo_expires_at_ms s' = x"
      unfolding holds_all_def by (metis fun_upd_other)
    with in_written_whole [of k' s' Q lt' k now s lt] False a show ?thesis by auto
  qed
qed

lemma write_in_order:
  assumes "in_expiry_order B t Q" "t \<le> now" "mo_expires_at_ms s = saturating_add64 now (ttl_ms B lt)"
  shows "in_expiry_order B now (written_at B k s lt now Q)"
proof -
  let ?w = "without k (drop_expired now (Q lt)) @ [(k, s)]"
  have shed: "shed_only now (Q lt) (drop_expired now (Q lt))" by (rule shed_only_drop)
  have old: "sorted (map (mo_expires_at_ms \<circ> snd) (Q lt'))" "\<forall>x\<in>set (Q lt'). mo_expires_at_ms (snd x) \<le> saturating_add64 now (ttl_ms B lt')" for lt'
    using assms(1) sat_mono [OF assms(2)] unfolding in_expiry_order_def by (blast, meson le_trans)
  have sub: "set (without k (drop_expired now (Q lt))) \<subseteq> set (Q lt)" using shed_only_facts(1) [OF shed] by (auto simp: without_def)
  have "sorted (map (mo_expires_at_ms \<circ> snd) (without k (drop_expired now (Q lt))))"
    using shed_only_facts(5) [OF shed] old(1) by (auto simp: without_def sorted_map intro: sorted_wrt_filter)
  with sub old(2) [of lt] assms(3) have "sorted (map (mo_expires_at_ms \<circ> snd) ?w)"
    and le: "\<forall>x\<in>set ?w. mo_expires_at_ms (snd x) \<le> saturating_add64 now (ttl_ms B lt)" by (auto simp: sorted_append)
  moreover obtain us where "?w = us @ written_at B k s lt now Q lt" using trim_suffix by (fastforce simp: written_at_def)
  ultimately have own: "sorted (map (mo_expires_at_ms \<circ> snd) (written_at B k s lt now Q lt)) \<and>
      (\<forall>x\<in>set (written_at B k s lt now Q lt). mo_expires_at_ms (snd x) \<le> saturating_add64 now (ttl_ms B lt))"
    by (metis UnI2 map_append set_append sorted_append)
  have "written_at B k s lt now Q lt' = without k (Q lt')" if "lt' \<noteq> lt" for lt'
    using that by (cases lt; cases lt'; simp add: written_at_def)
  with own old show ?thesis unfolding in_expiry_order_def
    by (metis (no_types, lifting) filter_is_subset sorted_filter subset_iff without_def comp_def map_eq_conv)
qed

end
