(* ===== verification/Branch_Memo_Props.thy ===== *)
theory Branch_Memo_Props
  imports Branch_Memo_Queue
begin

text \<open>
  Histories of the branch memo: its totals and bounds, what a lookup answers, and the sweep that walks
  the write order against a scan of every entry.
\<close>

subsection \<open>Histories\<close>

datatype memo_op =
    MRemember bytes cancel_entry memo_lifetime nat
  | MLookup bytes nat
  | MShorten bytes nat
  | MSweep nat

fun memo_apply :: "(bytes \<Rightarrow> nat) \<Rightarrow> nat \<Rightarrow> memo_op \<Rightarrow> cancel_lru \<Rightarrow> cancel_lru" where
  "memo_apply hash ss (MRemember k e lt now) m = lru_remember hash ss k e lt now m"
| "memo_apply hash ss (MLookup k now) m = fst (lru_lookup hash k now m)"
| "memo_apply hash ss (MShorten k now) m = fst (lru_shorten hash ss k now m)"
| "memo_apply hash ss (MSweep now) m = fst (sweep_expired now m)"

definition memo_run :: "(bytes \<Rightarrow> nat) \<Rightarrow> nat \<Rightarrow> memo_bounds \<Rightarrow> memo_op list \<Rightarrow> cancel_lru" where
  "memo_run hash ss B h = fold (memo_apply hash ss) h (lru_with_bounds B)"

fun memo_time :: "memo_op \<Rightarrow> nat" where
  "memo_time (MRemember _ _ _ now) = now"
| "memo_time (MLookup _ now) = now"
| "memo_time (MShorten _ now) = now"
| "memo_time (MSweep now) = now"

text \<open>What the history last wrote under each key; a final shortens a live INVITE entry.\<close>

fun learn :: "memo_bounds \<Rightarrow> memo_op \<Rightarrow> memo_known \<Rightarrow> memo_known" where
  "learn B (MRemember k e lt now) T = T(k \<mapsto> (e, saturating_add64 now (ttl_ms B lt), lt))"
| "learn B (MShorten k now) T = (case T k of
     Some (e, x, InviteTransaction) \<Rightarrow>
       if now < x then T(k \<mapsto> (e, saturating_add64 now RTX_ENTRY_TTL_MS, Retransmission)) else T
   | _ \<Rightarrow> T)"
| "learn B _ T = T"

definition memo_known :: "memo_bounds \<Rightarrow> memo_op list \<Rightarrow> memo_known" where
  "memo_known B h = fold (learn B) h Map.empty"

definition memo_clock :: "memo_op list \<Rightarrow> nat" where
  "memo_clock h = fold max (map memo_time h) 0"

lemma memo_snoc [simp]:
  "memo_run hash ss B (h @ [x]) = memo_apply hash ss x (memo_run hash ss B h)"
  "memo_known B (h @ [x]) = learn B x (memo_known B h)" "memo_clock (h @ [x]) = max (memo_time x) (memo_clock h)"
  by (simp_all add: memo_run_def memo_known_def memo_clock_def)

subsection \<open>The memo as rows of queues\<close>

definition slot_of :: "(bytes \<Rightarrow> nat) \<Rightarrow> memo_bounds \<Rightarrow> bytes \<Rightarrow> nat" where
  "slot_of hash B k = hash k mod stripe_count B"

definition memo_rep :: "memo_bounds \<Rightarrow> nat \<Rightarrow> cancel_lru \<Rightarrow> (nat \<Rightarrow> memo_queues) \<Rightarrow> bool" where
  "memo_rep B n m Qs \<longleftrightarrow> length (lru_stripes m) = stripe_count B \<and>
     (\<forall>i < stripe_count B. stripe_rep B n (lru_stripes m ! i) (Qs i)) \<and>
     lru_len m = (\<Sum>i < stripe_count B. total_len (Qs i)) \<and> lru_bytes m = (\<Sum>i < stripe_count B. total_bytes (Qs i))"

lemma sum_upd_row:
  assumes "i < (n :: nat)" "a + (f Q' :: nat) = f (Qs i) + b"
  shows "a + (\<Sum>j<n. f ((Qs(i := Q')) j)) = (\<Sum>j<n. f (Qs j)) + b"
proof -
  have split: "(\<Sum>j<n. g j) = g i + (\<Sum>j\<in>{..<n} - {i}. g j)" for g :: "nat \<Rightarrow> nat" using assms(1) by (intro sum.remove) auto
  have "(\<Sum>j\<in>{..<n} - {i}. f ((Qs(i := Q')) j)) = (\<Sum>j\<in>{..<n} - {i}. f (Qs j))" by (rule sum.cong) auto
  then show ?thesis using split [of "\<lambda>j. f ((Qs(i := Q')) j)"] split [of "\<lambda>j. f (Qs j)"] assms(2) by simp
qed

lemma stripe_rep_mono: "stripe_rep B n st Q \<Longrightarrow> n \<le> n' \<Longrightarrow> stripe_rep B n' st Q"
  by (auto simp: stripe_rep_def intro: le_trans)

lemma on_stripe_rep:
  assumes "memo_rep B n m Qs" "i < stripe_count B" "f (lru_stripes m ! i, no_change) = ((st', c), r)"
    and "stripe_rep B n' st' Q'" "settled (Qs i, no_change) (Q', c)" "n \<le> n'"
  shows "\<exists>m'. on_stripe i f m = (m', c, r) \<and> memo_rep B n' m' (Qs(i := Q')) \<and> lru_evicted m' = lru_evicted m + ch_evicted c"
proof -
  let ?m = "lru_account c (m\<lparr>lru_stripes := (lru_stripes m)[i := st']\<rparr>)"
  have "ch_removed c + total_len Q' = total_len (Qs i) + ch_added c" "ch_bytes_removed c + total_bytes Q' = total_bytes (Qs i) + ch_bytes_added c"
    using assms(5) by (simp_all add: settled_def no_change_def)
  note s = sum_upd_row [where f = total_len and Qs = Qs and Q' = Q', OF assms(2) this(1)]
    sum_upd_row [where f = total_bytes and Qs = Qs and Q' = Q', OF assms(2) this(2)]
  have "\<forall>j < stripe_count B. stripe_rep B n' ((lru_stripes m)[i := st'] ! j) ((Qs(i := Q')) j)"
    using assms(1,2,4,6) by (auto simp: memo_rep_def nth_list_update intro: stripe_rep_mono)
  with assms(1,2) s [symmetric] have "memo_rep B n' ?m (Qs(i := Q'))" by (simp add: memo_rep_def lru_account_def)
  moreover have "lru_evicted ?m = lru_evicted m + ch_evicted c" by (simp add: lru_account_def)
  ultimately show ?thesis using assms(3) by (simp add: on_stripe_def)
qed

lemma row_of:
  "memo_rep B n m Qs \<Longrightarrow> i < stripe_count B \<Longrightarrow> stripe_rep B n (lru_stripes m ! i) (Qs i)"
  by (simp add: memo_rep_def)

lemma slot_lt [simp]: "slot_of hash B k < stripe_count B"
  by (simp add: slot_of_def stripe_count_def)

lemma lru_slot_rep: "memo_rep B n m Qs \<Longrightarrow> lru_slot hash k m = slot_of hash B k"
  by (simp add: lru_slot_def slot_of_def memo_rep_def stripe_count_def)

lemma remember_rep:
  assumes "memo_rep B n m Qs" "n < 2 ^ 64 - 1" "i = slot_of hash B k"
  shows "\<exists>s. mo_entry s = e \<and> mo_expires_at_ms s = saturating_add64 now (ttl_ms B lt) \<and>
    memo_rep B (n + 1) (lru_remember hash ss k e lt now m) (Qs(i := written_at B k s lt now (Qs i))) \<and>
    lru_evicted m \<le> lru_evicted (lru_remember hash ss k e lt now m) \<and>
    (lru_evicted (lru_remember hash ss k e lt now m) = lru_evicted m \<longrightarrow>
       written_at B k s lt now (Qs i) = written_whole k s lt now (Qs i))"
proof -
  have i: "i < stripe_count B" using assms(3) by simp
  from stripe_insert_rep [OF row_of [OF assms(1) i] assms(2)] obtain st' c' s where
    r: "stripe_insert ss k e lt now (lru_stripes m ! i, no_change) = (st', c')" "mo_entry s = e"
      "mo_expires_at_ms s = saturating_add64 now (ttl_ms B lt)" "stripe_rep B (n + 1) st' (written_at B k s lt now (Qs i))"
      "settled (Qs i, no_change) (written_at B k s lt now (Qs i), c')"
      "ch_evicted c' = ch_evicted no_change \<longrightarrow> written_at B k s lt now (Qs i) = written_whole k s lt now (Qs i)" by metis
  from on_stripe_rep [OF assms(1) i, of "\<lambda>sc. (stripe_insert ss k e lt now sc, ())" st' c' "()", OF _ r(4,5)] r(1)
  obtain m' where "on_stripe i (\<lambda>sc. (stripe_insert ss k e lt now sc, ())) m = (m', c', ())"
    "memo_rep B (n + 1) m' (Qs(i := written_at B k s lt now (Qs i)))" "lru_evicted m' = lru_evicted m + ch_evicted c'" by auto
  with r assms(3) lru_slot_rep [OF assms(1)] show ?thesis
    by (intro exI [of _ s]) (simp add: lru_remember_def no_change_def)
qed

lemma lookup_rep:
  assumes "memo_rep B n m Qs" "i = slot_of hash B k"
  shows "\<exists>m'. lru_lookup hash k now m = (m', read_any k now (Qs i)) \<and> memo_rep B n m' (Qs(i := after_get k now (Qs i))) \<and>
    lru_evicted m' = lru_evicted m"
proof -
  have i: "i < stripe_count B" using assms(2) by simp
  from stripe_get_rep [OF row_of [OF assms(1) i]] obtain st' c' where
    r: "stripe_get k now (lru_stripes m ! i, no_change) = ((st', c'), read_any k now (Qs i))" "stripe_rep B n st' (after_get k now (Qs i))"
      "settled (Qs i, no_change) (after_get k now (Qs i), c')" "ch_evicted c' = ch_evicted no_change" by metis
  from on_stripe_rep [OF assms(1) i, of "stripe_get k now", OF r(1-3)] r(4) assms(2) lru_slot_rep [OF assms(1)]
  show ?thesis by (auto simp: lru_lookup_def no_change_def)
qed

lemma shorten_rep:
  assumes "memo_rep B n m Qs" "n < 2 ^ 64 - 1" "i = slot_of hash B k"
  shows "\<exists>m' Q'. lru_shorten hash ss k now m = (m', read_any k now (Qs i)) \<and> memo_rep B (n + 1) m' (Qs(i := Q')) \<and>
    lru_evicted m \<le> lru_evicted m' \<and>
    (case read_at InviteTransaction k now (Qs i) of
       None \<Rightarrow> Q' = after_read Retransmission k now (after_read InviteTransaction k now (Qs i))
     | Some e \<Rightarrow> (\<exists>s. mo_entry s = e \<and> mo_expires_at_ms s = saturating_add64 now RTX_ENTRY_TTL_MS \<and>
         Q' = written_at B k s Retransmission now (after_read InviteTransaction k now (Qs i)) \<and>
         (lru_evicted m' = lru_evicted m \<longrightarrow> Q' = written_whole k s Retransmission now (after_read InviteTransaction k now (Qs i)))))"
proof -
  have i: "i < stripe_count B" using assms(3) by simp
  from stripe_shorten_rep [OF row_of [OF assms(1) i] assms(2), of ss k now no_change] obtain st' c' Q' where
    r: "stripe_shorten ss k now (lru_stripes m ! i, no_change) = ((st', c'), read_any k now (Qs i))" "stripe_rep B (n + 1) st' Q'"
      "settled (Qs i, no_change) (Q', c')" and
    q: "case read_at InviteTransaction k now (Qs i) of
       None \<Rightarrow> Q' = after_read Retransmission k now (after_read InviteTransaction k now (Qs i))
     | Some e \<Rightarrow> (\<exists>s. mo_entry s = e \<and> mo_expires_at_ms s = saturating_add64 now RTX_ENTRY_TTL_MS \<and>
         Q' = written_at B k s Retransmission now (after_read InviteTransaction k now (Qs i)) \<and>
         (ch_evicted c' = ch_evicted no_change \<longrightarrow> Q' = written_whole k s Retransmission now (after_read InviteTransaction k now (Qs i))))"
    by blast
  from on_stripe_rep [OF assms(1) i, of "stripe_shorten ss k now", OF r(1-3)] obtain m' where
    "lru_shorten hash ss k now m = (m', read_any k now (Qs i))" "memo_rep B (n + 1) m' (Qs(i := Q'))"
    "lru_evicted m' = lru_evicted m + ch_evicted c'" using assms(3) lru_slot_rep [OF assms(1)] by (auto simp: lru_shorten_def)
  with q show ?thesis by (intro exI [of _ m'] exI [of _ Q']) (auto simp: no_change_def split: option.splits)
qed

definition swept :: "nat \<Rightarrow> memo_queues \<Rightarrow> memo_queues" where
  "swept now Q = (\<lambda>lt. drop_expired now (Q lt))"

lemma expire_stripe_rep:
  assumes "stripe_rep B n st Q"
  shows "\<exists>st' c'. stripe_expire now (st, c) = (st', c') \<and> stripe_rep B n st' (swept now Q) \<and> settled (Q, c) (swept now Q, c') \<and>
    ch_evicted c' = ch_evicted c"
proof -
  define Q1 where "Q1 = Q(InviteTransaction := drop_expired now (Q InviteTransaction))"
  obtain st1 c1 where a: "on_pool InviteTransaction (pool_expire now) (st, c) = (st1, c1)" "stripe_rep B n st1 Q1"
    "settled (Q, c) (Q1, c1)" "ch_evicted c1 = ch_evicted c" using expire_pool_rep [OF assms] unfolding Q1_def by blast
  have Q2: "Q1(Retransmission := drop_expired now (Q1 Retransmission)) = swept now Q"
  proof
    fix lt show "(Q1(Retransmission := drop_expired now (Q1 Retransmission))) lt = swept now Q lt"
      by (cases lt) (simp_all add: Q1_def swept_def)
  qed
  obtain st2 c2 where b: "on_pool Retransmission (pool_expire now) (st1, c1) = (st2, c2)" "stripe_rep B n st2 (swept now Q)"
    "settled (Q1, c1) (swept now Q, c2)" "ch_evicted c2 = ch_evicted c1" using expire_pool_rep [OF a(2)] unfolding Q2 [symmetric] by blast
  with a settled_trans [OF a(3) b(3)] show ?thesis by (simp add: stripe_expire_def)
qed

lemma sweep_rep:
  assumes "memo_rep B n m Qs" "j \<le> stripe_count B"
  shows "memo_rep B n (fst (fold (sweep_stripe now) [0..<j] (m, 0, 0))) (\<lambda>i. if i < j then swept now (Qs i) else Qs i) \<and>
    lru_evicted (fst (fold (sweep_stripe now) [0..<j] (m, 0, 0))) = lru_evicted m"
  using assms(2)
proof (induction j)
  case 0
  with assms(1) show ?case by simp
next
  case (Suc j)
  obtain m1 a b where f: "fold (sweep_stripe now) [0..<j] (m, 0, 0) = (m1, a, b)" by (metis prod_cases3)
  let ?Qs = "\<lambda>i. if i < j then swept now (Qs i) else Qs i"
  from Suc f have rep: "memo_rep B n m1 ?Qs" "lru_evicted m1 = lru_evicted m" by simp_all
  have j: "j < stripe_count B" using Suc(2) by simp
  from expire_stripe_rep [OF row_of [OF rep(1) j]] obtain st' c' where
    r: "stripe_expire now (lru_stripes m1 ! j, no_change) = (st', c')" "stripe_rep B n st' (swept now (Qs j))"
      "settled (Qs j, no_change) (swept now (Qs j), c')" "ch_evicted c' = ch_evicted no_change" by fastforce
  from on_stripe_rep [OF rep(1) j, of "\<lambda>sc. (stripe_expire now sc, ())" st' c' "()" n "swept now (Qs j)"] r obtain m' where
    m': "on_stripe j (\<lambda>sc. (stripe_expire now sc, ())) m1 = (m', c', ())" "memo_rep B n m' (?Qs(j := swept now (Qs j)))"
      "lru_evicted m' = lru_evicted m1" by (auto simp: no_change_def)
  have "?Qs(j := swept now (Qs j)) = (\<lambda>i. if i < Suc j then swept now (Qs i) else Qs i)" by (auto simp: fun_eq_iff less_Suc_eq)
  with m' rep(2) f show ?case by (simp add: sweep_stripe_def [of now j])
qed

subsection \<open>The invariant of a history\<close>

definition memo_inv :: "(bytes \<Rightarrow> nat) \<Rightarrow> memo_bounds \<Rightarrow> memo_op list \<Rightarrow> cancel_lru \<Rightarrow> (nat \<Rightarrow> memo_queues) \<Rightarrow> bool" where
  "memo_inv hash B h m Qs \<longleftrightarrow> memo_rep B (length h) m Qs \<and>
     (\<forall>i < stripe_count B. holds_only B (slot_of hash B) i (memo_known B h) (Qs i)) \<and>
     (sorted (map memo_time h) \<longrightarrow>
        (\<forall>i < stripe_count B. in_expiry_order B (memo_clock h) (Qs i) \<and>
           (lru_evicted m = 0 \<longrightarrow> holds_all (slot_of hash B) i (memo_known B h) (memo_clock h) (Qs i))))"

lemma memo_clock_le: "\<forall>x\<in>set h. memo_time x \<le> t \<Longrightarrow> memo_clock h \<le> t"
  by (induction h rule: rev_induct) (simp_all add: memo_clock_def)

lemma sorted_snoc_clock: "sorted (map memo_time (h @ [x])) \<Longrightarrow> sorted (map memo_time h) \<and> memo_clock h \<le> memo_time x"
  by (auto simp: sorted_append intro: memo_clock_le)

lemma holds_only_other: "slot k \<noteq> i \<Longrightarrow> holds_only B slot i T Q \<Longrightarrow> holds_only B slot i (T(k := v)) Q"
  by (auto simp: holds_only_def)

lemma holds_all_other: "slot k \<noteq> i \<Longrightarrow> holds_all slot i T t Q \<Longrightarrow> t \<le> t' \<Longrightarrow> holds_all slot i (T(k := v)) t' Q"
  by (fastforce simp: holds_all_def)

text \<open>One row changes: what the operation does to it, the others as they were.\<close>

lemma memo_inv_row:
  assumes "memo_inv hash B h m Qs" "memo_rep B (length h + 1) m' (Qs(i := Q'))" "lru_evicted m \<le> lru_evicted m'"
    and "memo_known B (h @ [x]) = memo_known B h \<or> (\<exists>k v. slot_of hash B k = i \<and> memo_known B (h @ [x]) = (memo_known B h)(k := v))"
    and only: "holds_only B (slot_of hash B) i (memo_known B h) (Qs i) \<Longrightarrow> holds_only B (slot_of hash B) i (memo_known B (h @ [x])) Q'"
    and order: "in_expiry_order B (memo_clock h) (Qs i) \<Longrightarrow> memo_clock h \<le> memo_time x \<Longrightarrow> in_expiry_order B (memo_time x) Q'"
    and full: "holds_only B (slot_of hash B) i (memo_known B h) (Qs i) \<Longrightarrow> holds_all (slot_of hash B) i (memo_known B h) (memo_clock h) (Qs i) \<Longrightarrow> memo_clock h \<le> memo_time x \<Longrightarrow>
      lru_evicted m' = lru_evicted m \<Longrightarrow> holds_all (slot_of hash B) i (memo_known B (h @ [x])) (memo_time x) Q'"
    and "i < stripe_count B"
  shows "memo_inv hash B (h @ [x]) m' (Qs(i := Q'))"
proof -
  define T where "T = memo_known B h"
  define T' where "T' = memo_known B (h @ [x])"
  have known: "T' = T \<or> (\<exists>k v. slot_of hash B k = i \<and> T' = T(k := v))" using assms(4) unfolding T_def T'_def .
  have only': "holds_only B (slot_of hash B) j T' (Qs j)" if "j \<noteq> i" "holds_only B (slot_of hash B) j T (Qs j)" for j
    using known holds_only_other [of "slot_of hash B" _ j B T "Qs j"] that by metis
  have all': "holds_all (slot_of hash B) j T' t' (Qs j)" if "j \<noteq> i" "holds_all (slot_of hash B) j T t (Qs j)" "t \<le> t'" for j t t'
    using known holds_all_other [of "slot_of hash B" _ j T t "Qs j" t'] that shed_keeps(2) [OF shed_same that(2,3)] by metis
  have "holds_only B (slot_of hash B) j T' ((Qs(i := Q')) j)" if "j < stripe_count B" for j
    using assms(1) that only only' [of j] unfolding memo_inv_def T_def [symmetric] T'_def [symmetric] by (cases "j = i") simp_all
  moreover have "in_expiry_order B (memo_clock (h @ [x])) ((Qs(i := Q')) j) \<and>
      (lru_evicted m' = 0 \<longrightarrow> holds_all (slot_of hash B) j T' (memo_clock (h @ [x])) ((Qs(i := Q')) j))"
    if s: "sorted (map memo_time (h @ [x]))" and j: "j < stripe_count B" for j
  proof -
    note c = sorted_snoc_clock [OF s]
    have t: "memo_clock (h @ [x]) = memo_time x" using c by simp
    from assms(1) c j have old: "in_expiry_order B (memo_clock h) (Qs j)" "holds_only B (slot_of hash B) j T (Qs j)"
      "lru_evicted m = 0 \<Longrightarrow> holds_all (slot_of hash B) j T (memo_clock h) (Qs j)" by (simp_all add: memo_inv_def T_def)
    have zero: "lru_evicted m' = 0 \<Longrightarrow> lru_evicted m = 0 \<and> lru_evicted m' = lru_evicted m" using assms(3) by simp
    show ?thesis
    proof (cases "j = i")
      case True
      have "in_expiry_order B (memo_time x) Q'" using order old(1) [unfolded True] c by blast
      moreover have "holds_all (slot_of hash B) i T' (memo_time x) Q'" if "lru_evicted m' = 0"
        using full [folded T_def T'_def, OF old(2) [unfolded True]] old(3) [unfolded True] zero [OF that] c by simp
      ultimately show ?thesis unfolding t using True by simp
    next
      case False
      have "in_expiry_order B (memo_time x) (Qs j)" using shed_keeps(3) [OF shed_same old(1)] c by blast
      moreover have "holds_all (slot_of hash B) j T' (memo_time x) (Qs j)" if "lru_evicted m' = 0"
        using all' [OF False old(3)] zero [OF that] c by blast
      ultimately show ?thesis using False unfolding t by simp
    qed
  qed
  ultimately show ?thesis using assms(2) unfolding memo_inv_def T'_def by simp
qed

text \<open>Reads shed expired entries only.\<close>

lemma keys_distinct: "stripe_rep B n st Q \<Longrightarrow> distinct (map fst (Q lt))"
  by (simp add: stripe_rep_def pool_rep_def)

lemma after_read_other [simp]: "lt' \<noteq> lt \<Longrightarrow> after_read lt k now Q lt' = Q lt'"
  by (simp add: after_read_def split: option.splits)

lemma after_read_own: "after_read lt k now (after_read lt' k now Q) lt = after_read lt k now Q lt" if "lt \<noteq> lt'"
  using that by (auto simp: after_read_def split: option.splits)

lemma shed_reads:
  assumes "stripe_rep B n st Q"
  shows "sheds_expired now Q (after_read Retransmission k now (after_read InviteTransaction k now Q))" (is "sheds_expired _ _ ?Q")
  unfolding sheds_expired_def
proof
  fix lt
  have one: "shed_only now (Q a) (after_read b k now Q a)" for a b
    using shed_read [of Q b now k] keys_distinct [OF assms, of b] unfolding sheds_expired_def by blast
  show "shed_only now (Q lt) (?Q lt)"
  proof (cases lt)
    case InviteTransaction
    then show ?thesis using one [of InviteTransaction InviteTransaction] by simp
  next
    case Retransmission
    then show ?thesis using one [of Retransmission Retransmission] by (simp add: after_read_own)
  qed
qed

lemma shed_get: "stripe_rep B n st Q \<Longrightarrow> sheds_expired now Q (after_get k now Q)"
  using shed_reads [of B n st Q now k] shed_read [of Q InviteTransaction now k] keys_distinct [of B n st Q InviteTransaction]
  by (auto simp: after_get_def split: option.split)

lemma read_at_Some:
  assumes "read_at lt k now Q = Some e"
  obtains s where "(k, s) \<in> set (Q lt)" "mo_entry s = e" "now < mo_expires_at_ms s" "after_read lt k now Q = Q"
  using assms map_of_SomeD [of "Q lt" k] by (auto simp: read_at_def after_read_def split: option.splits if_splits)

lemma read_at_None:
  assumes "read_at lt k now Q = None" "distinct (map fst (Q lt))" "(k, s) \<in> set (Q lt)"
  shows "mo_expires_at_ms s \<le> now"
  using assms map_of_is_SomeI [OF assms(2,3)] by (simp add: read_at_def split: if_splits)

lemma shed_inv:
  assumes "memo_inv hash B h m Qs" "memo_rep B (length h + 1) m' (Qs(i := Q'))" "lru_evicted m \<le> lru_evicted m'"
    and "i < stripe_count B" "sheds_expired (memo_time x) (Qs i) Q'" "memo_known B (h @ [x]) = memo_known B h"
  shows "memo_inv hash B (h @ [x]) m' (Qs(i := Q'))"
  using memo_inv_row [OF assms(1-3), of x] shed_keeps [OF assms(5)] assms(4,6) by metis

lemma memo_rep_mono: "memo_rep B n m Qs \<Longrightarrow> n \<le> n' \<Longrightarrow> memo_rep B n' m Qs"
  by (auto simp: memo_rep_def intro: stripe_rep_mono)

lemma inv_rep: "memo_inv hash B h m Qs \<Longrightarrow> memo_rep B (length h) m Qs"
  by (simp add: memo_inv_def)

lemma inv_row: "memo_inv hash B h m Qs \<Longrightarrow> i < stripe_count B \<Longrightarrow> stripe_rep B (length h) (lru_stripes m ! i) (Qs i)"
  by (rule row_of [OF inv_rep])

lemma inv_only: "memo_inv hash B h m Qs \<Longrightarrow> i < stripe_count B \<Longrightarrow> holds_only B (slot_of hash B) i (memo_known B h) (Qs i)"
  by (simp add: memo_inv_def)

lemma inv_lookup:
  assumes "memo_inv hash B h m Qs"
  shows "\<exists>Qs'. memo_inv hash B (h @ [MLookup k now]) (fst (lru_lookup hash k now m)) Qs'"
proof -
  define i where "i = slot_of hash B k"
  from lookup_rep [OF inv_rep [OF assms] i_def, of now] obtain m' where
    m': "fst (lru_lookup hash k now m) = m'" "memo_rep B (length h) m' (Qs(i := after_get k now (Qs i)))"
      "lru_evicted m' = lru_evicted m" by auto
  have i: "i < stripe_count B" by (simp add: i_def)
  have "memo_inv hash B (h @ [MLookup k now]) m' (Qs(i := after_get k now (Qs i)))"
    using shed_inv [OF assms memo_rep_mono [OF m'(2)] _ i] m'(3) shed_get [OF inv_row [OF assms i]] by simp
  with m'(1) show ?thesis by blast
qed

lemma inv_remember:
  assumes "memo_inv hash B h m Qs" "length h < 2 ^ 64 - 1"
  shows "\<exists>Qs'. memo_inv hash B (h @ [MRemember k e lt now]) (lru_remember hash ss k e lt now m) Qs'"
proof -
  define i where "i = slot_of hash B k"
  define m' where "m' = lru_remember hash ss k e lt now m"
  from remember_rep [OF inv_rep [OF assms(1)] assms(2) i_def, of e now lt ss] obtain s where
    s: "mo_entry s = e" "mo_expires_at_ms s = saturating_add64 now (ttl_ms B lt)" and
    r: "memo_rep B (length h + 1) m' (Qs(i := written_at B k s lt now (Qs i)))" "lru_evicted m \<le> lru_evicted m'"
      "lru_evicted m' = lru_evicted m \<longrightarrow> written_at B k s lt now (Qs i) = written_whole k s lt now (Qs i)"
    unfolding m'_def by blast
  have known: "memo_known B (h @ [MRemember k e lt now]) = (memo_known B h)(k \<mapsto> (mo_entry s, mo_expires_at_ms s, lt))"
    using s by simp
  have "memo_inv hash B (h @ [MRemember k e lt now]) m' (Qs(i := written_at B k s lt now (Qs i)))"
  proof (rule memo_inv_row [OF assms(1) r(1,2)], unfold known)
    show "holds_only B (slot_of hash B) i (memo_known B h) (Qs i) \<Longrightarrow>
        holds_only B (slot_of hash B) i ((memo_known B h)(k \<mapsto> (mo_entry s, mo_expires_at_ms s, lt))) (written_at B k s lt now (Qs i))"
      by (rule write_holds_only) (simp_all add: i_def)
    show "in_expiry_order B (memo_clock h) (Qs i) \<Longrightarrow> memo_clock h \<le> memo_time (MRemember k e lt now) \<Longrightarrow>
        in_expiry_order B (memo_time (MRemember k e lt now)) (written_at B k s lt now (Qs i))"
      using write_in_order [OF _ _ s(2)] by simp
    show "holds_all (slot_of hash B) i ((memo_known B h)(k \<mapsto> (mo_entry s, mo_expires_at_ms s, lt))) (memo_time (MRemember k e lt now)) (written_at B k s lt now (Qs i))"
      if "holds_all (slot_of hash B) i (memo_known B h) (memo_clock h) (Qs i)" "memo_clock h \<le> memo_time (MRemember k e lt now)"
        "lru_evicted m' = lru_evicted m" using write_holds_all [OF that(1)] that(2,3) r(3) by simp
  qed (auto simp: i_def)
  then show ?thesis unfolding m'_def by blast
qed

lemma inv_sweep:
  assumes "memo_inv hash B h m Qs"
  shows "memo_inv hash B (h @ [MSweep now]) (fst (sweep_expired now m)) (\<lambda>i. if i < stripe_count B then swept now (Qs i) else Qs i)"
    (is "memo_inv hash B ?h ?m ?Qs")
proof -
  note rep = inv_rep [OF assms]
  have n: "length (lru_stripes m) = stripe_count B" using rep by (simp add: memo_rep_def)
  have r: "memo_rep B (length ?h) ?m ?Qs" "lru_evicted ?m = lru_evicted m"
    using sweep_rep [OF rep, of "stripe_count B" now] unfolding sweep_expired_def n by (auto intro: memo_rep_mono)
  have sheds: "sheds_expired now (Qs i) (?Qs i)" for i by (simp add: sheds_expired_def swept_def shed_only_drop)
  have "holds_only B (slot_of hash B) i (memo_known B ?h) (?Qs i)" if "i < stripe_count B" for i
    using shed_keeps(1) [OF sheds inv_only [OF assms that]] that by simp
  moreover have "in_expiry_order B (memo_clock ?h) (?Qs i)"
      "lru_evicted ?m = 0 \<Longrightarrow> holds_all (slot_of hash B) i (memo_known B ?h) (memo_clock ?h) (?Qs i)"
    if "sorted (map memo_time ?h)" "i < stripe_count B" for i
  proof -
    note c = sorted_snoc_clock [OF that(1)]
    then have t: "memo_clock ?h = now" by simp
    from assms c that(2) have old: "in_expiry_order B (memo_clock h) (Qs i)"
      "lru_evicted m = 0 \<Longrightarrow> holds_all (slot_of hash B) i (memo_known B h) (memo_clock h) (Qs i)" by (simp_all add: memo_inv_def)
    show "in_expiry_order B (memo_clock ?h) (?Qs i)" using shed_keeps(3) [OF sheds old(1)] c unfolding t by simp
    show "holds_all (slot_of hash B) i (memo_known B ?h) (memo_clock ?h) (?Qs i)" if "lru_evicted ?m = 0"
      using shed_keeps(2) [OF sheds old(2)] that r(2) c unfolding t by simp
  qed
  ultimately show ?thesis using r(1) unfolding memo_inv_def by blast
qed

lemma inv_init: "memo_inv hash B [] (lru_with_bounds B) (\<lambda>_ _. [])"
proof -
  have "stripe_rep B 0 (stripe_new B) (\<lambda>_. [])" unfolding stripe_rep_def
  proof (intro conjI allI)
    fix lt show "pool_rep (stripe_pool lt (stripe_new B)) []" "pool_max_entries (stripe_pool lt (stripe_new B)) = fst (per_pool B lt)"
      "pool_max_bytes (stripe_pool lt (stripe_new B)) = snd (per_pool B lt)" "pool_next_seq (stripe_pool lt (stripe_new B)) \<le> 0"
      by (cases lt; simp add: stripe_new_def pool_new_def pool_rep_def Let_def)+
  qed (simp add: stripe_new_def Let_def)
  then show ?thesis by (simp add: memo_inv_def memo_rep_def lru_with_bounds_def total_len_def total_bytes_def holds_only_def holds_all_def
      in_expiry_order_def memo_known_def)
qed

text \<open>A final of a call whose INVITE entry is not held changes no entry.\<close>

lemma shorten_absent:
  assumes "holds_only B slot i T Q" "read_at InviteTransaction k now Q = None" "distinct (map fst (Q InviteTransaction))"
    and "T k = Some (e, x, InviteTransaction)" "now < x"
  shows "holds_only B slot i (T(k := v)) Q" "slot k = i \<Longrightarrow> \<not> (t \<le> now \<and> holds_all slot i T t Q)"
proof -
  have absent: "(k, s) \<notin> set (Q lt)" for s lt
  proof
    assume "(k, s) \<in> set (Q lt)"
    with assms(1,4) have "lt = InviteTransaction" "mo_expires_at_ms s = x" by (auto simp: holds_only_def)
    with read_at_None [OF assms(2,3)] assms(5) \<open>(k, s) \<in> set (Q lt)\<close> show False by fastforce
  qed
  with assms(1) show "holds_only B slot i (T(k := v)) Q" by (auto simp: holds_only_def)
  show "slot k = i \<Longrightarrow> \<not> (t \<le> now \<and> holds_all slot i T t Q)"
    using absent assms(4) le_less_trans [OF _ assms(5), of t] unfolding holds_all_def by blast
qed

lemma learn_shorten:
  obtains "learn B (MShorten k now) T = T"
  | e x where "T k = Some (e, x, InviteTransaction)" "now < x" "learn B (MShorten k now) T = T(k \<mapsto> (e, saturating_add64 now RTX_ENTRY_TTL_MS, Retransmission))"
proof (cases "\<exists>e x. T k = Some (e, x, InviteTransaction) \<and> now < x")
  case True
  then obtain e x where "T k = Some (e, x, InviteTransaction)" "now < x" by blast
  then show ?thesis using that(2) by simp
next
  case False
  then have "learn B (MShorten k now) T = T" by (auto split: option.split prod.split memo_lifetime.split)
  then show ?thesis by (rule that(1))
qed

lemma inv_shorten_none:
  assumes "memo_inv hash B h m Qs" "memo_rep B (length h + 1) m' (Qs(i := Q'))" "lru_evicted m \<le> lru_evicted m'"
    and i: "i = slot_of hash B k" and none: "read_at InviteTransaction k now (Qs i) = None"
    and Q': "Q' = after_read Retransmission k now (after_read InviteTransaction k now (Qs i))"
  shows "memo_inv hash B (h @ [MShorten k now]) m' (Qs(i := Q'))"
proof -
  have lt: "i < stripe_count B" using i by simp
  note row = inv_row [OF assms(1) lt] and only = inv_only [OF assms(1) lt]
  have shed: "sheds_expired now (Qs i) Q'" unfolding Q' by (rule shed_reads [OF row])
  show ?thesis
  proof (rule learn_shorten [of B k now "memo_known B h"])
    assume "learn B (MShorten k now) (memo_known B h) = memo_known B h"
    then show ?thesis using shed_inv [OF assms(1-3) lt, of "MShorten k now"] shed by simp
  next
    fix e x assume a: "memo_known B h k = Some (e, x, InviteTransaction)" "now < x"
      "learn B (MShorten k now) (memo_known B h) = (memo_known B h)(k \<mapsto> (e, saturating_add64 now RTX_ENTRY_TTL_MS, Retransmission))"
    note absent = shorten_absent [OF only none keys_distinct [OF row] a(1,2)]
    show ?thesis
    proof (rule memo_inv_row [OF assms(1-3) _ _ _ _ lt])
      show "holds_only B (slot_of hash B) i (memo_known B (h @ [MShorten k now])) Q'"
        using shed_keeps(1) [OF shed absent(1)] a(3) by simp
      show "in_expiry_order B (memo_clock h) (Qs i) \<Longrightarrow> memo_clock h \<le> memo_time (MShorten k now) \<Longrightarrow> in_expiry_order B (memo_time (MShorten k now)) Q'"
        using shed_keeps(3) [OF shed] by blast
      show "holds_all (slot_of hash B) i (memo_known B (h @ [MShorten k now])) (memo_time (MShorten k now)) Q'"
        if "holds_all (slot_of hash B) i (memo_known B h) (memo_clock h) (Qs i)" "memo_clock h \<le> memo_time (MShorten k now)"
        using absent(2) [of "memo_clock h"] i that by simp
    qed (use a(3) i in auto)
  qed
qed

lemma inv_shorten:
  assumes "memo_inv hash B h m Qs" "length h < 2 ^ 64 - 1"
  shows "\<exists>Qs'. memo_inv hash B (h @ [MShorten k now]) (fst (lru_shorten hash ss k now m)) Qs'"
proof -
  define i where "i = slot_of hash B k"
  have lt: "i < stripe_count B" by (simp add: i_def)
  from shorten_rep [OF inv_rep [OF assms(1)] assms(2) i_def, of ss now] obtain m' Q' where
    m': "fst (lru_shorten hash ss k now m) = m'" and r: "memo_rep B (length h + 1) m' (Qs(i := Q'))" "lru_evicted m \<le> lru_evicted m'" and
    q: "case read_at InviteTransaction k now (Qs i) of
       None \<Rightarrow> Q' = after_read Retransmission k now (after_read InviteTransaction k now (Qs i))
     | Some e \<Rightarrow> (\<exists>s. mo_entry s = e \<and> mo_expires_at_ms s = saturating_add64 now RTX_ENTRY_TTL_MS \<and>
         Q' = written_at B k s Retransmission now (after_read InviteTransaction k now (Qs i)) \<and>
         (lru_evicted m' = lru_evicted m \<longrightarrow> Q' = written_whole k s Retransmission now (after_read InviteTransaction k now (Qs i))))"
    by auto
  have "memo_inv hash B (h @ [MShorten k now]) m' (Qs(i := Q'))"
  proof (cases "read_at InviteTransaction k now (Qs i)")
    case None
    with inv_shorten_none [OF assms(1) r i_def None] q show ?thesis by simp
  next
    case (Some e)
    from read_at_Some [OF Some] obtain s0 where s0: "(k, s0) \<in> set (Qs i InviteTransaction)" "mo_entry s0 = e" "now < mo_expires_at_ms s0"
      "after_read InviteTransaction k now (Qs i) = Qs i" by blast
    with q Some obtain s where s: "mo_entry s = e" "mo_expires_at_ms s = saturating_add64 now (ttl_ms B Retransmission)"
      "Q' = written_at B k s Retransmission now (Qs i)" "lru_evicted m' = lru_evicted m \<longrightarrow> Q' = written_whole k s Retransmission now (Qs i)" by auto
    have "memo_known B h k = Some (e, mo_expires_at_ms s0, InviteTransaction)"
      using s0 inv_only [OF assms(1) lt] by (auto simp: holds_only_def)
    with s0(3) s(1,2) have known: "memo_known B (h @ [MShorten k now]) = (memo_known B h)(k \<mapsto> (mo_entry s, mo_expires_at_ms s, Retransmission))" by simp
    show ?thesis
    proof (rule memo_inv_row [OF assms(1) r _ _ _ _ lt], unfold known)
      show "holds_only B (slot_of hash B) i (memo_known B h) (Qs i) \<Longrightarrow>
          holds_only B (slot_of hash B) i ((memo_known B h)(k \<mapsto> (mo_entry s, mo_expires_at_ms s, Retransmission))) Q'"
        unfolding s(3) by (rule write_holds_only) (simp_all add: i_def)
      show "in_expiry_order B (memo_clock h) (Qs i) \<Longrightarrow> memo_clock h \<le> memo_time (MShorten k now) \<Longrightarrow> in_expiry_order B (memo_time (MShorten k now)) Q'"
        unfolding s(3) using write_in_order [OF _ _ s(2)] by simp
      show "holds_all (slot_of hash B) i ((memo_known B h)(k \<mapsto> (mo_entry s, mo_expires_at_ms s, Retransmission))) (memo_time (MShorten k now)) Q'"
        if "holds_all (slot_of hash B) i (memo_known B h) (memo_clock h) (Qs i)" "memo_clock h \<le> memo_time (MShorten k now)"
          "lru_evicted m' = lru_evicted m" using write_holds_all [OF that(1)] that(2,3) s(4) by simp
    qed (auto simp: i_def)
  qed
  with m' show ?thesis by blast
qed

lemma memo_inv_run: "length h < 2 ^ 64 \<Longrightarrow> \<exists>Qs. memo_inv hash B h (memo_run hash ss B h) Qs"
proof (induction h rule: rev_induct)
  case Nil
  then show ?case using inv_init by (auto simp: memo_run_def)
next
  case (snoc x h)
  then obtain Qs where i: "memo_inv hash B h (memo_run hash ss B h) Qs" and n: "length h < 2 ^ 64 - 1" by auto
  have sweep: "\<exists>Qs'. memo_inv hash B (h @ [MSweep now]) (fst (sweep_expired now (memo_run hash ss B h))) Qs'" for now
    using inv_sweep [OF i] by blast
  show ?case
    by (cases x; simp only: memo_snoc memo_apply.simps; rule inv_remember [OF i n] inv_lookup [OF i] inv_shorten [OF i n] sweep)
qed

subsection \<open>What a lookup answers\<close>

lemma read_any_Some:
  assumes "read_any k now Q = Some e"
  shows "\<exists>lt s. (k, s) \<in> set (Q lt) \<and> mo_entry s = e \<and> now < mo_expires_at_ms s"
proof (cases "read_at InviteTransaction k now Q")
  case None
  with assms have "read_at Retransmission k now (after_read InviteTransaction k now Q) = Some e" by (simp add: read_any_def)
  then show ?thesis by (rule read_at_Some) auto
next
  case (Some e')
  with assms have "read_at InviteTransaction k now Q = Some e" by (simp add: read_any_def)
  then show ?thesis by (rule read_at_Some) blast
qed

lemma read_any_live:
  assumes "holds_only B slot i T Q" "\<And>lt. distinct (map fst (Q lt))" "(k, s) \<in> set (Q lt)" "now < mo_expires_at_ms s"
  shows "read_any k now Q = Some (mo_entry s)"
proof -
  have own: "read_at lt k now Q = Some (mo_entry s)" using assms(3,4) map_of_is_SomeI [OF assms(2,3)] by (simp add: read_at_def)
  show ?thesis
  proof (cases lt)
    case InviteTransaction
    with own show ?thesis by (simp add: read_any_def)
  next
    case Retransmission
    have "read_at InviteTransaction k now Q = None"
    proof (cases "read_at InviteTransaction k now Q")
      case (Some e)
      then obtain s' where "(k, s') \<in> set (Q InviteTransaction)" by (rule read_at_Some)
      with assms(1,3) have "T k = Some (mo_entry s', mo_expires_at_ms s', InviteTransaction)" "T k = Some (mo_entry s, mo_expires_at_ms s, lt)"
        unfolding holds_only_def by blast+
      with Retransmission show ?thesis by simp
    qed
    moreover have "read_at Retransmission k now (after_read InviteTransaction k now Q) = read_at Retransmission k now Q"
      by (simp add: read_at_def)
    ultimately show ?thesis using own Retransmission by (simp add: read_any_def)
  qed
qed

definition memo_answer :: "memo_known \<Rightarrow> bytes \<Rightarrow> nat \<Rightarrow> cancel_entry option" where
  "memo_answer T k now = (case T k of Some (e, x, _) \<Rightarrow> if now < x then Some e else None | None \<Rightarrow> None)"

lemma read_any_only:
  assumes "holds_only B slot i T Q"
  shows "read_any k now Q \<noteq> None \<longrightarrow> read_any k now Q = memo_answer T k now"
proof (cases "read_any k now Q")
  case (Some e)
  from read_any_Some [OF Some] assms show ?thesis by (auto simp: memo_answer_def holds_only_def Some)
qed simp

lemma read_any_all:
  assumes "holds_only B slot i T Q" "holds_all slot i T t Q" "\<And>lt. distinct (map fst (Q lt))" "slot k = i" "t \<le> now"
  shows "read_any k now Q = memo_answer T k now"
proof (cases "memo_answer T k now")
  case None
  with read_any_only [OF assms(1)] show ?thesis by (metis)
next
  case (Some e)
  then obtain x lt where x: "T k = Some (e, x, lt)" "now < x" by (auto simp: memo_answer_def split: option.splits if_splits)
  moreover obtain s where "(k, s) \<in> set (Q lt)" "mo_entry s = e" "mo_expires_at_ms s = x"
    using assms(2,4) x(1) le_less_trans [OF assms(5) x(2)] unfolding holds_all_def by blast
  ultimately show ?thesis using read_any_live [OF assms(1,3)] Some by simp
qed

text \<open>C14: After any history of writes, reads, finals and sweeps, a lookup answers nothing but the entry last
  written under its key, and only before that entry expires; while no write has been evicted and the
  clock never runs backwards, it answers that entry whenever it has not expired.\<close>

theorem memo_lookup_exact:
  assumes "length h < 2 ^ 64" "m = memo_run hash ss B h"
  shows "(snd (lru_lookup hash k now m) \<noteq> None \<longrightarrow> snd (lru_lookup hash k now m) = memo_answer (memo_known B h) k now) \<and>
    (sorted (map memo_time h) \<and> memo_clock h \<le> now \<and> lru_evicted m = 0 \<longrightarrow>
       snd (lru_lookup hash k now m) = memo_answer (memo_known B h) k now)"
proof -
  define i where "i = slot_of hash B k"
  have lt: "i < stripe_count B" by (simp add: i_def)
  from memo_inv_run [OF assms(1)] assms(2) obtain Qs where inv: "memo_inv hash B h m Qs" by blast
  from lookup_rep [OF inv_rep [OF inv] i_def, of now] have r: "snd (lru_lookup hash k now m) = read_any k now (Qs i)" by auto
  note only = inv_only [OF inv lt] and keys = keys_distinct [OF inv_row [OF inv lt]]
  have "read_any k now (Qs i) = memo_answer (memo_known B h) k now"
    if "sorted (map memo_time h)" "memo_clock h \<le> now" "lru_evicted m = 0"
    using read_any_all [OF only _ keys _ that(2)] inv that lt by (simp add: memo_inv_def i_def)
  with read_any_only [OF only] show ?thesis unfolding r by blast
qed

definition entry0 :: cancel_entry where
  "entry0 = \<lparr>ce_target = \<lparr>pa_host = ''w0'', pa_port = 5060\<rparr>, ce_branch = ''z9hG4bK1'', ce_stickiness = None, ce_minted = None, ce_via_cookie = None\<rparr>"

definition history0 :: "memo_op list" where
  "history0 = [MRemember ''inv|a'' entry0 InviteTransaction 5, MShorten ''inv|a'' 7]"

definition bounds0 :: memo_bounds where
  "bounds0 = memo_bounds_default\<lparr>mb_stripes := 1\<rparr>"

lemmas memo_eval = entry0_def history0_def bounds0_def memo_bounds_default_def DEFAULT_MAX_ENTRIES_def DEFAULT_MAX_BYTES_def TYPICAL_ENTRY_BYTES_def
  INVITE_ENTRY_TTL_MS_def DEFAULT_MEAN_RING_MS_def DEFAULT_INVITES_PER_CALL_MILLI_def RTX_ENTRY_TTL_MS_def INVITE_INITIAL_TIMEOUT_def TIMER_H_def TIMER_F_def
  saturating_add64_def saturating_mul64_def u64_max_def further_invites_milli_def

lemma times0: "RTX_ENTRY_TTL_MS = 32000" "TIMER_H = 32000" "mb_invite_ttl_ms bounds0 = 190000" "invite_ms_per_call bounds0 = 220000"
  by (simp_all add: memo_eval duration_simps bounds0_def memo_bounds_default_def invite_ms_per_call_def)

lemma times1: "entry_ms_per_call bounds0 = 572000"
  unfolding entry_ms_per_call_def times0
  by (simp add: memo_eval)

lemma caps0: "mb_max_entries bounds0 = 78643" "mb_max_bytes bounds0 = 201326592" "stripe_count bounds0 = 1"
  by (simp_all add: bounds0_def memo_bounds_default_def DEFAULT_MAX_ENTRIES_def DEFAULT_MAX_BYTES_def TYPICAL_ENTRY_BYTES_def stripe_count_def)

lemma shares0: "per_pool bounds0 InviteTransaction = (30247, 77433304)" "per_pool bounds0 Retransmission = (48396, 123893288)"
  by (simp_all add: per_pool_def pool_share_def caps0 div_ceil_def invite_share_def times0 times1 saturating_add64_def saturating_mul64_def u64_max_def)

lemma size0: "footprint 64 ''inv|a'' entry0 = 268"
  by (simp add: entry0_def footprint_def allocated_def params_bytes_def div_ceil_def INDEX_BYTES_PER_ENTRY_def saturating_add64_def saturating_mul64_def u64_max_def)

definition slot0 :: "nat \<Rightarrow> nat \<Rightarrow> memo_slot" where
  "slot0 seq expires = \<lparr>mo_entry = entry0, mo_seq = seq, mo_expires_at_ms = expires, mo_bytes = 268\<rparr>"

lemma run0: "memo_run length 64 bounds0 [MRemember ''inv|a'' entry0 InviteTransaction 5] =
  \<lparr>lru_stripes = [\<lparr>ms_invite = \<lparr>pool_table = [''inv|a'' \<mapsto> slot0 0 190005], pool_by_write = [(0, ''inv|a'')], pool_bytes = 268, pool_next_seq = 1,
     pool_max_entries = 30247, pool_max_bytes = 77433304\<rparr>, ms_retransmission = pool_new 48396 123893288, ms_invite_ttl_ms = 190000\<rparr>],
   lru_len = 1, lru_bytes = 268, lru_evicted = 0\<rparr>"
  by (simp add: memo_run_def lru_with_bounds_def caps0 stripe_new_def shares0 times0 lru_remember_def on_stripe_def stripe_insert_def on_pool_def
    pool_remove_def pool_expire.simps pool_insert_def pool_evict.simps size0 pool_new_def lru_account_def no_change_def slot0_def lru_slot_def saturating_add64_def u64_max_def)

lemma run0_shorten: "lru_shorten length 64 ''inv|a'' 7 (memo_run length 64 bounds0 [MRemember ''inv|a'' entry0 InviteTransaction 5]) =
  (\<lparr>lru_stripes = [\<lparr>ms_invite = (pool_new 30247 77433304)\<lparr>pool_next_seq := 1\<rparr>,
      ms_retransmission = \<lparr>pool_table = [''inv|a'' \<mapsto> slot0 0 32007], pool_by_write = [(0, ''inv|a'')], pool_bytes = 268, pool_next_seq = 1,
        pool_max_entries = 48396, pool_max_bytes = 123893288\<rparr>, ms_invite_ttl_ms = 190000\<rparr>],
   lru_len = 1, lru_bytes = 268, lru_evicted = 0\<rparr>, Some entry0)"
  by (simp add: run0 times0 lru_shorten_def stripe_shorten_def get_pool_def pool_get_def remove_seq_def bt_remove_def on_stripe_def stripe_insert_def on_pool_def
    pool_remove_def pool_expire.simps pool_insert_def pool_evict.simps size0 pool_new_def lru_account_def no_change_def slot0_def lru_slot_def
    saturating_add64_def u64_max_def)

lemma run_history0: "memo_run length 64 bounds0 history0 =
  fst (lru_shorten length 64 ''inv|a'' 7 (memo_run length 64 bounds0 [MRemember ''inv|a'' entry0 InviteTransaction 5]))"
  using memo_snoc(1) [of length 64 bounds0 "[MRemember ''inv|a'' entry0 InviteTransaction 5]" "MShorten ''inv|a'' 7"]
  by (simp add: history0_def)

theorem memo_lookup_exact_witness:
  "length history0 < 2 ^ 64 \<and> sorted (map memo_time history0) \<and> memo_clock history0 \<le> 100 \<and>
   lru_evicted (memo_run length 64 bounds0 history0) = 0 \<and>
   snd (lru_lookup length ''inv|a'' 100 (memo_run length 64 bounds0 history0)) = Some entry0"
proof -
  have e: "lru_evicted (memo_run length 64 bounds0 history0) = 0" by (simp add: run_history0 run0_shorten)
  have h: "length history0 < 2 ^ 64" "sorted (map memo_time history0)" "memo_clock history0 \<le> 100" 
    "memo_answer (memo_known bounds0 history0) ''inv|a'' 100 = Some entry0"
    by (simp_all add: history0_def memo_clock_def memo_answer_def memo_known_def times0 saturating_add64_def u64_max_def)
  with e show ?thesis using memo_lookup_exact [OF h(1) refl, where hash = length and ss = 64 and B = bounds0 and k = "''inv|a''" and now = 100] by metis
qed

subsection \<open>The sweep\<close>

text \<open>The reference: every entry of the table looked at, the live ones kept.\<close>

definition scan_pool :: "nat \<Rightarrow> memo_pool \<Rightarrow> (bytes \<rightharpoonup> memo_slot)" where
  "scan_pool now p k = (case pool_table p k of Some s \<Rightarrow> if now < mo_expires_at_ms s then Some s else None | None \<Rightarrow> None)"

lemma drop_expired_sorted:
  assumes "sorted (map (mo_expires_at_ms \<circ> snd) q)"
  shows "drop_expired now q = filter (\<lambda>x. now < mo_expires_at_ms (snd x)) q"
  using assms
proof (induction q)
  case (Cons x q)
  show ?case
  proof (cases "mo_expires_at_ms (snd x) \<le> now")
    case True
    with Cons show ?thesis by (simp add: drop_expired_def)
  next
    case False
    with Cons.prems have "\<forall>y\<in>set q. now < mo_expires_at_ms (snd y)" by fastforce
    with False show ?thesis by (simp add: drop_expired_def)
  qed
qed (simp add: drop_expired_def)

lemma map_of_live:
  assumes "distinct (map fst q)"
  shows "map_of (filter (\<lambda>x. now < mo_expires_at_ms (snd x)) q) k =
    (case map_of q k of Some s \<Rightarrow> if now < mo_expires_at_ms s then Some s else None | None \<Rightarrow> None)"
  using assms
proof (induction q)
  case (Cons x q)
  then show ?case by (cases x) (auto simp: map_of_eq_None_iff split: option.splits)
qed simp

lemma table_rep: "stripe_rep B n st Q \<Longrightarrow> pool_table (stripe_pool lt st) = map_of (Q lt)"
  by (simp add: stripe_rep_def pool_rep_def)

text \<open>C15: The sweep walks each pool's write order from its front and stops at the first live entry. As long as the
  clock never runs backwards it leaves, in every pool, exactly what a scan of the whole table would.\<close>

theorem sweep_is_scan:
  assumes "length h < 2 ^ 64" "m = memo_run hash ss B h" "sorted (map memo_time h)" "memo_clock h \<le> now" "i < length (lru_stripes m)"
  shows "pool_table (stripe_pool lt (lru_stripes (fst (sweep_expired now m)) ! i)) = scan_pool now (stripe_pool lt (lru_stripes m ! i))"
proof -
  from memo_inv_run [OF assms(1)] assms(2) obtain Qs where inv: "memo_inv hash B h m Qs" by blast
  then have i: "i < stripe_count B" using assms(5) by (simp add: memo_inv_def memo_rep_def)
  note row = inv_row [OF inv i] and new = inv_row [OF inv_sweep [OF inv] i, of now]
  from inv assms(3) i have "sorted (map (mo_expires_at_ms \<circ> snd) (Qs i lt))" by (simp add: memo_inv_def in_expiry_order_def)
  note d = drop_expired_sorted [OF this, of now]
  show ?thesis
  proof
    fix k show "pool_table (stripe_pool lt (lru_stripes (fst (sweep_expired now m)) ! i)) k = scan_pool now (stripe_pool lt (lru_stripes m ! i)) k"
      unfolding scan_pool_def table_rep [OF row] table_rep [OF new] using i d map_of_live [OF keys_distinct [OF row]] by (simp add: swept_def)
  qed
qed

theorem sweep_is_scan_witness:
  "pool_table (stripe_pool Retransmission (lru_stripes (fst (sweep_expired 100 (memo_run length 64 bounds0 history0))) ! 0)) =
     [''inv|a'' \<mapsto> slot0 0 32007] \<and>
   pool_table (stripe_pool Retransmission (lru_stripes (fst (sweep_expired 32007 (memo_run length 64 bounds0 history0))) ! 0)) = Map.empty"
proof -
  have h: "length history0 < 2 ^ 64" "sorted (map memo_time history0)" "memo_clock history0 \<le> 100" "memo_clock history0 \<le> 32007"
    by (simp_all add: history0_def memo_clock_def)
  have st: "lru_stripes (memo_run length 64 bounds0 history0) = lru_stripes (fst (lru_shorten length 64 ''inv|a'' 7
      (memo_run length 64 bounds0 [MRemember ''inv|a'' entry0 InviteTransaction 5])))" by (simp add: run_history0)
  show ?thesis using sweep_is_scan [OF h(1) refl h(2,3), where i = 0 and hash = length and ss = 64 and B = bounds0 and lt = Retransmission]
      sweep_is_scan [OF h(1) refl h(2,4), where i = 0 and hash = length and ss = 64 and B = bounds0 and lt = Retransmission] unfolding st run0_shorten
    by (simp add: scan_pool_def fun_eq_iff slot0_def)
qed

subsection \<open>Bounds\<close>

lemma invite_share_le: "invite_share b n \<le> n"
proof -
  let ?w = "entry_ms_per_call b" and ?p = "invite_ms_per_call b"
  have w: "?p \<le> ?w" "0 < ?w" by (simp_all add: entry_ms_per_call_def RTX_ENTRY_TTL_MS_def TIMER_F_def T1_def)
  then have "(n mod ?w) * ?p div ?w \<le> (n mod ?w) * ?w div ?w" by (intro div_le_mono mult_le_mono2) simp
  then have r: "(n mod ?w) * ?p div ?w \<le> n mod ?w" using w(2) by simp
  have "(n div ?w) * ?p \<le> (n div ?w) * ?w" using w(1) by (rule mult_le_mono2)
  then have "(n div ?w) * ?p + (n mod ?w) * ?p div ?w \<le> n" using r div_mult_mod_eq [of n ?w] by linarith
  moreover have "saturating_mul64 (n mod ?w) ?p div ?w \<le> (n mod ?w) * ?p div ?w" by (intro div_le_mono) (simp add: saturating_mul64_def)
  ultimately show ?thesis by (simp add: invite_share_def Let_def saturating_add64_def saturating_mul64_def)
qed

lemma shares_fit: "stripe_count b * (pool_share b InviteTransaction n + pool_share b Retransmission n) \<le> n + 2 * stripe_count b"
proof -
  define c where "c = stripe_count b"
  define q where "q = div_ceil n c"
  have c: "0 < c" by (simp add: c_def stripe_count_def)
  have "pool_share b InviteTransaction n + pool_share b Retransmission n = max (invite_share b q) 1 + max (q - invite_share b q) 1"
    by (simp add: pool_share_def Let_def q_def c_def)
  moreover have "max (invite_share b q) 1 + max (q - invite_share b q) 1 \<le> max q 1 + 1" using invite_share_le [of b q] by simp
  ultimately have "c * (pool_share b InviteTransaction n + pool_share b Retransmission n) \<le> c * (max q 1 + 1)" by (simp only: mult_le_mono2)
  moreover have "c * max q 1 \<le> n + c"
  proof (cases "q = 0")
    case False
    have "c * (n div c) + n mod c = n" by simp
    moreover have "n mod c < c" using c by simp
    ultimately show ?thesis using False unfolding q_def div_ceil_def by (auto simp: max_def)
  qed simp
  ultimately show ?thesis by (simp add: c_def [symmetric])
qed

lemma card_rep: "stripe_rep B n st Q \<Longrightarrow> card (dom (pool_table (stripe_pool lt st))) = length (Q lt)"
  using keys_distinct [of B n st Q lt] by (simp add: table_rep dom_map_of_conv_image_fst card_image distinct_map distinct_card)

definition live_entries :: "memo_stripe \<Rightarrow> nat" where
  "live_entries st = card (dom (pool_table (ms_invite st))) + card (dom (pool_table (ms_retransmission st)))"

text \<open>C26: Whatever its clients send, the memo counts the entries its tables hold, and holds no more entries and no
  more accounted bytes than the configured maxima, up to the two units a stripe its rounding adds.\<close>

theorem memo_bounded:
  assumes "length h < 2 ^ 64" "m = memo_run hash ss B h"
  shows "lru_len m = sum_list (map live_entries (lru_stripes m)) \<and>
    lru_len m \<le> mb_max_entries B + 2 * stripe_count B \<and> lru_bytes m \<le> mb_max_bytes B + 2 * stripe_count B"
proof -
  from memo_inv_run [OF assms(1)] assms(2) obtain Qs where inv: "memo_inv hash B h m Qs" by blast
  then have n: "length (lru_stripes m) = stripe_count B" and total: "lru_len m = (\<Sum>i < stripe_count B. total_len (Qs i))"
    "lru_bytes m = (\<Sum>i < stripe_count B. total_bytes (Qs i))" by (simp_all add: memo_inv_def memo_rep_def)
  have row: "live_entries (lru_stripes m ! i) = total_len (Qs i)" if "i < stripe_count B" for i
    using card_rep [OF inv_row [OF inv that], of InviteTransaction] card_rep [OF inv_row [OF inv that], of Retransmission]
    by (simp add: live_entries_def total_len_def)
  have "sum_list (map live_entries (lru_stripes m)) = (\<Sum>i < stripe_count B. live_entries (lru_stripes m ! i))"
    by (simp add: sum_list_sum_nth n atLeast0LessThan)
  also have "\<dots> = lru_len m" unfolding total(1) by (rule sum.cong) (simp_all add: row)
  finally have len: "lru_len m = sum_list (map live_entries (lru_stripes m))" by simp
  have bound: "(\<Sum>i < stripe_count B. f (Qs i)) \<le> stripe_count B * (a + b)"
    if "\<And>i. i < stripe_count B \<Longrightarrow> f (Qs i) \<le> a + b" for f :: "memo_queues \<Rightarrow> nat" and a b :: nat
    using sum_bounded_above [of "{..<stripe_count B}" "\<lambda>i. f (Qs i)" "a + b"] that by simp
  have each: "length (Qs i lt) \<le> pool_share B lt (mb_max_entries B)" "queue_bytes (Qs i lt) \<le> pool_share B lt (mb_max_bytes B)"
    if "i < stripe_count B" for i lt using inv_only [OF inv that] by (auto simp: holds_only_def per_pool_def)
  have "lru_len m \<le> mb_max_entries B + 2 * stripe_count B" unfolding total
    by (rule order_trans [OF bound shares_fit]) (simp add: total_len_def add_mono each)
  moreover have "lru_bytes m \<le> mb_max_bytes B + 2 * stripe_count B" unfolding total
    by (rule order_trans [OF bound shares_fit]) (simp add: total_bytes_def add_mono each)
  ultimately show ?thesis using len by blast
qed

theorem memo_bounded_witness:
  "length history0 < 2 ^ 64 \<and> lru_len (memo_run length 64 bounds0 history0) = 1 \<and>
   lru_len (memo_run length 64 bounds0 history0) = sum_list (map live_entries (lru_stripes (memo_run length 64 bounds0 history0)))"
proof -
  have h: "length history0 < 2 ^ 64" by (simp add: history0_def)
  show ?thesis using memo_bounded [OF h refl, of length 64 bounds0] h by (simp add: run_history0 run0_shorten)
qed

end
