(* ===== verification/Branch_Memo_Keys.thy ===== *)
theory Branch_Memo_Keys
  imports Branch_Memo
begin

text \<open>
  The keys of the branch memo: the canonical text of a sent-by stands for the sent-by, and the joined
  parts of a transaction key can be told apart.
\<close>

subsection \<open>Decimal text\<close>

definition digit :: "char \<Rightarrow> bool" where
  "digit c \<longleftrightarrow> 48 \<le> (of_char c :: nat) \<and> (of_char c :: nat) \<le> 57"

definition text_value :: "bytes \<Rightarrow> nat" where
  "text_value = foldl (\<lambda>a c. 10 * a + (of_char c - 48)) 0"

lemma of_digit [simp]: "n < 10 \<Longrightarrow> (of_char (char_of (48 + n) :: char) :: nat) = 48 + n"
  by simp

lemma decimal_digits: "c \<in> set (decimal n) \<Longrightarrow> digit c"
proof (induction n rule: decimal.induct)
  case (1 n)
  show ?case
  proof (cases "n < 10")
    case True
    with "1.prems" show ?thesis by (simp add: decimal.simps [of n] digit_def del: of_char_of)
  next
    case False
    with "1.prems" have "c \<in> set (decimal (n div 10)) \<or> c = char_of (48 + n mod 10)" by (auto simp: decimal.simps [of n])
    with "1.IH" [OF False] show ?thesis by (auto simp: digit_def simp del: of_char_of)
  qed
qed

lemma text_value_decimal [simp]: "text_value (decimal n) = n"
proof (induction n rule: decimal.induct)
  case (1 n)
  show ?case
  proof (cases "n < 10")
    case True
    then show ?thesis by (simp add: decimal.simps [of n] text_value_def del: of_char_of)
  next
    case False
    with "1.IH" show ?thesis by (simp add: decimal.simps [of n] text_value_def del: of_char_of)
  qed
qed

lemma decimal_inj [simp]: "decimal m = decimal n \<longleftrightarrow> m = n"
  using text_value_decimal by metis

subsection \<open>Separators\<close>

lemma first_sep:
  "sep \<notin> set xs \<Longrightarrow> sep \<notin> set ys \<Longrightarrow> xs @ sep # us = ys @ sep # vs \<longleftrightarrow> xs = ys \<and> us = vs"
proof (induction xs arbitrary: ys)
  case Nil
  then show ?case by (cases ys) auto
next
  case (Cons x xs)
  then show ?case by (cases ys) auto
qed

lemma last_sep: "sep \<notin> set us \<Longrightarrow> sep \<notin> set vs \<Longrightarrow> xs @ sep # us = ys @ sep # vs \<longleftrightarrow> xs = ys \<and> us = vs"
  using first_sep [of sep "rev us" "rev vs" "rev xs" "rev ys"] by (metis append.assoc append_Cons append_Nil rev_append rev_rev_ident rev.simps(2) set_rev)

lemma ascii_lower_sep [simp]: "ascii_lower c = CHR '':'' \<longleftrightarrow> c = CHR '':''" "ascii_lower c = CHR ''|'' \<longleftrightarrow> c = CHR ''|''"
proof -
  consider "65 \<le> (of_char c :: nat)" "(of_char c :: nat) \<le> 90" | "ascii_lower c = c" "\<not> (65 \<le> (of_char c :: nat) \<and> (of_char c :: nat) \<le> 90)"
    by (auto simp: ascii_lower_def)
  then have "(ascii_lower c = CHR '':'' \<longleftrightarrow> c = CHR '':'') \<and> (ascii_lower c = CHR ''|'' \<longleftrightarrow> c = CHR ''|'')"
  proof cases
    case 1
    then have "(of_char (ascii_lower c) :: nat) = of_char c + 32" by (simp add: ascii_lower_def)
    moreover have "(of_char (CHR '':'') :: nat) = 58" "(of_char (CHR ''|'') :: nat) = 124" by simp_all
    ultimately show ?thesis using 1 by fastforce
  qed simp
  then show "ascii_lower c = CHR '':'' \<longleftrightarrow> c = CHR '':''" "ascii_lower c = CHR ''|'' \<longleftrightarrow> c = CHR ''|''" by blast+
qed

lemma lower_set [simp]: "CHR '':'' \<in> ascii_lower ` S \<longleftrightarrow> CHR '':'' \<in> S" "CHR ''|'' \<in> ascii_lower ` S \<longleftrightarrow> CHR ''|'' \<in> S"
  by (metis (no_types, lifting) ascii_lower_sep(1) image_iff, metis (no_types, lifting) ascii_lower_sep(2) image_iff)

subsection \<open>The canonical sent-by\<close>

definition port_text :: "nat option \<Rightarrow> bytes" where
  "port_text p = (case p of Some port \<Rightarrow> '':'' @ decimal port | None \<Rightarrow> [])"

lemma not_digit: "c \<in> {CHR '':'', CHR '']'', CHR ''|''} \<Longrightarrow> c \<notin> set (decimal n)"
  using decimal_digits [of c n] by (auto simp: digit_def)

lemma port_text_sep [simp]: "CHR '']'' \<notin> set (port_text p)" "CHR ''|'' \<notin> set (port_text p)"
  using not_digit by (auto simp: port_text_def split: option.split)

lemma port_text_inj [simp]: "port_text p = port_text q \<longleftrightarrow> p = q"
  by (auto simp: port_text_def split: option.splits)

lemma bare_text:
  assumes "CHR '':'' \<notin> set xs" "CHR '':'' \<notin> set ys"
  shows "xs @ port_text p = ys @ port_text q \<longleftrightarrow> xs = ys \<and> p = q"
  using assms first_sep [OF assms] by (cases p; cases q) (auto simp: port_text_def)

lemma bracketed_is_not_bare:
  assumes "CHR '':'' \<in> set xs" "CHR '':'' \<notin> set ys"
  shows "''['' @ xs @ '']'' @ port_text p \<noteq> ys @ port_text q"
proof
  assume e: "''['' @ xs @ '']'' @ port_text p = ys @ port_text q"
  from assms(1) obtain us vs where xs: "xs = us @ CHR '':'' # vs" "CHR '':'' \<notin> set us" by (metis split_list_first)
  show False
  proof (cases q)
    case None
    with e assms show False by (metis Un_iff append_Nil2 option.simps(4) port_text_def set_append)
  next
    case (Some n)
    with e xs have "(''['' @ us) @ CHR '':'' # vs @ '']'' @ port_text p = ys @ CHR '':'' # decimal n" by (simp add: port_text_def)
    with first_sep [of "CHR '':''" "''['' @ us" ys] xs(2) assms(2) have "vs @ '']'' @ port_text p = decimal n" by simp
    then have "CHR '']'' \<in> set (decimal n)" by (metis Un_iff list.set_intros(1) set_append)
    with not_digit show False by blast
  qed
qed

text \<open>Two sent-bys write the same text exactly when they are equal, whatever bytes their hosts hold.\<close>

lemma canonical_text_exact: "write_canonical a = write_canonical b \<longleftrightarrow> sent_by_eq a b"
proof -
  let ?A = "map ascii_lower (sb_host a)" and ?B = "map ascii_lower (sb_host b)"
  have w: "write_canonical s = (if CHR '':'' \<in> set (map ascii_lower (sb_host s))
      then ''['' @ map ascii_lower (sb_host s) @ '']'' @ port_text (sb_port s) else map ascii_lower (sb_host s) @ port_text (sb_port s))" for s
    by (simp add: write_canonical_def port_text_def Let_def)
  show ?thesis
  proof (cases "CHR '':'' \<in> set ?A"; cases "CHR '':'' \<in> set ?B")
    assume "CHR '':'' \<in> set ?A" "CHR '':'' \<in> set ?B"
    then show ?thesis using last_sep [of "CHR '']''" "port_text (sb_port a)" "port_text (sb_port b)" ?A ?B]
      unfolding w sent_by_eq_def by auto
  next
    assume c: "CHR '':'' \<in> set ?A" "CHR '':'' \<notin> set ?B"
    then have "?A \<noteq> ?B" by metis
    with c bracketed_is_not_bare [OF c] show ?thesis unfolding w sent_by_eq_def by simp
  next
    assume c: "CHR '':'' \<notin> set ?A" "CHR '':'' \<in> set ?B"
    then have "?A \<noteq> ?B" by metis
    with c bracketed_is_not_bare [OF c(2,1), symmetric] show ?thesis unfolding w sent_by_eq_def by simp
  next
    assume c: "CHR '':'' \<notin> set ?A" "CHR '':'' \<notin> set ?B"
    with bare_text [OF c] show ?thesis unfolding w sent_by_eq_def by auto
  qed
qed

lemma canonical_bar [simp]: "CHR ''|'' \<notin> set (sb_host s) \<Longrightarrow> CHR ''|'' \<notin> set (write_canonical s)"
  using not_digit by (auto simp: write_canonical_def Let_def split: option.split)

subsection \<open>Transaction keys\<close>

definition bar_free :: "memo_via \<Rightarrow> bytes \<Rightarrow> bytes option \<Rightarrow> bool" where
  "bar_free via call_id from_tag \<longleftrightarrow>
     CHR ''|'' \<notin> set (opt_str (mv_branch via)) \<union> set (sb_host (mv_sent_by via)) \<union> set call_id \<union> set (opt_str from_tag)"

definition same_txn :: "memo_via \<times> bytes \<times> bytes option \<times> nat \<Rightarrow> memo_via \<times> bytes \<times> bytes option \<times> nat \<Rightarrow> bool" where
  "same_txn x y \<longleftrightarrow> (case (x, y) of ((via, call_id, tag, cseq), (via', call_id', tag', cseq')) \<Rightarrow>
     opt_str (mv_branch via) = opt_str (mv_branch via') \<and> sent_by_eq (mv_sent_by via) (mv_sent_by via') \<and>
     call_id = call_id' \<and> opt_str tag = opt_str tag' \<and> cseq = cseq')"

lemma txn_key_eq:
  assumes "bar_free via call_id tag" "bar_free via' call_id' tag'"
  shows "txn_key [] via call_id tag cseq = txn_key [] via' call_id' tag' cseq' \<longleftrightarrow> same_txn (via, call_id, tag, cseq) (via', call_id', tag', cseq')"
  using assms by (simp add: txn_key_def bar_free_def first_sep same_txn_def canonical_text_exact)

lemma txn_key_namespace: "txn_key (n # ns) via call_id tag cseq = n @ CHR ''|'' # txn_key ns via call_id tag cseq"
  by (simp add: txn_key_def)

lemmas key_defs = invite_txn_key_def retransmit_key_def ack_hop_key_def txn_key_namespace

text \<open>C27: As no part of a key holds the bar that joins them, a key names its transaction: two keys of one kind are equal
  exactly for the same branch, sent-by, Call-ID, From tag and CSeq number (and method, for a
  retransmission's), and keys of different kinds never are, whatever their parts hold.\<close>

theorem txn_keys_exact:
  assumes "bar_free via call_id tag" "bar_free via' call_id' tag'" "CHR ''|'' \<notin> set meth" "CHR ''|'' \<notin> set meth'"
  shows "(invite_txn_key via call_id tag cseq = invite_txn_key via' call_id' tag' cseq' \<longleftrightarrow>
      same_txn (via, call_id, tag, cseq) (via', call_id', tag', cseq')) \<and>
    (ack_hop_key via call_id tag cseq = ack_hop_key via' call_id' tag' cseq' \<longleftrightarrow>
      same_txn (via, call_id, tag, cseq) (via', call_id', tag', cseq')) \<and>
    (retransmit_key via call_id tag meth cseq = retransmit_key via' call_id' tag' meth' cseq' \<longleftrightarrow>
      meth = meth' \<and> same_txn (via, call_id, tag, cseq) (via', call_id', tag', cseq')) \<and>
    invite_txn_key v c t n \<noteq> retransmit_key v' c' t' m n' \<and> invite_txn_key v c t n \<noteq> ack_hop_key v' c' t' n' \<and>
    retransmit_key v c t m n \<noteq> ack_hop_key v' c' t' n'"
  using assms(3,4) txn_key_eq [OF assms(1,2)] by (simp add: key_defs first_sep)

definition via0 :: "bytes \<Rightarrow> memo_via" where
  "via0 host = \<lparr>mv_branch = Some ''z9hG4bK1'', mv_sent_by = \<lparr>sb_host = host, sb_port = Some 5060\<rparr>\<rparr>"

theorem txn_keys_exact_witness:
  "bar_free (via0 ''Edge'') ''c1'' (Some ''t1'') \<and>
   invite_txn_key (via0 ''Edge'') ''c1'' (Some ''t1'') 7 = invite_txn_key (via0 ''eDGE'') ''c1'' (Some ''t1'') 7 \<and>
   invite_txn_key (via0 ''Edge'') ''c1'' (Some ''t1'') 7 \<noteq> invite_txn_key (via0 ''Edge'') ''c1'' (Some ''t1'') 8"
proof -
  have b: "bar_free (via0 ''Edge'') ''c1'' (Some ''t1'')" "bar_free (via0 ''eDGE'') ''c1'' (Some ''t1'')" "CHR ''|'' \<notin> set ''INVITE''" by code_simp+
  have l: "map ascii_lower ''Edge'' = ''edge''" "map ascii_lower ''eDGE'' = ''edge''" by code_simp+
  have "same_txn (via0 ''Edge'', ''c1'', Some ''t1'', 7) (via0 ''eDGE'', ''c1'', Some ''t1'', 7)"
    "\<not> same_txn (via0 ''Edge'', ''c1'', Some ''t1'', 7) (via0 ''Edge'', ''c1'', Some ''t1'', 8)"
    by (simp_all only: same_txn_def via0_def sent_by_eq_def memo_via.simps sent_by.simps l prod.case) simp_all
  with txn_keys_exact [OF b(1,2,3,3), of 7 7] txn_keys_exact [OF b(1,1,3,3), of 7 8] b(1) show ?thesis by blast
qed

end
