(* ===== verification/Spec2Isabelle.thy ===== *)
theory Spec2Isabelle
  imports Retransmit Call_Store_Props Limiter_Server Txn_Props Txn_Call_Props Txn_Event_Props Txn_Message_Props
    Txn_Divergences Repl_Wire_Props Repl_Serve_Props Repl_Level Branch_Memo_Props Branch_Memo_Keys
begin

text \<open>
  Verification of the SIP server repository (a back-to-back user agent, a front proxy and a
  call limiter, in Rust). This theory imports the whole development.

  \<^bold>\<open>The program and its parts.\<close> A worker (\<open>crates/b2bua\<close>) terminates SIP transactions
  (\<open>crates/sip-txn\<close>) on timers and retransmission ladders (\<open>crates/sip-retransmit\<close>,
  \<open>crates/sip-clock\<close>), asks a shared limiter service (\<open>crates/call-limiter\<close>) before it admits a
  call, and replicates each call to a backup worker (\<open>crates/b2bua/src/repl\<close> over
  \<open>crates/repl-net\<close>). A front proxy (\<open>crates/sip-proxy\<close>) spreads new calls over the workers.

  \<^bold>\<open>Conventions.\<close> A pure function of the source is a function; a method that changes state
  takes the state and returns it with its result; a failure is a value. Every mutex-guarded
  method is one critical section, so a concurrent history is a sequence of operations, and what a
  component does not own (clock readings, identifiers drawn, iteration order of a hash map, message
  builders, third-party codecs) is an argument. A \<open>Duration\<close> or \<open>Instant\<close> is a number of
  nanoseconds; a \<open>u32\<close> whose wrap-around matters is a \<open>32 word\<close>; \<open>i64\<close> sums that
  can wrap or saturate are written so; other counters are unbounded. Definitions are executable, and
  each property with a hypothesis is followed by a witness at a concrete state.

  \<^bold>\<open>Theories.\<close>

  \<^item> \<open>Prelude\<close>: the machine types, saturating arithmetic, sums over finite maps, sorted lists.

  \<^item> \<open>Retransmit\<close> (\<open>sip-retransmit/src/lib.rs\<close>, \<open>timers.rs\<close>): ladder classes,
  schedules and walks. A walked ladder is the one rebuilt from its rung, the waits of each RFC class
  are listed completely, every RFC ladder gives up, retargeting keeps the give-up bound, and the
  elapsed time fits a \<open>Duration\<close> on all 32-bit rungs.

  \<^item> \<open>Call_Store\<close>, \<open>Call_Store_Refine\<close>, \<open>Call_Store_Props\<close>
  (\<open>call-limiter/src/store.rs\<close>): the limiter's sets, leases, fences, change markers and deadline
  heaps. The store refines a heap-free abstract store; release fences hold for a lease whatever
  follows, late admits never overwrite, live counts are exact, caps are kept, refusals move nothing,
  and the sweep drops exactly what lapsed. \<open>Limiter_Server\<close> (\<open>server.rs\<close>, \<open>metrics.rs\<close>,
  the wire types and the boot check): the HTTP handler over the store, with the JSON codec as a
  parameter.

  \<^item> \<open>Deadline\<close> (\<open>sip-clock/src/deadline.rs\<close>, \<open>delay_queue.rs\<close>): the saturating deadline
  walk. \<open>Sip_Method\<close> (\<open>sip-message/src/method.rs\<close>): the method token's round trip.
  \<open>Invite_Refusals\<close> (\<open>sip-txn/src/layer/refusals.rs\<close>): the bounded memo of refused INVITEs.

  \<^item> \<open>Txn_Model\<close>, \<open>Txn_Owner\<close>, \<open>Txn_Client\<close>, \<open>Txn_Server\<close>, \<open>Txn_Layer\<close>
  (\<open>sip-txn/src/layer\<close>): the transaction owner, one definition per handler. \<open>turn\<close> is one turn
  of the owner's loop, \<open>owner_step\<close> the step relation, \<open>owner_reach\<close> reachability from the start
  with any environment that satisfies \<open>env_ok\<close>.
  \<open>Txn_Lockstep\<close> and its three sequels prove the timer invariant handler by handler;
  \<open>Txn_Actions\<close> and its two sequels reduce every handler to actions on the tables inside the
  locale \<open>turn_inv\<close>, which \<open>Txn_Invariants\<close> interprets four times (call index, gauges, server
  and client state diagrams). \<open>Txn_Props\<close>, \<open>Txn_Call_Props\<close>, \<open>Txn_Event_Props\<close> and
  \<open>Txn_Message_Props\<close> state the properties, on the concrete runs of \<open>Txn_Example\<close>;
  \<open>Txn_Divergences\<close> proves where the code departs from its comments.


  \<^item> \<open>Repl_Frame\<close>, \<open>Repl_Codec\<close>, \<open>Repl_Wire_Props\<close> (\<open>repl-net/src\<close>): the frames two
  workers exchange, their MessagePack coding (the \<open>rmp\<close> crate is the parameter \<open>rmp_api\<close> under the
  laws of the locale \<open>rmp_codec\<close>, interpreted on a MessagePack codec), the length prefix and the
  receiver's buffer. A batch that encodes is received frame for frame however the socket cuts it, and
  a cut stream never hands up part of a frame.

  \<^item> \<open>Changelog\<close>, \<open>Changelog_History\<close>, \<open>Changelog_Props\<close>
  (\<open>b2bua/src/repl/changelog\<close>): what each peer has yet to pull, one compacted log per flow. A history
  is a list of operations; the locale \<open>sub_invariant\<close> carries an invariant of one log through every
  history and is interpreted three times. A drain is exact, a reap drops only applied deletes, an
  applied position was reported by the worker bound, and backup admission follows its marks.

  \<^item> \<open>Repl_Serve\<close>, \<open>Repl_Serve_Inv\<close>, \<open>Repl_Serve_Props\<close> (\<open>b2bua/src/repl/server.rs\<close>):
  the serve task of one flow as \<open>serve_step\<close>, interleaved in \<open>sys_step\<close> with any operation of any
  other task on the changelog. A stream that waits has sent every entry of its flow.

  \<^item> \<open>Repl_Store\<close>, \<open>Repl_Store_History\<close>, \<open>Repl_Store_Props\<close>
  (\<open>b2bua/src/repl/store.rs\<close>, \<open>repl/store\<close>, \<open>repl/resurrection.rs\<close>, \<open>store/memory.rs\<close>):
  the replicating store of a worker. A history \<open>store_run\<close> is a list of writes, deletes, refusals and
  reaps, each snapshot and eviction apart; every operation is reduced to the moves \<open>core_move\<close> of its
  maps, and the locale \<open>store_invariant\<close>, interpreted three times, carries an invariant of the maps
  through every history. The maps stay in lockstep, a deleted call stays dead for its window, a reap
  evicts exactly what is still expired, and a version a backup authored is never dropped unseen.

  \<^item> \<open>Repl_Apply\<close>, \<open>Repl_Apply_Props\<close> (\<open>repl/puller/apply.rs\<close>, \<open>store/containment.rs\<close>,
  \<open>store/envelope.rs\<close>): what becomes of a frame at the store that pulls it. The call record's codec,
  merge and clock shift are the parameter \<open>call_api\<close>. Outside a bootstrap scan a stored version never goes back, and an
  answer the authority never saw survives its delete.

  \<^item> \<open>Repl_Puller\<close> (\<open>repl/puller.rs\<close>, \<open>repl/puller\<close>): the pulling task, one definition per event
  of an open stream.
  \<open>Repl_Level\<close> composes the primary's store and changelog, the frames drained from it, the puller's
  stream and the backup's store: a batch brings a backup in step with its primary level with it.

  \<^item> \<open>Branch_Memo\<close>, \<open>Branch_Memo_Queue\<close>, \<open>Branch_Memo_Props\<close>, \<open>Branch_Memo_Keys\<close>
  (\<open>sip-proxy/src/cancel_lru.rs\<close>, \<open>cancel_lru\<close>, \<open>sip-message/src/header/sent_by.rs\<close>): where the
  front proxy forwarded each INVITE transaction. A pool's table and write index refine one queue in
  write order (\<open>pool_rep\<close>), a memo a row of them (\<open>memo_rep\<close>), and \<open>memo_inv\<close> holds after every
  history of fewer than \<open>2 ^ 64\<close> operations, the number of writes after which the write counter would
  wrap. A lookup answers only what was last written and is live, the front walk of a sweep equals a
  scan, the totals are exact and bounded, and a key names its transaction.

  \<^bold>\<open>Bounds and fuel.\<close> No definition takes fuel: loops are structural recursion or
  carry a termination proof. Capacities, ceilings and timeouts are the source's constants or
  configuration fields.

  \<^bold>\<open>Not modelled.\<close> The SIP parser, serializer and message generators (what a handler reads
  of a message is a record of its fields); the call record and the B2BUA rule engine; the proxy's
  request path and its health probing; sockets, tasks, channels and process start (scheduling enters
  as the order of operations); floating-point load estimation (token bucket, AIMD, EWMA: \<open>f64\<close>
  arithmetic has no theory here that is faithful to its rounding); metric rendering, logging and
  the test harnesses.
\<close>

end
